(* ===== verification/Prelude.thy ===== *)
theory Prelude
  imports Main "HOL-Library.Sublist"
begin

text \<open>
  Shared vocabulary of the development: programs that thread a state and may raise, the
  calculus of effects used to prove what a whole handler does to the state, and generic
  facts on lists, options and tables.

  A coroutine of the engine is a function from the state before to a pair of its outcome
  (\<open>Inl\<close> an exception, \<open>Inr\<close> a result) and the state after. The state after an exception is
  kept: the writes a Python coroutine made before it raised have happened.
\<close>

section \<open>Programs: state passing with exceptions\<close>

type_synonym ('s, 'e, 'a) prog = "'s \<Rightarrow> ('e + 'a) \<times> 's"

definition returnE :: "'a \<Rightarrow> ('s, 'e, 'a) prog" where
  "returnE x = (\<lambda>s. (Inr x, s))"

definition raiseE :: "'e \<Rightarrow> ('s, 'e, 'a) prog" where
  "raiseE e = (\<lambda>s. (Inl e, s))"

definition bindE :: "('s, 'e, 'a) prog \<Rightarrow> ('a \<Rightarrow> ('s, 'e, 'b) prog) \<Rightarrow> ('s, 'e, 'b) prog" where
  "bindE m f = (\<lambda>s. case m s of (Inl e, t) \<Rightarrow> (Inl e, t) | (Inr x, t) \<Rightarrow> f x t)"

text \<open>\<open>try: m  except e if p(e): h(e)\<close>.\<close>

definition catchE ::
  "('e \<Rightarrow> bool) \<Rightarrow> ('s, 'e, 'a) prog \<Rightarrow> ('e \<Rightarrow> ('s, 'e, 'a) prog) \<Rightarrow> ('s, 'e, 'a) prog" where
  "catchE p m h =
     (\<lambda>s. case m s of
        (Inl e, t) \<Rightarrow> (if p e then h e t else (Inl e, t))
      | (Inr x, t) \<Rightarrow> (Inr x, t))"

text \<open>A pure check that raises or passes, lifted to a program.\<close>

definition liftE :: "'e + 'a \<Rightarrow> ('s, 'e, 'a) prog" where
  "liftE r = (\<lambda>s. (r, s))"

text \<open>Reading the state.\<close>

definition getsE :: "('s \<Rightarrow> 'a) \<Rightarrow> ('s, 'e, 'a) prog" where
  "getsE f = (\<lambda>s. (Inr (f s), s))"

text \<open>Writing the state.\<close>

definition modifyE :: "('s \<Rightarrow> 's) \<Rightarrow> ('s, 'e, unit) prog" where
  "modifyE f = (\<lambda>s. (Inr (), f s))"

text \<open>\<open>for x in xs: body(x)\<close>, stopping at the first exception.\<close>

fun forE :: "'a list \<Rightarrow> ('a \<Rightarrow> ('s, 'e, unit) prog) \<Rightarrow> ('s, 'e, unit) prog" where
  "forE [] body = returnE ()"
| "forE (x # xs) body = bindE (body x) (\<lambda>_. forE xs body)"

abbreviation outcome :: "('s, 'e, 'a) prog \<Rightarrow> 's \<Rightarrow> 'e + 'a" where
  "outcome m s \<equiv> fst (m s)"

abbreviation after :: "('s, 'e, 'a) prog \<Rightarrow> 's \<Rightarrow> 's" where
  "after m s \<equiv> snd (m s)"

named_theorems prog_defs "the program combinators, unfolded"

declare returnE_def [prog_defs] raiseE_def [prog_defs] bindE_def [prog_defs]
  catchE_def [prog_defs] liftE_def [prog_defs] getsE_def [prog_defs] modifyE_def [prog_defs]

lemma returnE_apply [simp]: "returnE x s = (Inr x, s)"
  by (simp add: returnE_def)

lemma raiseE_apply [simp]: "raiseE e s = (Inl e, s)"
  by (simp add: raiseE_def)

lemma liftE_apply [simp]: "liftE r s = (r, s)"
  by (simp add: liftE_def)

lemma getsE_apply [simp]: "getsE f s = (Inr (f s), s)"
  by (simp add: getsE_def)

lemma modifyE_apply [simp]: "modifyE f s = (Inr (), f s)"
  by (simp add: modifyE_def)

lemma bindE_Inr: "m s = (Inr x, t) \<Longrightarrow> bindE m f s = f x t"
  by (simp add: bindE_def)

lemma bindE_Inl: "m s = (Inl e, t) \<Longrightarrow> bindE m f s = (Inl e, t)"
  by (simp add: bindE_def)

lemma bindE_simps [simp]:
  "bindE (returnE x) f = f x"
  "bindE (raiseE e) f = raiseE e"
  "bindE (liftE (Inr x)) f = f x"
  "bindE (liftE (Inl e)) f = raiseE e"
  "bindE (getsE g) f s = f (g s) s"
  "bindE (modifyE h) k s = k () (h s)"
  by (auto simp: prog_defs)

text \<open>The outcomes of a sequence: either its first part raised, or it ran to its second.\<close>

lemma bindE_cases:
  assumes "bindE m f s = (r, t)"
  obtains (raised) e where "m s = (Inl e, t)" and "r = Inl e"
    | (continued) x u where "m s = (Inr x, u)" and "f x u = (r, t)"
  using assms by (auto simp: bindE_def split: prod.splits sum.splits)

lemma bindE_InrE:
  assumes "bindE m f s = (Inr y, t)"
  obtains x u where "m s = (Inr x, u)" and "f x u = (Inr y, t)"
  using assms by (auto elim: bindE_cases)

section \<open>Effects\<close>

text \<open>
  \<open>effect R Q m\<close>: from every state, running \<open>m\<close> relates the state before to the state after
  by \<open>R\<close>, whether \<open>m\<close> returned or raised, and every value it returns satisfies \<open>Q\<close>.
\<close>

definition effect :: "('s \<Rightarrow> 's \<Rightarrow> bool) \<Rightarrow> ('a \<Rightarrow> bool) \<Rightarrow> ('s, 'e, 'a) prog \<Rightarrow> bool" where
  "effect R Q m \<longleftrightarrow> (\<forall>s. R s (after m s) \<and> (\<forall>x. outcome m s = Inr x \<longrightarrow> Q x))"

abbreviation any :: "'a \<Rightarrow> bool" where
  "any \<equiv> (\<lambda>_. True)"

lemma effectI:
  assumes "\<And>s. R s (after m s)" and "\<And>s x. outcome m s = Inr x \<Longrightarrow> Q x"
  shows "effect R Q m"
  using assms by (simp add: effect_def)

lemma effectD: "effect R Q m \<Longrightarrow> R s (after m s)"
  by (simp add: effect_def)

lemma effect_outcomeD: "effect R Q m \<Longrightarrow> m s = (Inr x, t) \<Longrightarrow> Q x"
  by (metis effect_def fst_conv)

lemma effect_weaken: "effect R Q m \<Longrightarrow> (\<And>x. Q x \<Longrightarrow> Q' x) \<Longrightarrow> effect R Q' m"
  by (simp add: effect_def)

lemma effect_any: "effect R Q m \<Longrightarrow> effect R any m"
  by (simp add: effect_def)

lemma effect_mono: "effect R Q m \<Longrightarrow> (\<And>s t. R s t \<Longrightarrow> R' s t) \<Longrightarrow> effect R' Q m"
  by (simp add: effect_def)

text \<open>
  The interface between a handler and the state components it touches: a relation on
  states that every sequence of steps composes in. A handler's effect is then derived
  from the effects of the operations it calls, one rule per program combinator.
\<close>

locale effect_order =
  fixes R :: "'s \<Rightarrow> 's \<Rightarrow> bool"
  assumes R_refl: "R s s"
    and R_trans: "R s t \<Longrightarrow> R t u \<Longrightarrow> R s u"
begin

lemma effect_return: "Q x \<Longrightarrow> effect R Q (returnE x)"
  by (simp add: effect_def R_refl)

lemma effect_raise: "effect R Q (raiseE e)"
  by (simp add: effect_def R_refl)

lemma effect_gets: "(\<And>s. Q (f s)) \<Longrightarrow> effect R Q (getsE f)"
  by (simp add: effect_def R_refl)

lemma effect_gets_any: "effect R any (getsE f)"
  by (simp add: effect_def R_refl)

lemma effect_lift: "(\<And>x. r = Inr x \<Longrightarrow> Q x) \<Longrightarrow> effect R Q (liftE r)"
  by (simp add: effect_def R_refl)

lemma effect_lift_any: "effect R any (liftE r)"
  by (simp add: effect_def R_refl)

lemma effect_modify: "(\<And>s. R s (f s)) \<Longrightarrow> effect R any (modifyE f)"
  by (simp add: effect_def)

lemma effect_bind:
  assumes m: "effect R Q m" and f: "\<And>x. Q x \<Longrightarrow> effect R Q' (f x)"
  shows "effect R Q' (bindE m f)"
proof (rule effectI)
  fix s
  obtain r t where ms: "m s = (r, t)" by fastforce
  have st: "R s t" using effectD [OF m, of s] ms by simp
  show "R s (after (bindE m f) s)"
  proof (cases r)
    case (Inl e)
    with ms st show ?thesis by (simp add: bindE_Inl)
  next
    case (Inr x)
    with ms m have "Q x" by (auto dest: effect_outcomeD)
    then have "R t (after (f x) t)" by (rule effectD [OF f])
    with st have "R s (after (f x) t)" by (rule R_trans)
    with ms Inr show ?thesis by (simp add: bindE_Inr)
  qed
next
  fix s y
  assume "outcome (bindE m f) s = Inr y"
  then obtain x u t where "m s = (Inr x, u)" and fx: "f x u = (Inr y, t)"
    by (auto simp: bindE_def split: prod.splits sum.splits)
      (metis prod.collapse)
  with m have "Q x" by (auto dest: effect_outcomeD)
  from effect_outcomeD [OF f [OF this] fx] show "Q' y" .
qed

lemma effect_seq:
  assumes "effect R any m" and "\<And>x. effect R Q' (f x)"
  shows "effect R Q' (bindE m f)"
  using assms by (blast intro: effect_bind)

lemma effect_catch:
  assumes m: "effect R Q m" and h: "\<And>e. p e \<Longrightarrow> effect R Q (h e)"
  shows "effect R Q (catchE p m h)"
proof (rule effectI)
  fix s
  obtain r t where ms: "m s = (r, t)" by fastforce
  have st: "R s t" using effectD [OF m, of s] ms by simp
  show "R s (after (catchE p m h) s)"
  proof (cases r)
    case (Inl e)
    show ?thesis
    proof (cases "p e")
      case True
      then have "R t (after (h e) t)" by (rule effectD [OF h])
      with st have "R s (after (h e) t)" by (rule R_trans)
      with ms Inl True show ?thesis by (simp add: catchE_def)
    next
      case False
      with ms Inl st show ?thesis by (simp add: catchE_def)
    qed
  next
    case (Inr x)
    with ms st show ?thesis by (simp add: catchE_def)
  qed
next
  fix s y
  assume "outcome (catchE p m h) s = Inr y"
  with m h show "Q y"
    by (auto simp: catchE_def split: prod.splits sum.splits if_splits
        dest: effect_outcomeD) (metis effect_outcomeD prod.collapse)
qed

lemma effect_for: "(\<And>x. x \<in> set xs \<Longrightarrow> effect R any (body x)) \<Longrightarrow> effect R any (forE xs body)"
  by (induction xs) (auto intro: effect_return effect_seq)

lemma effect_if:
  "(b \<Longrightarrow> effect R Q m) \<Longrightarrow> (\<not> b \<Longrightarrow> effect R Q n) \<Longrightarrow> effect R Q (if b then m else n)"
  by simp

lemma effect_option:
  "(x = None \<Longrightarrow> effect R Q m) \<Longrightarrow> (\<And>y. x = Some y \<Longrightarrow> effect R Q (f y)) \<Longrightarrow>
   effect R Q (case x of None \<Rightarrow> m | Some y \<Rightarrow> f y)"
  by (cases x) auto

lemmas effect_rules = effect_return effect_raise effect_gets_any effect_lift_any effect_seq
  effect_for effect_if effect_option

end

section \<open>Tables: rows under a key\<close>

text \<open>
  A database table is the list of its rows in insertion order. \<open>tbl_find\<close> is the row under a
  primary key, \<open>tbl_update\<close> an UPDATE of the row under a key, \<open>tbl_wf\<close> that the key is one.
\<close>

definition tbl_find :: "('row \<Rightarrow> 'k) \<Rightarrow> 'k \<Rightarrow> 'row list \<Rightarrow> 'row option" where
  "tbl_find key k rows = find (\<lambda>r. key r = k) rows"

definition tbl_update :: "('row \<Rightarrow> 'k) \<Rightarrow> 'k \<Rightarrow> ('row \<Rightarrow> 'row) \<Rightarrow> 'row list \<Rightarrow> 'row list" where
  "tbl_update key k f rows = map (\<lambda>r. if key r = k then f r else r) rows"

definition tbl_wf :: "('row \<Rightarrow> 'k) \<Rightarrow> 'row list \<Rightarrow> bool" where
  "tbl_wf key rows \<longleftrightarrow> distinct (map key rows)"

lemma tbl_find_Nil [simp]: "tbl_find key k [] = None"
  by (simp add: tbl_find_def)

lemma tbl_find_Cons [simp]:
  "tbl_find key k (r # rows) = (if key r = k then Some r else tbl_find key k rows)"
  by (simp add: tbl_find_def)

lemma tbl_find_None_iff: "tbl_find key k rows = None \<longleftrightarrow> k \<notin> key ` set rows"
  by (induction rows) auto

lemma tbl_find_Some_iff:
  "tbl_wf key rows \<Longrightarrow> tbl_find key k rows = Some r \<longleftrightarrow> r \<in> set rows \<and> key r = k"
  by (induction rows) (auto simp: tbl_wf_def rev_image_eqI)

lemma tbl_find_SomeD: "tbl_find key k rows = Some r \<Longrightarrow> r \<in> set rows \<and> key r = k"
  by (induction rows) (auto split: if_splits)

lemma tbl_find_append [simp]:
  "tbl_find key k (xs @ ys) =
     (case tbl_find key k xs of None \<Rightarrow> tbl_find key k ys | Some r \<Rightarrow> Some r)"
  by (induction xs) auto

lemma tbl_update_Nil [simp]: "tbl_update key k f [] = []"
  by (simp add: tbl_update_def)

lemma tbl_update_keys:
  "(\<And>r. key (f r) = key r) \<Longrightarrow> map key (tbl_update key k f rows) = map key rows"
  by (simp add: tbl_update_def)

lemma tbl_wf_update: "(\<And>r. key (f r) = key r) \<Longrightarrow> tbl_wf key (tbl_update key k f rows) = tbl_wf key rows"
  by (simp add: tbl_wf_def tbl_update_keys)

lemma tbl_wf_snoc:
  "tbl_wf key (rows @ [r]) \<longleftrightarrow> tbl_wf key rows \<and> tbl_find key (key r) rows = None"
  by (auto simp: tbl_wf_def tbl_find_None_iff)

lemma tbl_find_update:
  "(\<And>r. key (f r) = key r) \<Longrightarrow>
   tbl_find key j (tbl_update key k f rows) =
     (if j = k then map_option f (tbl_find key k rows) else tbl_find key j rows)"
  by (induction rows) (auto simp: tbl_update_def)

section \<open>Lists\<close>

lemma split_at_inject:
  assumes "c \<notin> set x" and "c \<notin> set y"
  shows "x @ c # r = y @ c # s \<longleftrightarrow> x = y \<and> r = s"
  using assms
proof (induction x arbitrary: y)
  case Nil
  then show ?case by (cases y) auto
next
  case (Cons a x)
  then show ?case by (cases y) auto
qed

end
