(* ===== verification/Decimals.thy ===== *)
theory Decimals
  imports Complex_Main Prelude
begin

text \<open>
  Python's \<open>decimal.Decimal\<close> under the default context (28 significant digits,
  ROUND_HALF_EVEN), as the engine uses it at every money boundary. A number keeps its
  integer coefficient and its exponent, so 10 and 10.0 are different objects of equal
  value, which matters where the text of a price is hashed. Not-a-number and the
  infinities never reach the engine (the contract refuses them at the boundary), and the
  exponent range of the context (plus or minus 999999) is taken as unlimited.
\<close>

section \<open>Representation and value\<close>

datatype decimal = Dec (dcoeff: int) (dexp: int)

definition dval :: "decimal \<Rightarrow> rat" where
  "dval d = of_int (dcoeff d) * 10 powi (dexp d)"

definition dec_of_int :: "int \<Rightarrow> decimal" where
  "dec_of_int n = Dec n 0"

text \<open>Both coefficients brought to the smaller of the two exponents.\<close>

definition align :: "decimal \<Rightarrow> decimal \<Rightarrow> int \<times> int \<times> int" where
  "align a b =
     (let m = min (dexp a) (dexp b)
      in (dcoeff a * 10 ^ nat (dexp a - m), dcoeff b * 10 ^ nat (dexp b - m), m))"

text \<open>Comparison of decimals is exact: the context does not round it.\<close>

definition dec_le :: "decimal \<Rightarrow> decimal \<Rightarrow> bool" where
  "dec_le a b = (case align a b of (x, y, _) \<Rightarrow> x \<le> y)"

definition dec_lt :: "decimal \<Rightarrow> decimal \<Rightarrow> bool" where
  "dec_lt a b = (\<not> dec_le b a)"

definition dec_eq :: "decimal \<Rightarrow> decimal \<Rightarrow> bool" where
  "dec_eq a b = (dec_le a b \<and> dec_le b a)"

definition dec_pos :: "decimal \<Rightarrow> bool" where
  "dec_pos d = (0 < dcoeff d)"

text \<open>Python's \<open>min(a, b)\<close> and \<open>max(a, b)\<close>: the first argument wins a tie.\<close>

definition dec_min :: "decimal \<Rightarrow> decimal \<Rightarrow> decimal" where
  "dec_min a b = (if dec_lt b a then b else a)"

definition dec_max :: "decimal \<Rightarrow> decimal \<Rightarrow> decimal" where
  "dec_max a b = (if dec_lt a b then b else a)"

lemma ten_powi_pos [simp]: "\<not> (10 :: rat) powi e < 0" "0 < (10 :: rat) powi e"
  by (simp_all add: not_less zero_less_power_int zero_le_power_int)

lemma power_int_split:
  assumes "m \<le> (e :: int)"
  shows "(10 :: rat) powi e = 10 ^ nat (e - m) * 10 powi m"
proof -
  have "(10 :: rat) powi e = 10 powi (int (nat (e - m)) + m)"
    using assms by simp
  also have "\<dots> = 10 ^ nat (e - m) * 10 powi m"
    by (subst power_int_add) (auto simp del: int_nat_eq)
  finally show ?thesis .
qed

lemma dval_align:
  assumes "align a b = (x, y, m)"
  shows "dval a = of_int x * 10 powi m" and "dval b = of_int y * 10 powi m"
  using assms power_int_split [of m "dexp a"] power_int_split [of m "dexp b"]
  by (auto simp: align_def dval_def Let_def)

lemma dec_le_dval: "dec_le a b \<longleftrightarrow> dval a \<le> dval b"
proof -
  obtain x y m where al: "align a b = (x, y, m)" by (metis prod_cases3)
  have "dval a \<le> dval b \<longleftrightarrow> (of_int x :: rat) * 10 powi m \<le> of_int y * 10 powi m"
    using dval_align [OF al] by simp
  also have "\<dots> \<longleftrightarrow> x \<le> y" by (simp add: mult_le_cancel_right)
  finally show ?thesis using al by (simp add: dec_le_def)
qed

lemma dec_lt_dval: "dec_lt a b \<longleftrightarrow> dval a < dval b"
  by (simp add: dec_lt_def dec_le_dval not_le)

lemma dec_eq_dval: "dec_eq a b \<longleftrightarrow> dval a = dval b"
  by (auto simp: dec_eq_def dec_le_dval)

lemma dec_pos_dval: "dec_pos d \<longleftrightarrow> 0 < dval d"
  by (simp add: dec_pos_def dval_def zero_less_mult_iff)

lemma dval_min: "dval (dec_min a b) = min (dval a) (dval b)"
  by (auto simp: dec_min_def dec_lt_dval)

lemma dval_max: "dval (dec_max a b) = max (dval a) (dval b)"
  by (auto simp: dec_max_def dec_lt_dval)

lemma dval_of_int [simp]: "dval (dec_of_int n) = of_int n"
  by (simp add: dec_of_int_def dval_def)

section \<open>Context arithmetic: 28 digits, half to even\<close>

fun ndigits :: "nat \<Rightarrow> nat" where
  "ndigits n = (if n < 10 then 1 else Suc (ndigits (n div 10)))"

declare ndigits.simps [simp del]

definition dec_prec :: nat where
  "dec_prec = 28"

definition div_half_even :: "nat \<Rightarrow> nat \<Rightarrow> nat" where
  "div_half_even a d =
     (let q = a div d; r = a mod d
      in if 2 * r < d then q else if d < 2 * r then q + 1 else if even q then q else q + 1)"

text \<open>\<open>Decimal._fix\<close>: round a finite result to the precision of the context.\<close>

definition dec_fix :: "decimal \<Rightarrow> decimal" where
  "dec_fix d =
     (let c = nat \<bar>dcoeff d\<bar>; n = ndigits c
      in if n \<le> dec_prec then d
         else let k = n - dec_prec; m = div_half_even c (10 ^ k)
              in if ndigits m \<le> dec_prec
                 then Dec (sgn (dcoeff d) * int m) (dexp d + int k)
                 else Dec (sgn (dcoeff d) * int (m div 10)) (dexp d + int k + 1))"

definition dec_mul :: "decimal \<Rightarrow> decimal \<Rightarrow> decimal" where
  "dec_mul a b = dec_fix (Dec (dcoeff a * dcoeff b) (dexp a + dexp b))"

definition dec_sub :: "decimal \<Rightarrow> decimal \<Rightarrow> decimal" where
  "dec_sub a b = (case align a b of (x, y, m) \<Rightarrow> dec_fix (Dec (x - y) m))"

definition dec_abs :: "decimal \<Rightarrow> decimal" where
  "dec_abs d = dec_fix (Dec \<bar>dcoeff d\<bar> (dexp d))"

text \<open>
  \<open>Decimal.__truediv__\<close>: a quotient of at least 29 digits, its last digit made sticky when
  there is a remainder, trailing zeros dropped down to the ideal exponent when the division
  is exact. Every caller in the engine checks its divisor first; dividing by zero raises in
  Python and has no meaning here.
\<close>

function strip_zeros :: "nat \<Rightarrow> int \<Rightarrow> int \<Rightarrow> nat \<times> int" where
  "strip_zeros c e ideal =
     (if e < ideal \<and> c mod 10 = 0 then strip_zeros (c div 10) (e + 1) ideal else (c, e))"
  by pat_completeness auto
termination
  by (relation "measure (\<lambda>(c, e, ideal). nat (ideal - e))") auto

declare strip_zeros.simps [simp del]

definition dec_div :: "decimal \<Rightarrow> decimal \<Rightarrow> decimal" where
  "dec_div a b =
     (if dcoeff a = 0 then Dec 0 (dexp a - dexp b)
      else
        let x = nat \<bar>dcoeff a\<bar>; y = nat \<bar>dcoeff b\<bar>;
            shift = int (ndigits y) - int (ndigits x) + int dec_prec + 1;
            e = dexp a - dexp b - shift;
            n = (if 0 \<le> shift then x * 10 ^ nat shift else x);
            d = (if 0 \<le> shift then y else y * 10 ^ nat (- shift));
            q = n div d; r = n mod d;
            s = sgn (dcoeff a) * sgn (dcoeff b)
        in if r \<noteq> 0
           then dec_fix (Dec (s * int (if q mod 5 = 0 then q + 1 else q)) e)
           else (case strip_zeros q e (dexp a - dexp b) of
                   (q', e') \<Rightarrow> dec_fix (Dec (s * int q') e')))"

lemma dec_fix_exact: "ndigits (nat \<bar>dcoeff d\<bar>) \<le> dec_prec \<Longrightarrow> dec_fix d = d"
  by (simp add: dec_fix_def Let_def)

text \<open>
  A product that fits in 28 significant digits is exact: the context never rounds it.
\<close>

lemma dec_mul_exact:
  assumes "ndigits (nat \<bar>dcoeff a * dcoeff b\<bar>) \<le> dec_prec"
  shows "dval (dec_mul a b) = dval a * dval b"
  using assms by (simp add: dec_mul_def dec_fix_exact dval_def power_int_add)

lemma dec_sub_exact:
  assumes "align a b = (x, y, m)" and "ndigits (nat \<bar>x - y\<bar>) \<le> dec_prec"
  shows "dval (dec_sub a b) = dval a - dval b"
  using assms dval_align [OF assms(1)]
  by (simp add: dec_sub_def dec_fix_exact dval_def left_diff_distrib)

section \<open>Digits and the text of a decimal\<close>

definition digit_char :: "nat \<Rightarrow> char" where
  "digit_char d = ''0123456789'' ! d"

text \<open>\<open>str(n)\<close> of a natural number.\<close>

fun nat_str :: "nat \<Rightarrow> string" where
  "nat_str n = (if n < 10 then [digit_char n] else nat_str (n div 10) @ [digit_char (n mod 10)])"

declare nat_str.simps [simp del]

definition int_str :: "int \<Rightarrow> string" where
  "int_str i = (if i < 0 then CHR ''-'' # nat_str (nat (- i)) else nat_str (nat i))"

text \<open>\<open>format(d, "f")\<close>: fixed point, every stored digit kept, never an exponent.\<close>

definition format_f :: "decimal \<Rightarrow> string" where
  "format_f d =
     (let e = (if dcoeff d = 0 \<and> 0 < dexp d then 0 else dexp d);
          ds = nat_str (nat \<bar>dcoeff d\<bar>);
          dot = e + int (length ds);
          ip = (if dot < 0 then ''0''
                else if int (length ds) < dot then ds @ replicate (nat dot - length ds) (CHR ''0'')
                else if dot = 0 then ''0'' else take (nat dot) ds);
          fp = (if dot < 0 then replicate (nat (- dot)) (CHR ''0'') @ ds
                else if int (length ds) < dot then [] else drop (nat dot) ds)
      in (if dcoeff d < 0 then ''-'' else []) @ ip @ (if fp = [] then [] else CHR ''.'' # fp))"

text \<open>Reading digits back: the number a string of digits spells.\<close>

definition digit_val :: "char \<Rightarrow> nat" where
  "digit_val c = of_char c - 48"

definition digits_val :: "string \<Rightarrow> nat" where
  "digits_val s = foldl (\<lambda>n c. 10 * n + digit_val c) 0 s"

lemma digit_val_char: "d < 10 \<Longrightarrow> digit_val (digit_char d) = d"
proof -
  assume "d < 10"
  then have "d \<in> {0, 1, 2, 3, 4, 5, 6, 7, 8, 9}" by auto
  then show ?thesis by (auto simp: digit_val_def digit_char_def)
qed

lemma digits_val_snoc [simp]: "digits_val (s @ [c]) = 10 * digits_val s + digit_val c"
  by (simp add: digits_val_def)

lemma digits_val_nat_str: "digits_val (nat_str n) = n"
proof (induction n rule: nat_str.induct)
  case (1 n)
  show ?case
  proof (cases "n < 10")
    case True
    then show ?thesis
      by (subst nat_str.simps) (simp add: digits_val_def digit_val_char)
  next
    case False
    with 1 show ?thesis
      by (subst nat_str.simps) (simp add: digit_val_char)
  qed
qed

text \<open>The text of a number determines it.\<close>

lemma nat_str_inject: "nat_str m = nat_str n \<longleftrightarrow> m = n"
  by (metis digits_val_nat_str)

lemma nat_str_nonempty [simp]: "nat_str n \<noteq> []"
  by (subst nat_str.simps) simp

lemma digit_char_set: "d < 10 \<Longrightarrow> digit_char d \<in> set ''0123456789''"
  unfolding digit_char_def by (rule nth_mem) simp

lemma nat_str_digits: "set (nat_str n) \<subseteq> set ''0123456789''"
proof (induction n rule: nat_str.induct)
  case (1 n)
  then show ?case
    by (subst nat_str.simps) (use digit_char_set [of n] digit_char_set [of "n mod 10"] in auto)
qed

text \<open>
  The fixed-point text of a decimal without a positive exponent determines it: sign,
  coefficient and number of decimal places.
\<close>

lemma digits_val_zeros: "digits_val (replicate n (CHR ''0'') @ s) = digits_val s"
proof -
  have "foldl (\<lambda>n c. 10 * n + digit_val c) 0 (replicate n (CHR ''0'')) = 0"
    by (induction n) (simp_all add: digit_val_def)
  then show ?thesis by (simp add: digits_val_def)
qed

lemma format_f_parts:
  assumes "dexp d \<le> 0"
  obtains ip fp where "format_f d = (if dcoeff d < 0 then ''-'' else []) @ ip @ (if fp = [] then [] else CHR ''.'' # fp)"
    and "set (ip @ fp) \<subseteq> set ''0123456789''" and "ip \<noteq> []" and "length fp = nat (- dexp d)"
    and "digits_val (ip @ fp) = nat \<bar>dcoeff d\<bar>"
proof -
  define ds where "ds = nat_str (nat \<bar>dcoeff d\<bar>)"
  define k where "k = nat (- dexp d)"
  have k: "dexp d = - int k" using assms by (simp add: k_def)
  have ds: "set ds \<subseteq> set ''0123456789''" "ds \<noteq> []" "digits_val ds = nat \<bar>dcoeff d\<bar>"
    using nat_str_digits [of "nat \<bar>dcoeff d\<bar>"] by (simp_all add: ds_def digits_val_nat_str)
  have form: "format_f d = (if dcoeff d < 0 then ''-'' else []) @
      (if length ds \<le> k then ''0'' else take (length ds - k) ds) @
      (let fp = (if length ds \<le> k then replicate (k - length ds) (CHR ''0'') @ ds else drop (length ds - k) ds)
       in if fp = [] then [] else CHR ''.'' # fp)"
  proof (cases "length ds < k")
    case True
    then have "nat (int k - int (length ds)) = k - length ds" by simp
    with True show ?thesis by (simp add: format_f_def Let_def k ds_def [symmetric])
  next
    case False
    then have "nat (int (length ds) - int k) = length ds - k" by simp
    with False show ?thesis by (simp add: format_f_def Let_def k ds_def [symmetric])
  qed
  show thesis
  proof (cases "length ds \<le> k")
    case True
    show thesis
    proof (rule that [of "''0''" "replicate (k - length ds) (CHR ''0'') @ ds"])
      show "digits_val (''0'' @ replicate (k - length ds) (CHR ''0'') @ ds) = nat \<bar>dcoeff d\<bar>"
        using digits_val_zeros [of 1 "replicate (k - length ds) (CHR ''0'') @ ds"]
          digits_val_zeros [of "k - length ds" ds] ds(3) by simp
    qed (use True form ds k_def in \<open>auto simp: Let_def\<close>)
  next
    case False
    show thesis
    proof (rule that [of "take (length ds - k) ds" "drop (length ds - k) ds"])
      show "set (take (length ds - k) ds @ drop (length ds - k) ds) \<subseteq> set ''0123456789''" 
        using ds(1) by (metis append_take_drop_id)
    qed (use False form ds k_def in \<open>auto simp: Let_def\<close>)
  qed
qed

lemma format_f_inject:
  assumes "dexp a \<le> 0" and "dexp b \<le> 0" and eq: "format_f a = format_f b"
  shows "a = b"
proof -
  obtain ia fa where a: "format_f a = (if dcoeff a < 0 then ''-'' else []) @ ia @ (if fa = [] then [] else CHR ''.'' # fa)"
    "set (ia @ fa) \<subseteq> set ''0123456789''" "ia \<noteq> []" "length fa = nat (- dexp a)"
    "digits_val (ia @ fa) = nat \<bar>dcoeff a\<bar>" using format_f_parts [OF assms(1)] by blast
  obtain ib fb where b: "format_f b = (if dcoeff b < 0 then ''-'' else []) @ ib @ (if fb = [] then [] else CHR ''.'' # fb)"
    "set (ib @ fb) \<subseteq> set ''0123456789''" "ib \<noteq> []" "length fb = nat (- dexp b)"
    "digits_val (ib @ fb) = nat \<bar>dcoeff b\<bar>" using format_f_parts [OF assms(2)] by blast
  let ?ra = "ia @ (if fa = [] then [] else CHR ''.'' # fa)" and ?rb = "ib @ (if fb = [] then [] else CHR ''.'' # fb)"
  have minus: "hd ?ra \<noteq> CHR ''-''" "hd ?rb \<noteq> CHR ''-''" using a(2,3) b(2,3)
    by (cases ia; cases ib; auto)+
  have "hd (format_f a) = CHR ''-'' \<longleftrightarrow> dcoeff a < 0" "hd (format_f b) = CHR ''-'' \<longleftrightarrow> dcoeff b < 0"
    using minus unfolding a(1) b(1) by simp_all
  with eq have sgn: "dcoeff a < 0 \<longleftrightarrow> dcoeff b < 0" by simp
  then have rest: "?ra = ?rb" using eq unfolding a(1) b(1) by (simp only: same_append_eq)
  have dots: "CHR ''.'' \<notin> set ia" "CHR ''.'' \<notin> set ib" "CHR ''.'' \<notin> set fa" "CHR ''.'' \<notin> set fb"
    using a(2) b(2) by auto
  have "ia = ib \<and> fa = fb"
  proof (cases "fa = []"; cases "fb = []")
    assume "fa = []" "fb \<noteq> []"
    with rest have "ia = ib @ CHR ''.'' # fb" by simp
    with dots(1) show ?thesis by simp
  next
    assume "fa \<noteq> []" "fb = []"
    with rest have "ib = ia @ CHR ''.'' # fa" by simp
    with dots(2) show ?thesis by simp
  qed (use rest dots split_at_inject [OF dots(1,2)] in auto)
  with a b assms have "dexp a = dexp b" "nat \<bar>dcoeff a\<bar> = nat \<bar>dcoeff b\<bar>" by auto
  with sgn show ?thesis by (cases a; cases b) auto
qed

end
