(* ===== verification/Pyvalues.thy ===== *)
theory Pyvalues
  imports Decimals
begin

text \<open>
  The Python values the engine handles as data: decoded JSON, the text \<open>str\<close> makes of it,
  integers read from text, and the UUIDs that name orders. Strings are lists of ASCII
  characters.
\<close>

section \<open>Decoded JSON\<close>

text \<open>A float carries the text of its \<open>repr\<close>: the engine never computes with one.\<close>

datatype json =
    JNull
  | JBool bool
  | JInt int
  | JFloat string
  | JStr string
  | JList "json list"
  | JObj "(string \<times> json) list"

text \<open>\<open>repr\<close> of a string: the quote that needs no escape when there is one.\<close>

definition hex_char :: "nat \<Rightarrow> char" where
  "hex_char d = ''0123456789abcdef'' ! d"

definition repr_char :: "char \<Rightarrow> char \<Rightarrow> string" where
  "repr_char q c =
     (let n = (of_char c :: nat)
      in if c = q \<or> n = 92 then [CHR 92, c]
         else if n = 9 then [CHR 92, CHR ''t'']
         else if n = 10 then [CHR 92, CHR ''n'']
         else if n = 13 then [CHR 92, CHR ''r'']
         else if n < 32 \<or> n = 127
           then [CHR 92, CHR ''x'', hex_char (n div 16), hex_char (n mod 16)]
         else [c])"

definition repr_str :: "string \<Rightarrow> string" where
  "repr_str s =
     (let q = (if CHR 39 \<in> set s \<and> CHR 34 \<notin> set s then CHR 34 else CHR 39)
      in q # concat (map (repr_char q) s) @ [q])"

fun join :: "string \<Rightarrow> string list \<Rightarrow> string" where
  "join sep [] = []"
| "join sep [x] = x"
| "join sep (x # y # xs) = x @ sep @ join sep (y # xs)"

fun py_repr :: "json \<Rightarrow> string" where
  "py_repr JNull = ''None''"
| "py_repr (JBool b) = (if b then ''True'' else ''False'')"
| "py_repr (JInt i) = int_str i"
| "py_repr (JFloat r) = r"
| "py_repr (JStr s) = repr_str s"
| "py_repr (JList xs) = ''['' @ join '', '' (map py_repr xs) @ '']''"
| "py_repr (JObj kvs) =
     ''{'' @ join '', '' (map (\<lambda>(k, v). repr_str k @ '': '' @ py_repr v) kvs) @ ''}''"

definition py_str :: "json \<Rightarrow> string" where
  "py_str v = (case v of JStr s \<Rightarrow> s | _ \<Rightarrow> py_repr v)"

text \<open>\<open>d.get(key)\<close> where a JSON null is Python's None, the same answer as an absent key.\<close>

definition dict_get :: "(string \<times> json) list \<Rightarrow> string \<Rightarrow> json option" where
  "dict_get d k = (case map_of d k of Some JNull \<Rightarrow> None | r \<Rightarrow> r)"

section \<open>Text\<close>

definition is_space :: "char \<Rightarrow> bool" where
  "is_space c = (let n = (of_char c :: nat) in n = 32 \<or> (9 \<le> n \<and> n \<le> 13) \<or> (28 \<le> n \<and> n \<le> 31))"

text \<open>\<open>s.strip()\<close> over the characters a test accepts.\<close>

definition strip_by :: "(char \<Rightarrow> bool) \<Rightarrow> string \<Rightarrow> string" where
  "strip_by p s = rev (dropWhile p (rev (dropWhile p s)))"

definition strip :: "string \<Rightarrow> string" where
  "strip s = strip_by is_space s"

text \<open>\<open>s.replace(pat, "")\<close>: non-overlapping occurrences, from the left.\<close>

function remove_all :: "string \<Rightarrow> string \<Rightarrow> string" where
  "remove_all pat [] = []"
| "remove_all pat (c # cs) =
     (if pat \<noteq> [] \<and> prefix pat (c # cs) then remove_all pat (drop (length pat) (c # cs))
      else c # remove_all pat cs)"
  by pat_completeness auto
termination
  by (relation "measure (\<lambda>(pat, s). length s)") (auto simp: neq_Nil_conv)

definition hex_val :: "char \<Rightarrow> nat option" where
  "hex_val c =
     (let n = (of_char c :: nat)
      in if 48 \<le> n \<and> n \<le> 57 then Some (n - 48)
         else if 97 \<le> n \<and> n \<le> 102 then Some (n - 87)
         else if 65 \<le> n \<and> n \<le> 70 then Some (n - 55)
         else None)"

text \<open>Digits with single underscores between them; the flag says a digit was just read.\<close>

fun hex_run :: "nat \<Rightarrow> bool \<Rightarrow> string \<Rightarrow> nat option" where
  "hex_run acc digit [] = (if digit then Some acc else None)"
| "hex_run acc digit (c # cs) =
     (if c = CHR ''_'' then (if digit then hex_run acc False cs else None)
      else (case hex_val c of Some d \<Rightarrow> hex_run (16 * acc + d) True cs | None \<Rightarrow> None))"

text \<open>\<open>int(s, 16)\<close>: surrounding blanks, a sign and a \<open>0x\<close> prefix are accepted.\<close>

definition hex_unsigned :: "string \<Rightarrow> nat option" where
  "hex_unsigned s =
     (case s of
        z # x # rest \<Rightarrow>
          if z = CHR ''0'' \<and> x \<in> {CHR ''x'', CHR ''X''}
          then hex_run 0 False (case rest of u # more \<Rightarrow> if u = CHR ''_'' then more else rest
                                           | [] \<Rightarrow> rest)
          else hex_run 0 False s
      | _ \<Rightarrow> hex_run 0 False s)"

definition int16 :: "string \<Rightarrow> int option" where
  "int16 s =
     (case strip s of
        c # rest \<Rightarrow>
          if c = CHR ''-'' then map_option (\<lambda>n. - int n) (hex_unsigned rest)
          else if c = CHR ''+'' then map_option int (hex_unsigned rest)
          else map_option int (hex_unsigned (c # rest))
      | [] \<Rightarrow> None)"

section \<open>UUIDs\<close>

text \<open>\<open>uuid.UUID(value)\<close>: the integer it denotes, None where the constructor raises.\<close>

definition uuid_int :: "string \<Rightarrow> nat option" where
  "uuid_int v =
     (let h = remove_all ''-'' (strip_by (\<lambda>c. c \<in> set ''{}'')
                (remove_all ''uuid:'' (remove_all ''urn:'' v)))
      in if length h \<noteq> 32 then None
         else (case int16 h of
                 Some i \<Rightarrow> if 0 \<le> i \<and> i < 2 ^ 128 then Some (nat i) else None
               | None \<Rightarrow> None))"

text \<open>\<open>UUID.version\<close>: defined for the RFC 4122 variant (bits 63 and 62 are 10) only.\<close>

definition uuid_version :: "nat \<Rightarrow> nat option" where
  "uuid_version n =
     (if (n div 2 ^ 63) mod 2 = 1 \<and> (n div 2 ^ 62) mod 2 = 0
      then Some ((n div 2 ^ 76) mod 16) else None)"

definition is_uuid4 :: "string \<Rightarrow> bool" where
  "is_uuid4 v = (case uuid_int v of Some n \<Rightarrow> uuid_version n = Some 4 | None \<Rightarrow> False)"

end
