(* ===== verification/Contracts.thy ===== *)
theory Contracts
  imports Pyvalues
begin

text \<open>
  The order language: the frozen enums and \<open>to_public_status\<close> (\<open>contracts/enums.py\<close>), the
  exception classes with their wire codes (\<open>contracts/errors.py\<close> and the \<open>errors.py\<close> of each
  package), \<open>NormalizedOrder\<close> with its validators (\<open>contracts/orders.py\<close>) and the capability
  matrix (\<open>contracts/capabilities.py\<close>).
\<close>

section \<open>Enums\<close>

datatype Broker = SIM | LIBERATOR | STREAMING_PRO

datatype Market = SET | TFEX

datatype Side = BUY | SELL

datatype OrderType = MARKET | LIMIT | STOP | STOP_LIMIT | ICEBERG | MTL | ATO | ATC

datatype Tif = DAY | IOC | FOK | GTC

datatype PositionEffect = OPEN | CLOSE

datatype Stage = Stage_SIM | Stage_PAPER | Stage_MICRO_LIVE | Stage_LIVE

datatype OrderState =
    PENDING_NEW
  | NEW
  | PARTIALLY_FILLED
  | FILLED
  | PENDING_CANCEL
  | PENDING_REPLACE
  | CANCELLED
  | REJECTED
  | EXPIRED

datatype PublicOrderStatus =
    Public_NEW
  | Public_PARTIALLY_FILLED
  | Public_FILLED
  | Public_CANCELLED
  | Public_REJECTED
  | Public_EXPIRED

datatype HandleResolution = CONFIRMED | PENDING | UNKNOWN

text \<open>The wire values of the enums that appear in fingerprints and messages.\<close>

fun broker_value :: "Broker \<Rightarrow> string" where
  "broker_value SIM = ''sim''"
| "broker_value LIBERATOR = ''liberator''"
| "broker_value STREAMING_PRO = ''streaming_pro''"

fun market_value :: "Market \<Rightarrow> string" where
  "market_value SET = ''SET''"
| "market_value TFEX = ''TFEX''"

fun side_value :: "Side \<Rightarrow> string" where
  "side_value BUY = ''BUY''"
| "side_value SELL = ''SELL''"

fun order_type_value :: "OrderType \<Rightarrow> string" where
  "order_type_value MARKET = ''MARKET''"
| "order_type_value LIMIT = ''LIMIT''"
| "order_type_value STOP = ''STOP''"
| "order_type_value STOP_LIMIT = ''STOP_LIMIT''"
| "order_type_value ICEBERG = ''ICEBERG''"
| "order_type_value MTL = ''MTL''"
| "order_type_value ATO = ''ATO''"
| "order_type_value ATC = ''ATC''"

fun tif_value :: "Tif \<Rightarrow> string" where
  "tif_value DAY = ''DAY''"
| "tif_value IOC = ''IOC''"
| "tif_value FOK = ''FOK''"
| "tif_value GTC = ''GTC''"

fun position_effect_value :: "PositionEffect \<Rightarrow> string" where
  "position_effect_value OPEN = ''OPEN''"
| "position_effect_value CLOSE = ''CLOSE''"

fun to_public_status :: "OrderState \<Rightarrow> int \<Rightarrow> PublicOrderStatus" where
  "to_public_status PENDING_NEW filled_qty = Public_NEW"
| "to_public_status PENDING_CANCEL filled_qty =
     (if 0 < filled_qty then Public_PARTIALLY_FILLED else Public_NEW)"
| "to_public_status PENDING_REPLACE filled_qty =
     (if 0 < filled_qty then Public_PARTIALLY_FILLED else Public_NEW)"
| "to_public_status NEW filled_qty = Public_NEW"
| "to_public_status PARTIALLY_FILLED filled_qty = Public_PARTIALLY_FILLED"
| "to_public_status FILLED filled_qty = Public_FILLED"
| "to_public_status CANCELLED filled_qty = Public_CANCELLED"
| "to_public_status REJECTED filled_qty = Public_REJECTED"
| "to_public_status EXPIRED filled_qty = Public_EXPIRED"

section \<open>Exceptions\<close>

text \<open>
  The subclasses of \<open>OrderRejectedError\<close>. \<open>RiskRejected\<close> carries its \<open>cap\<close>, the other free
  text of messages and details is left out: it is never read back by the program.
\<close>

datatype rejection =
    PublicModeRejected
  | ReadKeyForbidden
  | VenueOrdersUnavailable
  | KillSwitchEngagedError
  | KillSwitchPinnedError
  | KillSwitchNotEngagedError
  | StageRejected
  | CapabilityError
  | RiskRejected string
  | PriceBandExceeded
  | DuplicateBurstDetected
  | OrderNotFound
  | IllegalTransition
  | StoreConstraintViolated
  | ConcurrentSubmit
  | AmendRejected
  | RealRoutingNotAuthorized
  | CircuitOpenError
  | LiberatorAccountNotFound
  | LiberatorPositionsUncaptured
  | StreamingProAccountUnavailable
  | StreamingProPositionsUncaptured
  | OrderBookUnavailable
  | OrderStreamUnavailable

text \<open>
  Everything a coroutine of the engine may raise. \<open>Rejected r cid\<close> is a rejection with the
  \<open>client_order_id\<close> it carries; the two violation errors are the database driver's, named
  because the engine catches them; \<open>OtherError\<close> stands for any other exception raised by
  code outside the repository (the database driver, the Redis client, the HTTP client).
\<close>

datatype exn =
    Rejected rejection "string option"
  | AdapterError string
  | LiberatorTransportError string
  | LiberatorMappingError string
  | StreamingProTransportError string
  | StreamingProMappingError string
  | CacheError
  | RepositoryError
  | DuplicateOrderSignal
  | ConfigError
  | ValidationError string
  | AssertionError
  | UniqueViolationError
  | CheckViolationError
  | OtherError string

text \<open>\<open>except AdapterError\<close> catches the class and its subclasses.\<close>

fun is_adapter_error :: "exn \<Rightarrow> bool" where
  "is_adapter_error (AdapterError _) = True"
| "is_adapter_error (LiberatorTransportError _) = True"
| "is_adapter_error (LiberatorMappingError _) = True"
| "is_adapter_error (StreamingProTransportError _) = True"
| "is_adapter_error (StreamingProMappingError _) = True"
| "is_adapter_error _ = False"

fun code :: "rejection \<Rightarrow> string" where
  "code PublicModeRejected = ''public_mode''"
| "code ReadKeyForbidden = ''read_key_forbidden''"
| "code VenueOrdersUnavailable = ''venue_orders_unavailable''"
| "code KillSwitchEngagedError = ''kill_switch_engaged''"
| "code KillSwitchPinnedError = ''kill_switch_env_pinned''"
| "code KillSwitchNotEngagedError = ''kill_switch_not_engaged''"
| "code StageRejected = ''stage_rejected''"
| "code CapabilityError = ''capability_unsupported''"
| "code (RiskRejected cap) = ''risk_rejected''"
| "code PriceBandExceeded = ''price_band_exceeded''"
| "code DuplicateBurstDetected = ''duplicate_burst_detected''"
| "code OrderNotFound = ''order_not_found''"
| "code IllegalTransition = ''illegal_transition''"
| "code StoreConstraintViolated = ''store_constraint_violated''"
| "code ConcurrentSubmit = ''submit_in_flight''"
| "code AmendRejected = ''amend_rejected''"
| "code RealRoutingNotAuthorized = ''real_routing_not_authorized''"
| "code CircuitOpenError = ''broker_circuit_open''"
| "code LiberatorAccountNotFound = ''liberator_account_not_found''"
| "code LiberatorPositionsUncaptured = ''liberator_positions_uncaptured''"
| "code StreamingProAccountUnavailable = ''streaming_pro_account_unavailable''"
| "code StreamingProPositionsUncaptured = ''streaming_pro_positions_uncaptured''"
| "code OrderBookUnavailable = ''order_book_unavailable''"
| "code OrderStreamUnavailable = ''order_stream_unavailable''"

section \<open>NormalizedOrder\<close>

record NormalizedOrder =
  client_order_id :: string
  broker :: Broker
  account :: string
  market :: Market
  symbol :: string
  side :: Side
  order_type :: OrderType
  price :: "decimal option"
  stop_price :: "decimal option"
  quantity :: int
  display_qty :: "int option"
  tif :: Tif
  position_effect :: "PositionEffect option"
  metadata :: "(string \<times> json) list"

definition PRICED_TYPES :: "OrderType list" where
  "PRICED_TYPES = [LIMIT, STOP_LIMIT]"

definition STOP_TYPES :: "OrderType list" where
  "STOP_TYPES = [STOP, STOP_LIMIT]"

text \<open>The \<open>mode="before"\<close> validator of the price fields: a binary float is refused.\<close>

definition no_float_money :: "json \<Rightarrow> exn + json" where
  "no_float_money v =
     (case v of JFloat _ \<Rightarrow> Inl (ValidationError ''price fields must be sent as strings, never floats'')
      | _ \<Rightarrow> Inr v)"

definition uuid4_at_the_boundary :: "string \<Rightarrow> exn + string" where
  "uuid4_at_the_boundary v =
     (case uuid_int v of
        None \<Rightarrow> Inl (ValidationError ''client_order_id must be a UUIDv4'')
      | Some n \<Rightarrow>
          if uuid_version n \<noteq> Some 4 then Inl (ValidationError ''client_order_id must be a UUIDv4'')
          else Inr v)"

definition cross_field_rules :: "NormalizedOrder \<Rightarrow> exn + NormalizedOrder" where
  "cross_field_rules od =
     (if (case price od of Some p \<Rightarrow> \<not> dec_pos p | None \<Rightarrow> False)
      then Inl (ValidationError ''price must be > 0'')
      else if (case stop_price od of Some p \<Rightarrow> \<not> dec_pos p | None \<Rightarrow> False)
      then Inl (ValidationError ''stop_price must be > 0'')
      else if order_type od \<in> set PRICED_TYPES \<and> price od = None
      then Inl (ValidationError (''price is required for '' @ order_type_value (order_type od)))
      else if order_type od \<in> set STOP_TYPES \<and> stop_price od = None
      then Inl (ValidationError (''stop_price is required for '' @ order_type_value (order_type od)))
      else if (case display_qty od of Some d \<Rightarrow> order_type od \<noteq> ICEBERG | None \<Rightarrow> False)
      then Inl (ValidationError ''display_qty is only valid for ICEBERG orders'')
      else if (case display_qty od of Some d \<Rightarrow> quantity od < d | None \<Rightarrow> False)
      then Inl (ValidationError ''display_qty must be <= quantity'')
      else if display_qty od = None \<and> order_type od = ICEBERG
      then Inl (ValidationError ''ICEBERG orders require display_qty'')
      else if market od = TFEX \<and> position_effect od = None
      then Inl (ValidationError ''position_effect is required for TFEX orders'')
      else if market od = SET \<and> position_effect od \<noteq> None
      then Inl (ValidationError ''position_effect must be omitted for SET orders'')
      else Inr od)"

text \<open>
  \<open>NormalizedOrder(...)\<close>: the field constraints and the UUID validator first, the
  cross-field rules only on a model whose fields all passed.
\<close>

definition mk_NormalizedOrder :: "NormalizedOrder \<Rightarrow> exn + NormalizedOrder" where
  "mk_NormalizedOrder od =
     (case uuid4_at_the_boundary (client_order_id od) of
        Inl e \<Rightarrow> Inl e
      | Inr _ \<Rightarrow>
          if account od = [] then Inl (ValidationError ''account: min_length 1'')
          else if symbol od = [] then Inl (ValidationError ''symbol: min_length 1'')
          else if quantity od \<le> 0 then Inl (ValidationError ''quantity: gt 0'')
          else if (case display_qty od of Some d \<Rightarrow> d \<le> 0 | None \<Rightarrow> False)
          then Inl (ValidationError ''display_qty: gt 0'')
          else cross_field_rules od)"

text \<open>What the validators admit, written as one predicate.\<close>

definition valid_order :: "NormalizedOrder \<Rightarrow> bool" where
  "valid_order od \<longleftrightarrow>
     is_uuid4 (client_order_id od) \<and> account od \<noteq> [] \<and> symbol od \<noteq> [] \<and> 0 < quantity od \<and>
     (\<forall>p. price od = Some p \<longrightarrow> 0 < dval p) \<and> (\<forall>p. stop_price od = Some p \<longrightarrow> 0 < dval p) \<and>
     (order_type od \<in> {LIMIT, STOP_LIMIT} \<longrightarrow> price od \<noteq> None) \<and>
     (order_type od \<in> {STOP, STOP_LIMIT} \<longrightarrow> stop_price od \<noteq> None) \<and>
     (order_type od = ICEBERG \<longleftrightarrow> display_qty od \<noteq> None) \<and>
     (\<forall>d. display_qty od = Some d \<longrightarrow> 0 < d \<and> d \<le> quantity od) \<and>
     (market od = TFEX \<longleftrightarrow> position_effect od \<noteq> None)"

lemma uuid4_at_the_boundary_ok: "uuid4_at_the_boundary v = Inr w \<longleftrightarrow> w = v \<and> is_uuid4 v"
  by (auto simp: uuid4_at_the_boundary_def is_uuid4_def split: option.splits)

lemma cross_field_rules_ok:
  "cross_field_rules od = Inr od' \<longleftrightarrow> od' = od \<and>
     (\<forall>p. price od = Some p \<longrightarrow> 0 < dval p) \<and> (\<forall>p. stop_price od = Some p \<longrightarrow> 0 < dval p) \<and>
     (order_type od \<in> {LIMIT, STOP_LIMIT} \<longrightarrow> price od \<noteq> None) \<and>
     (order_type od \<in> {STOP, STOP_LIMIT} \<longrightarrow> stop_price od \<noteq> None) \<and>
     (order_type od = ICEBERG \<longleftrightarrow> display_qty od \<noteq> None) \<and>
     (\<forall>d. display_qty od = Some d \<longrightarrow> d \<le> quantity od) \<and>
     (market od = TFEX \<longleftrightarrow> position_effect od \<noteq> None)"
  by (cases "market od"; cases "price od"; cases "stop_price od"; cases "display_qty od")
    (auto simp: cross_field_rules_def PRICED_TYPES_def STOP_TYPES_def dec_pos_dval)

lemma mk_NormalizedOrder_ok: "mk_NormalizedOrder od = Inr od' \<longleftrightarrow> od' = od \<and> valid_order od"
proof (cases "is_uuid4 (client_order_id od)")
  case True
  then have "uuid4_at_the_boundary (client_order_id od) = Inr (client_order_id od)"
    by (simp add: uuid4_at_the_boundary_ok)
  with True show ?thesis
    by (cases "display_qty od")
      (auto simp: mk_NormalizedOrder_def cross_field_rules_ok valid_order_def)
next
  case False
  then obtain e where "uuid4_at_the_boundary (client_order_id od) = Inl e"
    by (metis uuid4_at_the_boundary_ok sum.exhaust)
  with False show ?thesis by (simp add: mk_NormalizedOrder_def valid_order_def)
qed

section \<open>The capability matrix\<close>

datatype amend_semantics = native | cancel_replace

record CapabilitySet =
  cap_broker :: Broker
  cap_market :: Market
  order_types :: "OrderType list"
  tifs :: "Tif list"
  position_effects :: "PositionEffect list"
  amend_kind :: amend_semantics
  adapter_installed :: bool

definition ALL_TYPES :: "OrderType list" where
  "ALL_TYPES = [MARKET, LIMIT, STOP, STOP_LIMIT, ICEBERG, MTL, ATO, ATC]"

definition ALL_TIFS :: "Tif list" where
  "ALL_TIFS = [DAY, IOC, FOK, GTC]"

definition assert_supports ::
  "CapabilitySet \<Rightarrow> OrderType \<Rightarrow> Tif \<Rightarrow> PositionEffect option \<Rightarrow> exn + unit" where
  "assert_supports c ot t pe =
     (if ot \<notin> set (order_types c) then Inl (Rejected CapabilityError None)
      else if t \<notin> set (tifs c) then Inl (Rejected CapabilityError None)
      else if (case pe of Some p \<Rightarrow> p \<notin> set (position_effects c) | None \<Rightarrow> False)
      then Inl (Rejected CapabilityError None)
      else Inr ())"

definition CAPABILITY_MATRIX :: "CapabilitySet list" where
  "CAPABILITY_MATRIX =
    [\<lparr>cap_broker = SIM, cap_market = SET, order_types = ALL_TYPES, tifs = ALL_TIFS,
      position_effects = [], amend_kind = native, adapter_installed = True\<rparr>,
     \<lparr>cap_broker = SIM, cap_market = TFEX, order_types = ALL_TYPES, tifs = ALL_TIFS,
      position_effects = [OPEN, CLOSE], amend_kind = native, adapter_installed = True\<rparr>,
     \<lparr>cap_broker = LIBERATOR, cap_market = SET,
      order_types = [MARKET, LIMIT, ICEBERG, MTL, ATO, ATC], tifs = ALL_TIFS,
      position_effects = [], amend_kind = cancel_replace, adapter_installed = True\<rparr>,
     \<lparr>cap_broker = LIBERATOR, cap_market = TFEX,
      order_types = [MARKET, LIMIT, STOP, STOP_LIMIT, ICEBERG], tifs = ALL_TIFS,
      position_effects = [OPEN, CLOSE], amend_kind = cancel_replace, adapter_installed = True\<rparr>,
     \<lparr>cap_broker = STREAMING_PRO, cap_market = SET, order_types = [MARKET, LIMIT], tifs = [DAY],
      position_effects = [], amend_kind = cancel_replace, adapter_installed = True\<rparr>,
     \<lparr>cap_broker = STREAMING_PRO, cap_market = TFEX, order_types = [MARKET, LIMIT], tifs = [DAY],
      position_effects = [OPEN, CLOSE], amend_kind = cancel_replace, adapter_installed = True\<rparr>]"

definition lookup :: "Broker \<Rightarrow> Market \<Rightarrow> exn + CapabilitySet" where
  "lookup b m =
     (case find (\<lambda>c. cap_broker c = b \<and> cap_market c = m) CAPABILITY_MATRIX of
        Some c \<Rightarrow> Inr c
      | None \<Rightarrow> Inl (Rejected CapabilityError None))"

text \<open>Every (broker, market) pair has a row, so the lookup never raises.\<close>

lemma lookup_total: "\<exists>c. lookup b m = Inr c \<and> cap_broker c = b \<and> cap_market c = m"
  by (cases b; cases m) (simp_all add: lookup_def CAPABILITY_MATRIX_def)

text \<open>Only the sim broker amends in place.\<close>

lemma lookup_native_iff: "lookup b m = Inr c \<Longrightarrow> amend_kind c = native \<longleftrightarrow> b = SIM"
  by (cases b; cases m) (auto simp: lookup_def CAPABILITY_MATRIX_def)

lemma assert_supports_ok:
  "assert_supports c ot t pe = Inr () \<longleftrightarrow>
     ot \<in> set (order_types c) \<and> t \<in> set (tifs c) \<and> (\<forall>p. pe = Some p \<longrightarrow> p \<in> set (position_effects c))"
  by (auto simp: assert_supports_def split: option.splits)

end
