(* ===== verification/OrderStateMachine.thy ===== *)
theory OrderStateMachine
  imports Contracts
begin

text \<open>
  The frozen nine-state order machine of \<open>core/state_machine.py\<close>: the edge table and the
  app-side guard, and, as the specification both the guard and the database trigger
  promise, the step relation \<open>edge\<close> with its histories.
\<close>

section \<open>The guard\<close>

definition ENTRY_STATE :: OrderState where
  "ENTRY_STATE = PENDING_NEW"

definition TERMINAL_STATES :: "OrderState list" where
  "TERMINAL_STATES = [FILLED, CANCELLED, REJECTED, EXPIRED]"

definition LEGAL_EDGES :: "(OrderState \<times> OrderState) list" where
  "LEGAL_EDGES =
    [(PENDING_NEW, NEW),
     (PENDING_NEW, REJECTED),
     (NEW, PARTIALLY_FILLED),
     (NEW, FILLED),
     (NEW, EXPIRED),
     (NEW, PENDING_CANCEL),
     (NEW, PENDING_REPLACE),
     (PARTIALLY_FILLED, FILLED),
     (PARTIALLY_FILLED, EXPIRED),
     (PARTIALLY_FILLED, PENDING_CANCEL),
     (PARTIALLY_FILLED, PENDING_REPLACE),
     (PENDING_CANCEL, CANCELLED),
     (PENDING_REPLACE, NEW)]"

definition is_terminal :: "OrderState \<Rightarrow> bool" where
  "is_terminal st = (st \<in> set TERMINAL_STATES)"

definition is_legal :: "OrderState \<Rightarrow> OrderState \<Rightarrow> bool" where
  "is_legal from_state to_state =
     (if from_state = to_state then True else (from_state, to_state) \<in> set LEGAL_EDGES)"

definition assert_legal :: "OrderState \<Rightarrow> OrderState \<Rightarrow> string option \<Rightarrow> exn + unit" where
  "assert_legal from_state to_state cid =
     (if \<not> is_legal from_state to_state then Inl (Rejected IllegalTransition cid) else Inr ())"

section \<open>The step relation\<close>

inductive edge :: "OrderState \<Rightarrow> OrderState \<Rightarrow> bool" where
  ack: "edge PENDING_NEW NEW"
| reject: "edge PENDING_NEW REJECTED"
| partial_fill: "edge NEW PARTIALLY_FILLED"
| fill: "s \<in> {NEW, PARTIALLY_FILLED} \<Longrightarrow> edge s FILLED"
| expire: "s \<in> {NEW, PARTIALLY_FILLED} \<Longrightarrow> edge s EXPIRED"
| cancel_request: "s \<in> {NEW, PARTIALLY_FILLED} \<Longrightarrow> edge s PENDING_CANCEL"
| replace_request: "s \<in> {NEW, PARTIALLY_FILLED} \<Longrightarrow> edge s PENDING_REPLACE"
| cancel_confirm: "edge PENDING_CANCEL CANCELLED"
| replace_confirm: "edge PENDING_REPLACE NEW"

inductive_cases edge_from_newE: "edge NEW t"
inductive_cases edge_to_cancelledE: "edge s CANCELLED"
inductive_cases edge_to_rejectedE: "edge s REJECTED"

inductive_simps edge_from_simps [simp]:
  "edge PENDING_NEW t"
  "edge NEW t"
  "edge PARTIALLY_FILLED t"
  "edge FILLED t"
  "edge PENDING_CANCEL t"
  "edge PENDING_REPLACE t"
  "edge CANCELLED t"
  "edge REJECTED t"
  "edge EXPIRED t"

text \<open>The table is the relation: nothing is missing from it and nothing is extra.\<close>

lemma LEGAL_EDGES_edge: "(s, t) \<in> set LEGAL_EDGES \<longleftrightarrow> edge s t"
  by (cases s) (auto simp: LEGAL_EDGES_def)

lemma is_legal_edge: "is_legal s t \<longleftrightarrow> s = t \<or> edge s t"
  by (simp add: is_legal_def LEGAL_EDGES_edge)

lemma assert_legal_ok: "assert_legal s t cid = Inr () \<longleftrightarrow> s = t \<or> edge s t"
  by (simp add: assert_legal_def is_legal_edge)

lemma edge_irreflexive: "\<not> edge s s"
  by (cases s) simp_all

lemma terminal_iff_stuck: "is_terminal s \<longleftrightarrow> (\<forall>t. \<not> edge s t)"
  by (cases s) (auto simp: is_terminal_def TERMINAL_STATES_def)

section \<open>Paths and histories\<close>

text \<open>What a sequence of guarded updates does to one status.\<close>

definition legal_path :: "OrderState \<Rightarrow> OrderState \<Rightarrow> bool" where
  "legal_path = edge\<^sup>*\<^sup>*"

lemma legal_path_refl [simp]: "legal_path s s"
  by (simp add: legal_path_def)

lemma legal_path_trans: "legal_path s t \<Longrightarrow> legal_path t u \<Longrightarrow> legal_path s u"
  by (simp add: legal_path_def)

lemma is_legal_path: "is_legal s t \<Longrightarrow> legal_path s t"
  by (auto simp: is_legal_edge legal_path_def)

lemma legal_path_terminal: "legal_path s t \<Longrightarrow> is_terminal s \<Longrightarrow> t = s"
  unfolding legal_path_def
  by (induction rule: converse_rtranclp_induct) (auto simp: terminal_iff_stuck)

text \<open>
  A history is the list of statuses an order went through, oldest first. It is legal when
  it starts at the entry state and every step of it is an edge.
\<close>

fun steps_ok :: "OrderState list \<Rightarrow> bool" where
  "steps_ok [] = True"
| "steps_ok [s] = True"
| "steps_ok (s # t # ts) = (edge s t \<and> steps_ok (t # ts))"

definition history_ok :: "OrderState list \<Rightarrow> bool" where
  "history_ok h = (h \<noteq> [] \<and> hd h = ENTRY_STATE \<and> steps_ok h)"

lemma steps_ok_append:
  "steps_ok (xs @ s # ys) \<longleftrightarrow> steps_ok (xs @ [s]) \<and> steps_ok (s # ys)"
  by (induction xs rule: steps_ok.induct) auto

lemma steps_ok_snoc: "steps_ok (xs @ [s, t]) \<longleftrightarrow> steps_ok (xs @ [s]) \<and> edge s t"
  using steps_ok_append [of xs s "[t]"] by simp

lemma steps_ok_path: "steps_ok (s # xs) \<Longrightarrow> t \<in> set (s # xs) \<Longrightarrow> legal_path s t"
proof (induction xs arbitrary: s)
  case (Cons u us)
  then have "edge s u" and "steps_ok (u # us)" by auto
  show ?case
  proof (cases "t = s")
    case False
    with Cons have "legal_path u t" by auto
    with \<open>edge s u\<close> show ?thesis unfolding legal_path_def by (rule converse_rtranclp_into_rtranclp)
  qed simp
qed simp

text \<open>A history splits at any of its states.\<close>

lemma history_ok_split:
  assumes "history_ok (xs @ s # ys)" and "xs \<noteq> []"
  shows "edge (last xs) s"
proof -
  from assms(2) obtain zs u where xs: "xs = zs @ [u]" by (metis rev_exhaust)
  with assms(1) have "steps_ok (zs @ u # s # ys)" by (simp add: history_ok_def)
  then have "steps_ok (u # s # ys)" using steps_ok_append [of zs u "s # ys"] by blast
  then show ?thesis using xs by simp
qed

lemma history_entry_only_first:
  assumes "history_ok (xs @ PENDING_NEW # ys)"
  shows "xs = []"
proof (rule ccontr)
  assume "xs \<noteq> []"
  with assms have "edge (last xs) PENDING_NEW" by (rule history_ok_split)
  then show False by cases
qed

lemma history_ok_step:
  assumes "history_ok (xs @ s # ys)" and "s \<noteq> PENDING_NEW"
  shows "xs \<noteq> [] \<and> edge (last xs) s"
proof -
  have "xs \<noteq> []" using assms by (auto simp: history_ok_def ENTRY_STATE_def)
  with history_ok_split [OF assms(1)] show ?thesis by simp
qed

lemma history_terminal_last:
  assumes "history_ok (xs @ s # ys)" and "is_terminal s"
  shows "ys = []"
proof -
  have "steps_ok (s # ys)"
    using assms steps_ok_append [of xs s ys] by (simp add: history_ok_def)
  with assms(2) show ?thesis by (cases ys) (auto simp: terminal_iff_stuck)
qed

lemma history_rejected_whole:
  assumes "history_ok (xs @ REJECTED # ys)"
  shows "xs = [PENDING_NEW] \<and> ys = []"
proof -
  have "xs \<noteq> []" and "edge (last xs) REJECTED" using history_ok_step [OF assms] by auto
  then have "xs = butlast xs @ [PENDING_NEW]"
    by (metis append_butlast_last_id edge_to_rejectedE)
  moreover from this have "history_ok (butlast xs @ PENDING_NEW # REJECTED # ys)"
    using assms by (metis append.assoc append_Cons append_Nil)
  then have "butlast xs = []" by (rule history_entry_only_first)
  moreover have "ys = []"
    using history_terminal_last [OF assms] by (simp add: is_terminal_def TERMINAL_STATES_def)
  ultimately show ?thesis by simp
qed

lemma history_after_new:
  assumes "history_ok (xs @ s # ys)" and "s \<notin> {PENDING_NEW, NEW, REJECTED}"
  shows "NEW \<in> set xs"
  using assms
proof (induction xs arbitrary: s ys rule: rev_induct)
  case Nil
  then show ?case by (simp add: history_ok_def ENTRY_STATE_def)
next
  case (snoc u us)
  then have "edge u s" using history_ok_step [of "us @ [u]" s ys] by auto
  with snoc.prems have "u \<notin> {PENDING_NEW, REJECTED}" by (cases u; auto)
  then show ?case using snoc.IH [of u "s # ys"] snoc.prems by (cases "u = NEW") auto
qed

text \<open>
  The shape of every legal order history: a terminal status is its last one, so an order
  ends at most once; CANCELLED follows PENDING_CANCEL immediately; REJECTED follows the
  entry state, so it is the answer to a submission and the history has no other states;
  and every other status after the entry comes after NEW, so nothing fills, expires, is
  cancelled or is amended before the venue acknowledged it.
\<close>

theorem history_shape:
  assumes "history_ok (xs @ s # ys)"
  shows "(is_terminal s \<longrightarrow> ys = []) \<and>
    (s = CANCELLED \<longrightarrow> xs \<noteq> [] \<and> last xs = PENDING_CANCEL) \<and>
    (s = REJECTED \<longrightarrow> xs = [PENDING_NEW] \<and> ys = []) \<and>
    (s \<notin> {PENDING_NEW, NEW, REJECTED} \<longrightarrow> NEW \<in> set xs)"
proof (intro conjI impI)
  assume "s = CANCELLED"
  then have "edge (last xs) CANCELLED" and "xs \<noteq> []" using history_ok_step [OF assms] by auto
  then show "xs \<noteq> []" and "last xs = PENDING_CANCEL" by (auto elim: edge_to_cancelledE)
qed (use assms history_terminal_last history_rejected_whole history_after_new in blast)+

theorem history_shape_witness:
  "history_ok ([PENDING_NEW, NEW, PARTIALLY_FILLED, PENDING_CANCEL] @ CANCELLED # []) \<and>
   last [PENDING_NEW, NEW, PARTIALLY_FILLED, PENDING_CANCEL] = PENDING_CANCEL \<and>
   NEW \<in> set [PENDING_NEW, NEW, PARTIALLY_FILLED, PENDING_CANCEL]"
proof -
  have h: "history_ok ([PENDING_NEW, NEW, PARTIALLY_FILLED, PENDING_CANCEL] @ CANCELLED # [])"
    by (simp add: history_ok_def ENTRY_STATE_def)
  show ?thesis using h history_shape [OF h] by simp
qed

text \<open>
  The guard admits exactly the thirteen frozen edges besides the no-op, every state is
  reachable from the entry state, and every state that is not terminal can still be driven
  to a terminal one: no order can get stuck for want of an edge.
\<close>

theorem edges_frozen_and_live:
  "length LEGAL_EDGES = 13 \<and> distinct LEGAL_EDGES \<and>
   (\<forall>s t. is_legal s t \<longleftrightarrow> s = t \<or> edge s t) \<and>
   (\<forall>s. legal_path ENTRY_STATE s) \<and>
   (\<forall>s. \<exists>t. legal_path s t \<and> is_terminal t)"
proof (intro conjI allI)
  show "length LEGAL_EDGES = 13" and "distinct LEGAL_EDGES"
    by (simp_all add: LEGAL_EDGES_def)
  show "is_legal s t \<longleftrightarrow> s = t \<or> edge s t" for s t by (rule is_legal_edge)
  have e1: "legal_path s t" if "edge s t" for s t
    using that by (auto simp: legal_path_def)
  have new: "legal_path ENTRY_STATE NEW" by (rule e1) (simp add: ENTRY_STATE_def)
  have via: "legal_path ENTRY_STATE t" if "edge NEW t" for t
    using legal_path_trans [OF new e1 [OF that]] .
  have cancelled: "legal_path PENDING_CANCEL CANCELLED" by (rule e1) simp
  show "legal_path ENTRY_STATE s" for s
    using new via [of PARTIALLY_FILLED] via [of FILLED] via [of EXPIRED] via [of PENDING_REPLACE]
      via [of PENDING_CANCEL] legal_path_trans [OF via cancelled] e1 [of ENTRY_STATE REJECTED]
    by (cases s) (auto simp: ENTRY_STATE_def)
  have filled: "legal_path NEW FILLED" and replaced: "legal_path PENDING_REPLACE NEW"
    and rejected: "legal_path PENDING_NEW REJECTED" and pf: "legal_path PARTIALLY_FILLED FILLED"
    by (rule e1, simp)+
  show "\<exists>t. legal_path s t \<and> is_terminal t" for s
    using filled rejected pf cancelled legal_path_trans [OF replaced filled]
    by (cases s) (auto simp: is_terminal_def TERMINAL_STATES_def intro: legal_path_refl)
qed

end
