(* ===== verification/EventHub.thy ===== *)
theory EventHub
  imports OrderStateMachine
begin

text \<open>
  The order-update fan-out of \<open>events/hub.py\<close> with the event schema of \<open>events/models.py\<close>:
  the bounded per-subscriber queue with its gap accounting, the ring buffer that serves
  reconnects, and the bounded strategy attribution map. Timestamps are integers
  (microseconds since the epoch).
\<close>

section \<open>Events\<close>

type_synonym timestamp = int

record FillEvent =
  fe_broker_fill_id :: string
  fe_price :: decimal
  fe_quantity :: int
  fe_exec_ts :: timestamp

record OrderUpdateEvent =
  seq :: nat
  ev_client_order_id :: string
  ev_strategy_id :: "string option"
  engine_state :: OrderState
  ev_status :: PublicOrderStatus
  ev_broker_order_id :: "string option"
  ev_price :: "decimal option"
  ev_quantity :: "int option"
  ev_fill :: "FillEvent option"
  ts :: timestamp

datatype item = Event OrderUpdateEvent | GapMarker

definition derive_status :: "OrderState \<Rightarrow> PublicOrderStatus" where
  "derive_status st = to_public_status st 0"

section \<open>Subscription: a bounded queue that drops its oldest item\<close>

record Subscription =
  maxsize :: int
  queue :: "item list"
  dropped :: nat
  gap_pending :: bool

definition new_subscription :: "int \<Rightarrow> Subscription" where
  "new_subscription n = \<lparr>maxsize = n, queue = [], dropped = 0, gap_pending = False\<rparr>"

text \<open>\<open>asyncio.Queue.full\<close>: a maximum size of zero or less means unbounded.\<close>

definition full :: "Subscription \<Rightarrow> bool" where
  "full s = (0 < maxsize s \<and> maxsize s \<le> int (length (queue s)))"

text \<open>\<open>put_nowait\<close>, None where it raises \<open>QueueFull\<close>.\<close>

definition put_nowait :: "item \<Rightarrow> Subscription \<Rightarrow> Subscription option" where
  "put_nowait x s = (if full s then None else Some (s\<lparr>queue := queue s @ [x]\<rparr>))"

text \<open>\<open>with suppress(QueueFull): put_nowait(x)\<close>.\<close>

definition put_suppressed :: "item \<Rightarrow> Subscription \<Rightarrow> Subscription" where
  "put_suppressed x s = (case put_nowait x s of Some t \<Rightarrow> t | None \<Rightarrow> s)"

definition drop_oldest :: "Subscription \<Rightarrow> Subscription" where
  "drop_oldest s =
     (case queue s of
        [] \<Rightarrow> s
      | x # xs \<Rightarrow> s\<lparr>queue := xs, gap_pending := (if x = GapMarker then False else gap_pending s)\<rparr>)"

definition ensure_gap_marker :: "Subscription \<Rightarrow> Subscription" where
  "ensure_gap_marker s =
     (if gap_pending s then s else put_suppressed GapMarker (s\<lparr>gap_pending := True\<rparr>))"

definition offer :: "OrderUpdateEvent \<Rightarrow> Subscription \<Rightarrow> Subscription" where
  "offer e s =
     (case put_nowait (Event e) s of
        Some t \<Rightarrow> t
      | None \<Rightarrow>
          let s1 = drop_oldest s;
              s2 = s1\<lparr>dropped := dropped s1 + 1\<rparr>;
              s3 = ensure_gap_marker s2
          in put_suppressed (Event e) s3)"

definition take_dropped :: "Subscription \<Rightarrow> nat \<times> Subscription" where
  "take_dropped s = (dropped s, s\<lparr>dropped := 0, gap_pending := False\<rparr>)"

text \<open>
  The reader: it takes the head of the queue, and on a marker it takes the drop count.
\<close>

datatype frame = Deliver OrderUpdateEvent | Gap nat

definition read_one :: "Subscription \<Rightarrow> (frame \<times> Subscription) option" where
  "read_one s =
     (case queue s of
        [] \<Rightarrow> None
      | Event e # xs \<Rightarrow> Some (Deliver e, s\<lparr>queue := xs\<rparr>)
      | GapMarker # xs \<Rightarrow>
          (case take_dropped (s\<lparr>queue := xs\<rparr>) of (n, t) \<Rightarrow> Some (Gap n, t)))"

fun events_of :: "item list \<Rightarrow> OrderUpdateEvent list" where
  "events_of [] = []"
| "events_of (Event e # xs) = e # events_of xs"
| "events_of (GapMarker # xs) = events_of xs"

lemma events_of_append [simp]: "events_of (xs @ ys) = events_of xs @ events_of ys"
  by (induction xs rule: events_of.induct) auto

text \<open>The queue never exceeds its bound, and a marker is queued exactly while a gap is pending.\<close>

definition sub_wf :: "Subscription \<Rightarrow> bool" where
  "sub_wf s \<longleftrightarrow>
     (0 < maxsize s \<longrightarrow> int (length (queue s)) \<le> maxsize s) \<and>
     count_list (queue s) GapMarker = (if gap_pending s then 1 else 0)"

text \<open>
  The number of events a queue lost since its reader last took the drop count, in terms
  of what the queue itself recorded: one more than \<open>dropped\<close> while a gap is pending.
\<close>

definition lost_since_read :: "Subscription \<Rightarrow> nat" where
  "lost_since_read s = dropped s + (if gap_pending s then 1 else 0)"

lemma sub_wf_new: "sub_wf (new_subscription n)"
  by (simp add: sub_wf_def new_subscription_def)

lemma full_queue_nonempty: "full s \<Longrightarrow> queue s \<noteq> []"
  by (auto simp: full_def)

text \<open>What one offer does, case by case, on a full queue.\<close>

lemma offer_full_marker_pending:
  assumes "full s" "sub_wf s" "queue s = Event x # xs" "gap_pending s"
  shows "offer e s = s\<lparr>queue := xs @ [Event e], dropped := dropped s + 1\<rparr>"
  using assms
  by (auto simp: offer_def put_nowait_def drop_oldest_def ensure_gap_marker_def
      put_suppressed_def full_def sub_wf_def Let_def)

lemma offer_full_no_marker:
  assumes "full s" "sub_wf s" "queue s = Event x # xs" "\<not> gap_pending s"
  shows "offer e s = s\<lparr>queue := xs @ [GapMarker], dropped := dropped s + 1, gap_pending := True\<rparr>"
  using assms
  by (auto simp: offer_def put_nowait_def drop_oldest_def ensure_gap_marker_def
      put_suppressed_def full_def sub_wf_def Let_def)

lemma offer_full_marker_head:
  assumes "full s" "sub_wf s" "queue s = GapMarker # xs"
  shows "offer e s = s\<lparr>queue := xs @ [GapMarker], dropped := dropped s + 1, gap_pending := True\<rparr>"
  using assms
  by (auto simp: offer_def put_nowait_def drop_oldest_def ensure_gap_marker_def
      put_suppressed_def full_def sub_wf_def Let_def)

lemma offer_room: "\<not> full s \<Longrightarrow> offer e s = s\<lparr>queue := queue s @ [Event e]\<rparr>"
  by (simp add: offer_def put_nowait_def)

lemma offer_cases:
  assumes "sub_wf s"
  obtains (room) "\<not> full s" and "offer e s = s\<lparr>queue := queue s @ [Event e]\<rparr>"
  | (swap) x xs where "full s" and "queue s = Event x # xs" and "gap_pending s"
      and "offer e s = s\<lparr>queue := xs @ [Event e], dropped := dropped s + 1\<rparr>"
  | (first) x xs where "full s" and "queue s = Event x # xs" and "\<not> gap_pending s"
      and "offer e s = s\<lparr>queue := xs @ [GapMarker], dropped := dropped s + 1, gap_pending := True\<rparr>"
  | (rearm) xs where "full s" and "queue s = GapMarker # xs"
      and "offer e s = s\<lparr>queue := xs @ [GapMarker], dropped := dropped s + 1, gap_pending := True\<rparr>"
proof (cases "full s")
  case False
  then show thesis by (rule room) (rule offer_room [OF False])
next
  case True
  then obtain x xs where q: "queue s = x # xs" by (metis full_queue_nonempty neq_Nil_conv)
  show thesis
  proof (cases x)
    case GapMarker
    then show thesis using rearm True q offer_full_marker_head [OF True assms] by blast
  next
    case (Event y)
    with q have q': "queue s = Event y # xs" by simp
    show thesis
    proof (cases "gap_pending s")
      case gap: True
      show thesis by (rule swap [OF True q' gap offer_full_marker_pending [OF True assms q' gap]])
    next
      case gap: False
      show thesis by (rule first [OF True q' gap offer_full_no_marker [OF True assms q' gap]])
    qed
  qed
qed

lemma offer_maxsize: "sub_wf s \<Longrightarrow> maxsize (offer e s) = maxsize s"
  by (erule offer_cases [of s e]) auto

lemma offer_wf:
  assumes "sub_wf s"
  shows "sub_wf (offer e s)"
  using assms
  by (cases rule: offer_cases [OF assms, of e]) (auto simp: sub_wf_def full_def split: if_splits)

lemma read_one_wf: "sub_wf s \<Longrightarrow> read_one s = Some (f, t) \<Longrightarrow> sub_wf t"
  by (cases "queue s"; cases "hd (queue s)")
    (auto simp: read_one_def sub_wf_def take_dropped_def split: if_splits)

text \<open>
  Loss accounting. \<open>offered\<close> counts the events offered so far, \<open>delivered\<close> those the reader
  received and \<open>reported\<close> the sum of the drop counts it was told; \<open>gaps\<close> is the number of
  gap frames it was sent.
\<close>

record ledger =
  offered :: nat
  delivered :: nat
  reported :: nat
  gaps :: nat

inductive sub_run :: "int \<Rightarrow> Subscription \<Rightarrow> ledger \<Rightarrow> bool" for n where
  opened: "sub_run n (new_subscription n) \<lparr>offered = 0, delivered = 0, reported = 0, gaps = 0\<rparr>"
| offering: "sub_run n s l \<Longrightarrow> sub_run n (offer e s) (l\<lparr>offered := offered l + 1\<rparr>)"
| delivering: "sub_run n s l \<Longrightarrow> read_one s = Some (Deliver e, t) \<Longrightarrow>
     sub_run n t (l\<lparr>delivered := delivered l + 1\<rparr>)"
| reporting: "sub_run n s l \<Longrightarrow> read_one s = Some (Gap k, t) \<Longrightarrow>
     sub_run n t (l\<lparr>reported := reported l + k, gaps := gaps l + 1\<rparr>)"

lemma sub_run_wf: "sub_run n s l \<Longrightarrow> sub_wf s \<and> maxsize s = n"
proof (induction rule: sub_run.induct)
  case opened
  show ?case by (simp add: sub_wf_new) (simp add: new_subscription_def)
next
  case (offering s l e)
  then show ?case by (simp add: offer_wf offer_maxsize)
next
  case (delivering s l e t)
  then show ?case
    by (auto simp: read_one_wf)
      (auto simp: read_one_def take_dropped_def split: list.splits item.splits)
next
  case (reporting s l k t)
  then show ?case
    by (auto simp: read_one_wf)
      (auto simp: read_one_def take_dropped_def split: list.splits item.splits)
qed

lemma sub_run_balance:
  "sub_run n s l \<Longrightarrow>
     offered l = delivered l + length (events_of (queue s)) + reported l + gaps l + lost_since_read s"
proof (induction rule: sub_run.induct)
  case opened
  show ?case by (simp add: new_subscription_def lost_since_read_def)
next
  case (offering s l e)
  have "sub_wf s" using sub_run_wf [OF offering.hyps] by simp
  then show ?case using offering.IH
  proof (cases rule: offer_cases [of s e])
    case rearm
    with \<open>sub_wf s\<close> have "gap_pending s" by (auto simp: sub_wf_def split: if_splits)
    with rearm offering.IH show ?thesis by (simp add: lost_since_read_def)
  qed (simp_all add: lost_since_read_def)
next
  case (delivering s l e t)
  then show ?case
    by (auto simp: read_one_def take_dropped_def lost_since_read_def split: list.splits item.splits)
next
  case (reporting s l k t)
  then have "gap_pending s"
    using sub_run_wf [OF reporting.hyps(1)]
    by (auto simp: read_one_def sub_wf_def split: list.splits item.splits if_splits)
  with reporting show ?case
    by (auto simp: read_one_def take_dropped_def lost_since_read_def split: list.splits item.splits)
qed

text \<open>
  C40. Loss accounting of the stream, over every interleaving of offers and reads: every event
  ever offered to a subscriber was delivered, is still queued, was counted in a drop count,
  or is the one further event that each gap loses uncounted (the event whose offer opened
  the gap loses its own slot to the marker). So a reader that has been sent \<open>gaps\<close> gap frames
  under-counts its loss by exactly that number, and a bounded queue never exceeds its size.
\<close>

theorem subscription_loss_accounting:
  assumes "sub_run n s l"
  shows "offered l = delivered l + length (events_of (queue s)) +
           (reported l + dropped s) + (gaps l + (if gap_pending s then 1 else 0)) \<and>
         (0 < n \<longrightarrow> int (length (queue s)) \<le> n)"
  using sub_run_balance [OF assms] sub_run_wf [OF assms]
  by (auto simp: lost_since_read_def sub_wf_def)

definition demo_event :: "nat \<Rightarrow> OrderUpdateEvent" where
  "demo_event k =
     \<lparr>seq = k, ev_client_order_id = ''c'', ev_strategy_id = None, engine_state = NEW,
      ev_status = Public_NEW, ev_broker_order_id = None, ev_price = None, ev_quantity = None,
      ev_fill = None, ts = 0\<rparr>"

text \<open>
  Two offers to a queue of one: both events are gone, the count says one was dropped.
\<close>

theorem subscription_loss_accounting_witness:
  "\<exists>s l. sub_run 1 s l \<and> offered l = 2 \<and> dropped s = 1 \<and> events_of (queue s) = [] \<and>
     offered l = delivered l + length (events_of (queue s)) +
       (reported l + dropped s) + (gaps l + (if gap_pending s then 1 else 0))"
proof -
  let ?s = "offer (demo_event 2) (offer (demo_event 1) (new_subscription 1))"
  let ?l = "\<lparr>offered = 2, delivered = 0, reported = 0, gaps = 0\<rparr>"
  have run: "sub_run 1 ?s ?l"
    using sub_run.offering [OF sub_run.offering [OF sub_run.opened], of 1 "demo_event 2" "demo_event 1"]
    by (simp add: numeral_2_eq_2)
  have "dropped ?s = 1 \<and> events_of (queue ?s) = []"
    by (simp add: offer_def new_subscription_def put_nowait_def full_def drop_oldest_def
        ensure_gap_marker_def put_suppressed_def)
  then show ?thesis using run subscription_loss_accounting [OF run] by (auto intro!: exI)
qed

section \<open>The hub\<close>

record EventHub =
  ring_size :: nat
  ring :: "OrderUpdateEvent list"
  subscriber_queue_size :: int
  next_seq :: nat
  subscriptions :: "(nat \<times> Subscription) list"
  next_sub :: nat
  strategy_by_cid :: "(string \<times> string) list"

definition STRATEGY_MAP_CAP :: nat where
  "STRATEGY_MAP_CAP = 4096"

definition new_hub :: "nat \<Rightarrow> int \<Rightarrow> EventHub" where
  "new_hub ring_buffer_size queue_size =
     \<lparr>ring_size = ring_buffer_size, ring = [], subscriber_queue_size = queue_size, next_seq = 1,
      subscriptions = [], next_sub = 0, strategy_by_cid = []\<rparr>"

text \<open>The attribution map, oldest entry first, as \<open>OrderedDict\<close> keeps it.\<close>

definition register_strategy :: "string \<Rightarrow> string \<Rightarrow> EventHub \<Rightarrow> EventHub" where
  "register_strategy cid sid h =
     (let m = filter (\<lambda>(k, _). k \<noteq> cid) (strategy_by_cid h) @ [(cid, sid)]
      in h\<lparr>strategy_by_cid := drop (length m - STRATEGY_MAP_CAP) m\<rparr>)"

definition resolve_strategy :: "EventHub \<Rightarrow> string \<Rightarrow> string option \<Rightarrow> string option" where
  "resolve_strategy h cid sid =
     (case sid of Some s \<Rightarrow> Some s | None \<Rightarrow> map_of (strategy_by_cid h) cid)"

text \<open>\<open>deque(maxlen=n).append\<close>: the oldest entry falls off a full ring.\<close>

definition ring_append :: "nat \<Rightarrow> 'a \<Rightarrow> 'a list \<Rightarrow> 'a list" where
  "ring_append n x xs = drop (length xs + 1 - n) (xs @ [x])"

definition publish ::
  "timestamp \<Rightarrow> string \<Rightarrow> OrderState \<Rightarrow> string option \<Rightarrow> string option \<Rightarrow> decimal option \<Rightarrow>
   int option \<Rightarrow> FillEvent option \<Rightarrow> EventHub \<Rightarrow> EventHub" where
  "publish now cid st sid boid pr qty fl h =
     (let e = \<lparr>seq = next_seq h, ev_client_order_id = cid, ev_strategy_id = resolve_strategy h cid sid,
               engine_state = st, ev_status = derive_status st, ev_broker_order_id = boid,
               ev_price = pr, ev_quantity = qty, ev_fill = fl, ts = now\<rparr>
      in h\<lparr>next_seq := next_seq h + 1,
           ring := ring_append (ring_size h) e (ring h),
           subscriptions := map (\<lambda>(i, s). (i, offer e s)) (subscriptions h)\<rparr>)"

definition replay :: "int \<Rightarrow> EventHub \<Rightarrow> OrderUpdateEvent list \<times> bool" where
  "replay after_seq h =
     (if after_seq \<le> 0 then ([], False)
      else (filter (\<lambda>e. after_seq < int (seq e)) (ring h),
            (case ring h of [] \<Rightarrow> False | e # _ \<Rightarrow> after_seq < int (seq e) - 1)))"

text \<open>Entering \<open>subscribe\<close> registers a fresh queue, leaving it removes that queue.\<close>

definition subscribe :: "EventHub \<Rightarrow> nat \<times> EventHub" where
  "subscribe h =
     (next_sub h,
      h\<lparr>subscriptions := subscriptions h @ [(next_sub h, new_subscription (subscriber_queue_size h))],
        next_sub := next_sub h + 1\<rparr>)"

definition unsubscribe :: "nat \<Rightarrow> EventHub \<Rightarrow> EventHub" where
  "unsubscribe i h = h\<lparr>subscriptions := filter (\<lambda>(j, _). j \<noteq> i) (subscriptions h)\<rparr>"

definition subscriber_count :: "EventHub \<Rightarrow> nat" where
  "subscriber_count h = length (subscriptions h)"

text \<open>
  The hub's invariant: the ring holds the most recent events, numbered consecutively up to
  the last one published; the attribution map is within its cap and has one entry per
  order; every subscriber's queue is well formed.
\<close>

definition hub_wf :: "EventHub \<Rightarrow> bool" where
  "hub_wf h \<longleftrightarrow>
     1 \<le> next_seq h \<and>
     length (ring h) \<le> ring_size h \<and> length (ring h) < next_seq h \<and>
     map seq (ring h) = [next_seq h - length (ring h) ..< next_seq h] \<and>
     length (strategy_by_cid h) \<le> STRATEGY_MAP_CAP \<and> distinct (map fst (strategy_by_cid h)) \<and>
     distinct (map fst (subscriptions h)) \<and>
     (\<forall>(i, s) \<in> set (subscriptions h). i < next_sub h \<and> sub_wf s)"

lemma hub_wf_new: "hub_wf (new_hub r q)"
  by (simp add: hub_wf_def new_hub_def)

lemma hub_wf_register: "hub_wf h \<Longrightarrow> hub_wf (register_strategy cid sid h)"
proof -
  assume wf: "hub_wf h"
  let ?m = "filter (\<lambda>(k, _). k \<noteq> cid) (strategy_by_cid h) @ [(cid, sid)]"
  have "distinct (map fst (strategy_by_cid h))" using wf by (simp add: hub_wf_def)
  then have "distinct (map fst (filter (\<lambda>(k, _). k \<noteq> cid) (strategy_by_cid h)))"
    by (rule distinct_map_filter)
  then have "distinct (map fst ?m)" by auto
  then have "distinct (map fst (drop (length ?m - STRATEGY_MAP_CAP) ?m))"
    by (simp only: drop_map [symmetric] distinct_drop)
  with wf show ?thesis
    by (auto simp: hub_wf_def register_strategy_def Let_def)
qed

lemma length_ring_append: "length (ring_append n x xs) = min n (length xs + 1)"
  by (simp add: ring_append_def)

lemma map_ring_append: "map f (ring_append n x xs) = ring_append n (f x) (map f xs)"
  unfolding ring_append_def by (simp only: drop_map [symmetric] map_append list.map length_map)

lemma ring_append_upt:
  assumes "a \<le> b" and "b - a \<le> n"
  shows "ring_append n b [a ..< b] = [b + 1 - min n (b + 1 - a) ..< b + 1]"
proof -
  have "[a ..< b] @ [b] = [a ..< b + 1]" using assms by simp
  then show ?thesis using assms by (simp add: ring_append_def min_def del: upt_Suc)
qed

lemma hub_wf_publish: "hub_wf h \<Longrightarrow> hub_wf (publish now cid st sid boid pr qty fl h)"
proof -
  assume wf: "hub_wf h"
  let ?k = "length (ring h)"
  have seqs: "map seq (ring h) = [next_seq h - ?k ..< next_seq h]" and "?k < next_seq h"
    and "?k \<le> ring_size h" using wf by (auto simp: hub_wf_def)
  then have "ring_append (ring_size h) (next_seq h) (map seq (ring h)) =
      [next_seq h + 1 - min (ring_size h) (?k + 1) ..< next_seq h + 1]"
    using ring_append_upt [of "next_seq h - ?k" "next_seq h" "ring_size h"] by simp
  with wf show ?thesis
    by (auto simp: hub_wf_def publish_def Let_def length_ring_append map_ring_append offer_wf
        comp_def case_prod_unfold)
qed

lemma hub_wf_subscribe: "hub_wf h \<Longrightarrow> hub_wf (snd (subscribe h))"
  by (fastforce simp: hub_wf_def subscribe_def sub_wf_new)

lemma hub_wf_unsubscribe: "hub_wf h \<Longrightarrow> hub_wf (unsubscribe i h)"
  by (auto simp: hub_wf_def unsubscribe_def intro: distinct_map_filter)

text \<open>\<open>published\<close> collects the event each publication stamped, oldest first.\<close>

inductive hub_run :: "nat \<Rightarrow> int \<Rightarrow> EventHub \<Rightarrow> OrderUpdateEvent list \<Rightarrow> bool" for r q where
  created: "hub_run r q (new_hub r q) []"
| published: "hub_run r q h es \<Longrightarrow> h' = publish now cid st sid boid pr qty fl h \<Longrightarrow>
     e = \<lparr>seq = next_seq h, ev_client_order_id = cid, ev_strategy_id = resolve_strategy h cid sid,
          engine_state = st, ev_status = derive_status st, ev_broker_order_id = boid,
          ev_price = pr, ev_quantity = qty, ev_fill = fl, ts = now\<rparr> \<Longrightarrow>
     hub_run r q h' (es @ [e])"
| registered: "hub_run r q h es \<Longrightarrow> hub_run r q (register_strategy cid sid h) es"
| subscribed: "hub_run r q h es \<Longrightarrow> hub_run r q (snd (subscribe h)) es"
| unsubscribed: "hub_run r q h es \<Longrightarrow> hub_run r q (unsubscribe i h) es"

lemma hub_run_wf: "hub_run r q h es \<Longrightarrow> hub_wf h"
  by (induction rule: hub_run.induct)
    (simp_all add: hub_wf_new hub_wf_publish hub_wf_register hub_wf_subscribe hub_wf_unsubscribe)

lemma ring_append_drop:
  "ring_append n x (drop (length xs - n) xs) = drop (length xs + 1 - n) (xs @ [x])"
  by (cases "n \<le> length xs") (auto simp: ring_append_def drop_Cons' min_def Suc_diff_le)

text \<open>The ring is the tail of everything published, and the numbering is 1, 2, 3 and on.\<close>

lemma hub_run_ring:
  "hub_run r q h es \<Longrightarrow>
     ring_size h = r \<and> ring h = drop (length es - r) es \<and> next_seq h = length es + 1 \<and>
     map seq es = [1 ..< length es + 1]"
proof (induction rule: hub_run.induct)
  case (published h es h' now cid st sid boid pr qty fl e)
  have "ring h' = ring_append r e (drop (length es - r) es)"
    using published by (simp add: publish_def Let_def)
  also have "\<dots> = drop (length (es @ [e]) - r) (es @ [e])" by (simp add: ring_append_drop)
  finally show ?case using published by (simp add: publish_def Let_def)
qed (simp_all add: new_hub_def register_strategy_def subscribe_def unsubscribe_def Let_def)

lemma filter_after_upt:
  assumes "map seq es = [1 ..< length es + 1]"
  shows "filter (\<lambda>e. k < int (seq e)) es = drop (nat k) es"
  using assms
proof (induction es rule: rev_induct)
  case (snoc e es)
  then have "map seq es = [1 ..< length es + 1]" and "seq e = length es + 1" by auto
  with snoc.IH show ?case by (cases "k \<le> int (length es)") auto
qed simp

lemma hub_run_nth: "hub_run r q h es \<Longrightarrow> i < length es \<Longrightarrow> seq (es ! i) = i + 1"
  using hub_run_ring [of r q h es] nth_map [of i es seq] by (simp del: upt_Suc)

lemma hub_run_distinct: "hub_run r q h es \<Longrightarrow> distinct es"
  by (metis hub_run_ring distinct_upt distinct_map)

text \<open>The evicted events are the prefix before the ring.\<close>

lemma hub_run_evicted:
  assumes "hub_run r q h es" and "e \<in> set es"
  shows "e \<notin> set (ring h) \<longleftrightarrow> (\<exists>i < length es - r. e = es ! i)"
proof -
  let ?d = "length es - r"
  have ring: "ring h = drop ?d es" using hub_run_ring [OF assms(1)] by simp
  have "distinct (take ?d es @ drop ?d es)" using hub_run_distinct [OF assms(1)] by simp
  then have "set (take ?d es) \<inter> set (ring h) = {}" unfolding ring distinct_append by blast
  moreover have "set (take ?d es) \<union> set (ring h) = set es"
    unfolding ring by (metis append_take_drop_id set_append)
  ultimately have "e \<notin> set (ring h) \<longleftrightarrow> e \<in> set (take ?d es)" using assms(2) by blast
  then show ?thesis by (auto simp: in_set_conv_nth)
qed

lemma hub_run_gap:
  assumes "hub_run r q h es" and "0 < r" and "0 < k"
  shows "snd (replay k h) \<longleftrightarrow> k < int (length es - r)"
proof (cases "es = []")
  case True
  then show ?thesis using assms hub_run_ring [OF assms(1)] by (simp add: replay_def)
next
  case False
  let ?d = "length es - r"
  have "?d < length es" using False assms(2) by (cases es) auto
  then obtain rest where "ring h = es ! ?d # rest"
    using hub_run_ring [OF assms(1)] by (metis Cons_nth_drop_Suc)
  with hub_run_nth [OF assms(1) \<open>?d < length es\<close>] assms(3) show ?thesis by (simp add: replay_def)
qed

lemma replay_exact:
  assumes "hub_run r q h es" and "0 < r" and "0 < after_seq" and "\<not> snd (replay after_seq h)"
  shows "fst (replay after_seq h) = drop (nat after_seq) es"
proof -
  let ?d = "length es - r" and ?late = "\<lambda>e. after_seq < int (seq e)"
  have seqs: "map seq es = [1 ..< length es + 1]" and ring: "ring h = drop ?d es"
    using hub_run_ring [OF assms(1)] by auto
  have "filter ?late (take ?d es) = []"
    using hub_run_gap [OF assms(1-3)] assms(4) hub_run_nth [OF assms(1)]
    by (auto simp: filter_empty_conv in_set_conv_nth)
  then have "filter ?late (take ?d es @ drop ?d es) = filter ?late (ring h)"
    by (simp only: filter_append ring append_Nil)
  then show ?thesis using assms(3) filter_after_upt [OF seqs] by (simp add: replay_def)
qed

text \<open>
  Reconnecting with the last sequence number seen, against a ring that can hold at least
  one event: when no gap is flagged the replay is exactly the events published after the
  cursor, in order, none missing and none repeated; and a gap is flagged exactly when some
  event after the cursor has already fallen off the ring.
\<close>

theorem replay_complete_or_gap:
  assumes "hub_run r q h es" and "0 < r" and "0 < after_seq"
  shows "(\<not> snd (replay after_seq h) \<longrightarrow> fst (replay after_seq h) = drop (nat after_seq) es) \<and>
    (snd (replay after_seq h) \<longleftrightarrow> (\<exists>e \<in> set es. after_seq < int (seq e) \<and> e \<notin> set (ring h)))"
proof
  let ?d = "length es - r"
  let ?late = "\<lambda>e. after_seq < int (seq e)"
  have gap: "snd (replay after_seq h) \<longleftrightarrow> after_seq < int ?d" by (rule hub_run_gap [OF assms])
  have late: "?late (es ! i) \<longleftrightarrow> after_seq \<le> int i" if "i < length es" for i
    using hub_run_nth [OF assms(1) that] by auto
  show "\<not> snd (replay after_seq h) \<longrightarrow> fst (replay after_seq h) = drop (nat after_seq) es"
    using replay_exact [OF assms] by blast
  show "snd (replay after_seq h) \<longleftrightarrow> (\<exists>e \<in> set es. ?late e \<and> e \<notin> set (ring h))"
  proof
    assume "snd (replay after_seq h)"
    then have "?d - 1 < ?d" and "?d - 1 < length es" and "after_seq \<le> int (?d - 1)"
      using gap assms(3) by auto
    then show "\<exists>e \<in> set es. ?late e \<and> e \<notin> set (ring h)"
      using hub_run_evicted [OF assms(1), of "es ! (?d - 1)"] late
      by (intro bexI [of _ "es ! (?d - 1)"]) auto
  next
    assume "\<exists>e \<in> set es. ?late e \<and> e \<notin> set (ring h)"
    then obtain i where "i < ?d" and "?late (es ! i)"
      using hub_run_evicted [OF assms(1)] by blast
    then show "snd (replay after_seq h)" using gap late [of i] by simp
  qed
qed

theorem replay_complete_or_gap_witness:
  "\<exists>h es. hub_run 2 8 h es \<and> length es = 1 \<and> \<not> snd (replay 1 h) \<and>
     fst (replay 1 h) = drop (nat 1) es"
proof -
  let ?h = "publish 5 ''c'' NEW None None None None None (new_hub 2 8)"
  obtain es where run: "hub_run 2 8 ?h es" and len: "length es = 1"
    using hub_run.published [OF hub_run.created refl refl, of 2 8 5 "''c''" NEW None None None None None]
    by auto
  have "\<not> snd (replay 1 ?h)"
    by (simp add: replay_def publish_def new_hub_def ring_append_def Let_def)
  then show ?thesis using run len replay_complete_or_gap [OF run, of 1]
    by (intro exI [of _ ?h] exI [of _ es]) simp
qed

end
