(* ===== verification/OrderBook.thy ===== *)
theory OrderBook
  imports EventHub
begin

text \<open>
  The order-book service: the snapshot models (\<open>order_book/models.py\<close>), the provider router
  with its failover (\<open>order_book/router.py\<close>) and the cache with its stream fan-out
  (\<open>order_book/service.py\<close>). The feeds themselves are behind the provider interface: a call
  to a provider is recorded in the router's \<open>calls\<close>, in order.
\<close>

section \<open>Models\<close>

datatype OrderBookSource = Source_LIBERATOR

record OrderBookLevel =
  lv_price :: decimal
  lv_volume :: int

record OrderBook =
  ob_symbol :: string
  ob_market :: Market
  bid_levels :: "OrderBookLevel list"
  ask_levels :: "OrderBookLevel list"
  bid_flag :: string
  ask_flag :: string
  ob_sequence :: int
  ob_source :: OrderBookSource
  received_at :: timestamp

definition best_bid :: "OrderBook \<Rightarrow> OrderBookLevel option" where
  "best_bid b = (case bid_levels b of [] \<Rightarrow> None | l # _ \<Rightarrow> Some l)"

definition best_ask :: "OrderBook \<Rightarrow> OrderBookLevel option" where
  "best_ask b = (case ask_levels b of [] \<Rightarrow> None | l # _ \<Rightarrow> Some l)"

section \<open>Ordered dictionaries\<close>

text \<open>
  Python dicts and \<open>OrderedDict\<close>s keep insertion order: an association list with distinct
  keys, oldest first. Assigning to a key that is there keeps its place.
\<close>

definition od_pop :: "'k \<Rightarrow> ('k \<times> 'v) list \<Rightarrow> ('k \<times> 'v) list" where
  "od_pop k d = filter (\<lambda>e. fst e \<noteq> k) d"

definition od_set :: "'k \<Rightarrow> 'v \<Rightarrow> ('k \<times> 'v) list \<Rightarrow> ('k \<times> 'v) list" where
  "od_set k v d =
     (if k \<in> fst ` set d then map (\<lambda>e. if fst e = k then (k, v) else e) d else d @ [(k, v)])"

text \<open>\<open>d[k] = v; d.move_to_end(k)\<close>.\<close>

definition od_set_last :: "'k \<Rightarrow> 'v \<Rightarrow> ('k \<times> 'v) list \<Rightarrow> ('k \<times> 'v) list" where
  "od_set_last k v d = od_pop k d @ [(k, v)]"

lemma od_pop_keys: "map fst (od_pop k d) = filter (\<lambda>j. j \<noteq> k) (map fst d)"
  by (simp add: od_pop_def filter_map o_def)

lemma od_set_keys:
  "map fst (od_set k v d) = (if k \<in> set (map fst d) then map fst d else map fst d @ [k])"
  by (auto simp: od_set_def)

lemma od_set_distinct: "distinct (map fst d) \<Longrightarrow> distinct (map fst (od_set k v d))"
  by (simp only: od_set_keys) (simp split: if_splits)

lemma od_pop_distinct: "distinct (map fst d) \<Longrightarrow> distinct (map fst (od_pop k d))"
  by (simp only: od_pop_keys distinct_filter)

lemma map_of_replace:
  "map_of (map (\<lambda>e. if fst e = k then (k, v) else e) d) j =
     (if j = k then (if k \<in> fst ` set d then Some v else None) else map_of d j)"
  by (induction d) force+

lemma map_of_od_set: "map_of (od_set k v d) j = (if j = k then Some v else map_of d j)"
proof (cases "k \<in> fst ` set d")
  case True
  then show ?thesis by (simp add: od_set_def map_of_replace)
next
  case False
  then have "map_of d k = None" by (simp add: map_of_eq_None_iff)
  with False show ?thesis by (auto simp: od_set_def map_add_def split: option.splits)
qed

lemma map_of_od_pop: "map_of (od_pop k d) j = (if j = k then None else map_of d j)"
  by (induction d) (auto simp: od_pop_def)

section \<open>\<open>ProviderRouter\<close>\<close>

type_synonym book_key = "string \<times> Market"

datatype 'p call = Subscribe 'p book_key | Unsubscribe 'p book_key

text \<open>The router is generic in its providers; times are in the unit of its clock.\<close>

record 'p ProviderRouter =
  providers :: "'p list"
  active :: 'p
  overrides :: "(string \<times> 'p) list"
  error_threshold :: int
  window_length :: int
  routed :: "(book_key \<times> 'p) list"
  error_times :: "('p \<times> int list) list"
  calls :: "'p call list"

definition new_router ::
  "'p list \<Rightarrow> 'p \<Rightarrow> (string \<times> 'p) list \<Rightarrow> int \<Rightarrow> int \<Rightarrow> string + 'p ProviderRouter" where
  "new_router ps primary ovr threshold window =
     (if primary \<notin> set ps then Inl ''ValueError''
      else Inr \<lparr>providers = ps, active = primary, overrides = ovr, error_threshold = threshold,
                window_length = window, routed = [], error_times = [], calls = []\<rparr>)"

definition route_for :: "'p ProviderRouter \<Rightarrow> string \<Rightarrow> 'p" where
  "route_for rt sy =
     (case map_of (overrides rt) sy of
        Some p \<Rightarrow> if p \<in> set (providers rt) then p else active rt
      | None \<Rightarrow> active rt)"

definition router_subscribe :: "book_key \<Rightarrow> 'p ProviderRouter \<Rightarrow> 'p ProviderRouter" where
  "router_subscribe key rt =
     (let p = route_for rt (fst key)
      in rt\<lparr>routed := od_set key p (routed rt), calls := calls rt @ [Subscribe p key]\<rparr>)"

definition router_unsubscribe :: "book_key \<Rightarrow> 'p ProviderRouter \<Rightarrow> 'p ProviderRouter" where
  "router_unsubscribe key rt =
     (case map_of (routed rt) key of
        None \<Rightarrow> rt
      | Some p \<Rightarrow> rt\<lparr>routed := od_pop key (routed rt),
                     calls := calls rt @ [Unsubscribe p key]\<rparr>)"

definition secondary :: "'p ProviderRouter \<Rightarrow> 'p option" where
  "secondary rt = find (\<lambda>p. p \<noteq> active rt) (providers rt)"

definition moving :: "'p ProviderRouter \<Rightarrow> book_key list" where
  "moving rt =
     map fst (filter (\<lambda>(key, p). p = active rt \<and> map_of (overrides rt) (fst key) = None)
                (routed rt))"

fun migrate :: "'p \<Rightarrow> 'p \<Rightarrow> book_key list \<Rightarrow> 'p ProviderRouter \<Rightarrow> 'p ProviderRouter" where
  "migrate previous next [] rt = rt"
| "migrate previous next (key # keys) rt =
     migrate previous next keys
       (rt\<lparr>routed := od_set key next (routed rt),
           calls := calls rt @ [Unsubscribe previous key, Subscribe next key]\<rparr>)"

definition failover :: "'p ProviderRouter \<Rightarrow> 'p ProviderRouter" where
  "failover rt =
     (case secondary rt of
        None \<Rightarrow> rt
      | Some next \<Rightarrow>
          migrate (active rt) next (moving rt)
            (rt\<lparr>active := next, error_times := od_set (active rt) [] (error_times rt)\<rparr>))"

definition on_error :: "int \<Rightarrow> 'p \<Rightarrow> 'p ProviderRouter \<Rightarrow> 'p ProviderRouter" where
  "on_error now src rt =
     (let seen = (case map_of (error_times rt) src of Some ts' \<Rightarrow> ts' | None \<Rightarrow> []);
          window = filter (\<lambda>t. now - window_length rt \<le> t) (seen @ [now]);
          rt1 = rt\<lparr>error_times := od_set src window (error_times rt)\<rparr>
      in if src \<noteq> active rt1 then rt1
         else if int (length window) < error_threshold rt1 then rt1
         else failover rt1)"

subsection \<open>Where a subscription is served\<close>

definition router_wf :: "'p ProviderRouter \<Rightarrow> bool" where
  "router_wf rt \<longleftrightarrow>
     active rt \<in> set (providers rt) \<and> distinct (map fst (routed rt)) \<and>
     (\<forall>key p. map_of (routed rt) key = Some p \<longrightarrow> p \<in> set (providers rt))"

text \<open>Every subscription sits where the router would put it now.\<close>

definition well_routed :: "'p ProviderRouter \<Rightarrow> bool" where
  "well_routed rt \<longleftrightarrow>
     (\<forall>key p. map_of (routed rt) key = Some p \<longrightarrow> p = route_for rt (fst key))"

lemma route_for_frame [simp]: "route_for (rt\<lparr>routed := x, calls := y\<rparr>) sy = route_for rt sy"
  by (simp add: route_for_def split: option.splits)

lemma route_for_provider: "active rt \<in> set (providers rt) \<Longrightarrow> route_for rt sy \<in> set (providers rt)"
  by (simp add: route_for_def split: option.splits)

lemma migrate_fields [simp]:
  "providers (migrate p q keys rt) = providers rt" "active (migrate p q keys rt) = active rt"
  "overrides (migrate p q keys rt) = overrides rt"
  "error_threshold (migrate p q keys rt) = error_threshold rt"
  "window_length (migrate p q keys rt) = window_length rt"
  by (induction p q keys rt rule: migrate.induct) simp_all

lemma migrate_subscriptions:
  "map_of (routed (migrate p q keys rt)) key =
     (if key \<in> set keys then Some q else map_of (routed rt) key)"
  by (induction p q keys rt rule: migrate.induct) (auto simp: map_of_od_set)

lemma migrate_distinct:
  "distinct (map fst (routed rt)) \<Longrightarrow> distinct (map fst (routed (migrate p q keys rt)))"
  by (induction p q keys rt rule: migrate.induct) (simp_all add: od_set_distinct)

lemma moving_iff:
  assumes "distinct (map fst (routed rt))"
  shows "key \<in> set (moving rt) \<longleftrightarrow>
    map_of (routed rt) key = Some (active rt) \<and> map_of (overrides rt) (fst key) = None"
  using assms by (force simp: moving_def map_of_eq_Some_iff)

lemma secondary_Some: "secondary rt = Some q \<Longrightarrow> q \<in> set (providers rt) \<and> q \<noteq> active rt"
  by (auto simp: secondary_def find_Some_iff)

lemma failover_wf:
  assumes "router_wf rt"
  shows "router_wf (failover rt)"
proof (cases "secondary rt")
  case None
  with assms show ?thesis by (simp add: failover_def)
next
  case (Some q)
  with assms secondary_Some [OF Some] show ?thesis
    by (auto simp: failover_def router_wf_def migrate_subscriptions migrate_distinct split: if_splits)
qed

lemma on_error_wf: "router_wf rt \<Longrightarrow> router_wf (on_error now src rt)"
proof -
  assume wf: "router_wf rt"
  then have "router_wf (rt\<lparr>error_times := e\<rparr>)" for e by (simp add: router_wf_def)
  then show ?thesis by (simp add: on_error_def Let_def failover_wf)
qed

lemma router_subscribe_wf: "router_wf rt \<Longrightarrow> router_wf (router_subscribe key rt)"
  by (auto simp: router_wf_def router_subscribe_def Let_def od_set_distinct map_of_od_set
      route_for_provider split: if_splits)

lemma router_unsubscribe_wf: "router_wf rt \<Longrightarrow> router_wf (router_unsubscribe key rt)"
  by (auto simp: router_wf_def router_unsubscribe_def od_pop_distinct map_of_od_pop
      split: option.splits if_splits) (auto simp: od_pop_def)

lemma subscribe_well_routed: "well_routed rt \<Longrightarrow> well_routed (router_subscribe key rt)"
  by (auto simp: well_routed_def router_subscribe_def Let_def map_of_od_set split: if_splits)

lemma unsubscribe_well_routed: "well_routed rt \<Longrightarrow> well_routed (router_unsubscribe key rt)"
  by (auto simp: well_routed_def router_unsubscribe_def map_of_od_pop split: option.splits if_splits)

text \<open>
  What a failover does to a well-routed set of subscriptions. Symbols without an override
  end up on the new active provider and symbols pinned to a configured provider stay on it,
  both where the router would put them; but a symbol whose override names a provider that is
  not configured, which the router serves from the active provider, is left behind on the
  provider that was just switched off, so the set is well routed again exactly when there is
  no such subscription.
\<close>

theorem failover_routing:
  assumes wf: "router_wf rt" and good: "well_routed rt" and sec: "secondary rt = Some q"
  shows "(\<forall>key p. map_of (routed rt) key = Some p \<longrightarrow>
            map_of (routed (failover rt)) key =
              Some (case map_of (overrides rt) (fst key) of
                      None \<Rightarrow> q
                    | Some v \<Rightarrow> if v \<in> set (providers rt) then v else active rt)) \<and>
         (well_routed (failover rt) \<longleftrightarrow>
            (\<forall>key v. key \<in> dom (map_of (routed rt)) \<and> map_of (overrides rt) (fst key) = Some v \<longrightarrow>
               v \<in> set (providers rt)))"
proof
  have subs: "map_of (routed (failover rt)) key =
      (if map_of (routed rt) key = Some (active rt) \<and> map_of (overrides rt) (fst key) = None
       then Some q else map_of (routed rt) key)" for key
    using sec wf by (simp add: failover_def migrate_subscriptions moving_iff router_wf_def)
  have route: "route_for (failover rt) sy =
      (case map_of (overrides rt) sy of Some v \<Rightarrow> if v \<in> set (providers rt) then v else q | None \<Rightarrow> q)" for sy
    using sec by (simp add: failover_def route_for_def split: option.splits)
  have after: "map_of (routed (failover rt)) key =
              Some (case map_of (overrides rt) (fst key) of
                      None \<Rightarrow> q
                    | Some v \<Rightarrow> if v \<in> set (providers rt) then v else active rt)"
    if here: "map_of (routed rt) key = Some p" for key p
  proof -
    from good here have "p = route_for rt (fst key)" unfolding well_routed_def by blast
    with here show ?thesis
      by (cases "map_of (overrides rt) (fst key)") (simp_all add: subs route_for_def)
  qed
  then show "\<forall>key p. map_of (routed rt) key = Some p \<longrightarrow>
            map_of (routed (failover rt)) key =
              Some (case map_of (overrides rt) (fst key) of
                      None \<Rightarrow> q
                    | Some v \<Rightarrow> if v \<in> set (providers rt) then v else active rt)"
    by blast
  have dom: "map_of (routed (failover rt)) key = Some p \<Longrightarrow> key \<in> dom (map_of (routed rt))" for key p
    by (auto simp: subs split: if_splits)
  have q: "q \<noteq> active rt" using secondary_Some [OF sec] by simp
  show "well_routed (failover rt) \<longleftrightarrow>
            (\<forall>key v. key \<in> dom (map_of (routed rt)) \<and> map_of (overrides rt) (fst key) = Some v \<longrightarrow>
               v \<in> set (providers rt))" (is "_ \<longleftrightarrow> ?pinned")
  proof
    assume ok: "well_routed (failover rt)"
    show ?pinned
    proof (intro allI impI, elim conjE)
      fix key v
      assume "key \<in> dom (map_of (routed rt))" and v: "map_of (overrides rt) (fst key) = Some v"
      then obtain p where "map_of (routed rt) key = Some p" by blast
      from after [OF this] v have "map_of (routed (failover rt)) key =
          Some (if v \<in> set (providers rt) then v else active rt)" by simp
      with ok have "(if v \<in> set (providers rt) then v else active rt) = route_for (failover rt) (fst key)"
        unfolding well_routed_def by blast
      with v q show "v \<in> set (providers rt)" by (simp add: route split: if_splits)
    qed
  next
    assume pinned: ?pinned
    show "well_routed (failover rt)"
      unfolding well_routed_def
    proof (intro allI impI)
      fix key p'
      assume now: "map_of (routed (failover rt)) key = Some p'"
      from dom [OF this] have d: "key \<in> dom (map_of (routed rt))" .
      then obtain p where "map_of (routed rt) key = Some p" by blast
      from after [OF this] now have "p' = (case map_of (overrides rt) (fst key) of
          None \<Rightarrow> q | Some v \<Rightarrow> if v \<in> set (providers rt) then v else active rt)"
        by simp
      moreover have "v \<in> set (providers rt)" if "map_of (overrides rt) (fst key) = Some v" for v
        using pinned d that by blast
      ultimately show "p' = route_for (failover rt) (fst key)"
        by (cases "map_of (overrides rt) (fst key)") (simp_all add: route)
    qed
  qed
qed

definition demo_router :: "nat ProviderRouter" where
  "demo_router =
     \<lparr>providers = [0, 1], active = 0, overrides = [(''AOT'', 7)], error_threshold = 3,
      window_length = 30, routed = [((''AOT'', SET), 0), ((''PTT'', SET), 0)],
      error_times = [], calls = []\<rparr>"

theorem failover_routing_witness:
  "map_of (routed (failover demo_router)) (''PTT'', SET) = Some 1 \<and>
   map_of (routed (failover demo_router)) (''AOT'', SET) = Some 0 \<and>
   \<not> well_routed (failover demo_router)"
proof -
  have wf: "router_wf demo_router" by (simp add: router_wf_def demo_router_def)
  have good: "well_routed demo_router" by (auto simp: well_routed_def route_for_def demo_router_def)
  have sec: "secondary demo_router = Some 1" by (simp add: secondary_def demo_router_def)
  from failover_routing [OF wf good sec] show ?thesis
    by (auto simp: demo_router_def)
qed

section \<open>\<open>OrderBookService\<close>\<close>

text \<open>
  The cache is an \<open>OrderedDict\<close>, least recently used first; a subscriber is a bounded queue
  under an identity of its own (0 or less: unbounded, as in \<open>asyncio\<close>).
\<close>

record book_queue =
  q_id :: nat
  q_books :: "OrderBook list"

record OrderBookService =
  book_router :: "OrderBookSource ProviderRouter"
  max_symbols :: nat
  max_age :: int
  subscriber_queue_size :: int
  cache :: "(book_key \<times> OrderBook) list"
  subscribers :: "(book_key \<times> book_queue list) list"
  refcounts :: "(book_key \<times> int) list"

definition book_key :: "OrderBook \<Rightarrow> book_key" where
  "book_key b = (ob_symbol b, ob_market b)"

definition new_service ::
  "OrderBookSource ProviderRouter \<Rightarrow> nat \<Rightarrow> int \<Rightarrow> int \<Rightarrow> OrderBookService" where
  "new_service rt n age qsize =
     \<lparr>book_router = rt, max_symbols = n, max_age = age, subscriber_queue_size = qsize,
      cache = [], subscribers = [], refcounts = []\<rparr>"

text \<open>\<open>while len(cache) > max_symbols: cache.popitem(last=False)\<close>.\<close>

fun evict :: "nat \<Rightarrow> 'a list \<Rightarrow> 'a list" where
  "evict n [] = []"
| "evict n (x # xs) = (if n < length (x # xs) then evict n xs else x # xs)"

definition offer_book :: "int \<Rightarrow> OrderBook \<Rightarrow> book_queue \<Rightarrow> book_queue" where
  "offer_book qsize b q =
     (if 0 < qsize \<and> qsize \<le> int (length (q_books q))
      then q\<lparr>q_books := tl (q_books q) @ [b]\<rparr>
      else q\<lparr>q_books := q_books q @ [b]\<rparr>)"

definition publish_book :: "OrderBook \<Rightarrow> OrderBookService \<Rightarrow> OrderBookService" where
  "publish_book b sv =
     (let key = book_key b;
          sv1 = sv\<lparr>cache := evict (max_symbols sv) (od_set_last key b (cache sv))\<rparr>
      in case map_of (subscribers sv1) key of
           None \<Rightarrow> sv1
         | Some qs \<Rightarrow>
             sv1\<lparr>subscribers :=
                  od_set key (map (offer_book (subscriber_queue_size sv1) b) qs) (subscribers sv1)\<rparr>)"

definition get_book :: "timestamp \<Rightarrow> string \<Rightarrow> Market \<Rightarrow> OrderBookService \<Rightarrow>
    OrderBook option \<times> OrderBookService" where
  "get_book now sy mkt sv =
     (case map_of (cache sv) (sy, mkt) of
        None \<Rightarrow> (None, sv)
      | Some b \<Rightarrow>
          if max_age sv * 1000000 < now - received_at b then (None, sv)
          else (Some b, sv\<lparr>cache := od_set_last (sy, mkt) b (cache sv)\<rparr>))"

definition acquire_book :: "book_key \<Rightarrow> nat \<Rightarrow> OrderBookService \<Rightarrow> OrderBookService" where
  "acquire_book key qid sv =
     (let qs = (case map_of (subscribers sv) key of Some l \<Rightarrow> l | None \<Rightarrow> []);
          count = (case map_of (refcounts sv) key of Some n \<Rightarrow> n | None \<Rightarrow> 0) + 1;
          sv1 = sv\<lparr>subscribers := od_set key (qs @ [\<lparr>q_id = qid, q_books = []\<rparr>]) (subscribers sv),
                   refcounts := od_set key count (refcounts sv)\<rparr>
      in if count = 1 then sv1\<lparr>book_router := router_subscribe key (book_router sv1)\<rparr> else sv1)"

definition release_book :: "book_key \<Rightarrow> nat \<Rightarrow> OrderBookService \<Rightarrow> OrderBookService" where
  "release_book key qid sv =
     (let sv1 = (case map_of (subscribers sv) key of
                   None \<Rightarrow> sv
                 | Some qs \<Rightarrow>
                     sv\<lparr>subscribers := od_set key (filter (\<lambda>q. q_id q \<noteq> qid) qs) (subscribers sv)\<rparr>);
          count = max ((case map_of (refcounts sv1) key of Some n \<Rightarrow> n | None \<Rightarrow> 0) - 1) 0
      in if count = 0
         then sv1\<lparr>refcounts := od_pop key (refcounts sv1), subscribers := od_pop key (subscribers sv1),
                  book_router := router_unsubscribe key (book_router sv1)\<rparr>
         else sv1\<lparr>refcounts := od_set key count (refcounts sv1)\<rparr>)"

definition cached_symbol_count :: "OrderBookService \<Rightarrow> nat" where
  "cached_symbol_count sv = length (cache sv)"

definition book_subscriber_count :: "OrderBookService \<Rightarrow> nat" where
  "book_subscriber_count sv = sum_list (map (\<lambda>e. length (snd e)) (subscribers sv))"

subsection \<open>The cache keeps the most recently used keys\<close>

definition lastn :: "nat \<Rightarrow> 'a list \<Rightarrow> 'a list" where
  "lastn n xs = drop (length xs - n) xs"

lemma evict_lastn: "evict n xs = lastn n xs"
  by (induction n xs rule: evict.induct) (auto simp: lastn_def Suc_diff_le not_less)

lemma length_lastn: "length (lastn n xs) = min n (length xs)"
  by (simp add: lastn_def)

lemma set_lastn: "set (lastn n xs) \<subseteq> set xs"
  by (simp add: lastn_def set_drop_subset)

lemma map_lastn: "map f (lastn n xs) = lastn n (map f xs)"
  by (simp add: lastn_def drop_map)

lemma lastn_append: "lastn n (xs @ ys) = lastn (n - length ys) xs @ lastn n ys"
proof (cases "n \<le> length ys")
  case True
  then show ?thesis by (simp add: lastn_def)
next
  case False
  then have "drop (length xs + length ys - n) xs = drop (length xs - (n - length ys)) xs"
    by (intro arg_cong [where f = "\<lambda>i. drop i xs"]) arith
  then show ?thesis by (simp add: lastn_def)
qed

text \<open>Dropping one key from the last \<open>n\<close> loses none of the last \<open>n - 1\<close> of the rest.\<close>

lemma lastn_filter:
  assumes "distinct xs"
  shows "lastn (n - 1) (filter (\<lambda>j. j \<noteq> k) (lastn n xs)) = lastn (n - 1) (filter (\<lambda>j. j \<noteq> k) xs)"
proof -
  obtain ys where xs: "xs = ys @ lastn n xs"
    by (metis append_take_drop_id lastn_def)
  let ?z = "filter (\<lambda>j. j \<noteq> k) (lastn n xs)"
  have split: "filter (\<lambda>j. j \<noteq> k) xs = filter (\<lambda>j. j \<noteq> k) ys @ ?z" by (subst xs) simp
  show ?thesis
  proof (cases "length xs \<le> n")
    case True
    then have "lastn n xs = xs" by (simp add: lastn_def)
    then show ?thesis by simp
  next
    case False
    have "distinct (lastn n xs)" using assms by (simp add: lastn_def)
    moreover have "{j. j \<noteq> k} \<inter> set (lastn n xs) = set (lastn n xs) - {k}" by auto
    ultimately have "length ?z = card (set (lastn n xs) - {k})" and "card (set (lastn n xs)) = n"
      using False by (simp_all add: distinct_length_filter distinct_card length_lastn)
    then have "n - 1 \<le> length ?z" by (simp add: card_Diff_singleton_if)
    then show ?thesis by (simp add: split lastn_def)
  qed
qed

lemma lastn_touch:
  assumes "distinct xs"
  shows "lastn n (filter (\<lambda>j. j \<noteq> k) (lastn n xs) @ [k]) = lastn n (filter (\<lambda>j. j \<noteq> k) xs @ [k])"
  using lastn_filter [OF assms, of n k] by (simp add: lastn_append)

text \<open>
  A run of the cache: books published and books read, in any order, with the log of the keys
  that were used (written, or read while fresh) and the log of the books, oldest first.
\<close>

inductive cache_run ::
  "OrderBookService \<Rightarrow> OrderBookService \<Rightarrow> book_key list \<Rightarrow> OrderBook list \<Rightarrow> bool" for s0 where
  start: "cache s0 = [] \<Longrightarrow> cache_run s0 s0 [] []"
| publish: "cache_run s0 sv used pubs \<Longrightarrow>
    cache_run s0 (publish_book b sv) (used @ [book_key b]) (pubs @ [b])"
| hit: "cache_run s0 sv used pubs \<Longrightarrow> get_book now sy mkt sv = (Some b, sv') \<Longrightarrow>
    cache_run s0 sv' (used @ [(sy, mkt)]) pubs"
| miss: "cache_run s0 sv used pubs \<Longrightarrow> get_book now sy mkt sv = (None, sv') \<Longrightarrow>
    cache_run s0 sv' used pubs"

lemma publish_book_cache:
  "cache (publish_book b sv) = lastn (max_symbols sv) (od_set_last (book_key b) b (cache sv))"
  "max_symbols (publish_book b sv) = max_symbols sv" "max_age (publish_book b sv) = max_age sv"
  by (simp_all add: publish_book_def Let_def evict_lastn split: option.splits)

lemma od_set_last_keys: "map fst (od_set_last k v d) = filter (\<lambda>j. j \<noteq> k) (map fst d) @ [k]"
  by (simp add: od_set_last_def od_pop_keys)

lemma remdups_snoc: "remdups (xs @ [k]) = filter (\<lambda>j. j \<noteq> k) (remdups xs) @ [k]"
  by (induction xs) auto

lemma get_book_hit:
  assumes "get_book now sy mkt sv = (Some b, sv')"
  shows "map_of (cache sv) (sy, mkt) = Some b" and "now - received_at b \<le> max_age sv * 1000000"
    and "sv' = sv\<lparr>cache := od_set_last (sy, mkt) b (cache sv)\<rparr>"
  using assms by (auto simp: get_book_def split: option.splits if_splits)

lemma get_book_miss: "get_book now sy mkt sv = (None, sv') \<Longrightarrow> sv' = sv"
  by (auto simp: get_book_def split: option.splits if_splits)

text \<open>The last book published under a key.\<close>

definition latest_book :: "book_key \<Rightarrow> OrderBook list \<Rightarrow> OrderBook option" where
  "latest_book key pubs = find (\<lambda>b. book_key b = key) (rev pubs)"

lemma latest_snoc [simp]: "latest_book key (pubs @ [b]) = (if book_key b = key then Some b else latest_book key pubs)"
  by (simp add: latest_book_def)

lemma cache_run_keys:
  "cache_run s0 sv used pubs \<Longrightarrow>
   max_symbols sv = max_symbols s0 \<and> map fst (cache sv) = lastn (max_symbols s0) (remdups used)"
proof (induction rule: cache_run.induct)
  case start
  then show ?case by (simp add: lastn_def)
next
  case (publish sv used pubs b)
  then show ?case
    by (simp add: publish_book_cache map_lastn od_set_last_keys remdups_snoc lastn_touch)
next
  case (hit sv used pubs now sy mkt b sv')
  let ?k = "(sy, mkt)" and ?n = "max_symbols s0"
  have keys: "map fst (cache sv) = lastn ?n (remdups used)" using hit.IH by simp
  have "?k \<in> set (map fst (cache sv))"
    using get_book_hit(1) [OF hit.hyps(2)] by (force dest: map_of_SomeD)
  then have "?k \<in> set (lastn ?n (remdups used))" by (simp only: keys)
  then have "length (filter (\<lambda>j. j \<noteq> ?k) (lastn ?n (remdups used)) @ [?k]) \<le> ?n"
    using length_filter_less [of ?k "lastn ?n (remdups used)" "\<lambda>j. j \<noteq> ?k"]
    by (simp add: length_lastn)
  then have "filter (\<lambda>j. j \<noteq> ?k) (lastn ?n (remdups used)) @ [?k] =
      lastn ?n (filter (\<lambda>j. j \<noteq> ?k) (lastn ?n (remdups used)) @ [?k])" by (simp add: lastn_def)
  also have "\<dots> = lastn ?n (remdups (used @ [?k]))"
    by (simp only: lastn_touch [OF distinct_remdups] remdups_snoc)
  finally show ?case
    using hit.IH get_book_hit(3) [OF hit.hyps(2)] by (simp add: od_set_last_keys)
next
  case (miss sv used pubs now sy mkt sv')
  then show ?case by (auto dest: get_book_miss)
qed

lemma cache_run_latest:
  "cache_run s0 sv used pubs \<Longrightarrow> \<forall>e \<in> set (cache sv). latest_book (fst e) pubs = Some (snd e)"
proof (induction rule: cache_run.induct)
  case (publish sv used pubs b)
  have "set (cache (publish_book b sv)) \<subseteq> set (od_set_last (book_key b) b (cache sv))"
    unfolding publish_book_cache by (rule set_lastn)
  also have "\<dots> = insert (book_key b, b) {e \<in> set (cache sv). fst e \<noteq> book_key b}"
    by (auto simp: od_set_last_def od_pop_def)
  finally have sub: "set (cache (publish_book b sv)) \<subseteq>
      insert (book_key b, b) {e \<in> set (cache sv). fst e \<noteq> book_key b}" .
  show ?case
  proof
    fix e
    assume "e \<in> set (cache (publish_book b sv))"
    with sub have "e = (book_key b, b) \<or> (e \<in> set (cache sv) \<and> fst e \<noteq> book_key b)" by blast
    with publish.IH show "latest_book (fst e) (pubs @ [b]) = Some (snd e)" by fastforce
  qed
next
  case (hit sv used pubs now sy mkt b sv')
  have "((sy, mkt), b) \<in> set (cache sv)" using get_book_hit(1) [OF hit.hyps(2)] by (rule map_of_SomeD)
  then have "set (cache sv') \<subseteq> set (cache sv)"
    using get_book_hit(3) [OF hit.hyps(2)] by (auto simp: od_set_last_def od_pop_def)
  with hit.IH show ?case by auto
next
  case (miss sv used pubs now sy mkt sv')
  then show ?case by (auto dest: get_book_miss)
qed simp

text \<open>
  The cache is a least-recently-used cache of the latest books. After any run its keys are
  exactly the \<open>max_symbols\<close> most recently used ones, in order of their last use; what it holds
  under a key is the last book published for it; and a read answers that book exactly when
  the key is still held and the book is no older than the configured age.
\<close>

theorem lru_cache:
  assumes run: "cache_run s0 sv used pubs"
  shows "map fst (cache sv) = lastn (max_symbols s0) (remdups used) \<and>
         length (cache sv) \<le> max_symbols s0 \<and>
         fst (get_book now sy mkt sv) =
           (if (sy, mkt) \<in> set (lastn (max_symbols s0) (remdups used))
            then (case latest_book (sy, mkt) pubs of
                    Some b \<Rightarrow> if now - received_at b \<le> max_age sv * 1000000 then Some b else None
                  | None \<Rightarrow> None)
            else None)"
proof (intro conjI)
  show keys: "map fst (cache sv) = lastn (max_symbols s0) (remdups used)"
    using cache_run_keys [OF run] by simp
  have "length (map fst (cache sv)) \<le> max_symbols s0" by (simp only: keys length_lastn min.cobounded1)
  then show "length (cache sv) \<le> max_symbols s0" by simp
  have held: "(sy, mkt) \<in> set (lastn (max_symbols s0) (remdups used)) \<longleftrightarrow> map_of (cache sv) (sy, mkt) \<noteq> None"
    by (simp add: keys [symmetric] map_of_eq_None_iff)
  show "fst (get_book now sy mkt sv) =
           (if (sy, mkt) \<in> set (lastn (max_symbols s0) (remdups used))
            then (case latest_book (sy, mkt) pubs of
                    Some b \<Rightarrow> if now - received_at b \<le> max_age sv * 1000000 then Some b else None
                  | None \<Rightarrow> None)
            else None)"
  proof (cases "map_of (cache sv) (sy, mkt)")
    case None
    with held show ?thesis by (simp add: get_book_def)
  next
    case (Some b)
    then have "latest_book (sy, mkt) pubs = Some b"
      using bspec [OF cache_run_latest [OF run] map_of_SomeD [OF Some]] by simp
    with Some held show ?thesis by (simp add: get_book_def)
  qed
qed

definition demo_book :: "string \<Rightarrow> int \<Rightarrow> OrderBook" where
  "demo_book sy n =
     \<lparr>ob_symbol = sy, ob_market = SET, bid_levels = [\<lparr>lv_price = Dec 9 0, lv_volume = 5\<rparr>],
      ask_levels = [\<lparr>lv_price = Dec 11 0, lv_volume = 5\<rparr>], bid_flag = ''NORMAL'', ask_flag = ''NORMAL'',
      ob_sequence = n, ob_source = Source_LIBERATOR, received_at = 0\<rparr>"

definition demo_service :: OrderBookService where
  "demo_service =
     new_service \<lparr>providers = [Source_LIBERATOR], active = Source_LIBERATOR, overrides = [],
       error_threshold = 3, window_length = 30, routed = [], error_times = [], calls = []\<rparr> 2 5 0"

theorem lru_cache_witness:
  "let sv = publish_book (demo_book ''C'' 3) (publish_book (demo_book ''B'' 2) (publish_book (demo_book ''A'' 1) demo_service))
   in map fst (cache sv) = [(''B'', SET), (''C'', SET)] \<and>
      fst (get_book 0 ''A'' SET sv) = None \<and> fst (get_book 0 ''B'' SET sv) = Some (demo_book ''B'' 2)"
proof -
  let ?a = "demo_book ''A'' 1" and ?b = "demo_book ''B'' 2" and ?c = "demo_book ''C'' 3"
  let ?sv = "publish_book ?c (publish_book ?b (publish_book ?a demo_service))"
  have "cache demo_service = []" by (simp add: demo_service_def new_service_def)
  then have run: "cache_run demo_service ?sv
      ((([] @ [book_key ?a]) @ [book_key ?b]) @ [book_key ?c]) ((([] @ [?a]) @ [?b]) @ [?c])"
    by (intro cache_run.publish cache_run.start)
  have n: "max_symbols demo_service = 2" "max_age ?sv = 5"
    by (simp_all add: demo_service_def new_service_def publish_book_cache)
  show ?thesis
    using lru_cache [OF run, of 0 "''A''" SET] lru_cache [OF run, of 0 "''B''" SET] n
    by (simp add: lastn_def book_key_def demo_book_def latest_book_def)
qed

subsection \<open>A provider is subscribed while somebody listens\<close>

text \<open>
  A run of the stream side: consumers come and go, books are published, providers fail. A
  release is of a queue that is held; queue identities are never reused.
\<close>

inductive stream_run :: "OrderBookService \<Rightarrow> nat \<Rightarrow> bool" where
  start: "routed rt = [] \<Longrightarrow> stream_run (new_service rt n age qsize) 0"
| acquire: "stream_run sv k \<Longrightarrow> stream_run (acquire_book key k sv) (Suc k)"
| release: "stream_run sv k \<Longrightarrow> map_of (subscribers sv) key = Some qs \<Longrightarrow> q \<in> set qs \<Longrightarrow>
    stream_run (release_book key (q_id q) sv) k"
| publish: "stream_run sv k \<Longrightarrow> stream_run (publish_book b sv) k"
| provider_error: "stream_run sv k \<Longrightarrow>
    stream_run (sv\<lparr>book_router := on_error now src (book_router sv)\<rparr>) k"

definition listeners :: "OrderBookService \<Rightarrow> book_key \<Rightarrow> book_queue list" where
  "listeners sv key = (case map_of (subscribers sv) key of Some qs \<Rightarrow> qs | None \<Rightarrow> [])"

definition serves :: "'p ProviderRouter \<Rightarrow> book_key \<Rightarrow> bool" where
  "serves rt key \<longleftrightarrow> map_of (routed rt) key \<noteq> None"

definition stream_ok :: "OrderBookService \<Rightarrow> nat \<Rightarrow> book_key \<Rightarrow> bool" where
  "stream_ok sv k key \<longleftrightarrow>
     (map_of (subscribers sv) key = None \<longleftrightarrow> listeners sv key = []) \<and>
     map_of (refcounts sv) key =
       (if listeners sv key = [] then None else Some (int (length (listeners sv key)))) \<and>
     (serves (book_router sv) key \<longleftrightarrow> listeners sv key \<noteq> []) \<and>
     distinct (map q_id (listeners sv key)) \<and> (\<forall>q \<in> set (listeners sv key). q_id q < k)"

lemma failover_serves: "serves (failover rt) key = serves rt key"
proof (cases "secondary rt")
  case (Some q)
  have "key \<in> set (moving rt) \<Longrightarrow> map_of (routed rt) key \<noteq> None"
    by (force simp: moving_def map_of_eq_None_iff)
  with Some show ?thesis by (auto simp: serves_def failover_def migrate_subscriptions)
qed (simp add: failover_def)

lemma on_error_serves: "serves (on_error now src rt) key = serves rt key"
proof -
  have "serves (rt\<lparr>error_times := e\<rparr>) key = serves rt key" for e by (simp add: serves_def)
  then show ?thesis by (simp add: on_error_def Let_def failover_serves)
qed

lemma router_serves:
  "serves (router_subscribe j rt) key \<longleftrightarrow> serves rt key \<or> key = j"
  "serves (router_unsubscribe j rt) key \<longleftrightarrow> serves rt key \<and> key \<noteq> j"
  by (auto simp: serves_def router_subscribe_def router_unsubscribe_def Let_def map_of_od_set map_of_od_pop
      split: option.splits)

lemma stream_ok_acquire:
  assumes "\<And>key. stream_ok sv k key"
  shows "stream_ok (acquire_book j k sv) (Suc k) key"
proof (cases "key = j")
  case False
  with assms [of key] show ?thesis
    by (auto simp: acquire_book_def stream_ok_def listeners_def Let_def map_of_od_set router_serves
        less_Suc_eq)
next
  case True
  have fresh: "k \<notin> q_id ` set (listeners sv j)" using assms [of j] by (auto simp: stream_ok_def)
  with True assms [of j] show ?thesis
    by (cases "listeners sv j = []")
      (auto simp: acquire_book_def stream_ok_def listeners_def Let_def map_of_od_set router_serves
        less_Suc_eq split: option.splits)
qed

lemma length_filter_one:
  assumes "distinct (map f xs)" and "x \<in> set xs"
  shows "Suc (length (filter (\<lambda>y. f y \<noteq> f x) xs)) = length xs"
  using assms
proof (induction xs)
  case (Cons a xs)
  show ?case
  proof (cases "f a = f x")
    case True
    then have "f x \<notin> f ` set xs" using Cons.prems(1) by simp
    then have "filter (\<lambda>y. f y \<noteq> f x) xs = xs" by (metis (mono_tags, lifting) filter_True image_eqI)
    with True show ?thesis by simp
  next
    case False
    then have "x \<in> set xs" using Cons.prems by auto
    with Cons False show ?thesis by simp
  qed
qed simp

lemma stream_ok_release:
  assumes ok: "\<And>key. stream_ok sv k key" and qs: "map_of (subscribers sv) j = Some qs" and q: "q \<in> set qs"
  shows "stream_ok (release_book j (q_id q) sv) k key"
proof -
  let ?rest = "filter (\<lambda>x. q_id x \<noteq> q_id q) qs" and ?sv' = "release_book j (q_id q) sv"
  have l: "listeners sv j = qs" using qs by (simp add: listeners_def)
  have rc: "map_of (refcounts sv) j = Some (int (length qs))" and dist: "distinct (map q_id qs)"
    and small: "\<forall>x \<in> set qs. q_id x < k" and sr: "serves (book_router sv) j"
    using ok [of j] q l by (auto simp: stream_ok_def)
  have len: "int (length qs) - 1 = int (length ?rest)" using length_filter_one [OF dist q] by simp
  have drest: "distinct (map q_id ?rest)" using dist by (simp add: distinct_map_filter)
  have sv': "?sv' = (if ?rest = []
      then sv\<lparr>refcounts := od_pop j (refcounts sv),
              subscribers := od_pop j (od_set j ?rest (subscribers sv)),
              book_router := router_unsubscribe j (book_router sv)\<rparr>
      else sv\<lparr>subscribers := od_set j ?rest (subscribers sv),
              refcounts := od_set j (int (length ?rest)) (refcounts sv)\<rparr>)"
    using qs rc len by (simp add: release_book_def Let_def)
  have here: "stream_ok ?sv' k j"
    using drest small sr
    by (cases "?rest = []")
      (simp_all add: sv' stream_ok_def listeners_def map_of_od_set map_of_od_pop router_serves)
  have "stream_ok ?sv' k key" if "key \<noteq> j"
    using ok [of key] that
    by (cases "?rest = []")
      (simp_all add: sv' stream_ok_def listeners_def map_of_od_set map_of_od_pop router_serves)
  with here show ?thesis by blast
qed

lemma publish_listeners:
  "listeners (publish_book b sv) key =
     (if key = book_key b then map (offer_book (subscriber_queue_size sv) b) (listeners sv key)
      else listeners sv key)"
  "map_of (subscribers (publish_book b sv)) key = None \<longleftrightarrow> map_of (subscribers sv) key = None"
  "refcounts (publish_book b sv) = refcounts sv" "book_router (publish_book b sv) = book_router sv"
  by (simp_all add: publish_book_def listeners_def Let_def map_of_od_set split: option.splits)

lemma stream_ok_publish:
  assumes "stream_ok sv k key"
  shows "stream_ok (publish_book b sv) k key"
proof -
  have "q_id (offer_book n b x) = q_id x" for n x by (simp add: offer_book_def)
  then have "map q_id (listeners (publish_book b sv) key) = map q_id (listeners sv key)"
    by (simp add: publish_listeners o_def)
  then have "length (listeners (publish_book b sv) key) = length (listeners sv key)"
    and "q_id ` set (listeners (publish_book b sv) key) = q_id ` set (listeners sv key)"
    and "distinct (map q_id (listeners (publish_book b sv) key)) = distinct (map q_id (listeners sv key))"
    by (metis length_map, metis set_map, metis)
  moreover have "(\<forall>x \<in> set l. q_id x < k) = (\<forall>i \<in> q_id ` set l. i < k)" for l :: "book_queue list" by simp
  moreover have "listeners (publish_book b sv) key = [] \<longleftrightarrow> listeners sv key = []"
    by (simp add: publish_listeners)
  ultimately show ?thesis
    using assms by (simp only: stream_ok_def publish_listeners(2-4)) blast
qed

lemma stream_run_ok: "stream_run sv k \<Longrightarrow> stream_ok sv k key"
proof (induction arbitrary: key rule: stream_run.induct)
  case (start rt n age qsize)
  then show ?case by (simp add: stream_ok_def listeners_def new_service_def serves_def)
next
  case (acquire sv k j)
  then show ?case by (intro stream_ok_acquire)
next
  case (release sv k j qs q)
  then show ?case by (intro stream_ok_release)
next
  case (publish sv k b)
  then show ?case by (intro stream_ok_publish)
next
  case (provider_error sv k now src)
  then show ?case by (simp add: stream_ok_def listeners_def on_error_serves)
qed

text \<open>
  The reference counts are right: in every reachable state the count of a symbol is the
  number of its listening queues, and the router holds a subscription for it exactly while
  there is one, through every interleaving of consumers, publications and failovers.
\<close>

theorem stream_refcounts:
  assumes "stream_run sv k"
  shows "(serves (book_router sv) key \<longleftrightarrow> listeners sv key \<noteq> []) \<and>
         (case map_of (refcounts sv) key of Some n \<Rightarrow> n | None \<Rightarrow> 0) = int (length (listeners sv key))"
  using stream_run_ok [OF assms, of key] by (auto simp: stream_ok_def)

theorem stream_refcounts_witness:
  "let sv = acquire_book (''A'', SET) 1 (acquire_book (''A'', SET) 0 demo_service)
   in map_of (refcounts sv) (''A'', SET) = Some 2 \<and>
      serves (book_router sv) (''A'', SET)"
proof -
  let ?sv = "acquire_book (''A'', SET) (Suc 0) (acquire_book (''A'', SET) 0 demo_service)"
  have "stream_run demo_service 0"
    unfolding demo_service_def by (rule stream_run.start) simp
  then have run: "stream_run ?sv (Suc (Suc 0))" by (intro stream_run.acquire)
  have "length (listeners ?sv (''A'', SET)) = 2"
    by (simp add: listeners_def acquire_book_def demo_service_def new_service_def Let_def map_of_od_set)
  with stream_refcounts [OF run, of "(''A'', SET)"] show ?thesis
    by (auto split: option.splits)
qed

end
