(* ===== verification/Session.thy ===== *)
theory Session
  imports OrderStateMachine
begin

text \<open>
  The two small state machines every broker adapter carries: the consecutive-failure
  circuit breaker of \<open>adapters/session.py\<close> and the token bucket of
  \<open>adapters/rate_limit.py\<close>. The bucket's clock and token count are exact rationals: the
  rounding of binary floating point is not modelled.
\<close>

section \<open>The session circuit breaker\<close>

datatype BreakerState = Closed | Open | Half_open

record SessionCircuitBreaker =
  failure_threshold :: int
  consecutive_failures :: int
  breaker_state :: BreakerState

definition new_breaker :: "int \<Rightarrow> SessionCircuitBreaker" where
  "new_breaker threshold =
     \<lparr>failure_threshold = threshold, consecutive_failures = 0, breaker_state = Closed\<rparr>"

definition record_success :: "SessionCircuitBreaker \<Rightarrow> SessionCircuitBreaker" where
  "record_success b = b\<lparr>consecutive_failures := 0, breaker_state := Closed\<rparr>"

definition record_failure :: "SessionCircuitBreaker \<Rightarrow> SessionCircuitBreaker" where
  "record_failure b =
     (let n = consecutive_failures b + 1
      in b\<lparr>consecutive_failures := n,
           breaker_state := (if failure_threshold b \<le> n then Open else breaker_state b)\<rparr>)"

definition guard :: "SessionCircuitBreaker \<Rightarrow> exn + unit" where
  "guard b = (if breaker_state b = Open then Inl (Rejected CircuitOpenError None) else Inr ())"

text \<open>A breaker fed a sequence of heartbeats, True for a healthy one.\<close>

fun feed :: "bool list \<Rightarrow> SessionCircuitBreaker \<Rightarrow> SessionCircuitBreaker" where
  "feed [] b = b"
| "feed (ok # rest) b = feed rest (if ok then record_success b else record_failure b)"

lemma feed_append [simp]: "feed (xs @ ys) b = feed ys (feed xs b)"
  by (induction xs arbitrary: b) auto

text \<open>The failures since the last success.\<close>

definition trailing_failures :: "bool list \<Rightarrow> nat" where
  "trailing_failures hs = length (takeWhile (\<lambda>ok. \<not> ok) (rev hs))"

lemma trailing_failures_snoc [simp]:
  "trailing_failures (hs @ [ok]) = (if ok then 0 else trailing_failures hs + 1)"
  by (simp add: trailing_failures_def)

lemma feed_fields:
  "consecutive_failures (feed hs (new_breaker n)) = int (trailing_failures hs) \<and>
   failure_threshold (feed hs (new_breaker n)) = n \<and>
   breaker_state (feed hs (new_breaker n)) =
     (if trailing_failures hs > 0 \<and> n \<le> int (trailing_failures hs) then Open else Closed)"
  by (induction hs rule: rev_induct)
    (auto simp: new_breaker_def record_success_def record_failure_def Let_def trailing_failures_def)

text \<open>
  The breaker refuses routing exactly when the heartbeats since the last healthy one have
  all failed and there are at least as many of them as the threshold; one success closes it
  again at once, and the HALF_OPEN state of the enum is never entered.
\<close>

theorem breaker_opens_on_consecutive_failures:
  "(guard (feed hs (new_breaker n)) = Inl (Rejected CircuitOpenError None) \<longleftrightarrow>
     0 < trailing_failures hs \<and> n \<le> int (trailing_failures hs)) \<and>
   guard (feed (hs @ [True]) (new_breaker n)) = Inr () \<and>
   breaker_state (feed hs (new_breaker n)) \<noteq> Half_open"
  using feed_fields [of hs n] by (auto simp: guard_def record_success_def)

section \<open>What the real adapters remember\<close>

text \<open>
  The process-wide state of the two broker adapters besides breaker and bucket: the venue
  references of the orders this process placed (Liberator: order number and market; Streaming
  Pro: order number, market, account and symbol), the orders Liberator accepted without a
  number, and the outcome of the last heartbeat.
\<close>

record LiberatorSession =
  order_no_cache :: "string \<Rightarrow> (string \<times> Market) option"
  awaiting_order_no :: "string set"
  lib_heartbeat_ok :: "bool option"

record StreamingProSession =
  order_ref_cache :: "string \<Rightarrow> (string \<times> Market \<times> string \<times> string) option"
  sp_heartbeat_ok :: "bool option"

definition new_liberator_session :: LiberatorSession where
  "new_liberator_session = \<lparr>order_no_cache = (\<lambda>_. None), awaiting_order_no = {}, lib_heartbeat_ok = None\<rparr>"

definition new_streaming_pro_session :: StreamingProSession where
  "new_streaming_pro_session = \<lparr>order_ref_cache = (\<lambda>_. None), sp_heartbeat_ok = None\<rparr>"

section \<open>The token bucket\<close>

record TokenBucket =
  rate :: rat
  capacity :: rat
  tokens :: rat
  updated :: rat

definition new_bucket :: "rat \<Rightarrow> rat \<Rightarrow> TokenBucket" where
  "new_bucket rate_per_second now =
     \<lparr>rate = rate_per_second, capacity = rate_per_second, tokens = rate_per_second, updated = now\<rparr>"

definition enabled :: "TokenBucket \<Rightarrow> bool" where
  "enabled b = (0 < rate b)"

definition refill_locked :: "rat \<Rightarrow> TokenBucket \<Rightarrow> TokenBucket" where
  "refill_locked timestamp b =
     (let elapsed = timestamp - updated b
      in b\<lparr>updated := timestamp,
           tokens := (if 0 < elapsed then min (capacity b) (tokens b + elapsed * rate b) else tokens b)\<rparr>)"

text \<open>
  \<open>acquire\<close> under the lock: \<open>now\<close> is the clock at entry, \<open>wake wait\<close> the clock after a sleep of
  \<open>wait\<close>. The first component is the enforced wait, None where there was none.
\<close>

definition acquire :: "rat \<Rightarrow> (rat \<Rightarrow> rat) \<Rightarrow> TokenBucket \<Rightarrow> rat option \<times> TokenBucket" where
  "acquire now wake b =
     (if \<not> enabled b then (None, b)
      else
        let b1 = refill_locked now b
        in if 1 \<le> tokens b1 then (None, b1\<lparr>tokens := tokens b1 - 1\<rparr>)
           else
             let wait = (1 - tokens b1) / rate b1;
                 b2 = refill_locked (wake wait) b1
             in (Some wait, b2\<lparr>tokens := max 0 (tokens b2 - 1)\<rparr>))"

definition bucket_wf :: "TokenBucket \<Rightarrow> bool" where
  "bucket_wf b \<longleftrightarrow> 1 \<le> rate b \<and> capacity b = rate b \<and> 0 \<le> tokens b \<and> tokens b \<le> capacity b"

lemma bucket_wf_new: "1 \<le> r \<Longrightarrow> bucket_wf (new_bucket r t)"
  by (simp add: bucket_wf_def new_bucket_def)

lemma refill_wf: "bucket_wf b \<Longrightarrow> bucket_wf (refill_locked t b)"
  by (auto simp: bucket_wf_def refill_locked_def Let_def)

lemma refill_bound:
  assumes "bucket_wf b" and "updated b \<le> t"
  shows "tokens (refill_locked t b) \<le> tokens b + rate b * (t - updated b)"
  using assms by (auto simp: refill_locked_def Let_def bucket_wf_def mult.commute min_le_iff_disj)

lemma refill_fields [simp]:
  "updated (refill_locked t b) = t" "rate (refill_locked t b) = rate b"
  "capacity (refill_locked t b) = capacity b"
  by (simp_all add: refill_locked_def Let_def)

text \<open>The token a caller slept for is there when it wakes.\<close>

lemma refill_after_wait:
  assumes "bucket_wf b" and "tokens b < 1" and "updated b + (1 - tokens b) / rate b \<le> t"
  shows "1 \<le> tokens (refill_locked t b)"
proof -
  have r: "1 \<le> rate b" "capacity b = rate b" using assms(1) by (auto simp: bucket_wf_def)
  have "0 < (1 - tokens b) / rate b" using assms(2) r by simp
  moreover have "(1 - tokens b) / rate b \<le> t - updated b" using assms(3) by simp
  moreover from this have "1 - tokens b \<le> (t - updated b) * rate b"
    using r by (simp add: pos_divide_le_eq)
  ultimately show ?thesis using r by (simp add: refill_locked_def Let_def)
qed

text \<open>One acquisition: the invariant, the clock, and the token it spends.\<close>

lemma acquire_step:
  assumes wf: "bucket_wf b" and mono: "updated b \<le> now" and wake: "\<And>d. now + d \<le> wake d"
  shows "bucket_wf (snd (acquire now wake b)) \<and> now \<le> updated (snd (acquire now wake b)) \<and>
    rate (snd (acquire now wake b)) = rate b \<and>
    tokens (snd (acquire now wake b)) + 1 \<le>
      tokens b + rate b * (updated (snd (acquire now wake b)) - updated b)"
proof -
  let ?b1 = "refill_locked now b"
  let ?t2 = "wake ((1 - tokens ?b1) / rate ?b1)"
  let ?b2 = "refill_locked ?t2 ?b1"
  have en: "enabled b" using wf by (simp add: bucket_wf_def enabled_def)
  have wf1: "bucket_wf ?b1" and wf2: "bucket_wf ?b2" using wf by (simp_all add: refill_wf)
  have b1: "tokens ?b1 \<le> tokens b + rate b * (now - updated b)" using refill_bound [OF wf mono] .
  show ?thesis
  proof (cases "1 \<le> tokens ?b1")
    case True
    then show ?thesis using en wf1 b1 by (simp add: acquire_def Let_def bucket_wf_def)
  next
    case False
    have "0 < (1 - tokens ?b1) / rate ?b1" using False wf1 by (simp add: bucket_wf_def)
    then have t2: "now \<le> ?t2" using wake [of "(1 - tokens ?b1) / rate ?b1"] by simp
    have one: "1 \<le> tokens ?b2"
      by (rule refill_after_wait [OF wf1]) (use False wake in auto)
    have "tokens ?b2 \<le> tokens ?b1 + rate b * (?t2 - now)" using refill_bound [OF wf1, of ?t2] t2 by simp
    with b1 have "tokens ?b2 \<le> tokens b + rate b * (?t2 - updated b)" by (simp add: algebra_simps)
    with en False wf2 one t2 show ?thesis
      by (simp add: acquire_def Let_def bucket_wf_def)
  qed
qed

text \<open>
  A run of acquisitions, one after the other as the lock serialises them: each starts at a
  clock reading no earlier than the last update, and each sleep lasts at least what was asked.
\<close>

inductive acquisitions :: "nat \<Rightarrow> TokenBucket \<Rightarrow> TokenBucket \<Rightarrow> bool" where
  none: "acquisitions 0 b b"
| more: "acquisitions k b c \<Longrightarrow> updated c \<le> now \<Longrightarrow> (\<And>d. now + d \<le> wake d) \<Longrightarrow>
     acquisitions (Suc k) b (snd (acquire now wake c))"

text \<open>
  The rate guarantee: from any well-formed bucket, the number of requests let through
  never exceeds the burst capacity plus the rate times the elapsed time, and the token
  count stays between zero and the capacity.
\<close>

theorem bucket_rate_bound:
  assumes "acquisitions k b c" and "bucket_wf b"
  shows "bucket_wf c \<and> rat_of_nat k \<le> capacity b + rate b * (updated c - updated b)"
proof -
  have "bucket_wf c \<and> rate c = rate b \<and>
    rat_of_nat k + tokens c \<le> tokens b + rate b * (updated c - updated b)"
    using assms
  proof (induction rule: acquisitions.induct)
    case (none b)
    then show ?case by simp
  next
    case (more k b c now wake)
    then have "bucket_wf c" by simp
    from acquire_step [OF this more.hyps(2,3)] more.IH [OF more.prems] show ?case
      by (simp add: algebra_simps)
  qed
  with assms(2) show ?thesis by (auto simp: bucket_wf_def)
qed

theorem bucket_rate_bound_witness:
  "\<exists>c. acquisitions 1 (new_bucket 5 0) c \<and> bucket_wf (new_bucket 5 0) \<and>
     rat_of_nat 1 \<le> capacity (new_bucket 5 0) + rate (new_bucket 5 0) * (updated c - updated (new_bucket 5 0))"
proof -
  let ?c = "snd (acquire 2 (\<lambda>d. 2 + d) (new_bucket 5 0))"
  have run: "acquisitions 1 (new_bucket 5 0) ?c"
    using acquisitions.more [OF acquisitions.none, of "new_bucket 5 0" 2 "\<lambda>d. 2 + d"]
    by (simp add: new_bucket_def)
  have wf: "bucket_wf (new_bucket 5 0)" by (simp add: bucket_wf_new)
  show ?thesis using run wf bucket_rate_bound [OF run wf] by blast
qed

end
