(* ===== verification/Store.thy ===== *)
theory Store
  imports OrderBook Session
begin

text \<open>
  The durable order store: the row types of \<open>db/models.py\<close>, the state of the whole engine
  (\<open>world\<close>) and the repository functions of \<open>db/repositories.py\<close> over it. The schema itself
  (the \<open>orders_guard\<close> trigger, the column CHECKs, the value a row's \<open>updated_at\<close> takes on
  UPDATE) lives in another repository: it is the parameter \<open>db_env\<close>. Columns store
  decimals exactly and every statement reaches the database.
\<close>

section \<open>Rows\<close>

record OrderRow =
  r_client_order_id :: string
  r_broker :: Broker
  r_broker_order_id :: "string option"
  r_account :: string
  r_symbol :: string
  r_market :: Market
  r_side :: Side
  r_order_type :: OrderType
  r_price :: "decimal option"
  r_stop_price :: "decimal option"
  r_quantity :: int
  r_display_qty :: "int option"
  r_tif :: Tif
  r_position_effect :: "PositionEffect option"
  r_status :: OrderState
  r_reject_reason :: "string option"
  r_strategy_id :: "string option"
  r_created_at :: timestamp
  r_updated_at :: timestamp

record FillRow =
  f_fill_id :: nat
  f_client_order_id :: string
  f_broker_fill_id :: string
  f_price :: decimal
  f_quantity :: int
  f_exec_ts :: timestamp
  f_created_at :: timestamp

text \<open>\<open>OrderResultRow\<close>: the order row joined with its fill aggregate.\<close>

record OrderResultRow =
  result_row :: OrderRow
  filled_qty :: int
  fill_notional :: "decimal option"

definition avg_fill_price :: "OrderResultRow \<Rightarrow> decimal option" where
  "avg_fill_price r =
     (case fill_notional r of
        None \<Rightarrow> None
      | Some n \<Rightarrow> if filled_qty r \<le> 0 then None else Some (dec_div n (dec_of_int (filled_qty r))))"

section \<open>The state of the engine\<close>

text \<open>
  The two tables, the event hub and the order-book service (None before the application
  created them, or when disabled), the clock in microseconds, the breaker and the outbound token bucket of each broker's process-wide
  adapter with what the two real ones remember, and two opaque parts: \<open>redis\<close>, the state of the Redis sidecar, and \<open>venue\<close>,
  everything beyond the broker bridges (the venues, the market-data service).
\<close>

record ('r, 'v) world =
  orders :: "OrderRow list"
  fills :: "FillRow list"
  hub :: "EventHub option"
  books :: "OrderBookService option"
  clock :: timestamp
  breakers :: "Broker \<Rightarrow> SessionCircuitBreaker"
  buckets :: "Broker \<Rightarrow> TokenBucket"
  lib_session :: LiberatorSession
  sp_session :: StreamingProSession
  redis :: 'r
  venue :: 'v

type_synonym ('r, 'v, 'a) eng = "(('r, 'v) world, exn, 'a) prog"

text \<open>
  The schema's part: \<open>orders_guard s t\<close> says the trigger admits a status change from \<open>s\<close> to
  \<open>t\<close>, \<open>orders_check\<close> and \<open>fills_check\<close> are the column CHECKs, \<open>touched\<close> the value of
  \<open>updated_at\<close> after an UPDATE.
\<close>

record db_env =
  orders_guard :: "OrderState \<Rightarrow> OrderState \<Rightarrow> bool"
  orders_check :: "OrderRow \<Rightarrow> bool"
  fills_check :: "FillRow \<Rightarrow> bool"
  touched :: "timestamp \<Rightarrow> OrderRow \<Rightarrow> timestamp"

text \<open>
  The documented contract of the trigger: it encodes the frozen graph, so it admits no
  status change outside it.
\<close>

definition guard_frozen :: "db_env \<Rightarrow> bool" where
  "guard_frozen db \<longleftrightarrow> (\<forall>s t. orders_guard db s t \<longrightarrow> is_legal s t)"

abbreviation find_order :: "string \<Rightarrow> ('r, 'v) world \<Rightarrow> OrderRow option" where
  "find_order cid w \<equiv> tbl_find r_client_order_id cid (orders w)"

section \<open>Statements\<close>

text \<open>
  \<open>UPDATE execution.orders SET f WHERE client_order_id = cid AND p\<close>: the number of rows
  written. The trigger sees every status change, the CHECKs every row written.
\<close>

definition db_update ::
  "db_env \<Rightarrow> string \<Rightarrow> (OrderRow \<Rightarrow> bool) \<Rightarrow> (OrderRow \<Rightarrow> OrderRow) \<Rightarrow> ('r, 'v, nat) eng" where
  "db_update db cid p f w =
     (case find_order cid w of
        None \<Rightarrow> (Inr 0, w)
      | Some r \<Rightarrow>
          if \<not> p r then (Inr 0, w)
          else
            let r' = (f r)\<lparr>r_updated_at := touched db (clock w) r\<rparr>
            in if (r_status r' \<noteq> r_status r \<and> \<not> orders_guard db (r_status r) (r_status r')) \<or>
                  \<not> orders_check db r'
               then (Inl CheckViolationError, w)
               else (Inr 1, w\<lparr>orders := tbl_update r_client_order_id cid (\<lambda>_. r') (orders w)\<rparr>))"

text \<open>\<open>async with conn.transaction()\<close>: an exception rolls the two tables back.\<close>

definition transaction :: "('r, 'v, 'a) eng \<Rightarrow> ('r, 'v, 'a) eng" where
  "transaction m w =
     (case m w of
        (Inl e, t) \<Rightarrow> (Inl e, t\<lparr>orders := orders w, fills := fills w\<rparr>)
      | (Inr x, t) \<Rightarrow> (Inr x, t))"

text \<open>\<open>hub = get_event_hub(); if hub is not None: hub.publish(...)\<close>.\<close>

definition hub_publish ::
  "string \<Rightarrow> OrderState \<Rightarrow> string option \<Rightarrow> string option \<Rightarrow> decimal option \<Rightarrow> int option \<Rightarrow>
   FillEvent option \<Rightarrow> ('r, 'v, unit) eng" where
  "hub_publish cid st sid boid pr qty fl =
     modifyE (\<lambda>w. w\<lparr>hub := map_option (publish (clock w) cid st sid boid pr qty fl) (hub w)\<rparr>)"

definition hub_register :: "string \<Rightarrow> string \<Rightarrow> ('r, 'v, unit) eng" where
  "hub_register cid sid =
     modifyE (\<lambda>w. w\<lparr>hub := map_option (register_strategy cid sid) (hub w)\<rparr>)"

section \<open>Repository functions\<close>

definition row_of_order :: "NormalizedOrder \<Rightarrow> string option \<Rightarrow> timestamp \<Rightarrow> OrderRow" where
  "row_of_order od strategy_id now =
     \<lparr>r_client_order_id = client_order_id od, r_broker = broker od, r_broker_order_id = None,
      r_account = account od, r_symbol = symbol od, r_market = market od, r_side = side od,
      r_order_type = order_type od, r_price = price od, r_stop_price = stop_price od,
      r_quantity = quantity od, r_display_qty = display_qty od, r_tif = tif od,
      r_position_effect = position_effect od, r_status = PENDING_NEW, r_reject_reason = None,
      r_strategy_id = strategy_id, r_created_at = now, r_updated_at = now\<rparr>"

text \<open>The INSERT alone: the primary key and the column CHECKs.\<close>

definition db_insert_order :: "db_env \<Rightarrow> OrderRow \<Rightarrow> ('r, 'v, unit) eng" where
  "db_insert_order db r w =
     (if find_order (r_client_order_id r) w \<noteq> None then (Inl UniqueViolationError, w)
      else if \<not> orders_check db r then (Inl CheckViolationError, w)
      else (Inr (), w\<lparr>orders := orders w @ [r]\<rparr>))"

definition insert_order ::
  "db_env \<Rightarrow> NormalizedOrder \<Rightarrow> string option \<Rightarrow> ('r, 'v, unit) eng" where
  "insert_order db od strategy_id =
     bindE (getsE clock) (\<lambda>now.
     bindE
       (catchE (\<lambda>e. e = CheckViolationError)
         (catchE (\<lambda>e. e = UniqueViolationError)
           (db_insert_order db (row_of_order od strategy_id now))
           (\<lambda>_. raiseE DuplicateOrderSignal))
         (\<lambda>_. raiseE (Rejected StoreConstraintViolated (Some (client_order_id od)))))
       (\<lambda>_.
     bindE (case strategy_id of
              Some sid \<Rightarrow> hub_register (client_order_id od) sid
            | None \<Rightarrow> returnE ()) (\<lambda>_.
     hub_publish (client_order_id od) PENDING_NEW strategy_id None None None None)))"

definition fetch_order :: "string \<Rightarrow> ('r, 'v, OrderRow option) eng" where
  "fetch_order cid = getsE (find_order cid)"

text \<open>\<open>SUM(quantity)\<close> and \<open>SUM(price * quantity)\<close> over the fills of one order, exact.\<close>

definition fills_of :: "string \<Rightarrow> FillRow list \<Rightarrow> FillRow list" where
  "fills_of cid fs = filter (\<lambda>f. f_client_order_id f = cid) fs"

definition sum_quantity :: "FillRow list \<Rightarrow> int" where
  "sum_quantity fs = sum_list (map f_quantity fs)"

definition dec_add_exact :: "decimal \<Rightarrow> decimal \<Rightarrow> decimal" where
  "dec_add_exact a b = (case align a b of (x, y, m) \<Rightarrow> Dec (x + y) m)"

definition sum_notional :: "FillRow list \<Rightarrow> decimal option" where
  "sum_notional fs =
     (if fs = [] then None
      else Some (foldl (\<lambda>acc f. dec_add_exact acc (Dec (dcoeff (f_price f) * f_quantity f)
                                                      (dexp (f_price f)))) (Dec 0 0) fs))"

definition order_result :: "OrderRow \<Rightarrow> FillRow list \<Rightarrow> OrderResultRow" where
  "order_result r fs =
     \<lparr>result_row = r, filled_qty = sum_quantity (fills_of (r_client_order_id r) fs),
      fill_notional = sum_notional (fills_of (r_client_order_id r) fs)\<rparr>"

definition fetch_order_result :: "string \<Rightarrow> ('r, 'v, OrderResultRow option) eng" where
  "fetch_order_result cid =
     getsE (\<lambda>w. map_option (\<lambda>r. order_result r (fills w)) (find_order cid w))"

definition ack_order :: "db_env \<Rightarrow> string \<Rightarrow> string \<Rightarrow> ('r, 'v, unit) eng" where
  "ack_order db cid broker_order_id =
     bindE (db_update db cid (\<lambda>r. r_status r = PENDING_NEW)
              (\<lambda>r. r\<lparr>r_status := NEW, r_broker_order_id := Some broker_order_id\<rparr>)) (\<lambda>n.
     if n = 0 then raiseE (Rejected IllegalTransition (Some cid))
     else hub_publish cid NEW None (Some broker_order_id) None None None)"

definition replace_order ::
  "db_env \<Rightarrow> string \<Rightarrow> decimal option \<Rightarrow> int option \<Rightarrow> ('r, 'v, unit) eng" where
  "replace_order db cid new_price new_qty =
     bindE (db_update db cid (\<lambda>r. r_status r = PENDING_REPLACE)
              (\<lambda>r. r\<lparr>r_status := NEW,
                     r_price := (case new_price of Some p \<Rightarrow> Some p | None \<Rightarrow> r_price r),
                     r_quantity := (case new_qty of Some q \<Rightarrow> q | None \<Rightarrow> r_quantity r)\<rparr>)) (\<lambda>n.
     if n = 0 then raiseE (Rejected IllegalTransition (Some cid))
     else hub_publish cid NEW None None new_price new_qty None)"

definition update_status :: "db_env \<Rightarrow> string \<Rightarrow> OrderState \<Rightarrow> ('r, 'v, unit) eng" where
  "update_status db cid new_status =
     bindE (fetch_order cid) (\<lambda>row.
     case row of
       None \<Rightarrow> raiseE (Rejected IllegalTransition (Some cid))
     | Some r \<Rightarrow>
         if r_status r = new_status then returnE ()
         else
           bindE (liftE (assert_legal (r_status r) new_status (Some cid))) (\<lambda>_.
           bindE (catchE (\<lambda>e. e = CheckViolationError)
                   (db_update db cid (\<lambda>_. True) (\<lambda>r. r\<lparr>r_status := new_status\<rparr>))
                   (\<lambda>_. raiseE (Rejected IllegalTransition (Some cid)))) (\<lambda>_.
           hub_publish cid new_status (r_strategy_id r) (r_broker_order_id r) None None None)))"

definition set_reject_reason :: "db_env \<Rightarrow> string \<Rightarrow> string \<Rightarrow> ('r, 'v, unit) eng" where
  "set_reject_reason db cid reason =
     bindE (db_update db cid (\<lambda>_. True) (\<lambda>r. r\<lparr>r_reject_reason := Some reason\<rparr>))
       (\<lambda>_. returnE ())"

text \<open>
  \<open>INSERT INTO execution.fills ... ON CONFLICT (client_order_id, broker_fill_id) DO NOTHING\<close>:
  the number of rows inserted. Fill ids come from a sequence.
\<close>

definition fill_key :: "FillRow \<Rightarrow> string \<times> string" where
  "fill_key f = (f_client_order_id f, f_broker_fill_id f)"

definition db_insert_fill ::
  "db_env \<Rightarrow> string \<Rightarrow> string \<Rightarrow> decimal \<Rightarrow> int \<Rightarrow> timestamp \<Rightarrow> ('r, 'v, nat) eng" where
  "db_insert_fill db cid fid pr qty exec_ts w =
     (let f = \<lparr>f_fill_id = length (fills w) + 1, f_client_order_id = cid, f_broker_fill_id = fid,
               f_price = pr, f_quantity = qty, f_exec_ts = exec_ts, f_created_at = clock w\<rparr>
      in if \<not> fills_check db f then (Inl CheckViolationError, w)
         else if tbl_find fill_key (cid, fid) (fills w) \<noteq> None then (Inr 0, w)
         else (Inr 1, w\<lparr>fills := fills w @ [f]\<rparr>))"

text \<open>The body of the transaction: the fill, then the status the aggregate calls for.\<close>

definition fill_status :: "int \<Rightarrow> int \<Rightarrow> OrderState" where
  "fill_status filled total_quantity = (if total_quantity \<le> filled then FILLED else PARTIALLY_FILLED)"

definition fill_transaction ::
  "db_env \<Rightarrow> string \<Rightarrow> string \<Rightarrow> decimal \<Rightarrow> int \<Rightarrow> timestamp \<Rightarrow> int \<Rightarrow>
   ('r, 'v, nat \<times> OrderState) eng" where
  "fill_transaction db cid broker_fill_id pr qty exec_ts total_quantity =
     bindE (db_insert_fill db cid broker_fill_id pr qty exec_ts) (\<lambda>inserted.
     bindE (getsE (\<lambda>w. sum_quantity (fills_of cid (fills w)))) (\<lambda>filled.
     bindE (getsE (\<lambda>w. map_option r_status (find_order cid w))) (\<lambda>current.
     let target = fill_status filled total_quantity
     in bindE (if current \<noteq> Some target
               then catchE (\<lambda>e. e = CheckViolationError)
                      (db_update db cid (\<lambda>_. True) (\<lambda>r. r\<lparr>r_status := target\<rparr>))
                      (\<lambda>_. raiseE (Rejected IllegalTransition (Some cid)))
               else returnE 0) (\<lambda>_.
        returnE (inserted, target)))))"

definition apply_fill ::
  "db_env \<Rightarrow> string \<Rightarrow> string \<Rightarrow> decimal \<Rightarrow> int \<Rightarrow> timestamp \<Rightarrow> int \<Rightarrow> ('r, 'v, OrderState) eng" where
  "apply_fill db cid broker_fill_id pr qty exec_ts total_quantity =
     bindE (transaction (fill_transaction db cid broker_fill_id pr qty exec_ts total_quantity))
       (\<lambda>(inserted, target).
     bindE (if 0 < inserted
            then hub_publish cid target None None None None
                   (Some \<lparr>fe_broker_fill_id = broker_fill_id, fe_price = pr, fe_quantity = qty,
                          fe_exec_ts = exec_ts\<rparr>)
            else returnE ()) (\<lambda>_.
     returnE target))"

text \<open>\<open>ORDER BY created_at\<close> over insertion order.\<close>

definition fetch_open_orders :: "('r, 'v, OrderRow list) eng" where
  "fetch_open_orders =
     getsE (\<lambda>w. sort_key r_created_at
                  (filter (\<lambda>r. r_status r \<in> {NEW, PARTIALLY_FILLED}) (orders w)))"

definition RECONCILE_STATES :: "OrderState list" where
  "RECONCILE_STATES = [PENDING_NEW, NEW, PARTIALLY_FILLED, PENDING_CANCEL]"

definition fetch_orders_for_reconcile :: "Broker \<Rightarrow> bool \<Rightarrow> ('r, 'v, OrderRow list) eng" where
  "fetch_orders_for_reconcile b include_pending_replace =
     getsE (\<lambda>w. sort_key r_created_at
       (filter (\<lambda>r. r_broker r = b \<and>
                    r_status r \<in> set (RECONCILE_STATES @
                      (if include_pending_replace then [PENDING_REPLACE] else []))) (orders w)))"

definition fetch_client_order_ids_for_strategy :: "string \<Rightarrow> ('r, 'v, string set) eng" where
  "fetch_client_order_ids_for_strategy sid =
     getsE (\<lambda>w. set (map r_client_order_id (filter (\<lambda>r. r_strategy_id r = Some sid) (orders w))))"

section \<open>What every repository function keeps\<close>

text \<open>The columns no statement ever writes.\<close>

definition same_identity :: "OrderRow \<Rightarrow> OrderRow \<Rightarrow> bool" where
  "same_identity r r' \<longleftrightarrow>
     r_client_order_id r' = r_client_order_id r \<and> r_broker r' = r_broker r \<and>
     r_account r' = r_account r \<and> r_symbol r' = r_symbol r \<and> r_market r' = r_market r \<and>
     r_side r' = r_side r \<and> r_order_type r' = r_order_type r \<and> r_stop_price r' = r_stop_price r \<and>
     r_display_qty r' = r_display_qty r \<and> r_tif r' = r_tif r \<and>
     r_position_effect r' = r_position_effect r \<and> r_strategy_id r' = r_strategy_id r \<and>
     r_created_at r' = r_created_at r"

lemma same_identity_refl [simp]: "same_identity r r"
  by (simp add: same_identity_def)

lemma same_identity_trans: "same_identity r s \<Longrightarrow> same_identity s t \<Longrightarrow> same_identity r t"
  by (simp add: same_identity_def)

text \<open>The primary key of each table is one.\<close>

definition store_wf :: "('r, 'v) world \<Rightarrow> bool" where
  "store_wf w \<longleftrightarrow> tbl_wf r_client_order_id (orders w) \<and> tbl_wf fill_key (fills w)"

text \<open>
  The promise of the store to the rest of the engine: an order that exists keeps existing
  with the same identity, its status moves along the frozen edges only, recorded fills are
  never lost or changed, and the keys stay keys.
\<close>

definition evolves :: "('r, 'v) world \<Rightarrow> ('r, 'v) world \<Rightarrow> bool" where
  "evolves w w' \<longleftrightarrow>
     (\<forall>cid r. find_order cid w = Some r \<longrightarrow>
        (\<exists>r'. find_order cid w' = Some r' \<and> same_identity r r' \<and>
              legal_path (r_status r) (r_status r'))) \<and>
     prefix (fills w) (fills w') \<and>
     (store_wf w \<longrightarrow> store_wf w')"

lemma evolves_refl: "evolves w w"
  by (auto simp: evolves_def)

lemma evolves_trans: "evolves u v \<Longrightarrow> evolves v w \<Longrightarrow> evolves u w"
  unfolding evolves_def
  by (meson legal_path_trans prefix_order.trans same_identity_trans)

interpretation store: effect_order evolves
  by unfold_locales (rule evolves_refl, erule (1) evolves_trans)

text \<open>Programs that leave the two tables, or the venue, alone.\<close>

definition same_store :: "('r, 'v) world \<Rightarrow> ('r, 'v) world \<Rightarrow> bool" where
  "same_store w w' \<longleftrightarrow> orders w' = orders w \<and> fills w' = fills w"

definition same_venue :: "('r, 'v) world \<Rightarrow> ('r, 'v) world \<Rightarrow> bool" where
  "same_venue w w' \<longleftrightarrow> venue w' = venue w"

interpretation frame: effect_order same_store
  by unfold_locales (auto simp: same_store_def)

interpretation offline: effect_order same_venue
  by unfold_locales (auto simp: same_venue_def)

lemma same_store_evolves: "same_store w w' \<Longrightarrow> evolves w w'"
  by (auto simp: same_store_def evolves_def store_wf_def)

lemma frame_evolves: "effect same_store Q m \<Longrightarrow> effect evolves Q m"
  by (erule effect_mono) (rule same_store_evolves)

lemma same_store_hub_publish: "effect same_store any (hub_publish cid st sid boid pr qty fl)"
  by (simp add: effect_def hub_publish_def same_store_def)

lemma same_store_hub_register: "effect same_store any (hub_register cid sid)"
  by (simp add: effect_def hub_register_def same_store_def)

lemmas evolves_hub_publish = same_store_hub_publish [THEN frame_evolves]
lemmas evolves_hub_register = same_store_hub_register [THEN frame_evolves]

text \<open>One UPDATE of one row.\<close>

lemma evolves_one_row:
  assumes row: "find_order cid w = Some r"
    and id: "same_identity r r'" and path: "legal_path (r_status r) (r_status r')"
  shows "evolves w (w\<lparr>orders := tbl_update r_client_order_id cid (\<lambda>_. r') (orders w)\<rparr>)"
proof -
  have cid: "r_client_order_id r = cid" using tbl_find_SomeD [OF row] by simp
  have upd: "tbl_update r_client_order_id cid (\<lambda>_. r') (orders w) =
      tbl_update r_client_order_id cid (\<lambda>s. if r_client_order_id s = cid then r' else s) (orders w)"
    by (simp add: tbl_update_def)
  have key: "r_client_order_id (if r_client_order_id s = cid then r' else s) = r_client_order_id s" for s
    using id cid by (simp add: same_identity_def)
  show ?thesis
    unfolding evolves_def upd store_wf_def
    using row id path cid by (auto simp: tbl_find_update [of r_client_order_id, OF key]
        tbl_wf_update [of r_client_order_id, OF key])
qed

lemma db_update_cases:
  obtains (missing) "find_order cid w = None" and "db_update db cid p f w = (Inr 0, w)"
  | (skipped) r where "find_order cid w = Some r" and "\<not> p r" and "db_update db cid p f w = (Inr 0, w)"
  | (refused) r where "find_order cid w = Some r" and "p r"
      and "db_update db cid p f w = (Inl CheckViolationError, w)"
  | (written) r r' where "find_order cid w = Some r" and "p r"
      and "r' = (f r)\<lparr>r_updated_at := touched db (clock w) r\<rparr>"
      and "r_status r' \<noteq> r_status r \<longrightarrow> orders_guard db (r_status r) (r_status r')"
      and "orders_check db r'"
      and "db_update db cid p f w =
             (Inr 1, w\<lparr>orders := tbl_update r_client_order_id cid (\<lambda>_. r') (orders w)\<rparr>)"
proof (cases "find_order cid w")
  case None
  then show thesis using missing by (simp add: db_update_def)
next
  case (Some r)
  let ?r' = "(f r)\<lparr>r_updated_at := touched db (clock w) r\<rparr>"
  let ?bad = "(r_status ?r' \<noteq> r_status r \<and> \<not> orders_guard db (r_status r) (r_status ?r')) \<or>
              \<not> orders_check db ?r'"
  show thesis
  proof (cases "p r")
    case False
    with Some show thesis using skipped by (simp add: db_update_def)
  next
    case True
    show thesis
    proof (cases ?bad)
      case bad: True
      with Some True show thesis using refused by (simp add: db_update_def Let_def)
    next
      case ok: False
      with Some True have "db_update db cid p f w =
          (Inr 1, w\<lparr>orders := tbl_update r_client_order_id cid (\<lambda>_. ?r') (orders w)\<rparr>)"
        by (simp add: db_update_def Let_def)
      with ok show thesis using written [OF Some True refl] by blast
    qed
  qed
qed

lemma db_update_evolves:
  assumes "\<And>r. find_order cid w = Some r \<Longrightarrow> p r \<Longrightarrow> same_identity r (f r)"
    and "\<And>r. find_order cid w = Some r \<Longrightarrow> p r \<Longrightarrow>
        r_status (f r) = r_status r \<or>
        (orders_guard db (r_status r) (r_status (f r)) \<longrightarrow> is_legal (r_status r) (r_status (f r)))"
  shows "evolves w (after (db_update db cid p f) w)"
proof (cases rule: db_update_cases [of cid w db p f])
  case (written r r')
  have "same_identity r r'" using assms(1) [OF written(1,2)] written(3)
    by (simp add: same_identity_def)
  moreover have "legal_path (r_status r) (r_status r')"
    using assms(2) [OF written(1,2)] written(3,4) by (auto intro: is_legal_path)
  ultimately show ?thesis using written(6) evolves_one_row [OF written(1)] by simp
qed (simp_all add: evolves_refl)

lemma db_update_venue: "same_venue w (after (db_update db cid p f) w)"
  by (cases rule: db_update_cases [of cid w db p f]) (simp_all add: same_venue_def)

subsection \<open>Effects of each function on the tables\<close>

named_theorems store_effects "the effect of each repository function on the tables"
named_theorems venue_effects "the functions that do not reach the venue"

lemma evolves_fetch_order [store_effects]: "effect evolves any (fetch_order cid)"
  unfolding fetch_order_def by (rule store.effect_gets_any)

lemma evolves_fetch_order_result [store_effects]: "effect evolves any (fetch_order_result cid)"
  unfolding fetch_order_result_def by (rule store.effect_gets_any)

lemma evolves_fetch_open_orders [store_effects]: "effect evolves any fetch_open_orders"
  unfolding fetch_open_orders_def by (rule store.effect_gets_any)

lemma db_insert_order_evolves: "effect evolves any (db_insert_order db r)"
proof (rule effectI)
  fix w :: "('r, 'v) world"
  have "evolves w (w\<lparr>orders := orders w @ [r]\<rparr>)" if "find_order (r_client_order_id r) w = None"
    using that by (auto simp: evolves_def store_wf_def tbl_wf_snoc split: option.splits)
  then show "evolves w (after (db_insert_order db r) w)"
    by (auto simp: db_insert_order_def evolves_refl)
qed simp

lemma evolves_insert_order [store_effects]: "effect evolves any (insert_order db od sid)"
  unfolding insert_order_def
  by (intro store.effect_seq store.effect_catch store.effect_option store.effect_gets_any
      store.effect_raise store.effect_return db_insert_order_evolves evolves_hub_publish
      evolves_hub_register) simp_all

lemma evolves_ack_order [store_effects]: "effect evolves any (ack_order db cid boid)"
  unfolding ack_order_def
proof (intro store.effect_seq store.effect_if store.effect_raise evolves_hub_publish)
  show "effect evolves any (db_update db cid (\<lambda>r. r_status r = PENDING_NEW)
          (\<lambda>r. r\<lparr>r_status := NEW, r_broker_order_id := Some boid\<rparr>))"
    by (intro effectI db_update_evolves) (auto simp: same_identity_def is_legal_edge)
qed

lemma evolves_replace_order [store_effects]: "effect evolves any (replace_order db cid np nq)"
  unfolding replace_order_def
proof (intro store.effect_seq store.effect_if store.effect_raise evolves_hub_publish)
  show "effect evolves any (db_update db cid (\<lambda>r. r_status r = PENDING_REPLACE)
          (\<lambda>r. r\<lparr>r_status := NEW,
                 r_price := (case np of Some p \<Rightarrow> Some p | None \<Rightarrow> r_price r),
                 r_quantity := (case nq of Some q \<Rightarrow> q | None \<Rightarrow> r_quantity r)\<rparr>))"
    by (intro effectI db_update_evolves) (auto simp: same_identity_def is_legal_edge)
qed

lemma evolves_set_reject_reason [store_effects]: "effect evolves any (set_reject_reason db cid reason)"
  unfolding set_reject_reason_def
proof (intro store.effect_seq store.effect_return)
  show "effect evolves any (db_update db cid (\<lambda>_. True) (\<lambda>r. r\<lparr>r_reject_reason := Some reason\<rparr>))"
    by (intro effectI db_update_evolves) (auto simp: same_identity_def)
qed simp

text \<open>The app-side guard runs on the row the UPDATE then writes.\<close>

lemma evolves_update_status [store_effects]: "effect evolves any (update_status db cid st)"
proof (rule effectI)
  fix w :: "('r, 'v) world"
  show "evolves w (after (update_status db cid st) w)"
  proof (cases "find_order cid w")
    case None
    then show ?thesis by (simp add: update_status_def fetch_order_def evolves_refl)
  next
    case (Some r)
    consider (same) "r_status r = st" | (illegal) "r_status r \<noteq> st" "\<not> is_legal (r_status r) st"
      | (legal) "r_status r \<noteq> st" "is_legal (r_status r) st" by blast
    then show ?thesis
    proof cases
      case legal
      let ?upd = "db_update db cid (\<lambda>_. True) (\<lambda>r. r\<lparr>r_status := st\<rparr>)"
      let ?guarded = "catchE (\<lambda>e. e = CheckViolationError) ?upd
                        (\<lambda>_. raiseE (Rejected IllegalTransition (Some cid)))"
      have "evolves w (after ?upd w)"
        by (rule db_update_evolves) (use Some legal in \<open>auto simp: same_identity_def\<close>)
      then have g: "evolves w (after ?guarded w)"
        by (auto simp: catchE_def split: prod.splits sum.splits)
      obtain x t where gt: "?guarded w = (x, t)" by fastforce
      have "after (update_status db cid st) w =
          after (bindE ?guarded (\<lambda>_. hub_publish cid st (r_strategy_id r) (r_broker_order_id r) None None None)) w"
        using Some legal by (simp add: update_status_def fetch_order_def assert_legal_def)
      moreover have "evolves t (after (hub_publish cid st (r_strategy_id r) (r_broker_order_id r) None None None) t)"
        by (rule effectD [OF evolves_hub_publish])
      ultimately show ?thesis using g gt
        by (cases x) (auto simp: bindE_def intro: evolves_trans)
    qed (use Some in \<open>simp_all add: update_status_def fetch_order_def assert_legal_def evolves_refl\<close>)
  qed
qed simp

lemma evolves_transaction:
  fixes m :: "('r, 'v, 'a) eng"
  assumes "effect evolves Q m"
  shows "effect evolves Q (transaction m)"
proof (rule effectI)
  fix w :: "('r, 'v) world"
  have "evolves w (t\<lparr>orders := orders w, fills := fills w\<rparr>)" for t
    by (rule same_store_evolves) (simp add: same_store_def)
  then show "evolves w (after (transaction m) w)"
    using effectD [OF assms, of w] by (auto simp: transaction_def split: prod.splits sum.splits)
next
  fix w x
  assume "outcome (transaction m) w = Inr x"
  then obtain t where "m w = (Inr x, t)"
    by (auto simp: transaction_def split: prod.splits sum.splits)
  then show "Q x" using assms by (rule effect_outcomeD [rotated])
qed

lemma evolves_db_insert_fill: "effect evolves any (db_insert_fill db cid fid pr qty exec_ts)"
proof (rule effectI)
  fix w :: "('r, 'v) world"
  have "evolves w (w\<lparr>fills := fills w @ [f]\<rparr>)" if "tbl_find fill_key (fill_key f) (fills w) = None" for f
    using that by (auto simp: evolves_def store_wf_def tbl_wf_snoc)
  then show "evolves w (after (db_insert_fill db cid fid pr qty exec_ts) w)"
    by (auto simp: db_insert_fill_def fill_key_def Let_def evolves_refl)
qed simp

lemma evolves_apply_fill [store_effects]:
  assumes "guard_frozen db"
  shows "effect evolves any (apply_fill db cid fid pr qty exec_ts tot)"
proof -
  have upd: "effect evolves any (db_update db cid (\<lambda>_. True) (\<lambda>r. r\<lparr>r_status := st\<rparr>))" for st
    using assms
    by (intro effectI db_update_evolves) (auto simp: same_identity_def guard_frozen_def)
  have body: "effect evolves any (fill_transaction db cid fid pr qty exec_ts tot)"
    unfolding fill_transaction_def Let_def
    by (intro store.effect_seq store.effect_if store.effect_catch evolves_db_insert_fill
        store.effect_gets_any store.effect_raise store.effect_return upd) simp_all
  show ?thesis
    unfolding apply_fill_def case_prod_unfold
    by (intro store.effect_seq store.effect_if store.effect_return evolves_transaction body
        evolves_hub_publish) simp_all
qed

text \<open>The keys stay keys, and rows are never lost, through any sequence of these calls.\<close>

lemma evolves_row: "evolves w w' \<Longrightarrow> find_order cid w = Some r \<Longrightarrow>
    \<exists>r'. find_order cid w' = Some r' \<and> same_identity r r' \<and> legal_path (r_status r) (r_status r')"
  by (simp add: evolves_def)

lemma evolves_terminal:
  "evolves w w' \<Longrightarrow> find_order cid w = Some r \<Longrightarrow> is_terminal (r_status r) \<Longrightarrow>
   \<exists>r'. find_order cid w' = Some r' \<and> r_status r' = r_status r"
  by (metis evolves_row legal_path_terminal)

subsection \<open>Functions that never reach a venue\<close>

lemma offline_modify: "(\<And>w. venue (f w) = venue w) \<Longrightarrow> effect same_venue any (modifyE f)"
  by (simp add: effect_def same_venue_def)

lemma offline_hub_publish: "effect same_venue any (hub_publish cid st sid boid pr qty fl)"
  unfolding hub_publish_def by (rule offline_modify) simp

lemma offline_hub_register: "effect same_venue any (hub_register cid sid)"
  unfolding hub_register_def by (rule offline_modify) simp

lemma offline_db_update: "effect same_venue any (db_update db cid p f)"
  by (rule effectI) (simp_all add: db_update_venue)

lemma offline_db_insert_order: "effect same_venue any (db_insert_order db r)"
  by (simp add: effect_def db_insert_order_def same_venue_def)

lemma offline_db_insert_fill: "effect same_venue any (db_insert_fill db cid fid pr qty exec_ts)"
  by (simp add: effect_def db_insert_fill_def same_venue_def Let_def)

lemma offline_transaction:
  "effect same_venue Q m \<Longrightarrow> effect same_venue Q (transaction m)"
  by (auto simp: effect_def transaction_def same_venue_def split: prod.splits sum.splits)
    (metis fst_conv snd_conv)+

lemma offline_fetch_order [venue_effects]: "effect same_venue any (fetch_order cid)"
  unfolding fetch_order_def by (rule offline.effect_gets_any)

lemma offline_fetch_order_result [venue_effects]: "effect same_venue any (fetch_order_result cid)"
  unfolding fetch_order_result_def by (rule offline.effect_gets_any)

lemma offline_insert_order [venue_effects]: "effect same_venue any (insert_order db od sid)"
  unfolding insert_order_def
  by (intro offline.effect_seq offline.effect_catch offline.effect_option offline.effect_gets_any
      offline.effect_raise offline.effect_return offline_db_insert_order offline_hub_publish
      offline_hub_register) simp_all

lemma offline_ack_order [venue_effects]: "effect same_venue any (ack_order db cid boid)"
  unfolding ack_order_def
  by (intro offline.effect_seq offline.effect_if offline.effect_raise offline_db_update
      offline_hub_publish)

lemma offline_replace_order [venue_effects]: "effect same_venue any (replace_order db cid np nq)"
  unfolding replace_order_def
  by (intro offline.effect_seq offline.effect_if offline.effect_raise offline_db_update
      offline_hub_publish)

lemma offline_update_status [venue_effects]: "effect same_venue any (update_status db cid st)"
  unfolding update_status_def
  by (intro offline.effect_seq offline.effect_if offline.effect_option offline.effect_catch
      offline.effect_raise offline.effect_return offline.effect_lift_any offline_db_update
      offline_hub_publish offline_fetch_order) simp_all

lemma offline_set_reject_reason [venue_effects]: "effect same_venue any (set_reject_reason db cid reason)"
  unfolding set_reject_reason_def
  by (intro offline.effect_seq offline.effect_return offline_db_update) simp

lemma offline_apply_fill [venue_effects]:
  "effect same_venue any (apply_fill db cid fid pr qty exec_ts tot)"
  unfolding apply_fill_def fill_transaction_def case_prod_unfold Let_def
  by (intro offline.effect_seq offline.effect_if offline.effect_return offline_transaction
      offline.effect_catch offline.effect_raise offline.effect_gets_any offline_db_insert_fill
      offline_db_update offline_hub_publish) simp_all

section \<open>Recording fills\<close>

text \<open>
  A fill is recorded atomically: whatever makes \<open>apply_fill\<close> raise, both tables are exactly
  what they were before the call, so no fill row is ever left without its status change.
\<close>

theorem apply_fill_atomic:
  assumes "apply_fill db cid fid pr qty exec_ts tot w = (Inl e, w')"
  shows "orders w' = orders w \<and> fills w' = fills w"
  using assms unfolding apply_fill_def
proof (cases rule: bindE_cases)
  case (raised e')
  then show ?thesis by (auto simp: transaction_def split: prod.splits sum.splits)
next
  case (continued x u)
  then show ?thesis
    by (cases x) (auto simp: hub_publish_def bindE_def split: if_splits)
qed

text \<open>A schema for examples: the trigger is the frozen graph and every CHECK passes.\<close>

definition frozen_db :: db_env where
  "frozen_db = \<lparr>orders_guard = is_legal, orders_check = (\<lambda>_. True), fills_check = (\<lambda>_. True),
                touched = (\<lambda>now _. now)\<rparr>"

lemma guard_frozen_frozen_db [simp]: "guard_frozen frozen_db"
  by (simp add: guard_frozen_def frozen_db_def)

definition demo_row :: "string \<Rightarrow> OrderState \<Rightarrow> OrderRow" where
  "demo_row cid st =
     \<lparr>r_client_order_id = cid, r_broker = SIM, r_broker_order_id = None, r_account = ''A'',
      r_symbol = ''PTT'', r_market = SET, r_side = BUY, r_order_type = LIMIT,
      r_price = Some (Dec 10 0), r_stop_price = None, r_quantity = 100, r_display_qty = None,
      r_tif = DAY, r_position_effect = None, r_status = st, r_reject_reason = None,
      r_strategy_id = None, r_created_at = 0, r_updated_at = 0\<rparr>"

definition demo_fill :: "string \<Rightarrow> string \<Rightarrow> int \<Rightarrow> FillRow" where
  "demo_fill cid fid qty =
     \<lparr>f_fill_id = 1, f_client_order_id = cid, f_broker_fill_id = fid, f_price = Dec 10 0,
      f_quantity = qty, f_exec_ts = 0, f_created_at = 0\<rparr>"

definition demo_world :: "OrderRow list \<Rightarrow> FillRow list \<Rightarrow> (unit, unit) world" where
  "demo_world rs fs =
     \<lparr>orders = rs, fills = fs, hub = None, books = None, clock = 0, breakers = (\<lambda>_. new_breaker 3),
      buckets = (\<lambda>_. new_bucket 5 0),
      lib_session = new_liberator_session, sp_session = new_streaming_pro_session, redis = (), venue = ()\<rparr>"

lemmas fill_defs = apply_fill_def transaction_def fill_transaction_def db_insert_fill_def
  hub_publish_def fill_status_def sum_quantity_def fills_of_def fill_key_def

lemmas demo_defs = frozen_db_def demo_row_def demo_fill_def demo_world_def

theorem apply_fill_atomic_witness:
  "apply_fill frozen_db ''c'' ''f1'' (Dec 10 0) 40 0 100 (demo_world [demo_row ''c'' CANCELLED] []) =
     (Inl (Rejected IllegalTransition (Some ''c'')), demo_world [demo_row ''c'' CANCELLED] []) \<and>
   fills (demo_world [demo_row ''c'' CANCELLED] []) = []"
proof -
  have "apply_fill frozen_db ''c'' ''f1'' (Dec 10 0) 40 0 100 (demo_world [demo_row ''c'' CANCELLED] []) =
     (Inl (Rejected IllegalTransition (Some ''c'')), demo_world [demo_row ''c'' CANCELLED] [])"
    by (simp add: fill_defs demo_defs bindE_def catchE_def db_update_def Let_def is_legal_edge)
  from this apply_fill_atomic [OF this] show ?thesis by (simp add: demo_world_def)
qed

text \<open>The new row a first report of a fill inserts.\<close>

definition fill_row ::
  "('r, 'v) world \<Rightarrow> string \<Rightarrow> string \<Rightarrow> decimal \<Rightarrow> int \<Rightarrow> timestamp \<Rightarrow> FillRow" where
  "fill_row w cid fid pr qty exec_ts =
     \<lparr>f_fill_id = length (fills w) + 1, f_client_order_id = cid, f_broker_fill_id = fid,
      f_price = pr, f_quantity = qty, f_exec_ts = exec_ts, f_created_at = clock w\<rparr>"

lemma sum_quantity_snoc:
  "sum_quantity (fills_of cid (fs @ [f])) =
     sum_quantity (fills_of cid fs) + (if f_client_order_id f = cid then f_quantity f else 0)"
  by (simp add: sum_quantity_def fills_of_def)

lemma db_insert_fill_fresh:
  assumes "tbl_find fill_key (cid, fid) (fills w) = None"
    and "fills_check db (fill_row w cid fid pr qty exec_ts)"
  shows "db_insert_fill db cid fid pr qty exec_ts w =
           (Inr 1, w\<lparr>fills := fills w @ [fill_row w cid fid pr qty exec_ts]\<rparr>)"
  using assms by (simp add: db_insert_fill_def fill_row_def)

lemma db_insert_fill_again:
  assumes "tbl_find fill_key (cid, fid) (fills w) \<noteq> None"
    and "fills_check db (fill_row w cid fid pr qty exec_ts)"
  shows "db_insert_fill db cid fid pr qty exec_ts w = (Inr 0, w)"
  using assms by (simp add: db_insert_fill_def fill_row_def)

lemma db_update_status_ok:
  assumes "find_order cid w = Some r" and "orders_guard db (r_status r) st"
    and "orders_check db (r\<lparr>r_status := st, r_updated_at := touched db (clock w) r\<rparr>)"
  shows "db_update db cid (\<lambda>_. True) (\<lambda>r. r\<lparr>r_status := st\<rparr>) w =
     (Inr 1, w\<lparr>orders := tbl_update r_client_order_id cid
        (\<lambda>_. r\<lparr>r_status := st, r_updated_at := touched db (clock w) r\<rparr>) (orders w)\<rparr>)"
  using assms by (simp add: db_update_def Let_def)

lemma find_order_tbl_update:
  assumes "find_order cid w = Some r" and "r_client_order_id r' = cid"
  shows "tbl_find r_client_order_id j (tbl_update r_client_order_id cid (\<lambda>_. r') (orders w)) =
     (if j = cid then Some r' else find_order j w)"
proof -
  have "tbl_update r_client_order_id cid (\<lambda>_. r') (orders w) =
      tbl_update r_client_order_id cid (\<lambda>s. if r_client_order_id s = cid then r' else s) (orders w)"
    by (simp add: tbl_update_def)
  moreover have "r_client_order_id (if r_client_order_id s = cid then r' else s) = r_client_order_id s" for s
    using assms(2) by simp
  ultimately show ?thesis
    using assms by (simp add: tbl_find_update) (metis tbl_find_SomeD)
qed

text \<open>A schema that admits the frozen edges and every row the engine writes.\<close>

definition open_schema :: "db_env \<Rightarrow> bool" where
  "open_schema db \<longleftrightarrow>
     (\<forall>s t. edge s t \<longrightarrow> orders_guard db s t) \<and> (\<forall>x. orders_check db x) \<and> (\<forall>f. fills_check db f)"

lemma apply_fill_first:
  assumes row: "find_order cid w = Some r" and working: "r_status r \<in> {NEW, PARTIALLY_FILLED}"
    and fresh: "tbl_find fill_key (cid, fid) (fills w) = None" and schema: "open_schema db"
    and target: "target = fill_status (sum_quantity (fills_of cid (fills w)) + qty) tot"
  shows "\<exists>w' t. apply_fill db cid fid pr qty exec_ts tot w = (Inr target, w') \<and>
      fills w' = fills w @ [fill_row w cid fid pr qty exec_ts] \<and>
      find_order cid w' = Some (r\<lparr>r_status := target, r_updated_at := t\<rparr>) \<and>
      (\<forall>j. j \<noteq> cid \<longrightarrow> find_order j w' = find_order j w)"
proof -
  let ?w1 = "w\<lparr>fills := fills w @ [fill_row w cid fid pr qty exec_ts]\<rparr>"
  let ?r' = "r\<lparr>r_status := target, r_updated_at := touched db (clock w) r\<rparr>"
  let ?w2 = "?w1\<lparr>orders := tbl_update r_client_order_id cid (\<lambda>_. ?r') (orders w)\<rparr>"
  have guard: "\<And>s t. edge s t \<Longrightarrow> orders_guard db s t" and checks: "\<And>x. orders_check db x" "\<And>f. fills_check db f"
    using schema by (simp_all add: open_schema_def)
  have cid: "r_client_order_id r = cid" using tbl_find_SomeD [OF row] by simp
  have ins: "db_insert_fill db cid fid pr qty exec_ts w = (Inr 1, ?w1)"
    using fresh checks(2) by (simp add: db_insert_fill_fresh)
  have sum: "sum_quantity (fills_of cid (fills ?w1)) = sum_quantity (fills_of cid (fills w)) + qty"
    by (simp add: sum_quantity_snoc) (simp add: fill_row_def)
  have step: "edge (r_status r) target" if "r_status r \<noteq> target"
    using working that by (auto simp: target fill_status_def split: if_splits)
  define w2 where "w2 = (if r_status r = target then ?w1 else ?w2)"
  have txn: "fill_transaction db cid fid pr qty exec_ts tot w = (Inr (1, target), w2)"
    using ins sum row step guard checks(1) target
    by (simp add: fill_transaction_def bindE_def catchE_def Let_def w2_def db_update_status_ok [of cid ?w1 r])
  have "fills w2 = fills ?w1" "find_order cid w2 = Some (if r_status r = target then r else ?r')"
    "\<forall>j. j \<noteq> cid \<longrightarrow> find_order j w2 = find_order j w"
    using row cid find_order_tbl_update [OF row, of ?r'] by (simp_all add: w2_def)
  moreover have "\<exists>t. (if r_status r = target then r else ?r') = r\<lparr>r_status := target, r_updated_at := t\<rparr>"
    by (cases "r_status r = target") (auto intro: exI [of _ "r_updated_at r"])
  ultimately show ?thesis
    using txn by (auto simp: apply_fill_def transaction_def bindE_def hub_publish_def)
qed

text \<open>
  A fill reported for the first time on an order that is working (NEW or partially
  filled), under a schema that admits the frozen edges: it is appended to the fills, the
  order's status becomes FILLED exactly when the fills now cover the total quantity and
  PARTIALLY_FILLED otherwise, the call returns that status, no other column of the order but
  its update time changes, and no other order changes.
\<close>

theorem apply_fill_fresh:
  assumes "find_order cid w = Some r" and "r_status r \<in> {NEW, PARTIALLY_FILLED}"
    and "tbl_find fill_key (cid, fid) (fills w) = None" and "open_schema db"
  shows "\<exists>w' t. apply_fill db cid fid pr qty exec_ts tot w =
        (Inr (fill_status (sum_quantity (fills_of cid (fills w)) + qty) tot), w') \<and>
      fills w' = fills w @ [fill_row w cid fid pr qty exec_ts] \<and>
      find_order cid w' =
        Some (r\<lparr>r_status := fill_status (sum_quantity (fills_of cid (fills w)) + qty) tot,
                r_updated_at := t\<rparr>) \<and>
      (\<forall>j. j \<noteq> cid \<longrightarrow> find_order j w' = find_order j w)"
  using assms by (rule apply_fill_first) (rule refl)

lemma open_schema_frozen_db [simp]: "open_schema frozen_db"
  by (simp add: open_schema_def frozen_db_def is_legal_edge)

theorem apply_fill_fresh_witness:
  "\<exists>w'. apply_fill frozen_db ''c'' ''f2'' (Dec 10 0) 60 0 100
          (demo_world [demo_row ''c'' PARTIALLY_FILLED] [demo_fill ''c'' ''f1'' 40]) = (Inr FILLED, w')"
proof -
  let ?w = "demo_world [demo_row ''c'' PARTIALLY_FILLED] [demo_fill ''c'' ''f1'' 40]"
  have "sum_quantity (fills_of ''c'' (fills ?w)) + 60 = 100"
    by (simp add: demo_defs sum_quantity_def fills_of_def)
  moreover have "find_order ''c'' ?w = Some (demo_row ''c'' PARTIALLY_FILLED)"
    and "r_status (demo_row ''c'' PARTIALLY_FILLED) \<in> {NEW, PARTIALLY_FILLED}"
    and "tbl_find fill_key (''c'', ''f2'') (fills ?w) = None"
    by (simp_all add: demo_world_def demo_row_def demo_fill_def fill_key_def)
  note apply_fill_fresh [OF this open_schema_frozen_db, of "Dec 10 0" 60 0 100]
  ultimately show ?thesis by (auto simp: fill_status_def)
qed

text \<open>
  A redelivered fill (a report whose fill id is already recorded) never adds a row and
  never publishes an event. When the order's status is the one its fills call for, the
  call changes nothing at all and returns that status. When the order has meanwhile left
  the working states for one the trigger will not leave (a cancel is pending or the order
  is terminal), the redelivery is not a no-op: it raises \<open>IllegalTransition\<close>.
\<close>

theorem apply_fill_redelivered:
  assumes row: "find_order cid w = Some r"
    and known: "tbl_find fill_key (cid, fid) (fills w) \<noteq> None"
    and checks: "\<forall>f. fills_check db f"
  shows "let target = fill_status (sum_quantity (fills_of cid (fills w))) tot;
             result = apply_fill db cid fid pr qty exec_ts tot w
         in fills (snd result) = fills w \<and> hub (snd result) = hub w \<and>
            (r_status r = target \<longrightarrow> result = (Inr target, w)) \<and>
            (r_status r \<noteq> target \<and> \<not> orders_guard db (r_status r) target \<longrightarrow>
               result = (Inl (Rejected IllegalTransition (Some cid)), w))"
proof -
  let ?t = "fill_status (sum_quantity (fills_of cid (fills w))) tot"
  have ins: "db_insert_fill db cid fid pr qty exec_ts w = (Inr 0, w)"
    using known checks by (simp add: db_insert_fill_again)
  let ?upd = "db_update db cid (\<lambda>_. True) (\<lambda>r. r\<lparr>r_status := ?t\<rparr>)"
  have txn: "fill_transaction db cid fid pr qty exec_ts tot w =
      (if r_status r = ?t then (Inr (0, ?t), w)
       else bindE (catchE (\<lambda>e. e = CheckViolationError) ?upd
                     (\<lambda>_. raiseE (Rejected IllegalTransition (Some cid)))) (\<lambda>_. returnE (0, ?t)) w)"
    using ins row by (simp add: fill_transaction_def bindE_def [of "db_insert_fill _ _ _ _ _ _"] Let_def)
  show ?thesis unfolding Let_def
  proof (cases rule: db_update_cases [of cid w db "\<lambda>_. True" "\<lambda>r. r\<lparr>r_status := ?t\<rparr>"])
    case (refused s)
    then show "fills (snd (apply_fill db cid fid pr qty exec_ts tot w)) = fills w \<and>
        hub (snd (apply_fill db cid fid pr qty exec_ts tot w)) = hub w \<and>
        (r_status r = ?t \<longrightarrow> apply_fill db cid fid pr qty exec_ts tot w = (Inr ?t, w)) \<and>
        (r_status r \<noteq> ?t \<and> \<not> orders_guard db (r_status r) ?t \<longrightarrow>
           apply_fill db cid fid pr qty exec_ts tot w = (Inl (Rejected IllegalTransition (Some cid)), w))"
      using txn by (auto simp: apply_fill_def transaction_def bindE_def catchE_def)
  next
    case (written s s')
    then show "fills (snd (apply_fill db cid fid pr qty exec_ts tot w)) = fills w \<and>
        hub (snd (apply_fill db cid fid pr qty exec_ts tot w)) = hub w \<and>
        (r_status r = ?t \<longrightarrow> apply_fill db cid fid pr qty exec_ts tot w = (Inr ?t, w)) \<and>
        (r_status r \<noteq> ?t \<and> \<not> orders_guard db (r_status r) ?t \<longrightarrow>
           apply_fill db cid fid pr qty exec_ts tot w = (Inl (Rejected IllegalTransition (Some cid)), w))"
      using txn row by (auto simp: apply_fill_def transaction_def bindE_def catchE_def)
  qed (use row in simp_all)
qed

theorem apply_fill_redelivered_witness:
  "apply_fill frozen_db ''c'' ''f1'' (Dec 10 0) 40 0 100
     (demo_world [demo_row ''c'' CANCELLED] [demo_fill ''c'' ''f1'' 40]) =
   (Inl (Rejected IllegalTransition (Some ''c'')),
    demo_world [demo_row ''c'' CANCELLED] [demo_fill ''c'' ''f1'' 40])"
proof -
  let ?w = "demo_world [demo_row ''c'' CANCELLED] [demo_fill ''c'' ''f1'' 40]"
  have "find_order ''c'' ?w = Some (demo_row ''c'' CANCELLED)"
    and "tbl_find fill_key (''c'', ''f1'') (fills ?w) \<noteq> None" and "\<forall>f. fills_check frozen_db f"
    by (simp_all add: demo_defs fill_key_def)
  from apply_fill_redelivered [OF this, of 100 "Dec 10 0" 40 0] show ?thesis
    by (simp add: Let_def demo_defs fill_status_def sum_quantity_def fills_of_def is_legal_edge)
qed

end
