(* ===== verification/Digest.thy ===== *)
theory Digest
  imports Pyvalues "HOL-Library.Word"
begin

text \<open>
  What the engine uses of \<open>hashlib\<close>: SHA-256 (FIPS 180-4) over the bytes of a string, at the
  standard's own 32-bit width, and its hexadecimal digest. A string is the list of its
  UTF-8 bytes, so \<open>str.encode\<close> is the identity.
\<close>

unbundle bit_operations_syntax

type_synonym u32 = "32 word"

text \<open>
  The constants as the standard derives them: the first 32 bits of the fractional parts of the
  square roots of the first eight primes and of the cube roots of the first sixty-four.
  \<open>root_bits d k n 0\<close> is the integer \<open>d\<close>-th root of \<open>n\<close>, bit by bit from bit \<open>k - 1\<close>; the
  truncation to 32 bits drops the integer part.
\<close>

fun root_bits :: "nat \<Rightarrow> nat \<Rightarrow> int \<Rightarrow> int \<Rightarrow> int" where
  "root_bits d 0 n r = r"
| "root_bits d (Suc k) n r = root_bits d k n (if (r + 2 ^ k) ^ d \<le> n then r + 2 ^ k else r)"

definition sha_primes :: "int list" where
  "sha_primes =
   [2, 3, 5, 7, 11, 13, 17, 19, 23, 29, 31, 37, 41, 43, 47, 53,
    59, 61, 67, 71, 73, 79, 83, 89, 97, 101, 103, 107, 109, 113, 127, 131,
    137, 139, 149, 151, 157, 163, 167, 173, 179, 181, 191, 193, 197, 199, 211, 223,
    227, 229, 233, 239, 241, 251, 257, 263, 269, 271, 277, 281, 283, 293, 307, 311]"

definition sha_k :: "u32 list" where
  "sha_k = map (\<lambda>p. word_of_int (root_bits 3 36 (p * 2 ^ 96) 0)) sha_primes"

definition sha_h0 :: "u32 list" where
  "sha_h0 = map (\<lambda>p. word_of_int (root_bits 2 36 (p * 2 ^ 64) 0)) (take 8 sha_primes)"

definition rotr :: "nat \<Rightarrow> u32 \<Rightarrow> u32" where
  "rotr n x = drop_bit n x OR push_bit (32 - n) x"

text \<open>Padding: a one bit, zeros, and the length in bits as 64 bits, to whole 64-byte blocks.\<close>

definition be_bytes :: "nat \<Rightarrow> nat \<Rightarrow> nat list" where
  "be_bytes k n = map (\<lambda>i. (n div 256 ^ i) mod 256) (rev [0..<k])"

definition sha_pad :: "nat list \<Rightarrow> nat list" where
  "sha_pad bs =
     (let zeros = (119 - length bs mod 64) mod 64
      in bs @ [128] @ replicate zeros 0 @ be_bytes 8 (8 * length bs))"

lemma sha_pad_blocks: "64 dvd length (sha_pad bs)"
proof -
  define q r where "q = length bs div 64" and "r = length bs mod 64"
  have len: "length bs = 64 * q + r" and r: "r < 64" by (simp_all add: q_def r_def)
  have total: "length (sha_pad bs) = 64 * q + r + 9 + (119 - r) mod 64"
    by (simp add: sha_pad_def Let_def be_bytes_def len [symmetric] r_def [symmetric])
  show ?thesis
  proof (cases "r \<le> 55")
    case True
    then have "(119 - r) mod 64 = 55 - r" by (simp add: mod_if)
    with True total have "length (sha_pad bs) = 64 * (q + 1)" by simp
    then show ?thesis by (metis dvd_triv_left)
  next
    case False
    then have "(119 - r) mod 64 = 119 - r" by simp
    with False r total have "length (sha_pad bs) = 64 * (q + 2)" by simp
    then show ?thesis by (metis dvd_triv_left)
  qed
qed

definition word_of_bytes :: "nat list \<Rightarrow> u32" where
  "word_of_bytes bs = of_nat (foldl (\<lambda>acc b. 256 * acc + b) 0 bs)"

fun chunks :: "nat \<Rightarrow> 'a list \<Rightarrow> 'a list list" where
  "chunks n xs = (if n = 0 \<or> xs = [] then [] else take n xs # chunks n (drop n xs))"

declare chunks.simps [simp del]

text \<open>The message schedule, one word per round from the last sixteen.\<close>

fun schedule :: "nat \<Rightarrow> u32 list \<Rightarrow> u32 list" where
  "schedule 0 w = w"
| "schedule (Suc n) w =
     (let k = length w;
          w15 = w ! (k - 15);
          w2 = w ! (k - 2);
          s0 = rotr 7 w15 XOR rotr 18 w15 XOR drop_bit 3 w15;
          s1 = rotr 17 w2 XOR rotr 19 w2 XOR drop_bit 10 w2
      in schedule n (w @ [w ! (k - 16) + s0 + w ! (k - 7) + s1]))"

lemma length_schedule [simp]: "length (schedule n w) = length w + n"
  by (induction n w rule: schedule.induct) (simp_all add: Let_def)

fun sha_round :: "u32 list \<Rightarrow> u32 \<times> u32 \<Rightarrow> u32 list" where
  "sha_round [a, b, c, d, e, f, g, h] (k, w) =
     (let s1 = rotr 6 e XOR rotr 11 e XOR rotr 25 e;
          ch = (e AND f) XOR (NOT e AND g);
          t1 = h + s1 + ch + k + w;
          s0 = rotr 2 a XOR rotr 13 a XOR rotr 22 a;
          maj = (a AND b) XOR (a AND c) XOR (b AND c)
      in [t1 + (s0 + maj), a, b, c, d + t1, e, f, g])"
| "sha_round st _ = st"

definition sha_block :: "u32 list \<Rightarrow> nat list \<Rightarrow> u32 list" where
  "sha_block h block =
     (let w = schedule 48 (map word_of_bytes (chunks 4 block))
      in map2 (+) h (foldl sha_round h (zip sha_k w)))"

definition sha256 :: "nat list \<Rightarrow> u32 list" where
  "sha256 bs = foldl sha_block sha_h0 (chunks 64 (sha_pad bs))"

text \<open>\<open>hashlib.sha256(raw.encode()).hexdigest()\<close>.\<close>

definition hex8 :: "u32 \<Rightarrow> string" where
  "hex8 x = map (\<lambda>i. hex_char (unat x div 16 ^ i mod 16)) (rev [0..<8])"

definition sha256_hexdigest :: "string \<Rightarrow> string" where
  "sha256_hexdigest s = concat (map hex8 (sha256 (map of_char s)))"

text \<open>The digest of every string has sixty-four characters.\<close>

lemma length_sha_round [simp]: "length (sha_round st kw) = length st"
  by (induction st kw rule: sha_round.induct) (simp_all add: Let_def)

lemma length_fold_round: "length (foldl sha_round h ks) = length h"
  by (induction ks arbitrary: h) simp_all

lemma length_fold_block: "length (foldl sha_block h bs) = length h"
  by (induction bs arbitrary: h) (simp_all add: sha_block_def length_fold_round Let_def)

lemma length_sha256_hexdigest: "length (sha256_hexdigest s) = 64"
proof -
  have "length (sha256 bs) = 8" for bs
    by (simp add: sha256_def length_fold_block sha_h0_def sha_primes_def)
  then show ?thesis
    by (simp add: sha256_hexdigest_def length_concat hex8_def o_def sum_list_triv)
qed

end
