(* ===== verification/Config.thy ===== *)
theory Config
  imports Store Digest
begin

text \<open>
  Configuration and the services every request borrows: \<open>Settings\<close> (\<open>config/settings.py\<close>)
  with its defaults, and the Redis client (\<open>cache/\<close>). The Redis server is not part of the
  repository: a client is a record of operations on an opaque state, each of which may raise.
\<close>

section \<open>Settings\<close>

text \<open>
  The fields the modelled code reads. A secret is the string it wraps, a dict the list of its
  items; \<open>app_env\<close>, \<open>log_level\<close>, the connection strings, pool sizes and the extra certificate
  of the book feed are read by code that is not modelled.
\<close>

record Settings =
  public_mode :: bool
  stage :: Stage
  kill_switch_engaged :: bool
  api_key :: "string option"
  read_api_key :: "string option"
  risk_max_order_qty :: int
  risk_max_order_value :: decimal
  risk_max_orders_per_second :: int
  account_max_notional :: "(string \<times> decimal) list"
  account_max_qty :: "(string \<times> int) list"
  real_routing_accounts :: "string list"
  price_band_enabled :: bool
  price_band_max_pct :: decimal
  duplicate_burst_guard_enabled :: bool
  duplicate_burst_window_seconds :: int
  submit_lock_ttl_seconds :: int
  submit_lock_wait_ms :: int
  sim_default_fill_price :: decimal
  liberator_base_url :: string
  liberator_api_key :: "string option"
  liberator_circuit_breaker_threshold :: int
  handle_recovery_cadence_ms :: int
  handle_recovery_min_polls :: int
  handle_recovery_deadline_ms :: int
  streaming_pro_base_url :: string
  streaming_pro_api_key :: "string option"
  streaming_pro_circuit_breaker_threshold :: int
  streaming_pro_post_rate_limit :: int
  liberator_post_rate_limit :: int
  market_data_base_url :: "string option"
  market_data_api_key :: "string option"
  order_book_enabled :: bool
  order_book_symbol_overrides :: "(string \<times> string) list"
  order_book_failover_error_threshold :: int
  order_book_failover_window_seconds :: int
  order_book_cache_max_age_seconds :: int
  order_book_cache_max_symbols :: int
  stream_ring_buffer_size :: int
  stream_subscriber_queue_size :: int

text \<open>\<open>Settings()\<close> in an empty environment.\<close>

definition default_settings :: Settings where
  "default_settings =
     \<lparr>public_mode = True, stage = Stage_SIM, kill_switch_engaged = False,
      api_key = None, read_api_key = None,
      risk_max_order_qty = 1000, risk_max_order_value = Dec 1000000 0,
      risk_max_orders_per_second = 5,
      account_max_notional = [], account_max_qty = [], real_routing_accounts = [],
      price_band_enabled = False, price_band_max_pct = Dec 100 (-1),
      duplicate_burst_guard_enabled = True, duplicate_burst_window_seconds = 5,
      submit_lock_ttl_seconds = 10, submit_lock_wait_ms = 300,
      sim_default_fill_price = Dec 100 0,
      liberator_base_url = ''http://liberator-trading-api:8200/api/v1'', liberator_api_key = None,
      liberator_circuit_breaker_threshold = 3,
      handle_recovery_cadence_ms = 250, handle_recovery_min_polls = 3,
      handle_recovery_deadline_ms = 1500,
      streaming_pro_base_url = ''http://streaming-pro-api:8000/api/v1'', streaming_pro_api_key = None,
      streaming_pro_circuit_breaker_threshold = 3,
      streaming_pro_post_rate_limit = 5, liberator_post_rate_limit = 5,
      market_data_base_url = None, market_data_api_key = None,
      order_book_enabled = False, order_book_symbol_overrides = [],
      order_book_failover_error_threshold = 3, order_book_failover_window_seconds = 30,
      order_book_cache_max_age_seconds = 5, order_book_cache_max_symbols = 500,
      stream_ring_buffer_size = 1024, stream_subscriber_queue_size = 256\<rparr>"

section \<open>Redis\<close>

text \<open>
  The commands the engine sends: \<open>GET\<close>, \<open>SET\<close>, \<open>SET NX EX\<close>, \<open>DEL\<close>, \<open>INCR\<close>, \<open>EXPIRE\<close>, and the
  compare-and-delete script of the lock release.
\<close>

record 'r redis_client =
  rd_get :: "string \<Rightarrow> ('r, exn, string option) prog"
  rd_set :: "string \<Rightarrow> string \<Rightarrow> ('r, exn, unit) prog"
  rd_set_nx_ex :: "string \<Rightarrow> string \<Rightarrow> int \<Rightarrow> ('r, exn, bool) prog"
  rd_delete :: "string \<Rightarrow> ('r, exn, unit) prog"
  rd_incr :: "string \<Rightarrow> ('r, exn, int) prog"
  rd_expire :: "string \<Rightarrow> int \<Rightarrow> ('r, exn, unit) prog"
  rd_release :: "string \<Rightarrow> string \<Rightarrow> ('r, exn, unit) prog"

text \<open>A command run from the engine touches the Redis part of the world only.\<close>

definition on_redis :: "('r, exn, 'a) prog \<Rightarrow> ('r, 'v, 'a) eng" where
  "on_redis m = (\<lambda>w. case m (redis w) of (x, r) \<Rightarrow> (x, w\<lparr>redis := r\<rparr>))"

definition only_redis :: "('r, 'v) world \<Rightarrow> ('r, 'v) world \<Rightarrow> bool" where
  "only_redis w w' \<longleftrightarrow> w' = w\<lparr>redis := redis w'\<rparr>"

interpretation cache: effect_order only_redis
proof unfold_locales
  fix s t u :: "('r, 'v) world"
  assume "only_redis s t" and "only_redis t u"
  then have "t = s\<lparr>redis := redis t\<rparr>" and "u = t\<lparr>redis := redis u\<rparr>"
    by (simp_all add: only_redis_def)
  then have "u = s\<lparr>redis := redis t, redis := redis u\<rparr>" by metis
  then show "only_redis s u" by (simp add: only_redis_def)
qed (simp add: only_redis_def)

lemma only_redis_on_redis [intro]: "effect only_redis any (on_redis m)"
  by (simp add: effect_def on_redis_def only_redis_def split: prod.splits)

lemma only_redis_same_store: "only_redis w w' \<Longrightarrow> same_store w w'"
  unfolding only_redis_def same_store_def by (cases w; cases w') simp

lemma only_redis_same_venue: "only_redis w w' \<Longrightarrow> same_venue w w'"
  unfolding only_redis_def same_venue_def by (cases w; cases w') simp

text \<open>
  The interface of the relations that Redis traffic is invisible to: what a program that only
  talks to Redis, and the lock around a program, do under such a relation.
\<close>

locale redis_frame = effect_order R
  for R :: "('r, 'v) world \<Rightarrow> ('r, 'v) world \<Rightarrow> bool" +
  assumes redis_free: "only_redis w w' \<Longrightarrow> R w w'"
begin

lemma effect_cache: "effect only_redis Q m \<Longrightarrow> effect R Q m"
  by (erule effect_mono) (rule redis_free)

lemma effect_on_redis: "effect R any (on_redis m)"
  by (rule effect_cache) (rule only_redis_on_redis)

end

lemma same_store_redis: "only_redis w w' \<Longrightarrow> evolves w w'"
  by (rule same_store_evolves) (rule only_redis_same_store)

interpretation cache_redis: redis_frame only_redis
  by unfold_locales

interpretation store_redis: redis_frame evolves
  by unfold_locales (rule same_store_redis)

interpretation frame_redis: redis_frame same_store
  by unfold_locales (rule only_redis_same_store)

interpretation offline_redis: redis_frame same_venue
  by unfold_locales (rule only_redis_same_venue)

subsection \<open>\<open>cache/counters.py\<close>\<close>

definition incr_with_ttl :: "'r redis_client \<Rightarrow> string \<Rightarrow> int \<Rightarrow> ('r, 'v, int) eng" where
  "incr_with_ttl client key ttl_seconds =
     bindE (on_redis (rd_incr client key)) (\<lambda>count.
     bindE (if count = 1 then on_redis (rd_expire client key ttl_seconds) else returnE ()) (\<lambda>_.
     returnE count))"

lemma only_redis_incr_with_ttl: "effect only_redis any (incr_with_ttl client key ttl)"
  unfolding incr_with_ttl_def
  by (intro cache.effect_seq cache.effect_if cache.effect_return only_redis_on_redis) simp_all

subsection \<open>\<open>cache/single_flight.py\<close>\<close>

text \<open>
  \<open>async with single_flight(client, key, ttl) as acquired: body(acquired)\<close>: the token is the
  fresh uuid of this acquisition. The release runs whether the body returned or raised, and
  the exception of the body goes on after it.
\<close>

definition single_flight ::
  "'r redis_client option \<Rightarrow> string \<Rightarrow> string \<Rightarrow> int \<Rightarrow> (bool \<Rightarrow> ('r, 'v, 'a) eng) \<Rightarrow> ('r, 'v, 'a) eng"
where
  "single_flight client token key ttl_seconds body =
     bindE (case client of
              None \<Rightarrow> returnE True
            | Some c \<Rightarrow> catchE (\<lambda>_. True) (on_redis (rd_set_nx_ex c key token ttl_seconds))
                          (\<lambda>_. returnE True)) (\<lambda>acquired w.
       case body acquired w of (result, t) \<Rightarrow>
         (result,
          after (case client of
                   Some c \<Rightarrow>
                     if acquired
                     then catchE (\<lambda>_. True) (on_redis (rd_release c key token)) (\<lambda>_. returnE ())
                     else returnE ()
                 | None \<Rightarrow> returnE ()) t))"

text \<open>The lock adds Redis traffic around the body and nothing else.\<close>

context redis_frame
begin

lemma effect_single_flight:
  assumes body: "\<And>acquired. effect R Q (body acquired)"
  shows "effect R Q (single_flight client token key ttl body)"
  unfolding single_flight_def
proof (rule effect_seq)
  show "effect R any (case client of
              None \<Rightarrow> returnE True
            | Some c \<Rightarrow> catchE (\<lambda>_. True) (on_redis (rd_set_nx_ex c key token ttl))
                          (\<lambda>_. returnE True))"
    by (intro effect_option effect_catch effect_on_redis effect_return) simp_all
next
  fix acquired
  let ?release = "case client of
                   Some c \<Rightarrow>
                     if acquired
                     then catchE (\<lambda>_. True) (on_redis (rd_release c key token)) (\<lambda>_. returnE ())
                     else returnE ()
                 | None \<Rightarrow> returnE ()"
  have release: "effect R any ?release"
    by (intro effect_option effect_if effect_catch effect_on_redis effect_return) simp_all
  show "effect R Q (\<lambda>w. case body acquired w of (result, t) \<Rightarrow> (result, after ?release t))"
  proof (rule effectI)
    fix s
    obtain x t where run: "body acquired s = (x, t)" by fastforce
    have "R s t" using effectD [OF body, of s acquired] run by simp
    then have "R s (after ?release t)" using effectD [OF release] by (rule R_trans)
    then show "R s (after (\<lambda>w. case body acquired w of (result, t) \<Rightarrow> (result, after ?release t)) s)"
      using run by simp
  next
    fix s y
    assume "outcome (\<lambda>w. case body acquired w of (result, t) \<Rightarrow> (result, after ?release t)) s = Inr y"
    then obtain t where "body acquired s = (Inr y, t)" by (auto split: prod.splits)
    then show "Q y" by (rule effect_outcomeD [OF body])
  qed
qed

end

end
