(* ===== verification/MarketData.thy ===== *)
theory MarketData
  imports Config "HOL-Library.Char_ord" "HOL-Library.List_Lexorder"
begin

text \<open>
  The last-close fetcher of \<open>adapters/market_data.py\<close>: what it makes of every payload the
  market-data service may answer. The HTTP request itself (with \<open>raise_for_status\<close> and the
  JSON decoder) is the parameter \<open>md_fetch\<close>, a read that changes nothing.
\<close>

section \<open>\<open>Decimal(text)\<close>\<close>

text \<open>A Python decimal that may be special; \<open>Infinity True\<close> is the negative one.\<close>

datatype pydecimal = Finite decimal | Infinity bool | NaN

definition is_digit :: "char \<Rightarrow> bool" where
  "is_digit c = (let n = (of_char c :: nat) in 48 \<le> n \<and> n \<le> 57)"

definition lower_char :: "char \<Rightarrow> char" where
  "lower_char c =
     (let n = (of_char c :: nat) in if 65 \<le> n \<and> n \<le> 90 then char_of (n + 32) else c)"

definition parse_exponent :: "string \<Rightarrow> int option" where
  "parse_exponent s =
     (case s of
        [] \<Rightarrow> Some 0
      | c # rest \<Rightarrow>
          if c \<noteq> CHR ''e'' then None
          else
            let neg = (rest \<noteq> [] \<and> hd rest = CHR ''-'');
                ds = (if rest \<noteq> [] \<and> hd rest \<in> {CHR ''-'', CHR ''+''} then tl rest else rest)
            in if ds = [] \<or> \<not> list_all is_digit ds then None
               else Some ((if neg then - 1 else 1) * int (digits_val ds)))"

definition parse_finite :: "string \<Rightarrow> decimal option" where
  "parse_finite s =
     (let ip = takeWhile is_digit s;
          r1 = dropWhile is_digit s;
          dot = (r1 \<noteq> [] \<and> hd r1 = CHR ''.'');
          fp = (if dot then takeWhile is_digit (tl r1) else []);
          r2 = (if dot then dropWhile is_digit (tl r1) else r1)
      in if ip @ fp = [] then None
         else map_option (\<lambda>e. Dec (int (digits_val (ip @ fp))) (e - int (length fp)))
                (parse_exponent r2))"

text \<open>None stands for the \<open>InvalidOperation\<close> the constructor raises.\<close>

definition parse_decimal :: "string \<Rightarrow> pydecimal option" where
  "parse_decimal text =
     (let s = map lower_char (filter (\<lambda>c. c \<noteq> CHR ''_'') (strip text));
          neg = (s \<noteq> [] \<and> hd s = CHR ''-'');
          b = (if s \<noteq> [] \<and> hd s \<in> {CHR ''-'', CHR ''+''} then tl s else s)
      in if b = ''inf'' \<or> b = ''infinity'' then Some (Infinity neg)
         else if take 3 b = ''nan'' \<and> list_all is_digit (drop 3 b) then Some NaN
         else if take 4 b = ''snan'' \<and> list_all is_digit (drop 4 b) then Some NaN
         else map_option (\<lambda>d. Finite (if neg then Dec (- dcoeff d) (dexp d) else d)) (parse_finite b))"

section \<open>\<open>int(text)\<close>\<close>

text \<open>Blanks around, a sign, digits with single underscores between them.\<close>

fun dec_run :: "nat \<Rightarrow> bool \<Rightarrow> string \<Rightarrow> nat option" where
  "dec_run acc digit [] = (if digit then Some acc else None)"
| "dec_run acc digit (c # cs) =
     (if c = CHR ''_'' then (if digit then dec_run acc False cs else None)
      else if is_digit c then dec_run (10 * acc + digit_val c) True cs
      else None)"

definition int10 :: "string \<Rightarrow> int option" where
  "int10 s =
     (case strip s of
        [] \<Rightarrow> None
      | c # rest \<Rightarrow>
          if c = CHR ''-'' then map_option (\<lambda>n. - int n) (dec_run 0 False rest)
          else if c = CHR ''+'' then map_option int (dec_run 0 False rest)
          else map_option int (dec_run 0 False (c # rest)))"

section \<open>\<open>_latest_close\<close>\<close>

text \<open>\<open>bar[key]\<close>.\<close>

definition subscript :: "json \<Rightarrow> string \<Rightarrow> exn + json" where
  "subscript v k =
     (case v of
        JObj kvs \<Rightarrow> (case map_of kvs k of Some x \<Rightarrow> Inr x | None \<Rightarrow> Inl (OtherError ''KeyError''))
      | _ \<Rightarrow> Inl (OtherError ''TypeError''))"

text \<open>\<open>max(bars, key=lambda bar: str(bar["ts"]))\<close>: the first bar with the greatest key.\<close>

fun max_bar :: "(string \<times> json) option \<Rightarrow> json list \<Rightarrow> exn + json" where
  "max_bar best [] =
     (case best of Some (_, bar) \<Rightarrow> Inr bar | None \<Rightarrow> Inl (OtherError ''ValueError''))"
| "max_bar best (bar # bars) =
     (case subscript bar ''ts'' of
        Inl e \<Rightarrow> Inl e
      | Inr stamp \<Rightarrow>
          max_bar (case best of
                     None \<Rightarrow> Some (py_str stamp, bar)
                   | Some (k, b) \<Rightarrow> if k < py_str stamp then Some (py_str stamp, bar) else Some (k, b)) bars)"

definition latest_close :: "json \<Rightarrow> exn + pydecimal" where
  "latest_close payload =
     (case payload of
        JObj kvs \<Rightarrow>
          (case dict_get kvs ''bars'' of
             Some (JList bars) \<Rightarrow>
               if bars = [] then Inl (OtherError ''ValueError'')
               else (case max_bar None bars of
                       Inl e \<Rightarrow> Inl e
                     | Inr latest \<Rightarrow>
                         (case subscript latest ''close'' of
                            Inl e \<Rightarrow> Inl e
                          | Inr v \<Rightarrow>
                              (case parse_decimal (py_str v) of
                                 Some d \<Rightarrow> Inr d
                               | None \<Rightarrow> Inl (OtherError ''InvalidOperation''))))
           | _ \<Rightarrow> Inl (OtherError ''ValueError''))
      | _ \<Rightarrow> Inl (OtherError ''ValueError''))"

section \<open>\<open>MarketDataClient\<close>\<close>

record 'v MarketDataClient =
  md_base_url :: "string option"
  md_fetch :: "string \<Rightarrow> timestamp \<Rightarrow> 'v \<Rightarrow> exn + json"

definition rstrip_slash :: "string \<Rightarrow> string" where
  "rstrip_slash s = rev (dropWhile (\<lambda>c. c = CHR ''/'') (rev s))"

definition new_market_data_client ::
  "string option \<Rightarrow> (string \<Rightarrow> timestamp \<Rightarrow> 'v \<Rightarrow> exn + json) \<Rightarrow> 'v MarketDataClient" where
  "new_market_data_client base_url fetch =
     \<lparr>md_base_url = (case base_url of
                       Some u \<Rightarrow> if u = [] then None else Some (rstrip_slash u)
                     | None \<Rightarrow> None),
      md_fetch = fetch\<rparr>"

definition configured :: "'v MarketDataClient \<Rightarrow> bool" where
  "configured cl = (md_base_url cl \<noteq> None)"

text \<open>\<open>except (httpx.HTTPError, ValueError, KeyError, InvalidOperation)\<close>.\<close>

definition md_caught :: "exn \<Rightarrow> bool" where
  "md_caught e \<longleftrightarrow> e \<in> {OtherError ''HTTPError'', OtherError ''ValueError'', OtherError ''KeyError'',
                        OtherError ''InvalidOperation''}"

definition last_close ::
  "'v MarketDataClient \<Rightarrow> string \<Rightarrow> Market \<Rightarrow> ('r, 'v, pydecimal option) eng" where
  "last_close cl sy mkt =
     (case md_base_url cl of
        None \<Rightarrow> returnE None
      | Some _ \<Rightarrow>
          catchE md_caught
            (bindE (\<lambda>w. (md_fetch cl (market_value mkt @ '':'' @ sy) (clock w) (venue w), w)) (\<lambda>payload.
             bindE (liftE (latest_close payload)) (\<lambda>d.
             returnE (Some d))))
            (\<lambda>_. returnE None))"

lemma last_close_frame: "snd (last_close cl sy mkt w) = w"
  by (simp add: last_close_def catchE_def bindE_def split: option.splits sum.splits prod.splits)

lemma last_close_outcome:
  "fst (last_close cl sy mkt w) =
     (case md_base_url cl of
        None \<Rightarrow> Inr None
      | Some _ \<Rightarrow>
          (case md_fetch cl (market_value mkt @ '':'' @ sy) (clock w) (venue w) of
             Inl e \<Rightarrow> if md_caught e then Inr None else Inl e
           | Inr payload \<Rightarrow>
               (case latest_close payload of
                  Inl e \<Rightarrow> if md_caught e then Inr None else Inl e
                | Inr d \<Rightarrow> Inr (Some d))))"
  by (simp add: last_close_def catchE_def bindE_def split: option.splits sum.splits)

text \<open>The only error of a payload that escapes is the \<open>TypeError\<close> of a bar that is no object.\<close>

lemma subscript_errors:
  "subscript v k = Inl e \<Longrightarrow>
     e = (case v of JObj _ \<Rightarrow> OtherError ''KeyError'' | _ \<Rightarrow> OtherError ''TypeError'')"
  by (auto simp: subscript_def split: json.splits option.splits)

lemma max_bar_errors:
  "max_bar best bars = Inl e \<Longrightarrow> e = OtherError ''KeyError'' \<or> e = OtherError ''ValueError'' \<or>
     (e = OtherError ''TypeError'' \<and> (\<exists>bar \<in> set bars. \<forall>kvs. bar \<noteq> JObj kvs))"
proof (induction best bars rule: max_bar.induct)
  case (1 best)
  then show ?case by (simp split: option.splits prod.splits)
next
  case (2 best bar bars)
  show ?case
  proof (cases "subscript bar ''ts''")
    case (Inl e')
    with 2(2) have e: "e = e'" by simp
    show ?thesis
    proof (cases "\<exists>kvs. bar = JObj kvs")
      case True
      with e subscript_errors [OF Inl] show ?thesis by fastforce
    next
      case False
      then have "e = OtherError ''TypeError''"
        using e subscript_errors [OF Inl] by (cases bar) simp_all
      with False show ?thesis by simp
    qed
  next
    case (Inr stamp)
    with 2(2) 2(1) [OF Inr] show ?thesis by simp blast
  qed
qed

lemma max_bar_object:
  "max_bar best bars = Inr bar \<Longrightarrow> (\<forall>k b. best = Some (k, b) \<longrightarrow> (\<exists>kvs. b = JObj kvs)) \<Longrightarrow>
     \<exists>kvs. bar = JObj kvs"
proof (induction best bars rule: max_bar.induct)
  case (1 best)
  then show ?case by (auto split: option.splits)
next
  case (2 best bar' bars)
  then obtain stamp where ts: "subscript bar' ''ts'' = Inr stamp" by (auto split: sum.splits)
  then obtain kvs where "bar' = JObj kvs" by (cases bar') (auto simp: subscript_def)
  with 2 ts show ?case by (auto split: option.splits if_splits)
qed

lemma latest_close_errors:
  assumes "latest_close payload = Inl e"
  shows "md_caught e \<or> (e = OtherError ''TypeError'' \<and>
    (\<exists>kvs bars bar. payload = JObj kvs \<and> dict_get kvs ''bars'' = Some (JList bars) \<and>
       bar \<in> set bars \<and> (\<forall>kvs. bar \<noteq> JObj kvs)))"
proof (cases payload)
  case (JObj kvs)
  show ?thesis
  proof (cases "\<exists>bars. dict_get kvs ''bars'' = Some (JList bars) \<and> bars \<noteq> []")
    case False
    then have "latest_close payload = Inl (OtherError ''ValueError'')"
      using JObj by (auto simp: latest_close_def split: option.splits json.splits)
    with assms show ?thesis by (simp add: md_caught_def)
  next
    case True
    then obtain bars where bars: "dict_get kvs ''bars'' = Some (JList bars)" "bars \<noteq> []" by blast
    show ?thesis
    proof (cases "max_bar None bars")
      case (Inl e')
      with assms JObj bars have "e = e'" by (simp add: latest_close_def)
      with max_bar_errors [OF Inl]
      have "md_caught e \<or> (e = OtherError ''TypeError'' \<and> (\<exists>bar \<in> set bars. \<forall>kvs. bar \<noteq> JObj kvs))"
        by (elim disjE) (simp_all add: md_caught_def)
      with JObj bars(1) show ?thesis by blast
    next
      case (Inr bar)
      then obtain kvs' where "bar = JObj kvs'" using max_bar_object by blast
      then have "subscript bar ''close'' = Inl e' \<Longrightarrow> md_caught e'" for e'
        using subscript_errors [of bar "''close''" e'] by (simp add: md_caught_def)
      moreover have "latest_close payload = (case subscript bar ''close'' of
          Inl e \<Rightarrow> Inl e
        | Inr v \<Rightarrow> (case parse_decimal (py_str v) of
                     Some d \<Rightarrow> Inr d | None \<Rightarrow> Inl (OtherError ''InvalidOperation'')))"
        using JObj bars Inr by (simp add: latest_close_def)
      ultimately have "md_caught e"
        using assms by (simp add: md_caught_def split: sum.splits option.splits)
      then show ?thesis ..
    qed
  qed
qed (use assms in \<open>auto simp: latest_close_def md_caught_def\<close>)

end
