(* ===== verification/Gates.thy ===== *)
theory Gates
  imports MarketData
begin

text \<open>
  The pre-trade gates of \<open>core/\<close>: the kill switch (\<open>kill_switch.py\<close>), the PTRM risk gate
  (\<open>risk.py\<close>), the advisory price band (\<open>price_band.py\<close>), the stage ladder (\<open>stage.py\<close>) and
  the real-routing authority (\<open>routing_authority.py\<close>).
\<close>

section \<open>The kill switch\<close>

definition KILL_SWITCH_KEY :: string where
  "KILL_SWITCH_KEY = ''exe:kill_switch''"

definition kill_switch_status ::
  "Settings \<Rightarrow> 'r redis_client option \<Rightarrow> ('r, 'v, bool \<times> string option) eng" where
  "kill_switch_status s client =
     (if kill_switch_engaged s then returnE (True, Some ''env'')
      else case client of
             None \<Rightarrow> returnE (False, None)
           | Some c \<Rightarrow>
               bindE (catchE (\<lambda>_. True) (on_redis (rd_get c KILL_SWITCH_KEY)) (\<lambda>_. returnE None)) (\<lambda>v.
               if v \<noteq> None then returnE (True, Some ''redis'') else returnE (False, None)))"

definition assert_disengaged :: "Settings \<Rightarrow> 'r redis_client option \<Rightarrow> ('r, 'v, unit) eng" where
  "assert_disengaged s client =
     bindE (kill_switch_status s client) (\<lambda>(engaged, source).
     if engaged then raiseE (Rejected KillSwitchEngagedError None) else returnE ())"

definition engage :: "'r redis_client option \<Rightarrow> ('r, 'v, unit) eng" where
  "engage client =
     (case client of
        None \<Rightarrow> raiseE CacheError
      | Some c \<Rightarrow> on_redis (rd_set c KILL_SWITCH_KEY ''engaged''))"

definition disengage :: "Settings \<Rightarrow> 'r redis_client option \<Rightarrow> ('r, 'v, unit) eng" where
  "disengage s client =
     (if kill_switch_engaged s then raiseE (Rejected KillSwitchPinnedError None)
      else case client of
             None \<Rightarrow> raiseE CacheError
           | Some c \<Rightarrow> on_redis (rd_delete c KILL_SWITCH_KEY))"

text \<open>What the switch reads: the flag, or a value under the key that Redis could be asked for.\<close>

definition switch_on :: "Settings \<Rightarrow> 'r redis_client option \<Rightarrow> 'r \<Rightarrow> bool" where
  "switch_on s client r \<longleftrightarrow>
     kill_switch_engaged s \<or>
     (\<exists>c v. client = Some c \<and> outcome (rd_get c KILL_SWITCH_KEY) r = Inr (Some v))"

lemma assert_disengaged_cases:
  obtains (engaged) "switch_on s client (redis w)"
      and "outcome (assert_disengaged s client) w = Inl (Rejected KillSwitchEngagedError None)"
  | (disengaged) "\<not> switch_on s client (redis w)" and "outcome (assert_disengaged s client) w = Inr ()"
proof (cases "kill_switch_engaged s")
  case True
  then show thesis
    using engaged by (simp add: switch_on_def assert_disengaged_def kill_switch_status_def bindE_def)
next
  case no_flag: False
  show thesis
  proof (cases client)
    case None
    with no_flag show thesis
      using disengaged by (simp add: switch_on_def assert_disengaged_def kill_switch_status_def bindE_def)
  next
    case (Some c)
    obtain x t where get: "rd_get c KILL_SWITCH_KEY (redis w) = (x, t)" by fastforce
    show thesis
    proof (cases "\<exists>v. x = Inr (Some v)")
      case True
      with no_flag Some get show thesis
        using engaged
        by (auto simp: switch_on_def assert_disengaged_def kill_switch_status_def bindE_def catchE_def on_redis_def)
    next
      case False
      with no_flag Some get show thesis
        using disengaged
        by (cases x)
          (auto simp: switch_on_def assert_disengaged_def kill_switch_status_def bindE_def catchE_def on_redis_def)
    qed
  qed
qed

lemma only_redis_status: "effect only_redis any (kill_switch_status s client)"
  unfolding kill_switch_status_def
  by (intro cache.effect_if cache.effect_option cache.effect_seq cache.effect_catch cache.effect_return
      only_redis_on_redis) simp_all

lemma only_redis_assert_disengaged: "effect only_redis any (assert_disengaged s client)"
  unfolding assert_disengaged_def case_prod_unfold
  by (intro cache.effect_seq cache.effect_if cache.effect_raise cache.effect_return only_redis_status) simp_all

section \<open>The risk gate\<close>

definition LIVE_STAGES :: "Stage list" where
  "LIVE_STAGES = [Stage_MICRO_LIVE, Stage_LIVE]"

definition price_text :: "decimal option \<Rightarrow> string" where
  "price_text x = (case x of None \<Rightarrow> ''None'' | Some p \<Rightarrow> format_f p)"

definition burst_raw :: "NormalizedOrder \<Rightarrow> string" where
  "burst_raw od =
     account od @ ''|'' @ symbol od @ ''|'' @ side_value (side od) @ ''|'' @ int_str (quantity od) @ ''|'' @
     order_type_value (order_type od) @ ''|'' @ price_text (price od)"

definition burst_key :: "NormalizedOrder \<Rightarrow> string" where
  "burst_key od = ''exe:burst:'' @ take 16 (sha256_hexdigest (burst_raw od))"

definition qty_cap_name :: "Settings \<Rightarrow> NormalizedOrder \<Rightarrow> string" where
  "qty_cap_name s od =
     (if map_of (account_max_qty s) (account od) \<noteq> None then ''account_max_qty'' else ''max_order_qty'')"

definition notional_cap_name :: "Settings \<Rightarrow> NormalizedOrder \<Rightarrow> string" where
  "notional_cap_name s od =
     (if map_of (account_max_notional s) (account od) \<noteq> None
      then ''account_max_notional'' else ''max_order_value'')"

definition qty_limit :: "Settings \<Rightarrow> NormalizedOrder \<Rightarrow> int" where
  "qty_limit s od =
     (case map_of (account_max_qty s) (account od) of Some q \<Rightarrow> q | None \<Rightarrow> risk_max_order_qty s)"

definition notional_limit :: "Settings \<Rightarrow> NormalizedOrder \<Rightarrow> decimal" where
  "notional_limit s od =
     (case map_of (account_max_notional s) (account od) of
        Some v \<Rightarrow> v | None \<Rightarrow> risk_max_order_value s)"

definition check_quantity :: "Settings \<Rightarrow> NormalizedOrder \<Rightarrow> exn + unit" where
  "check_quantity s od =
     (if qty_limit s od < quantity od
      then Inl (Rejected (RiskRejected (qty_cap_name s od)) (Some (client_order_id od)))
      else Inr ())"

definition notional_basis :: "NormalizedOrder \<Rightarrow> decimal option" where
  "notional_basis od = (case price od of Some p \<Rightarrow> Some p | None \<Rightarrow> stop_price od)"

definition check_notional :: "Settings \<Rightarrow> NormalizedOrder \<Rightarrow> exn + unit" where
  "check_notional s od =
     (case notional_basis od of
        None \<Rightarrow> Inr ()
      | Some basis \<Rightarrow>
          let notional = dec_mul basis (dec_of_int (quantity od))
          in if dec_lt (notional_limit s od) notional
             then Inl (Rejected (RiskRejected (notional_cap_name s od)) (Some (client_order_id od)))
             else Inr ())"

definition risk_backend_down :: "Settings \<Rightarrow> NormalizedOrder \<Rightarrow> exn + unit" where
  "risk_backend_down s od =
     (if stage s \<in> set LIVE_STAGES
      then Inl (Rejected (RiskRejected ''risk_backend_down'') (Some (client_order_id od)))
      else Inr ())"

text \<open>\<open>f"exe:rate:{int(time.time())}"\<close>, the clock being in microseconds.\<close>

definition rate_key :: "timestamp \<Rightarrow> string" where
  "rate_key now = ''exe:rate:'' @ int_str (now div 1000000)"

text \<open>The two counters of the window, None where the backend raised and the stage lets it.\<close>

definition window_counts ::
  "Settings \<Rightarrow> 'r redis_client \<Rightarrow> NormalizedOrder \<Rightarrow> ('r, 'v, (int \<times> int) option) eng" where
  "window_counts s c od =
     catchE (\<lambda>_. True)
       (bindE (getsE clock) (\<lambda>now.
        bindE (incr_with_ttl c (rate_key now) 2) (\<lambda>rate_count.
        bindE (if duplicate_burst_guard_enabled s
               then incr_with_ttl c (burst_key od) (duplicate_burst_window_seconds s)
               else returnE 0) (\<lambda>burst.
        returnE (Some (rate_count, burst))))))
       (\<lambda>_. bindE (liftE (risk_backend_down s od)) (\<lambda>_. returnE None))"

definition windowed_checks ::
  "Settings \<Rightarrow> 'r redis_client option \<Rightarrow> NormalizedOrder \<Rightarrow> ('r, 'v, unit) eng" where
  "windowed_checks s client od =
     (case client of
        None \<Rightarrow> liftE (risk_backend_down s od)
      | Some c \<Rightarrow>
          bindE (window_counts s c od) (\<lambda>counts.
          case counts of
            None \<Rightarrow> returnE ()
          | Some (rate_count, burst) \<Rightarrow>
              if risk_max_orders_per_second s < rate_count
              then raiseE (Rejected (RiskRejected ''rate_limit'') (Some (client_order_id od)))
              else if duplicate_burst_guard_enabled s \<and> 1 < burst
              then raiseE (Rejected DuplicateBurstDetected (Some (client_order_id od)))
              else returnE ()))"

definition risk_check ::
  "Settings \<Rightarrow> 'r redis_client option \<Rightarrow> NormalizedOrder \<Rightarrow> ('r, 'v, unit) eng" where
  "risk_check s client od =
     bindE (liftE (check_quantity s od)) (\<lambda>_.
     bindE (liftE (check_notional s od)) (\<lambda>_.
     windowed_checks s client od))"

lemma only_redis_window_counts: "effect only_redis any (window_counts s c od)"
  unfolding window_counts_def
  by (intro cache.effect_catch cache.effect_seq cache.effect_if cache.effect_return
      cache.effect_gets_any cache.effect_lift_any only_redis_incr_with_ttl) simp_all

lemma only_redis_risk_check: "effect only_redis any (risk_check s client od)"
  unfolding risk_check_def windowed_checks_def case_prod_unfold
  by (intro cache.effect_seq cache.effect_option cache.effect_if cache.effect_raise cache.effect_return
      cache.effect_lift_any only_redis_window_counts) simp_all

section \<open>The price band\<close>

definition band_enabled :: "Settings \<Rightarrow> 'v MarketDataClient \<Rightarrow> bool" where
  "band_enabled s md \<longleftrightarrow> price_band_enabled s \<and> configured md"

definition deviation_pct :: "decimal \<Rightarrow> decimal \<Rightarrow> decimal" where
  "deviation_pct p c = dec_mul (dec_div (dec_abs (dec_sub p c)) c) (Dec 100 0)"

text \<open>
  The check against a fetched close. A NaN raises in the comparison with zero; positive
  infinity passes it and raises in the division of infinity by infinity.
\<close>

definition band_against :: "Settings \<Rightarrow> NormalizedOrder \<Rightarrow> decimal \<Rightarrow> pydecimal option \<Rightarrow> exn + unit" where
  "band_against s od p close =
     (case close of
        None \<Rightarrow> Inr ()
      | Some NaN \<Rightarrow> Inl (OtherError ''InvalidOperation'')
      | Some (Infinity neg) \<Rightarrow> if neg then Inr () else Inl (OtherError ''InvalidOperation'')
      | Some (Finite c) \<Rightarrow>
          if \<not> dec_pos c then Inr ()
          else if dec_lt (price_band_max_pct s) (deviation_pct p c)
          then Inl (Rejected PriceBandExceeded (Some (client_order_id od)))
          else Inr ())"

definition price_band_check ::
  "Settings \<Rightarrow> 'v MarketDataClient \<Rightarrow> NormalizedOrder \<Rightarrow> ('r, 'v, unit) eng" where
  "price_band_check s md od =
     (if \<not> band_enabled s md then returnE ()
      else case price od of
             None \<Rightarrow> returnE ()
           | Some p \<Rightarrow>
               bindE (last_close md (symbol od) (market od)) (\<lambda>close.
               liftE (band_against s od p close)))"

lemma price_band_frame: "snd (price_band_check s md od w) = w"
  using last_close_frame [of md "symbol od" "market od" w]
  by (cases "last_close md (symbol od) (market od) w")
    (auto simp: price_band_check_def bindE_def split: option.splits sum.splits)

section \<open>The stage ladder\<close>

datatype AdapterIntent = TRADE | READ

definition REAL_BROKERS :: "Broker list" where
  "REAL_BROKERS = [LIBERATOR, STREAMING_PRO]"

definition real_adapter_for :: "Broker \<Rightarrow> 'a option \<Rightarrow> 'a option \<Rightarrow> 'a option" where
  "real_adapter_for b liberator streaming_pro =
     (if b = LIBERATOR then liberator else if b = STREAMING_PRO then streaming_pro else None)"

definition resolve_adapter ::
  "Stage \<Rightarrow> Broker \<Rightarrow> 'a \<Rightarrow> 'a option \<Rightarrow> 'a option \<Rightarrow> AdapterIntent \<Rightarrow> exn + 'a" where
  "resolve_adapter st b sim_adapter liberator streaming_pro intent =
     (let real = real_adapter_for b liberator streaming_pro
      in if st = Stage_SIM then Inr sim_adapter
         else if st = Stage_PAPER then
           (if intent = READ \<and> b \<in> set REAL_BROKERS
            then (case real of None \<Rightarrow> Inl (Rejected StageRejected None) | Some a \<Rightarrow> Inr a)
            else Inr sim_adapter)
         else if st = Stage_MICRO_LIVE then
           (if b \<in> set REAL_BROKERS
            then (case real of None \<Rightarrow> Inl (Rejected StageRejected None) | Some a \<Rightarrow> Inr a)
            else Inl (Rejected StageRejected None))
         else Inl (Rejected StageRejected None))"

section \<open>Real-routing authority\<close>

definition REAL_ROUTING_STAGES :: "Stage list" where
  "REAL_ROUTING_STAGES = [Stage_MICRO_LIVE, Stage_LIVE]"

definition authorized_accounts :: "Settings \<Rightarrow> string list" where
  "authorized_accounts s = filter (\<lambda>a. a \<noteq> []) (map strip (real_routing_accounts s))"

definition assert_may_route_real ::
  "Settings \<Rightarrow> string \<Rightarrow> Broker \<Rightarrow> 'a \<Rightarrow> 'a \<Rightarrow> exn + unit" where
  "assert_may_route_real s acct b adapter sim_adapter =
     (if adapter = sim_adapter \<or> b \<notin> set REAL_BROKERS then Inr ()
      else
        let allowed = authorized_accounts s
        in if allowed = [] then Inl (Rejected RealRoutingNotAuthorized None)
           else if acct \<notin> set allowed then Inl (Rejected RealRoutingNotAuthorized None)
           else Inr ())"

definition assert_startup_declaration :: "Settings \<Rightarrow> exn + unit" where
  "assert_startup_declaration s =
     (if stage s \<notin> set REAL_ROUTING_STAGES then Inr ()
      else if authorized_accounts s = [] then Inl ConfigError
      else if liberator_api_key s = None \<and> streaming_pro_api_key s = None then Inl ConfigError
      else Inr ())"

section \<open>What the gates guarantee\<close>

subsection \<open>Kill switch\<close>

text \<open>
  The switch round trip, over a Redis that returns what was last set under a key: once
  \<open>engage\<close> has returned, the guard refuses until \<open>disengage\<close> returns, after which it passes;
  and while the environment flag pins the switch, \<open>disengage\<close> refuses and changes nothing.
\<close>

theorem kill_switch_round_trip:
  assumes set_get: "\<And>v r r'. rd_set c KILL_SWITCH_KEY v r = (Inr (), r') \<Longrightarrow>
        outcome (rd_get c KILL_SWITCH_KEY) r' = Inr (Some v)"
    and del_get: "\<And>r r'. rd_delete c KILL_SWITCH_KEY r = (Inr (), r') \<Longrightarrow>
        outcome (rd_get c KILL_SWITCH_KEY) r' = Inr None"
  shows "(engage (Some c) w = (Inr (), w') \<longrightarrow>
            outcome (assert_disengaged s (Some c)) w' = Inl (Rejected KillSwitchEngagedError None)) \<and>
         (disengage s (Some c) w = (Inr (), w') \<longrightarrow> outcome (assert_disengaged s (Some c)) w' = Inr ()) \<and>
         (kill_switch_engaged s \<longrightarrow>
            disengage s (Some c) w = (Inl (Rejected KillSwitchPinnedError None), w) \<and>
            outcome (assert_disengaged s (Some c)) w = Inl (Rejected KillSwitchEngagedError None))"
proof (intro conjI impI)
  assume "engage (Some c) w = (Inr (), w')"
  then have "rd_set c KILL_SWITCH_KEY ''engaged'' (redis w) = (Inr (), redis w')"
    by (auto simp: engage_def on_redis_def split: prod.splits)
  from set_get [OF this] have "switch_on s (Some c) (redis w')" by (auto simp: switch_on_def)
  then show "outcome (assert_disengaged s (Some c)) w' = Inl (Rejected KillSwitchEngagedError None)"
    by (cases rule: assert_disengaged_cases [of s "Some c" w']) simp_all
next
  assume dis: "disengage s (Some c) w = (Inr (), w')"
  then have off: "\<not> kill_switch_engaged s" by (auto simp: disengage_def)
  with dis have "rd_delete c KILL_SWITCH_KEY (redis w) = (Inr (), redis w')"
    by (auto simp: disengage_def on_redis_def split: prod.splits)
  from del_get [OF this] off have "\<not> switch_on s (Some c) (redis w')" by (auto simp: switch_on_def)
  then show "outcome (assert_disengaged s (Some c)) w' = Inr ()"
    by (cases rule: assert_disengaged_cases [of s "Some c" w']) simp_all
next
  assume on: "kill_switch_engaged s"
  then show "disengage s (Some c) w = (Inl (Rejected KillSwitchPinnedError None), w)"
    by (simp add: disengage_def)
  show "outcome (assert_disengaged s (Some c)) w = Inl (Rejected KillSwitchEngagedError None)"
    using on by (cases rule: assert_disengaged_cases [of s "Some c" w]) (simp_all add: switch_on_def)
qed

text \<open>An example client: a store of strings and one of counters, without expiry.\<close>

type_synonym demo_redis = "(string \<Rightarrow> string option) \<times> (string \<Rightarrow> int)"

definition demo_client :: "demo_redis redis_client" where
  "demo_client =
     \<lparr>rd_get = (\<lambda>k. getsE (\<lambda>r. fst r k)),
      rd_set = (\<lambda>k v. modifyE (\<lambda>r. ((fst r)(k := Some v), snd r))),
      rd_set_nx_ex = (\<lambda>k v _ r. if fst r k = None then (Inr True, ((fst r)(k := Some v), snd r))
                                 else (Inr False, r)),
      rd_delete = (\<lambda>k. modifyE (\<lambda>r. ((fst r)(k := None), snd r))),
      rd_incr = (\<lambda>k r. (Inr (snd r k + 1), (fst r, (snd r)(k := snd r k + 1)))),
      rd_expire = (\<lambda>_ _. returnE ()),
      rd_release = (\<lambda>k v. modifyE (\<lambda>r. (if fst r k = Some v then (fst r)(k := None) else fst r, snd r)))\<rparr>"

definition with_redis :: "'r \<Rightarrow> (unit, 'v) world \<Rightarrow> ('r, 'v) world" where
  "with_redis r w =
     \<lparr>orders = orders w, fills = fills w, hub = hub w, books = books w, clock = clock w, breakers = breakers w,
      buckets = buckets w, lib_session = lib_session w, sp_session = sp_session w, redis = r, venue = venue w\<rparr>"

definition demo_redis_world :: "OrderRow list \<Rightarrow> FillRow list \<Rightarrow> (demo_redis, unit) world" where
  "demo_redis_world rs fs = with_redis (\<lambda>_. None, \<lambda>_. 0) (demo_world rs fs)"

theorem kill_switch_round_trip_witness:
  "let w = demo_redis_world [] []; w' = snd (engage (Some demo_client) w)
   in engage (Some demo_client) w = (Inr (), w') \<and>
      outcome (assert_disengaged default_settings (Some demo_client)) w' =
        Inl (Rejected KillSwitchEngagedError None)"
proof -
  let ?w = "demo_redis_world [] []"
  let ?w' = "snd (engage (Some demo_client) ?w)"
  have run: "engage (Some demo_client) ?w = (Inr (), ?w')"
    by (simp add: engage_def demo_client_def on_redis_def)
  have "(engage (Some demo_client) ?w = (Inr (), ?w') \<longrightarrow>
            outcome (assert_disengaged default_settings (Some demo_client)) ?w' =
              Inl (Rejected KillSwitchEngagedError None)) \<and>
         (disengage default_settings (Some demo_client) ?w = (Inr (), ?w') \<longrightarrow>
            outcome (assert_disengaged default_settings (Some demo_client)) ?w' = Inr ()) \<and>
         (kill_switch_engaged default_settings \<longrightarrow>
            disengage default_settings (Some demo_client) ?w = (Inl (Rejected KillSwitchPinnedError None), ?w) \<and>
            outcome (assert_disengaged default_settings (Some demo_client)) ?w =
              Inl (Rejected KillSwitchEngagedError None))"
    by (rule kill_switch_round_trip) (auto simp: demo_client_def modifyE_def)
  with run show ?thesis by (simp add: Let_def)
qed

subsection \<open>Risk gate\<close>

lemma risk_check_passes:
  assumes "risk_check s client od w = (Inr (), w')"
  shows "check_quantity s od = Inr ()" and "check_notional s od = Inr ()"
    and "windowed_checks s client od w = (Inr (), w')"
  using assms by (cases "check_quantity s od"; cases "check_notional s od"; simp add: risk_check_def)+

lemma window_counts_live:
  assumes "stage s \<in> set LIVE_STAGES" and "window_counts s c od w = (Inr counts, w')"
  shows "\<exists>n m w1. counts = Some (n, m) \<and> incr_with_ttl c (rate_key (clock w)) 2 w = (Inr n, w1)"
  using assms
  by (auto simp: window_counts_def catchE_def bindE_def risk_backend_down_def
      split: prod.splits sum.splits if_splits)

text \<open>
  C18. What a pass of the risk gate means. The quantity is within the account's cap, or the
  global one where the account has none; the notional of a priced order is within the cap
  that applies to it, as an exact product whenever that has at most 28 digits; and in a live
  stage the gate has counted the order against this second's rate and found it within the
  limit: no configuration without a working Redis passes there.
\<close>

theorem risk_gate_bounds:
  assumes pass: "risk_check s client od w = (Inr (), w')"
  shows "quantity od \<le> qty_limit s od \<and>
         (\<forall>basis. notional_basis od = Some basis \<and>
            ndigits (nat \<bar>dcoeff basis * quantity od\<bar>) \<le> dec_prec \<longrightarrow>
            dval basis * rat_of_int (quantity od) \<le> dval (notional_limit s od)) \<and>
         (stage s \<in> {Stage_MICRO_LIVE, Stage_LIVE} \<longrightarrow>
            (\<exists>c n w1. client = Some c \<and> incr_with_ttl c (rate_key (clock w)) 2 w = (Inr n, w1) \<and>
               n \<le> risk_max_orders_per_second s))"
proof (intro conjI allI impI)
  show "quantity od \<le> qty_limit s od"
    using risk_check_passes(1) [OF pass] by (simp add: check_quantity_def split: if_splits)
next
  fix basis
  assume b: "notional_basis od = Some basis \<and> ndigits (nat \<bar>dcoeff basis * quantity od\<bar>) \<le> dec_prec"
  then have "dval (dec_mul basis (dec_of_int (quantity od))) = dval basis * dval (dec_of_int (quantity od))"
    by (intro dec_mul_exact) (simp add: dec_of_int_def)
  moreover have "\<not> dec_lt (notional_limit s od) (dec_mul basis (dec_of_int (quantity od)))"
    using risk_check_passes(2) [OF pass] b by (simp add: check_notional_def Let_def split: if_splits)
  ultimately show "dval basis * rat_of_int (quantity od) \<le> dval (notional_limit s od)"
    by (simp add: dec_lt_dval dval_of_int)
next
  assume "stage s \<in> {Stage_MICRO_LIVE, Stage_LIVE}"
  then have live: "stage s \<in> set LIVE_STAGES" by (simp add: LIVE_STAGES_def)
  have checks: "windowed_checks s client od w = (Inr (), w')" by (rule risk_check_passes(3) [OF pass])
  show "\<exists>c n w1. client = Some c \<and> incr_with_ttl c (rate_key (clock w)) 2 w = (Inr n, w1) \<and>
               n \<le> risk_max_orders_per_second s"
  proof (cases client)
    case None
    with checks live show ?thesis by (simp add: windowed_checks_def risk_backend_down_def)
  next
    case (Some c)
    with checks obtain counts u where counts: "window_counts s c od w = (Inr counts, u)"
      and rest: "(case counts of None \<Rightarrow> returnE () | Some (n, m) \<Rightarrow>
              if risk_max_orders_per_second s < n
              then raiseE (Rejected (RiskRejected ''rate_limit'') (Some (client_order_id od)))
              else if duplicate_burst_guard_enabled s \<and> 1 < m
              then raiseE (Rejected DuplicateBurstDetected (Some (client_order_id od)))
              else returnE ()) u = (Inr (), w')"
      by (auto simp: windowed_checks_def elim: bindE_InrE)
    from window_counts_live [OF live counts] rest Some show ?thesis by (auto split: if_splits)
  qed
qed

definition demo_order :: "string \<Rightarrow> int \<Rightarrow> decimal \<Rightarrow> NormalizedOrder" where
  "demo_order cid q p =
     \<lparr>client_order_id = cid, broker = SIM, account = ''A'', market = SET, symbol = ''PTT'', side = BUY,
      order_type = LIMIT, price = Some p, stop_price = None, quantity = q, display_qty = None,
      tif = DAY, position_effect = None, metadata = []\<rparr>"

theorem risk_gate_bounds_witness:
  "dval (Dec 105 (-1)) * rat_of_int 200 \<le> dval (notional_limit default_settings (demo_order ''c'' 200 (Dec 105 (-1))))"
proof -
  let ?od = "demo_order ''c'' 200 (Dec 105 (-1))"
  let ?w = "demo_redis_world [] []"
  have "risk_check default_settings None ?od ?w = (Inr (), ?w)"
    by (simp add: risk_check_def check_quantity_def check_notional_def qty_limit_def notional_limit_def
        notional_basis_def default_settings_def demo_order_def windowed_checks_def risk_backend_down_def
        LIVE_STAGES_def dec_mul_def dec_of_int_def dec_fix_def dec_prec_def ndigits.simps dec_lt_def dec_le_def align_def)
  from risk_gate_bounds [OF this] show ?thesis
    by (simp add: notional_basis_def demo_order_def ndigits.simps dec_prec_def)
qed

subsection \<open>The burst fingerprint\<close>

lemma int_str_inject: "int_str i = int_str j \<longleftrightarrow> i = j"
proof -
  have "hd (nat_str n) \<noteq> CHR ''-''" for n
    using subsetD [OF nat_str_digits hd_in_set [OF nat_str_nonempty], of n] by auto
  then have "CHR ''-'' # x \<noteq> nat_str n" "nat_str n \<noteq> CHR ''-'' # x" for x n by (metis list.sel(1))+
  then show ?thesis by (auto simp: int_str_def nat_str_inject)
qed

lemma no_bar_in_int: "CHR ''|'' \<notin> set (int_str i)"
  using subsetD [OF nat_str_digits, of "CHR ''|''" "nat i"]
    subsetD [OF nat_str_digits, of "CHR ''|''" "nat (- i)"]
  by (auto simp: int_str_def)

lemma no_bar_in_values:
  "CHR ''|'' \<notin> set (side_value sd)" "CHR ''|'' \<notin> set (order_type_value ot)"
  by (cases sd; simp) (cases ot; simp)

lemma enum_values_inject:
  "side_value a = side_value b \<longleftrightarrow> a = b" "order_type_value c = order_type_value d \<longleftrightarrow> c = d"
  by (cases a; cases b; simp) (cases c; cases d; simp)

lemma format_f_not_None: "dexp p \<le> 0 \<Longrightarrow> format_f p \<noteq> ''None''"
proof -
  assume "dexp p \<le> 0"
  then obtain ip fp where f: "format_f p = (if dcoeff p < 0 then ''-'' else []) @ ip @
      (if fp = [] then [] else CHR ''.'' # fp)" "set (ip @ fp) \<subseteq> set ''0123456789''" "ip \<noteq> []"
    by (rule format_f_parts) blast
  have "hd (format_f p) \<in> set ''-0123456789''"
    using f(2,3) unfolding f(1) by (cases ip) auto
  then show ?thesis by auto
qed

lemma price_text_inject:
  assumes "\<forall>p. x = Some p \<longrightarrow> dexp p \<le> 0" and "\<forall>p. y = Some p \<longrightarrow> dexp p \<le> 0"
  shows "price_text x = price_text y \<longleftrightarrow> x = y"
proof (cases x)
  case None
  then show ?thesis using assms format_f_not_None by (cases y) (auto simp: price_text_def dest: sym)
next
  case (Some p)
  then show ?thesis
    using assms format_f_not_None [of p] format_f_inject [of p]
    by (cases y) (auto simp: price_text_def simp del: format_f_not_None)
qed

text \<open>
  The fingerprint of the duplicate-burst guard separates exactly the orders that differ in
  account, symbol, side, quantity, order type or written price, for accounts and symbols
  without the separator and prices without a positive exponent. The price counts as
  written, not by value: 10 and 10.0 give different fingerprints.
\<close>

theorem burst_fingerprint_exact:
  assumes "CHR ''|'' \<notin> set (account a @ symbol a)" and "CHR ''|'' \<notin> set (account b @ symbol b)"
    and "\<forall>p. price a = Some p \<longrightarrow> dexp p \<le> 0" and "\<forall>p. price b = Some p \<longrightarrow> dexp p \<le> 0"
  shows "burst_raw a = burst_raw b \<longleftrightarrow>
     account a = account b \<and> symbol a = symbol b \<and> side a = side b \<and> quantity a = quantity b \<and>
     order_type a = order_type b \<and> price a = price b"
proof -
  have "price_text (price a) = price_text (price b) \<longleftrightarrow> price a = price b"
    using assms(3,4) by (rule price_text_inject)
  moreover have bars: "CHR ''|'' \<notin> set (account a)" "CHR ''|'' \<notin> set (account b)"
    "CHR ''|'' \<notin> set (symbol a)" "CHR ''|'' \<notin> set (symbol b)" using assms(1,2) by auto
  ultimately show ?thesis
    by (simp add: burst_raw_def split_at_inject no_bar_in_values no_bar_in_int
        enum_values_inject int_str_inject)
qed

theorem burst_fingerprint_exact_witness:
  "burst_raw (demo_order ''c1'' 100 (Dec 10 0)) \<noteq> burst_raw (demo_order ''c2'' 100 (Dec 100 (-1))) \<and>
   dec_eq (Dec 10 0) (Dec 100 (-1))"
proof -
  let ?a = "demo_order ''c1'' 100 (Dec 10 0)" and ?b = "demo_order ''c2'' 100 (Dec 100 (-1))"
  have "burst_raw ?a = burst_raw ?b \<longleftrightarrow>
     account ?a = account ?b \<and> symbol ?a = symbol ?b \<and> side ?a = side ?b \<and> quantity ?a = quantity ?b \<and>
     order_type ?a = order_type ?b \<and> price ?a = price ?b"
    by (rule burst_fingerprint_exact) (simp_all add: demo_order_def)
  then show ?thesis by (simp add: demo_order_def dec_eq_def dec_le_def align_def)
qed

text \<open>
  The contract of the counters: \<open>INCR\<close> adds one to its key and answers the new value, \<open>EXPIRE\<close>
  succeeds and takes no counter back while the window lasts. \<open>cnt\<close> reads the counters.
\<close>

definition counts :: "'r redis_client \<Rightarrow> ('r \<Rightarrow> string \<Rightarrow> int) \<Rightarrow> bool" where
  "counts c cnt \<longleftrightarrow>
     (\<forall>k r. outcome (rd_incr c k) r = Inr (cnt r k + 1) \<and>
            cnt (after (rd_incr c k) r) = (cnt r)(k := cnt r k + 1)) \<and>
     (\<forall>k ttl r. outcome (rd_expire c k ttl) r = Inr () \<and> cnt (after (rd_expire c k ttl) r) = cnt r)"

lemma incr_with_ttl_counts:
  assumes "counts c cnt"
  shows "\<exists>w'. incr_with_ttl c k ttl w = (Inr (cnt (redis w) k + 1), w') \<and>
    cnt (redis w') = (cnt (redis w))(k := cnt (redis w) k + 1)"
proof -
  obtain x r1 where i: "rd_incr c k (redis w) = (x, r1)" by fastforce
  obtain y r2 where e: "rd_expire c k ttl r1 = (y, r2)" by fastforce
  have "x = Inr (cnt (redis w) k + 1)" "cnt r1 = (cnt (redis w))(k := cnt (redis w) k + 1)"
    "y = Inr ()" "cnt r2 = cnt r1"
    using assms i e unfolding counts_def by (metis fst_conv snd_conv)+
  then show ?thesis using i e by (simp add: incr_with_ttl_def bindE_def on_redis_def)
qed

lemma window_counts_counts:
  assumes "counts c cnt" and "duplicate_burst_guard_enabled s"
  shows "\<exists>n m w'. window_counts s c od w = (Inr (Some (n, m)), w') \<and>
    m = cnt (redis w') (burst_key od) \<and> cnt (redis w) (burst_key od) < m"
proof -
  obtain w1 where 1: "incr_with_ttl c (rate_key (clock w)) 2 w =
      (Inr (cnt (redis w) (rate_key (clock w)) + 1), w1)"
    "cnt (redis w1) = (cnt (redis w))(rate_key (clock w) := cnt (redis w) (rate_key (clock w)) + 1)"
    using incr_with_ttl_counts [OF assms(1)] by blast
  obtain w2 where 2: "incr_with_ttl c (burst_key od) (duplicate_burst_window_seconds s) w1 =
      (Inr (cnt (redis w1) (burst_key od) + 1), w2)"
    "cnt (redis w2) = (cnt (redis w1))(burst_key od := cnt (redis w1) (burst_key od) + 1)"
    using incr_with_ttl_counts [OF assms(1)] by blast
  have "cnt (redis w) (burst_key od) \<le> cnt (redis w1) (burst_key od)" using 1(2) by simp
  then show ?thesis using 1(1) 2 assms(2) by (simp add: window_counts_def catchE_def bindE_def)
qed

text \<open>
  Over counters that count, an economic duplicate is stopped: once an order has passed the
  risk gate, a second one with the same fingerprint (whatever its id) that reaches the window
  before the counter expires is refused, as a duplicate or for the rate.
\<close>

theorem burst_repeat_refused:
  assumes redis: "counts c cnt" and guard_on: "duplicate_burst_guard_enabled s"
    and fresh: "0 \<le> cnt (redis w) (burst_key od)"
    and first: "risk_check s (Some c) od w = (Inr (), w1)"
    and later: "\<forall>k. cnt (redis w1) k \<le> cnt (redis w2) k"
    and same: "burst_raw od' = burst_raw od"
    and caps: "check_quantity s od' = Inr ()" "check_notional s od' = Inr ()"
  shows "outcome (risk_check s (Some c) od') w2 \<in>
     {Inl (Rejected DuplicateBurstDetected (Some (client_order_id od'))),
      Inl (Rejected (RiskRejected ''rate_limit'') (Some (client_order_id od')))}"
proof -
  have key: "burst_key od' = burst_key od" using same by (simp add: burst_key_def)
  obtain n m u where 1: "window_counts s c od w = (Inr (Some (n, m)), u)"
    "m = cnt (redis u) (burst_key od)" "cnt (redis w) (burst_key od) < m"
    using window_counts_counts [OF redis guard_on] by blast
  have "u = w1"
    using risk_check_passes(3) [OF first] 1(1)
    by (auto simp: windowed_checks_def bindE_def split: if_splits)
  then have "0 < cnt (redis w2) (burst_key od)"
    using 1(2,3) later fresh by (metis le_less_trans less_le_trans)
  moreover obtain n' m' u' where "window_counts s c od' w2 = (Inr (Some (n', m')), u')"
    "cnt (redis w2) (burst_key od') < m'"
    using window_counts_counts [OF redis guard_on] by blast
  ultimately show ?thesis
    using caps guard_on key by (auto simp: risk_check_def windowed_checks_def bindE_def)
qed

theorem burst_repeat_refused_witness:
  "outcome (risk_check default_settings (Some demo_client) (demo_order ''c2'' 100 (Dec 10 0)))
      (after (risk_check default_settings (Some demo_client) (demo_order ''c1'' 100 (Dec 10 0)))
         (demo_redis_world [] [])) \<in>
     {Inl (Rejected DuplicateBurstDetected (Some ''c2'')),
      Inl (Rejected (RiskRejected ''rate_limit'') (Some ''c2''))}"
proof -
  let ?w = "demo_redis_world [] []"
  let ?a = "demo_order ''c1'' 100 (Dec 10 0)" and ?b = "demo_order ''c2'' 100 (Dec 10 0)"
  let ?w1 = "after (risk_check default_settings (Some demo_client) ?a) ?w"
  have caps: "check_quantity default_settings (demo_order cid 100 (Dec 10 0)) = Inr ()"
    "check_notional default_settings (demo_order cid 100 (Dec 10 0)) = Inr ()" for cid
    by (simp_all add: check_quantity_def check_notional_def qty_limit_def notional_limit_def
        notional_basis_def default_settings_def demo_order_def dec_mul_def dec_of_int_def dec_fix_def
        dec_prec_def ndigits.simps dec_lt_def dec_le_def align_def)
  have keys: "rate_key 0 \<noteq> burst_key ?a" by (simp add: rate_key_def burst_key_def)
  have first: "risk_check default_settings (Some demo_client) ?a ?w = (Inr (), ?w1)"
    using keys caps
    by (simp add: risk_check_def windowed_checks_def window_counts_def incr_with_ttl_def on_redis_def
        demo_client_def bindE_def catchE_def demo_redis_world_def with_redis_def demo_world_def
        default_settings_def)
  have "outcome (risk_check default_settings (Some demo_client) ?b) ?w1 \<in>
     {Inl (Rejected DuplicateBurstDetected (Some (client_order_id ?b))),
      Inl (Rejected (RiskRejected ''rate_limit'') (Some (client_order_id ?b)))}"
  proof (rule burst_repeat_refused [where cnt = snd, OF _ _ _ first])
    show "counts demo_client snd" by (simp add: counts_def demo_client_def)
    show "0 \<le> snd (redis ?w) (burst_key ?a)" by (simp add: demo_redis_world_def with_redis_def)
  qed (use caps in \<open>simp_all add: default_settings_def burst_raw_def demo_order_def\<close>)
  then show ?thesis by (simp add: demo_order_def)
qed

subsection \<open>Stage ladder and routing authority\<close>

text \<open>
  The stage ladder, whole: \<open>sim\<close> always answers the sim adapter; \<open>paper\<close> sends every trade
  to sim but never answers a read for a real broker from it; \<open>micro_live\<close> reaches exactly the
  configured adapter of a real broker; \<open>live\<close> is refused. In particular no trade reaches a
  real adapter outside \<open>micro_live\<close>.
\<close>

theorem stage_ladder:
  "resolve_adapter st b sim_adapter liberator streaming_pro intent =
     (case (st, intent, b) of
        (Stage_SIM, _, _) \<Rightarrow> Inr sim_adapter
      | (Stage_PAPER, TRADE, _) \<Rightarrow> Inr sim_adapter
      | (Stage_PAPER, READ, SIM) \<Rightarrow> Inr sim_adapter
      | (Stage_MICRO_LIVE, _, SIM) \<Rightarrow> Inl (Rejected StageRejected None)
      | (Stage_LIVE, _, _) \<Rightarrow> Inl (Rejected StageRejected None)
      | (_, _, LIBERATOR) \<Rightarrow>
          (case liberator of Some a \<Rightarrow> Inr a | None \<Rightarrow> Inl (Rejected StageRejected None))
      | (_, _, STREAMING_PRO) \<Rightarrow>
          (case streaming_pro of Some a \<Rightarrow> Inr a | None \<Rightarrow> Inl (Rejected StageRejected None)))"
  by (cases st; cases intent; cases b)
    (simp_all add: resolve_adapter_def real_adapter_for_def REAL_BROKERS_def Let_def)

text \<open>
  Start-up and routing agree on the declaration. A deployment at a stage where real orders
  can be routed starts exactly when it declares an account and holds a broker credential;
  and whatever it declares, the guard lets a real adapter of a real broker through exactly for
  an account that is, up to surrounding blanks, on the declared list.
\<close>

theorem real_routing_declared:
  "(assert_startup_declaration s = Inr () \<longleftrightarrow>
      stage s \<in> {Stage_SIM, Stage_PAPER} \<or>
      ((\<exists>a \<in> set (real_routing_accounts s). strip a \<noteq> []) \<and>
       (liberator_api_key s \<noteq> None \<or> streaming_pro_api_key s \<noteq> None))) \<and>
   (assert_may_route_real s acct b adapter sim_adapter = Inr () \<longleftrightarrow>
      adapter = sim_adapter \<or> b = SIM \<or>
      (\<exists>a \<in> set (real_routing_accounts s). acct = strip a \<and> acct \<noteq> []))"
proof
  have stages: "stage s \<notin> set REAL_ROUTING_STAGES \<longleftrightarrow> stage s \<in> {Stage_SIM, Stage_PAPER}"
    by (cases "stage s") (simp_all add: REAL_ROUTING_STAGES_def)
  show "assert_startup_declaration s = Inr () \<longleftrightarrow>
      stage s \<in> {Stage_SIM, Stage_PAPER} \<or>
      ((\<exists>a \<in> set (real_routing_accounts s). strip a \<noteq> []) \<and>
       (liberator_api_key s \<noteq> None \<or> streaming_pro_api_key s \<noteq> None))"
    unfolding assert_startup_declaration_def stages
    by (auto simp: authorized_accounts_def filter_empty_conv)
  have real: "b \<notin> set REAL_BROKERS \<longleftrightarrow> b = SIM" by (cases b) (simp_all add: REAL_BROKERS_def)
  show "assert_may_route_real s acct b adapter sim_adapter = Inr () \<longleftrightarrow>
      adapter = sim_adapter \<or> b = SIM \<or>
      (\<exists>a \<in> set (real_routing_accounts s). acct = strip a \<and> acct \<noteq> [])"
    unfolding assert_may_route_real_def real
    by (auto simp: authorized_accounts_def Let_def filter_empty_conv)
qed

theorem real_routing_declared_witness:
  "assert_may_route_real (default_settings\<lparr>real_routing_accounts := ['' 12345672 '']\<rparr>) ''12345672'' LIBERATOR (1::nat) 0 = Inr ()"
  using real_routing_declared [of "default_settings\<lparr>real_routing_accounts := ['' 12345672 '']\<rparr>" "''12345672''"
      LIBERATOR "1::nat" 0]
  by (simp add: strip_def is_space_def strip_by_def)

end
