(* ===== verification/AdapterBase.thy ===== *)
theory AdapterBase
  imports Gates
begin

text \<open>
  The broker-adapter interface of \<open>adapters/base.py\<close>: its value types with their validators,
  the display state of a venue order, the adapter as a record of operations, and what the
  router relies on of every adapter as a locale.
\<close>

section \<open>Acknowledgements\<close>

record FillReport =
  fr_broker_fill_id :: string
  fr_price :: decimal
  fr_quantity :: int
  fr_exec_ts :: timestamp

text \<open>\<open>FillReport(...)\<close>: the price must be a finite decimal, the quantity positive.\<close>

definition mk_FillReport :: "string \<Rightarrow> pydecimal \<Rightarrow> int \<Rightarrow> timestamp \<Rightarrow> exn + FillReport" where
  "mk_FillReport fid p q t =
     (case p of
        Finite d \<Rightarrow>
          if 0 < q then Inr \<lparr>fr_broker_fill_id = fid, fr_price = d, fr_quantity = q, fr_exec_ts = t\<rparr>
          else Inl (ValidationError ''quantity: gt 0'')
      | _ \<Rightarrow> Inl (ValidationError ''price: finite_number''))"

record PlaceAck =
  rejected :: bool
  reject_reason :: "string option"
  broker_order_id :: "string option"
  ack_fills :: "FillReport list"
  remainder_cancelled :: bool

record CancelAck =
  cancel_ok :: bool
  cancel_reason :: "string option"

record AmendAck =
  amend_ok :: bool
  amend_semantics :: string
  amend_reason :: "string option"

section \<open>Positions and accounts\<close>

record Position =
  pos_account :: string
  pos_market :: Market
  pos_symbol :: string
  net_qty :: int
  pos_side :: "Side option"
  cost_amount :: "decimal option"
  avg_price :: "decimal option"
  market_price :: "decimal option"
  market_val :: "decimal option"
  unrealized_pl :: "decimal option"

datatype AccountType = CASH | DERIVATIVE | UNKNOWN_TYPE

record AccountInfo =
  ai_account :: string
  account_type :: AccountType
  buying_power :: decimal
  cash_balance :: "decimal option"
  credit_limit :: "decimal option"
  withdrawable :: "decimal option"
  equity :: "decimal option"
  excess_equity :: "decimal option"
  initial_margin :: "decimal option"
  maintenance_margin :: "decimal option"

definition margin_block_belongs_to_derivatives :: "AccountInfo \<Rightarrow> exn + AccountInfo" where
  "margin_block_belongs_to_derivatives a =
     (if account_type a = DERIVATIVE then Inr a
      else
        let named = map fst (filter (\<lambda>(n, v). v \<noteq> None)
                      [(''equity'', equity a), (''excess_equity'', excess_equity a),
                       (''initial_margin'', initial_margin a),
                       (''maintenance_margin'', maintenance_margin a)])
        in if named \<noteq> []
           then Inl (ValidationError (join '', '' named @ '' is only valid on a DERIVATIVE account''))
           else Inr a)"

section \<open>What a row of the venue's own list is\<close>

datatype VenueDisplayState =
    VD_RESTING | VD_PARTIALLY_FILLED | VD_FILLED | VD_CANCELLED | VD_REJECTED | VD_EXPIRED | VD_UNKNOWN

definition display_state :: "string \<Rightarrow> int \<Rightarrow> int \<Rightarrow> int \<Rightarrow> VenueDisplayState" where
  "display_state classified qty matched remaining =
     (if classified = ''cancelled'' then VD_CANCELLED
      else if classified = ''rejected'' then VD_REJECTED
      else if classified = ''expired'' then VD_EXPIRED
      else if 0 < matched \<and> remaining \<le> 0 \<and> 0 < qty \<and> qty \<le> matched then VD_FILLED
      else if 0 < matched \<and> 0 < remaining then VD_PARTIALLY_FILLED
      else if 0 < remaining then VD_RESTING
      else VD_UNKNOWN)"

record VenueOrderView =
  vo_order_id :: string
  vo_market :: "Market option"
  vo_symbol :: string
  vo_side :: "Side option"
  vo_quantity :: int
  vo_price :: "decimal option"
  matched_qty :: int
  remaining_qty :: int
  cancelled_qty :: int
  vo_state :: VenueDisplayState
  venue_status :: string
  venue_status_code :: string
  placed_at :: "string option"

section \<open>The interface\<close>

text \<open>
  An adapter is the record of its operations. Its breaker is read from the state: the real
  adapters are process singletons, the sim adapter is built with a fresh breaker per request.
\<close>

record ('r, 'v) BrokerAdapter =
  ad_broker :: Broker
  ad_breaker :: "('r, 'v) world \<Rightarrow> SessionCircuitBreaker"
  ad_place :: "NormalizedOrder \<Rightarrow> ('r, 'v, PlaceAck) eng"
  ad_cancel :: "string \<Rightarrow> ('r, 'v, CancelAck) eng"
  ad_amend :: "string \<Rightarrow> decimal option \<Rightarrow> int option \<Rightarrow> ('r, 'v, AmendAck) eng"
  ad_get_open_orders :: "string \<Rightarrow> ('r, 'v, NormalizedOrder list) eng"
  ad_get_positions :: "string \<Rightarrow> ('r, 'v, Position list) eng"
  ad_get_venue_orders :: "string \<Rightarrow> ('r, 'v, VenueOrderView list) eng"
  ad_get_account :: "string \<Rightarrow> ('r, 'v, AccountInfo) eng"

text \<open>The default of \<open>get_venue_orders\<close>: an adapter without a venue list refuses.\<close>

definition no_venue_orders :: "string \<Rightarrow> ('r, 'v, VenueOrderView list) eng" where
  "no_venue_orders acct = raiseE (Rejected VenueOrdersUnavailable None)"

definition breaker_guard :: "('r, 'v) BrokerAdapter \<Rightarrow> ('r, 'v, unit) eng" where
  "breaker_guard ad = bindE (getsE (ad_breaker ad)) (\<lambda>b. liftE (guard b))"

text \<open>
  What the router relies on: whatever an adapter does to the venue, to Redis, to the clock or
  to its own session, it does not write the two tables; only the router does. A placement may
  wait for a token, and what happens meanwhile is up to the other coroutines of the engine,
  which write the tables as the store promises.
\<close>

locale broker_adapter =
  fixes ad :: "('r, 'v) BrokerAdapter"
  assumes place_evolves: "effect evolves any (ad_place ad od)"
    and cancel_frame: "effect same_store any (ad_cancel ad cid)"
    and amend_frame: "effect same_store any (ad_amend ad cid np nq)"
begin

lemma cancel_evolves: "effect evolves any (ad_cancel ad cid)"
  by (rule frame_evolves) (rule cancel_frame)

lemma amend_evolves: "effect evolves any (ad_amend ad cid np nq)"
  by (rule frame_evolves) (rule amend_frame)

end

text \<open>An adapter that reaches no venue at all.\<close>

locale offline_adapter = broker_adapter ad for ad :: "('r, 'v) BrokerAdapter" +
  assumes place_offline: "effect same_venue any (ad_place ad od)"
    and cancel_offline: "effect same_venue any (ad_cancel ad cid)"
    and amend_offline: "effect same_venue any (ad_amend ad cid np nq)"

lemma breaker_guard_state [simp]: "snd (breaker_guard ad w) = w"
  by (simp add: breaker_guard_def)

lemma breaker_guard_outcome: "fst (breaker_guard ad w) = guard (ad_breaker ad w)"
  by (simp add: breaker_guard_def)

text \<open>
  The display state never contradicts the counters. A row is shown as filled only when
  everything ordered is matched and nothing remains, as partially filled only when something
  is matched and something remains, as resting only when nothing is matched and something
  remains; the three closed words of the venue win over any counters.
\<close>

theorem display_state_sound:
  "(display_state c q m r = VD_FILLED \<longrightarrow> 0 < q \<and> q \<le> m \<and> r \<le> 0) \<and>
   (display_state c q m r = VD_PARTIALLY_FILLED \<longrightarrow> 0 < m \<and> 0 < r) \<and>
   (display_state c q m r = VD_RESTING \<longrightarrow> m \<le> 0 \<and> 0 < r) \<and>
   (display_state c q m r \<in> {VD_CANCELLED, VD_REJECTED, VD_EXPIRED} \<longleftrightarrow>
      c \<in> {''cancelled'', ''rejected'', ''expired''})"
  by (auto simp: display_state_def split: if_splits)

theorem display_state_sound_witness:
  "display_state ''resting'' 100 100 0 = VD_FILLED \<and> (0::int) < 100 \<and> (100::int) \<le> 100"
  using display_state_sound [of "''resting''" 100 100 0] by (simp add: display_state_def)

end
