(* ===== verification/SimAdapter.thy ===== *)
theory SimAdapter
  imports AdapterBase
begin

text \<open>
  The deterministic in-process venue (\<open>adapters/sim.py\<close>) and the chain that prices its fills
  (\<open>adapters/sim_pricing.py\<close>), with the interpretation of the adapter interface on it.
\<close>

section \<open>\<open>SimFillPricer\<close>\<close>

text \<open>
  \<open>min\<close> and \<open>max\<close> of a candidate and the order's limit. Comparing with a NaN raises; an
  infinity is clamped like any other number.
\<close>

definition bound_by_limit :: "pydecimal \<Rightarrow> NormalizedOrder \<Rightarrow> exn + pydecimal" where
  "bound_by_limit p od =
     (case price od of
        None \<Rightarrow> Inr p
      | Some l \<Rightarrow>
          (case p of
             Finite d \<Rightarrow> Inr (Finite (if side od = BUY then dec_min d l else dec_max d l))
           | Infinity neg \<Rightarrow> Inr (if (side od = BUY) = neg then p else Finite l)
           | NaN \<Rightarrow> Inl (OtherError ''InvalidOperation'')))"

text \<open>Hop 1: the best opposite level of a fresh cached book.\<close>

definition from_book :: "NormalizedOrder \<Rightarrow> ('r, 'v, pydecimal option) eng" where
  "from_book od w =
     (case books w of
        None \<Rightarrow> (Inr None, w)
      | Some sv \<Rightarrow>
          (case get_book (clock w) (symbol od) (market od) sv of
             (found, sv') \<Rightarrow>
               let w' = w\<lparr>books := Some sv'\<rparr>
               in case found of
                    None \<Rightarrow> (Inr None, w')
                  | Some b \<Rightarrow>
                      (case (if side od = BUY then best_ask b else best_bid b) of
                         None \<Rightarrow> (Inr None, w')
                       | Some l \<Rightarrow> (map_sum id Some (bound_by_limit (Finite (lv_price l)) od), w'))))"

text \<open>Hop 2: the last close of the market-data engine.\<close>

definition from_market_data :: "'v MarketDataClient \<Rightarrow> NormalizedOrder \<Rightarrow> ('r, 'v, pydecimal option) eng" where
  "from_market_data md od =
     bindE (last_close md (symbol od) (market od)) (\<lambda>close.
     case close of
       None \<Rightarrow> returnE None
     | Some c \<Rightarrow> liftE (map_sum id Some (bound_by_limit c od)))"

definition fill_price :: "'v MarketDataClient \<Rightarrow> NormalizedOrder \<Rightarrow> ('r, 'v, pydecimal option) eng" where
  "fill_price md od =
     bindE (from_book od) (\<lambda>book_price.
     case book_price of
       Some p \<Rightarrow> returnE (Some p)
     | None \<Rightarrow>
         bindE (if configured md then from_market_data md od else returnE None) (\<lambda>md_price.
         returnE md_price))"

section \<open>\<open>SimAdapter\<close>\<close>

text \<open>The two assertions hold for every order the contract admits; they raise otherwise.\<close>

definition reference_price :: "decimal \<Rightarrow> NormalizedOrder \<Rightarrow> exn + decimal" where
  "reference_price dflt od =
     (if order_type od = LIMIT \<or> order_type od = STOP_LIMIT
      then (case price od of Some p \<Rightarrow> Inr p | None \<Rightarrow> Inl AssertionError)
      else if order_type od = STOP
      then (case stop_price od of Some p \<Rightarrow> Inr p | None \<Rightarrow> Inl AssertionError)
      else (case price od of
              Some p \<Rightarrow> Inr p
            | None \<Rightarrow> (case stop_price od of Some p \<Rightarrow> Inr p | None \<Rightarrow> Inr dflt)))"

text \<open>\<open>all(isinstance(q, int) and not isinstance(q, bool) and q > 0 for q in raw)\<close>.\<close>

fun positive_ints :: "json list \<Rightarrow> int list option" where
  "positive_ints [] = Some []"
| "positive_ints (JInt q # rest) = (if 0 < q then map_option ((#) q) (positive_ints rest) else None)"
| "positive_ints (_ # rest) = None"

text \<open>A rejection reason, or the quantities to fill.\<close>

definition fill_plan :: "NormalizedOrder \<Rightarrow> string + int list" where
  "fill_plan od =
     (case dict_get (metadata od) ''sim_reject'' of
        Some r \<Rightarrow> Inl (py_str r)
      | None \<Rightarrow>
          (case (case dict_get (metadata od) ''sim_fills'' of
                   None \<Rightarrow> Inr [quantity od]
                 | Some (JList raw) \<Rightarrow>
                     (case positive_ints raw of
                        None \<Rightarrow> Inl ''invalid sim_fills: must be a list of positive integers''
                      | Some plan \<Rightarrow>
                          if quantity od < sum_list plan
                          then Inl ''invalid sim_fills: sum exceeds order quantity''
                          else Inr plan)
                 | Some _ \<Rightarrow> Inl ''invalid sim_fills: must be a list of positive integers'') of
             Inl reason \<Rightarrow> Inl reason
           | Inr plan \<Rightarrow>
               if tif od = FOK \<and> plan \<noteq> [quantity od] then Inl ''FOK requires a single full fill''
               else Inr plan))"

definition sim_fill_id :: "string \<Rightarrow> nat \<Rightarrow> string" where
  "sim_fill_id pre i = ''SIMF-'' @ pre @ ''-'' @ nat_str i"

text \<open>\<open>tuple(FillReport(...) for i, qty in enumerate(plan, start))\<close>.\<close>

fun sim_fills :: "string \<Rightarrow> pydecimal \<Rightarrow> timestamp \<Rightarrow> nat \<Rightarrow> int list \<Rightarrow> exn + FillReport list" where
  "sim_fills pre p t i [] = Inr []"
| "sim_fills pre p t i (q # qs) =
     (case mk_FillReport (sim_fill_id pre i) p q t of
        Inl e \<Rightarrow> Inl e
      | Inr f \<Rightarrow> map_sum id ((#) f) (sim_fills pre p t (i + 1) qs))"

definition sim_place ::
  "decimal \<Rightarrow> (NormalizedOrder \<Rightarrow> ('r, 'v, pydecimal option) eng) option \<Rightarrow> NormalizedOrder \<Rightarrow>
   ('r, 'v, PlaceAck) eng" where
  "sim_place dflt price_source od =
     (case fill_plan od of
        Inl reason \<Rightarrow>
          returnE \<lparr>rejected = True, reject_reason = Some reason, broker_order_id = None,
                   ack_fills = [], remainder_cancelled = False\<rparr>
      | Inr plan \<Rightarrow>
          bindE (case price_source of Some src \<Rightarrow> src od | None \<Rightarrow> returnE None) (\<lambda>sourced.
          bindE (case sourced of
                   Some p \<Rightarrow> returnE p
                 | None \<Rightarrow> liftE (map_sum id Finite (reference_price dflt od))) (\<lambda>p.
          bindE (getsE clock) (\<lambda>exec_ts.
          bindE (liftE (sim_fills (take 8 (client_order_id od)) p exec_ts 1 plan)) (\<lambda>reports.
          returnE \<lparr>rejected = False, reject_reason = None,
                   broker_order_id = Some (''SIM-'' @ take 8 (client_order_id od)),
                   ack_fills = reports,
                   remainder_cancelled = (tif od = IOC \<and> sum_list plan < quantity od)\<rparr>)))))"

definition sim_adapter ::
  "decimal \<Rightarrow> (NormalizedOrder \<Rightarrow> ('r, 'v, pydecimal option) eng) option \<Rightarrow> ('r, 'v) BrokerAdapter" where
  "sim_adapter dflt price_source =
     \<lparr>ad_broker = SIM,
      ad_breaker = (\<lambda>_. new_breaker 3),
      ad_place = sim_place dflt price_source,
      ad_cancel = (\<lambda>_. returnE \<lparr>cancel_ok = True, cancel_reason = None\<rparr>),
      ad_amend = (\<lambda>_ _ _. returnE \<lparr>amend_ok = True, amend_semantics = ''native'', amend_reason = None\<rparr>),
      ad_get_open_orders = (\<lambda>_. returnE []),
      ad_get_positions = (\<lambda>_. returnE []),
      ad_get_venue_orders = (\<lambda>_. returnE []),
      ad_get_account = (\<lambda>acct. returnE
        \<lparr>ai_account = acct, account_type = UNKNOWN_TYPE, buying_power = Dec 1000000000 0,
         cash_balance = None, credit_limit = None, withdrawable = None, equity = None,
         excess_equity = None, initial_margin = None, maintenance_margin = None\<rparr>)\<rparr>"

text \<open>The adapter every request of the engine builds: priced by the chain, or by reference only.\<close>

definition priced_sim :: "decimal \<Rightarrow> 'v MarketDataClient option \<Rightarrow> ('r, 'v) BrokerAdapter" where
  "priced_sim dflt md = sim_adapter dflt (map_option fill_price md)"

section \<open>Sim is an adapter that reaches no venue\<close>

definition touches_books_only :: "('r, 'v) world \<Rightarrow> ('r, 'v) world \<Rightarrow> bool" where
  "touches_books_only w w' \<longleftrightarrow> w' = w\<lparr>books := books w'\<rparr>"

interpretation reading: effect_order touches_books_only
proof unfold_locales
  fix s t u :: "('r, 'v) world"
  assume "touches_books_only s t" and "touches_books_only t u"
  then have "t = s\<lparr>books := books t\<rparr>" and "u = t\<lparr>books := books u\<rparr>"
    by (simp_all add: touches_books_only_def)
  then have "u = s\<lparr>books := books t, books := books u\<rparr>" by metis
  then show "touches_books_only s u" by (simp add: touches_books_only_def)
qed (simp add: touches_books_only_def)

lemma touches_books_frame:
  "touches_books_only w w' \<Longrightarrow> same_store w w'" "touches_books_only w w' \<Longrightarrow> same_venue w w'"
  unfolding touches_books_only_def same_store_def same_venue_def by (cases w; cases w'; simp)+

lemma reading_from_book: "effect touches_books_only any (from_book od)"
  by (simp add: effect_def from_book_def touches_books_only_def Let_def split: option.splits prod.splits)

lemma reading_from_market_data: "effect touches_books_only any (from_market_data md od)"
proof -
  have "effect touches_books_only any (last_close md (symbol od) (market od))"
    by (simp add: effect_def last_close_frame touches_books_only_def)
  then show ?thesis
    unfolding from_market_data_def
    by (intro reading.effect_seq reading.effect_option reading.effect_return reading.effect_lift_any) simp_all
qed

lemma reading_fill_price: "effect touches_books_only any (fill_price md od)"
  unfolding fill_price_def
  by (intro reading.effect_seq reading.effect_option reading.effect_if reading.effect_return
      reading_from_book reading_from_market_data) simp_all

lemma reading_sim_place:
  "(\<And>src. price_source = Some src \<Longrightarrow> effect touches_books_only any (src od)) \<Longrightarrow>
   effect touches_books_only any (sim_place dflt price_source od)"
  unfolding sim_place_def
  by (cases "fill_plan od")
    (auto intro!: reading.effect_seq reading.effect_option reading.effect_return reading.effect_lift_any
      reading.effect_gets_any)

lemma reading_priced_place: "effect touches_books_only any (ad_place (priced_sim dflt md) od)"
  unfolding priced_sim_def sim_adapter_def
  by (auto intro!: reading_sim_place reading_fill_price)

interpretation sim: offline_adapter "priced_sim dflt md"
proof unfold_locales
  fix od cid np nq
  have "effect same_store any (ad_place (priced_sim dflt md) od)"
    using reading_priced_place by (rule effect_mono) (rule touches_books_frame(1))
  then show "effect evolves any (ad_place (priced_sim dflt md) od)" by (rule frame_evolves)
  show "effect same_venue any (ad_place (priced_sim dflt md) od)"
    using reading_priced_place by (rule effect_mono) (rule touches_books_frame(2))
qed (auto simp: priced_sim_def sim_adapter_def intro: frame.effect_return offline.effect_return)

section \<open>What a sim acknowledgement promises\<close>

lemma sim_fills_shape:
  "sim_fills pre p t i plan = Inr fs \<Longrightarrow>
     map fr_quantity fs = plan \<and> (\<forall>f \<in> set fs. 0 < fr_quantity f \<and> p = Finite (fr_price f)) \<and>
     map fr_broker_fill_id fs = map (sim_fill_id pre) [i..<i + length plan]"
proof (induction pre p t i plan arbitrary: fs rule: sim_fills.induct)
  case (2 pre p t i q qs)
  then obtain f fs' where "mk_FillReport (sim_fill_id pre i) p q t = Inr f"
    and rest: "sim_fills pre p t (i + 1) qs = Inr fs'" and fs: "fs = f # fs'"
    by (auto split: sum.splits simp: map_sum_def)
  then have f: "fr_quantity f = q" "0 < q" "p = Finite (fr_price f)" "fr_broker_fill_id f = sim_fill_id pre i"
    by (auto simp: mk_FillReport_def split: pydecimal.splits if_splits)
  have "[i..<i + length (q # qs)] = i # [i + 1..<i + 1 + length qs]"
    by (subst upt_conv_Cons) simp_all
  with 2(1) [OF _ rest] \<open>mk_FillReport _ _ _ _ = Inr f\<close> f fs show ?case by simp
qed simp

lemma sim_fill_id_inject: "sim_fill_id pre i = sim_fill_id pre j \<longleftrightarrow> i = j"
  by (simp add: sim_fill_id_def nat_str_inject)

lemma positive_ints_pos: "positive_ints raw = Some plan \<Longrightarrow> \<forall>q \<in> set plan. 0 < q"
  by (induction raw arbitrary: plan rule: positive_ints.induct) (auto split: if_splits)

lemma fill_plan_bounds:
  assumes "fill_plan od = Inr plan" and "0 < quantity od"
  shows "sum_list plan \<le> quantity od \<and> (\<forall>q \<in> set plan. 0 < q) \<and> (tif od = FOK \<longrightarrow> plan = [quantity od])"
  using assms positive_ints_pos
  by (auto simp: fill_plan_def split: option.splits json.splits if_splits sum.splits)

text \<open>Respecting the order's own limit.\<close>

definition within_limit :: "NormalizedOrder \<Rightarrow> decimal \<Rightarrow> bool" where
  "within_limit od d \<longleftrightarrow>
     (\<forall>l. price od = Some l \<longrightarrow> (if side od = BUY then dval d \<le> dval l else dval l \<le> dval d))"

lemma bound_by_limit_within: "bound_by_limit c od = Inr (Finite d) \<Longrightarrow> within_limit od d"
  by (auto simp: bound_by_limit_def within_limit_def dval_min dval_max
      split: option.splits pydecimal.splits if_splits)

lemma reference_price_within:
  "reference_price dflt od = Inr d \<Longrightarrow> order_type od \<noteq> STOP \<Longrightarrow> within_limit od d"
  by (auto simp: reference_price_def within_limit_def split: option.splits if_splits)

lemma from_book_bounded:
  "from_book od w = (Inr (Some p), w') \<Longrightarrow> \<exists>c. bound_by_limit c od = Inr p"
  by (auto simp: from_book_def map_sum_def Let_def split: option.splits prod.splits sum.splits if_splits)

lemma from_market_data_bounded:
  "from_market_data md od w = (Inr (Some p), w') \<Longrightarrow> \<exists>c. bound_by_limit c od = Inr p"
  by (auto simp: from_market_data_def map_sum_def elim!: bindE_InrE split: option.splits sum.splits)

lemma fill_price_bounded:
  assumes "fill_price md od w = (Inr (Some p), w')"
  shows "\<exists>c. bound_by_limit c od = Inr p"
  using assms unfolding fill_price_def
  by (elim bindE_InrE)
    (auto split: option.splits if_splits elim!: bindE_InrE dest: from_book_bounded from_market_data_bounded)

lemma sim_place_accepted:
  assumes "ad_place (priced_sim dflt md) od w = (Inr ack, w')" and "\<not> rejected ack"
  obtains plan p t where "fill_plan od = Inr plan"
    and "sim_fills (take 8 (client_order_id od)) p t 1 plan = Inr (ack_fills ack)"
    and "(\<exists>c. bound_by_limit c od = Inr p) \<or> (\<exists>d. reference_price dflt od = Inr d \<and> p = Finite d)"
    and "remainder_cancelled ack \<longleftrightarrow> tif od = IOC \<and> sum_list plan < quantity od"
    and "broker_order_id ack = Some (''SIM-'' @ take 8 (client_order_id od))"
proof (cases "fill_plan od")
  case (Inl reason)
  with assms show thesis by (auto simp: priced_sim_def sim_adapter_def sim_place_def)
next
  case (Inr plan)
  let ?src = "case map_option fill_price md of Some src \<Rightarrow> src od | None \<Rightarrow> returnE None"
  from assms Inr obtain sourced w1 p w2 fs where src: "?src w = (Inr sourced, w1)"
    and p: "(case sourced of Some p \<Rightarrow> returnE p
             | None \<Rightarrow> liftE (map_sum id Finite (reference_price dflt od))) w1 = (Inr p, w2)"
    and fs: "sim_fills (take 8 (client_order_id od)) p (clock w2) 1 plan = Inr fs"
    and ack: "ack = \<lparr>rejected = False, reject_reason = None,
                   broker_order_id = Some (''SIM-'' @ take 8 (client_order_id od)), ack_fills = fs,
                   remainder_cancelled = (tif od = IOC \<and> sum_list plan < quantity od)\<rparr>"
    by (auto simp: priced_sim_def sim_adapter_def sim_place_def elim!: bindE_InrE)
  have "(\<exists>c. bound_by_limit c od = Inr p) \<or> (\<exists>d. reference_price dflt od = Inr d \<and> p = Finite d)"
  proof (cases sourced)
    case (Some p')
    with src have "\<exists>c. bound_by_limit c od = Inr p'"
      by (auto split: option.splits dest: fill_price_bounded)
    with p Some show ?thesis by simp
  next
    case None
    with p show ?thesis by (cases "reference_price dflt od") (simp_all add: map_sum_def)
  qed
  with Inr fs ack that show thesis by simp
qed

lemma sim_ack_sound:
  assumes run: "ad_place (priced_sim dflt md) od w = (Inr ack, w')" and ok: "\<not> rejected ack"
    and valid: "valid_order od"
  shows "sum_list (map fr_quantity (ack_fills ack)) \<le> quantity od \<and>
         (\<forall>f \<in> set (ack_fills ack). 0 < fr_quantity f) \<and>
         distinct (map fr_broker_fill_id (ack_fills ack)) \<and>
         (tif od = FOK \<longrightarrow> map fr_quantity (ack_fills ack) = [quantity od]) \<and>
         (remainder_cancelled ack \<longleftrightarrow>
            tif od = IOC \<and> sum_list (map fr_quantity (ack_fills ack)) < quantity od) \<and>
         (order_type od \<noteq> STOP \<longrightarrow> (\<forall>f \<in> set (ack_fills ack). within_limit od (fr_price f)))"
proof -
  from sim_place_accepted [OF run ok] obtain plan p t where plan: "fill_plan od = Inr plan"
    and fills: "sim_fills (take 8 (client_order_id od)) p t 1 plan = Inr (ack_fills ack)"
    and p: "(\<exists>c. bound_by_limit c od = Inr p) \<or> (\<exists>d. reference_price dflt od = Inr d \<and> p = Finite d)"
    and rest: "remainder_cancelled ack \<longleftrightarrow> tif od = IOC \<and> sum_list plan < quantity od" .
  note shape = sim_fills_shape [OF fills]
  have "distinct (map fr_broker_fill_id (ack_fills ack))"
    using shape by (simp add: distinct_map inj_on_def sim_fill_id_inject)
  moreover have "order_type od \<noteq> STOP \<longrightarrow> (\<forall>f \<in> set (ack_fills ack). within_limit od (fr_price f))"
    using shape p by (auto dest: bound_by_limit_within reference_price_within)
  moreover have "0 < quantity od" using valid by (simp add: valid_order_def)
  ultimately show ?thesis
    using shape rest fill_plan_bounds [OF plan] by simp
qed

text \<open>
  C39. What an accepted sim placement reports of an order the contract admits: positive fills
  that never exceed the ordered quantity, each under an id of its own; a FOK order in one
  full fill; an IOC order with its unfilled remainder flagged exactly when there is one; and,
  except for a plain STOP, no fill beyond the order's own limit, whatever the order book or
  the market-data service answered.
\<close>

theorem sim_place_sound:
  assumes run: "ad_place (priced_sim dflt md) od w = (Inr ack, w')" and ok: "\<not> rejected ack"
    and valid: "valid_order od"
  shows "sum_list (map fr_quantity (ack_fills ack)) \<le> quantity od \<and>
         (\<forall>f \<in> set (ack_fills ack). 0 < fr_quantity f) \<and>
         distinct (map fr_broker_fill_id (ack_fills ack)) \<and>
         (tif od = FOK \<longrightarrow> map fr_quantity (ack_fills ack) = [quantity od]) \<and>
         (remainder_cancelled ack \<longleftrightarrow>
            tif od = IOC \<and> sum_list (map fr_quantity (ack_fills ack)) < quantity od) \<and>
         (order_type od \<noteq> STOP \<longrightarrow> (\<forall>f \<in> set (ack_fills ack). within_limit od (fr_price f)))"
  using assms by (rule sim_ack_sound)

definition demo_uuid :: string where
  "demo_uuid = ''11111111-1111-4111-8111-111111111111''"

lemma demo_uuid_int: "uuid_int demo_uuid = Some 22685491128062790912553268770669400337"
  by (simp add: uuid_int_def demo_uuid_def remove_all.simps strip_by_def int16_def strip_def is_space_def
      hex_unsigned_def hex_val_def)

lemma demo_uuid_ok: "is_uuid4 demo_uuid"
  by (simp add: is_uuid4_def demo_uuid_int uuid_version_def)

theorem sim_place_sound_witness:
  "\<exists>ack w'. ad_place (priced_sim (Dec 100 0) None)
       (demo_order demo_uuid 100 (Dec 10 0)\<lparr>tif := FOK\<rparr>) (demo_world [] []) = (Inr ack, w') \<and>
     \<not> rejected ack \<and> map fr_quantity (ack_fills ack) = [100]"
proof -
  let ?od = "demo_order demo_uuid 100 (Dec 10 0)\<lparr>tif := FOK\<rparr>"
  let ?run = "ad_place (priced_sim (Dec 100 0) None) ?od (demo_world [] [])"
  have valid: "valid_order ?od" by (simp add: valid_order_def demo_order_def demo_uuid_ok dval_def)
  obtain ack w' where run: "?run = (Inr ack, w')" and ok: "\<not> rejected ack"
    by (simp add: priced_sim_def sim_adapter_def sim_place_def fill_plan_def dict_get_def demo_order_def
        reference_price_def mk_FillReport_def)
  from sim_place_sound [OF run ok valid] run ok show ?thesis by (auto simp: demo_order_def)
qed

end
