(* ===== verification/HandleRecovery.thy ===== *)
theory HandleRecovery
  imports Store
begin

text \<open>
  The bounded burst of \<open>core/handle_recovery.py\<close>. Times are in microseconds and exact; \<open>now\<close> is
  the clock of the world. \<open>pause d\<close> is what \<open>asyncio.sleep\<close> lets happen: time passes and the
  other coroutines of the process run. The loop ends by the clock, so it is given fuel, and
  None says the fuel ran out.
\<close>

type_synonym ('r, 'v) resolver = "string \<Rightarrow> ('r, 'v, bool) eng"
type_synonym ('r, 'v) pause = "int \<Rightarrow> ('r, 'v) world \<Rightarrow> ('r, 'v) world"

section \<open>The loop\<close>

definition elapsed :: "timestamp \<Rightarrow> timestamp \<Rightarrow> int" where
  "elapsed now submitted_at = max 0 (now - submitted_at)"

fun recover_loop ::
  "nat \<Rightarrow> ('r, 'v) resolver \<Rightarrow> ('r, 'v) pause \<Rightarrow> string \<Rightarrow> timestamp \<Rightarrow> int \<Rightarrow> int \<Rightarrow> int \<Rightarrow>
   bool \<Rightarrow> int \<Rightarrow> ('r, 'v) world \<Rightarrow> HandleResolution option \<times> ('r, 'v) world" where
  "recover_loop 0 resolve pause cid submitted_at cadence deadline min_polls read_ok attempts w = (None, w)"
| "recover_loop (Suc fuel) resolve pause cid submitted_at cadence deadline min_polls read_ok attempts w =
     (let attempts' = attempts + 1
      in case resolve cid w of
           (Inr True, w1) \<Rightarrow> (Some CONFIRMED, w1)
         | (answer, w1) \<Rightarrow>
             let read_ok' = (read_ok \<or> answer = Inr False)
             in if min_polls \<le> attempts' \<and> deadline < elapsed (clock w1) submitted_at + cadence
                then (Some (if read_ok' then PENDING else UNKNOWN), w1)
                else recover_loop fuel resolve pause cid submitted_at cadence deadline min_polls
                       read_ok' attempts' (pause cadence w1))"

definition recover_handle ::
  "nat \<Rightarrow> ('r, 'v) resolver \<Rightarrow> ('r, 'v) pause \<Rightarrow> string \<Rightarrow> timestamp \<Rightarrow> int \<Rightarrow> int \<Rightarrow> int \<Rightarrow>
   ('r, 'v) world \<Rightarrow> HandleResolution option \<times> ('r, 'v) world" where
  "recover_handle fuel resolve pause cid submitted_at cadence deadline min_polls w =
     recover_loop fuel resolve pause cid submitted_at cadence deadline min_polls False 0 w"

section \<open>What the answer means\<close>

text \<open>The outcomes of \<open>n\<close> polls in a row, a pause between any two, and the state after the last.\<close>

fun polls ::
  "nat \<Rightarrow> ('r, 'v) resolver \<Rightarrow> ('r, 'v) pause \<Rightarrow> string \<Rightarrow> int \<Rightarrow> ('r, 'v) world \<Rightarrow>
   (exn + bool) list \<times> ('r, 'v) world" where
  "polls 0 resolve pause cid cadence w = ([], w)"
| "polls (Suc n) resolve pause cid cadence w =
     (case resolve cid w of
        (answer, w1) \<Rightarrow>
          if n = 0 then ([answer], w1)
          else (case polls n resolve pause cid cadence (pause cadence w1) of
                  (answers, w2) \<Rightarrow> (answer # answers, w2)))"

text \<open>What a run of the loop with given earlier reads may answer, over the outcomes of its polls.\<close>

definition classified ::
  "HandleResolution \<Rightarrow> bool \<Rightarrow> int \<Rightarrow> int \<Rightarrow> (exn + bool) list \<Rightarrow> bool" where
  "classified r read_ok attempts min_polls answers \<longleftrightarrow>
     answers \<noteq> [] \<and> Inr True \<notin> set (butlast answers) \<and>
     (r = CONFIRMED \<longleftrightarrow> last answers = Inr True) \<and>
     (r \<noteq> CONFIRMED \<longrightarrow> min_polls \<le> attempts + int (length answers)) \<and>
     (r = PENDING \<longrightarrow> read_ok \<or> Inr False \<in> set answers) \<and>
     (r = UNKNOWN \<longrightarrow> \<not> read_ok \<and> Inr False \<notin> set answers)"

lemma recover_loop_classified:
  assumes "recover_loop fuel resolve pause cid submitted_at cadence deadline min_polls read_ok attempts w
             = (Some r, w')"
  shows "\<exists>n answers. n \<le> fuel \<and> polls n resolve pause cid cadence w = (answers, w') \<and> length answers = n \<and>
           classified r read_ok attempts min_polls answers"
  using assms
proof (induction fuel arbitrary: read_ok attempts w)
  case (Suc fuel)
  obtain answer w1 where res: "resolve cid w = (answer, w1)" by fastforce
  let ?read = "read_ok \<or> answer = Inr False"
  consider (yes) "answer = Inr True"
    | (stop) "answer \<noteq> Inr True" "min_polls \<le> attempts + 1 \<and> deadline < elapsed (clock w1) submitted_at + cadence"
    | (more) "answer \<noteq> Inr True" "\<not> (min_polls \<le> attempts + 1 \<and> deadline < elapsed (clock w1) submitted_at + cadence)"
    by blast
  then show ?case
  proof cases
    case yes
    with Suc.prems res have "r = CONFIRMED" "w' = w1" by (simp_all add: Let_def)
    with yes res show ?thesis
      by (intro exI [of _ 1] exI [of _ "[answer]"]) (simp add: classified_def)
  next
    case stop
    then have step: "(case (answer, w1) of (Inr True, w1) \<Rightarrow> (Some CONFIRMED, w1) | (answer, w1) \<Rightarrow> f answer w1) = f answer w1" for f
      by (auto split: sum.splits bool.splits)
    from Suc.prems res stop have "r = (if ?read then PENDING else UNKNOWN)" "w' = w1"
      by (simp_all add: Let_def step split: sum.splits bool.splits if_splits)
    with stop res show ?thesis
      by (intro exI [of _ 1] exI [of _ "[answer]"]) (auto simp: classified_def split: if_splits)
  next
    case more
    from Suc.prems res more have
      "recover_loop fuel resolve pause cid submitted_at cadence deadline min_polls ?read (attempts + 1)
         (pause cadence w1) = (Some r, w')"
      by (auto simp: Let_def split: sum.splits bool.splits if_splits)
    from Suc.IH [OF this] obtain n answers where n: "n \<le> fuel"
      "polls n resolve pause cid cadence (pause cadence w1) = (answers, w')" "length answers = n"
      "classified r ?read (attempts + 1) min_polls answers" by blast
    then have "0 < n" by (auto simp: classified_def)
    with n more res show ?thesis
      by (intro exI [of _ "Suc n"] exI [of _ "answer # answers"]) (auto simp: classified_def)
  qed
qed simp

text \<open>
  What the three answers of the recovery burst mean. Every run that returns made a number
  of polls; CONFIRMED says the last of them resolved the order and none before it did; the
  other two say none did although at least \<open>min_polls\<close> were made, PENDING that some poll read
  the venue, UNKNOWN that every single poll failed to read it.
\<close>

theorem recover_handle_classifies:
  assumes "recover_handle fuel resolve pause cid submitted_at cadence deadline min_polls w = (Some r, w')"
  shows "\<exists>n answers. polls n resolve pause cid cadence w = (answers, w') \<and> length answers = n \<and> 1 \<le> n \<and>
           Inr True \<notin> set (butlast answers) \<and>
           (r = CONFIRMED \<longleftrightarrow> last answers = Inr True) \<and>
           (r \<noteq> CONFIRMED \<longrightarrow> min_polls \<le> int n \<and> (r = PENDING \<longleftrightarrow> Inr False \<in> set answers) \<and>
              (r = UNKNOWN \<longleftrightarrow> (\<forall>a \<in> set answers. \<exists>e. a = Inl e)))"
proof -
  from recover_loop_classified [OF assms [unfolded recover_handle_def]]
  obtain n answers where n: "polls n resolve pause cid cadence w = (answers, w')" "length answers = n"
    and c: "classified r False 0 min_polls answers" by blast
  have kinds: "a = Inr True \<or> a = Inr False \<or> (\<exists>e. a = Inl e)" for a :: "exn + bool"
    by (cases a) (auto intro: bool.exhaust)
  have "r \<noteq> CONFIRMED \<Longrightarrow> Inr True \<notin> set answers"
    using c by (metis append_butlast_last_id classified_def in_set_conv_decomp_last rotate1.simps(2)
        set_ConsD set_rotate1)
  with c kinds have unknown: "r \<noteq> CONFIRMED \<Longrightarrow> Inr False \<notin> set answers \<longleftrightarrow> (\<forall>a \<in> set answers. \<exists>e. a = Inl e)"
    by (metis Inl_Inr_False)
  have "1 \<le> n" using c n(2) by (cases answers) (auto simp: classified_def)
  moreover have "r \<noteq> CONFIRMED \<Longrightarrow> (r = PENDING \<longleftrightarrow> Inr False \<in> set answers)"
    and "r \<noteq> CONFIRMED \<Longrightarrow> (r = UNKNOWN \<longleftrightarrow> Inr False \<notin> set answers)"
    using c by (cases r; auto simp: classified_def)+
  ultimately show ?thesis
    using n c unknown by (intro exI [of _ n] exI [of _ answers]) (auto simp: classified_def)
qed

section \<open>The burst ends\<close>

lemma recover_loop_returns:
  assumes cadence: "0 < cadence"
    and sleeps: "\<And>w. clock w + cadence \<le> clock (pause cadence w)"
    and forward: "\<And>w. clock w \<le> clock (snd (resolve cid w))"
    and enough: "nat (min_polls - attempts) + nat (deadline + submitted_at - clock w) < fuel"
  shows "\<exists>r. fst (recover_loop fuel resolve pause cid submitted_at cadence deadline min_polls read_ok attempts w)
             = Some r"
  using enough
proof (induction fuel arbitrary: read_ok attempts w)
  case (Suc fuel)
  obtain answer w1 where res: "resolve cid w = (answer, w1)" by fastforce
  let ?w2 = "pause cadence w1"
  have time: "clock w \<le> clock w1" "clock w1 + cadence \<le> clock ?w2" using forward [of w] res sleeps by simp_all
  show ?case
  proof (cases "answer \<noteq> Inr True \<and>
      \<not> (min_polls \<le> attempts + 1 \<and> deadline < elapsed (clock w1) submitted_at + cadence)")
    case False
    with res show ?thesis by (auto simp: Let_def split: sum.splits bool.splits)
  next
    case True
    have "nat (min_polls - (attempts + 1)) + nat (deadline + submitted_at - clock ?w2) < fuel"
    proof (cases "min_polls \<le> attempts + 1")
      case floor: True
      with True have "elapsed (clock w1) submitted_at + cadence \<le> deadline" by simp
      then have "clock w1 - submitted_at + cadence \<le> deadline" by (simp add: elapsed_def)
      then have "clock w1 < deadline + submitted_at" using cadence by simp
      then have "nat (deadline + submitted_at - clock ?w2) < nat (deadline + submitted_at - clock w)"
        using time cadence by linarith
      with Suc.prems floor show ?thesis by linarith
    next
      case False
      then have "nat (min_polls - (attempts + 1)) < nat (min_polls - attempts)" by linarith
      moreover have "nat (deadline + submitted_at - clock ?w2) \<le> nat (deadline + submitted_at - clock w)"
        using time cadence by linarith
      ultimately show ?thesis using Suc.prems by linarith
    qed
    from Suc.IH [OF this] True res show ?thesis by (auto simp: Let_def split: sum.splits bool.splits)
  qed
qed simp

text \<open>
  C38. The burst ends: when a sleep takes at least the (positive) cadence and the clock does not
  run backwards during a venue read, the loop returns an answer, after at most \<open>min_polls\<close> polls
  plus one for every unit of time the submit-anchored budget still holds.
\<close>

theorem recover_handle_returns:
  assumes "0 < cadence"
    and "\<And>w. clock w + cadence \<le> clock (pause cadence w)"
    and "\<And>w. clock w \<le> clock (snd (resolve cid w))"
    and "nat min_polls + nat (deadline + submitted_at - clock w) < fuel"
  shows "\<exists>r w'. recover_handle fuel resolve pause cid submitted_at cadence deadline min_polls w = (Some r, w')"
proof -
  have "\<exists>r. fst (recover_loop fuel resolve pause cid submitted_at cadence deadline min_polls False 0 w) = Some r"
    by (rule recover_loop_returns) (use assms in simp_all)
  then show ?thesis by (metis prod.collapse recover_handle_def)
qed

definition demo_pause :: "('r, 'v) pause" where
  "demo_pause d w = w\<lparr>clock := clock w + d\<rparr>"

theorem recover_handle_classifies_witness:
  "recover_handle 3 (\<lambda>_. returnE False) demo_pause ''c'' 0 250 100 2 (demo_world [] []) =
     (Some PENDING, (demo_world [] [])\<lparr>clock := 250\<rparr>) \<and>
   Inr False \<in> set (fst (polls 2 (\<lambda>_. returnE False) demo_pause ''c'' 250 (demo_world [] [])))"
proof -
  let ?resolve = "\<lambda>_. returnE False :: (unit, unit, bool) eng"
  have run: "recover_handle 3 ?resolve demo_pause ''c'' 0 250 100 2 (demo_world [] []) =
     (Some PENDING, (demo_world [] [])\<lparr>clock := 250\<rparr>)"
    by (simp add: recover_handle_def numeral_3_eq_3 demo_pause_def elapsed_def demo_world_def Let_def)
  from recover_handle_classifies [OF this] obtain n answers where
    "polls n ?resolve demo_pause ''c'' 250 (demo_world [] []) = (answers, (demo_world [] [])\<lparr>clock := 250\<rparr>)"
    and "Inr False \<in> set answers" by auto
  with run show ?thesis
    by (simp add: numeral_2_eq_2)
qed

theorem recover_handle_returns_witness:
  "\<exists>r w'. recover_handle 2000 (\<lambda>_. raiseE (OtherError ''timeout'')) demo_pause ''c'' 0 250 1500 3
     (demo_world [] []) = (Some r, w')"
  by (rule recover_handle_returns) (simp_all add: demo_pause_def demo_world_def)

end
