(* ===== verification/Router.thy ===== *)
theory Router
  imports SimAdapter HandleRecovery
begin

text \<open>
  The orchestrator of \<open>core/router.py\<close>: submit, cancel, amend, the mass-cancel sweep and the
  reads, composed from the gates, the store and the adapters in the order of the source.
\<close>

section \<open>The router and its results\<close>

text \<open>
  What \<open>OrderRouter.__init__\<close> is given: the settings, the database, the Redis client, the two
  real adapters where they are configured, the pricer of the sim adapter, the market-data
  client of the price band and the handle resolver. The rest is the platform: \<open>pause\<close> is what
  a sleep lets happen, \<open>fresh_token\<close> the uuid of a lock, \<open>fuel\<close> the bound of the recovery loop.
\<close>

record ('r, 'v) OrderRouter =
  settings :: Settings
  pool :: db_env
  client :: "'r redis_client option"
  liberator :: "('r, 'v) BrokerAdapter option"
  streaming_pro :: "('r, 'v) BrokerAdapter option"
  sim_price_source :: "'v MarketDataClient option"
  market_data :: "'v MarketDataClient"
  handle_resolver :: "('r, 'v) resolver option"
  pause :: "('r, 'v) pause"
  fresh_token :: "('r, 'v) world \<Rightarrow> string"
  fuel :: nat

record NormalizedOrderResult =
  nr_client_order_id :: string
  nr_broker_order_id :: "string option"
  nr_broker :: Broker
  nr_status :: PublicOrderStatus
  nr_engine_state :: OrderState
  nr_filled_qty :: int
  nr_remaining_qty :: int
  nr_avg_fill_price :: "decimal option"
  nr_reject_reason :: "string option"
  nr_created_at :: timestamp
  nr_updated_at :: timestamp

record SubmitOutcome =
  so_result :: NormalizedOrderResult
  so_duplicate :: bool
  so_resolution :: HandleResolution

definition to_result :: "OrderResultRow \<Rightarrow> NormalizedOrderResult" where
  "to_result row =
     (let r = result_row row
      in \<lparr>nr_client_order_id = r_client_order_id r, nr_broker_order_id = r_broker_order_id r,
          nr_broker = r_broker r, nr_status = to_public_status (r_status r) (filled_qty row),
          nr_engine_state = r_status r, nr_filled_qty = filled_qty row,
          nr_remaining_qty = r_quantity r - filled_qty row, nr_avg_fill_price = avg_fill_price row,
          nr_reject_reason = r_reject_reason r, nr_created_at = r_created_at r,
          nr_updated_at = r_updated_at r\<rparr>)"

definition duplicate_outcome :: "OrderResultRow \<Rightarrow> SubmitOutcome" where
  "duplicate_outcome row = \<lparr>so_result = to_result row, so_duplicate = True, so_resolution = CONFIRMED\<rparr>"

definition amended_order ::
  "OrderRow \<Rightarrow> string \<Rightarrow> decimal option \<Rightarrow> int option \<Rightarrow> exn + NormalizedOrder" where
  "amended_order row cid new_price new_qty =
     mk_NormalizedOrder
       \<lparr>client_order_id = cid, broker = r_broker row, account = r_account row, market = r_market row,
        symbol = r_symbol row, side = r_side row, order_type = r_order_type row,
        price = (case new_price of Some p \<Rightarrow> Some p | None \<Rightarrow> r_price row),
        stop_price = r_stop_price row,
        quantity = (case new_qty of Some q \<Rightarrow> q | None \<Rightarrow> r_quantity row),
        display_qty = r_display_qty row, tif = r_tif row, position_effect = r_position_effect row,
        metadata = []\<rparr>"

section \<open>Resolving an adapter\<close>

text \<open>An adapter by its identity, which is what the authority check compares.\<close>

datatype adapter_ref = Sim_ref | Liberator_ref | StreamingPro_ref

definition sim_of :: "('r, 'v) OrderRouter \<Rightarrow> ('r, 'v) BrokerAdapter" where
  "sim_of rt = priced_sim (sim_default_fill_price (settings rt)) (sim_price_source rt)"

definition adapter_of :: "('r, 'v) OrderRouter \<Rightarrow> adapter_ref \<Rightarrow> ('r, 'v) BrokerAdapter" where
  "adapter_of rt ref =
     (case (ref, liberator rt, streaming_pro rt) of
        (Liberator_ref, Some a, _) \<Rightarrow> a
      | (StreamingPro_ref, _, Some a) \<Rightarrow> a
      | _ \<Rightarrow> sim_of rt)"

definition resolve_ref ::
  "('r, 'v) OrderRouter \<Rightarrow> Broker \<Rightarrow> string \<Rightarrow> AdapterIntent \<Rightarrow> exn + adapter_ref" where
  "resolve_ref rt b acct intent =
     (case resolve_adapter (stage (settings rt)) b Sim_ref
             (map_option (\<lambda>_. Liberator_ref) (liberator rt))
             (map_option (\<lambda>_. StreamingPro_ref) (streaming_pro rt)) intent of
        Inl e \<Rightarrow> Inl e
      | Inr ref \<Rightarrow>
          (case assert_may_route_real (settings rt) acct b ref Sim_ref of
             Inl e \<Rightarrow> Inl e
           | Inr _ \<Rightarrow> Inr ref))"

definition resolve ::
  "('r, 'v) OrderRouter \<Rightarrow> Broker \<Rightarrow> string \<Rightarrow> AdapterIntent \<Rightarrow> exn + ('r, 'v) BrokerAdapter" where
  "resolve rt b acct intent = map_sum id (adapter_of rt) (resolve_ref rt b acct intent)"

section \<open>Submit\<close>

definition get_order :: "string \<Rightarrow> ('r, 'v, NormalizedOrderResult) eng" where
  "get_order cid =
     bindE (fetch_order_result cid) (\<lambda>row.
     case row of
       None \<Rightarrow> raiseE (Rejected OrderNotFound (Some cid))
     | Some r \<Rightarrow> returnE (to_result r))"

text \<open>The wait of a lock miss, in milliseconds waited so far.\<close>

function await_concurrent ::
  "('r, 'v) OrderRouter \<Rightarrow> string \<Rightarrow> int \<Rightarrow> ('r, 'v) world \<Rightarrow>
   (exn + SubmitOutcome) \<times> ('r, 'v) world" where
  "await_concurrent rt cid waited w =
     (case find_order cid w of
        Some r \<Rightarrow> (Inr (duplicate_outcome (order_result r (fills w))), w)
      | None \<Rightarrow>
          if submit_lock_wait_ms (settings rt) \<le> waited
          then (Inl (Rejected ConcurrentSubmit (Some cid)), w)
          else await_concurrent rt cid (waited + 50) (pause rt 50000 w))"
  by pat_completeness auto
termination
  by (relation "measure (\<lambda>(rt, cid, waited, w). nat (submit_lock_wait_ms (settings rt) - waited))") auto

declare await_concurrent.simps [simp del]

definition recover ::
  "('r, 'v) OrderRouter \<Rightarrow> NormalizedOrder \<Rightarrow> ('r, 'v, HandleResolution) eng" where
  "recover rt od =
     (case handle_resolver rt of
        None \<Rightarrow> returnE UNKNOWN
      | Some rs \<Rightarrow>
          bindE (fetch_order (client_order_id od)) (\<lambda>row.
          bindE (getsE clock) (\<lambda>now w.
          case recover_handle (fuel rt) rs (pause rt) (client_order_id od)
                 (case row of Some r \<Rightarrow> r_created_at r | None \<Rightarrow> now)
                 (handle_recovery_cadence_ms (settings rt) * 1000)
                 (handle_recovery_deadline_ms (settings rt) * 1000)
                 (handle_recovery_min_polls (settings rt)) w of
            (Some resolution, w') \<Rightarrow> (Inr resolution, w')
          | (None, w') \<Rightarrow> (Inl (OtherError ''out of fuel''), w'))))"

definition settle_fills ::
  "('r, 'v) OrderRouter \<Rightarrow> NormalizedOrder \<Rightarrow> FillReport list \<Rightarrow> ('r, 'v, unit) eng" where
  "settle_fills rt od reports =
     forE reports (\<lambda>f.
       bindE (apply_fill (pool rt) (client_order_id od) (fr_broker_fill_id f) (fr_price f) (fr_quantity f)
                (fr_exec_ts f) (quantity od)) (\<lambda>_. returnE ()))"

definition settle_remainder ::
  "('r, 'v) OrderRouter \<Rightarrow> ('r, 'v) BrokerAdapter \<Rightarrow> NormalizedOrder \<Rightarrow> ('r, 'v, unit) eng" where
  "settle_remainder rt adapter od =
     bindE (update_status (pool rt) (client_order_id od) PENDING_CANCEL) (\<lambda>_.
     bindE (ad_cancel adapter (client_order_id od)) (\<lambda>_.
     update_status (pool rt) (client_order_id od) CANCELLED))"

definition place_and_settle ::
  "('r, 'v) OrderRouter \<Rightarrow> ('r, 'v) BrokerAdapter \<Rightarrow> NormalizedOrder \<Rightarrow> ('r, 'v, HandleResolution) eng"
where
  "place_and_settle rt adapter od =
     bindE (ad_place adapter od) (\<lambda>ack.
     if rejected ack then
       bindE (update_status (pool rt) (client_order_id od) REJECTED) (\<lambda>_.
       bindE (set_reject_reason (pool rt) (client_order_id od)
                (case reject_reason ack of
                   Some r \<Rightarrow> if r = [] then ''rejected by adapter'' else r
                 | None \<Rightarrow> ''rejected by adapter'')) (\<lambda>_.
       returnE CONFIRMED))
     else case broker_order_id ack of
       None \<Rightarrow> recover rt od
     | Some boid \<Rightarrow>
         bindE (ack_order (pool rt) (client_order_id od) boid) (\<lambda>_.
         bindE (settle_fills rt od (ack_fills ack)) (\<lambda>_.
         bindE (if remainder_cancelled ack then settle_remainder rt adapter od else returnE ()) (\<lambda>_.
         returnE CONFIRMED))))"

text \<open>Inside the lock: an outcome to return at once, or how much is known of the placed order.\<close>

definition submit_locked ::
  "('r, 'v) OrderRouter \<Rightarrow> ('r, 'v) BrokerAdapter \<Rightarrow> NormalizedOrder \<Rightarrow> string option \<Rightarrow> bool \<Rightarrow>
   ('r, 'v, SubmitOutcome + HandleResolution) eng" where
  "submit_locked rt adapter od strategy_id acquired =
     (if \<not> acquired then
        bindE (await_concurrent rt (client_order_id od) 0) (\<lambda>oc. returnE (Inl oc))
      else
        bindE (catchE (\<lambda>e. e = DuplicateOrderSignal)
                 (bindE (insert_order (pool rt) od strategy_id) (\<lambda>_. returnE True))
                 (\<lambda>_. returnE False)) (\<lambda>inserted.
        if inserted then
          bindE (place_and_settle rt adapter od) (\<lambda>resolution. returnE (Inr resolution))
        else
          bindE (fetch_order_result (client_order_id od)) (\<lambda>row.
          case row of
            None \<Rightarrow> raiseE (Rejected ConcurrentSubmit (Some (client_order_id od)))
          | Some r \<Rightarrow> returnE (Inl (duplicate_outcome r)))))"

text \<open>The gates before the lock, in order; the adapter they resolve.\<close>

definition submit_gates ::
  "('r, 'v) OrderRouter \<Rightarrow> NormalizedOrder \<Rightarrow> ('r, 'v, ('r, 'v) BrokerAdapter) eng" where
  "submit_gates rt od =
     bindE (liftE (lookup (broker od) (market od))) (\<lambda>caps.
     bindE (liftE (assert_supports caps (order_type od) (tif od) (position_effect od))) (\<lambda>_.
     bindE (risk_check (settings rt) (client rt) od) (\<lambda>_.
     bindE (price_band_check (settings rt) (market_data rt) od) (\<lambda>_.
     bindE (liftE (resolve rt (broker od) (account od) TRADE)) (\<lambda>adapter.
     bindE (breaker_guard adapter) (\<lambda>_.
     returnE adapter))))))"

definition submit_new ::
  "('r, 'v) OrderRouter \<Rightarrow> NormalizedOrder \<Rightarrow> string option \<Rightarrow> ('r, 'v, SubmitOutcome) eng" where
  "submit_new rt od strategy_id =
     bindE (submit_gates rt od) (\<lambda>adapter.
     bindE (getsE (fresh_token rt)) (\<lambda>token.
     bindE (single_flight (client rt) token (''exe:submit:'' @ client_order_id od)
              (submit_lock_ttl_seconds (settings rt)) (submit_locked rt adapter od strategy_id)) (\<lambda>r.
     case r of
       Inl oc \<Rightarrow> returnE oc
     | Inr resolution \<Rightarrow>
         bindE (fetch_order_result (client_order_id od)) (\<lambda>row.
         case row of
           None \<Rightarrow> raiseE (Rejected OrderNotFound (Some (client_order_id od)))
         | Some r \<Rightarrow>
             returnE \<lparr>so_result = to_result r, so_duplicate = False, so_resolution = resolution\<rparr>))))"

definition submit ::
  "('r, 'v) OrderRouter \<Rightarrow> NormalizedOrder \<Rightarrow> string option \<Rightarrow> ('r, 'v, SubmitOutcome) eng" where
  "submit rt od strategy_id =
     bindE (assert_disengaged (settings rt) (client rt)) (\<lambda>_.
     bindE (fetch_order_result (client_order_id od)) (\<lambda>existing.
     case existing of
       Some r \<Rightarrow> returnE (duplicate_outcome r)
     | None \<Rightarrow> submit_new rt od strategy_id))"

section \<open>Cancel\<close>

text \<open>The part of a cancel the sweep repeats, on a resolved adapter.\<close>

definition cancel_at_venue ::
  "('r, 'v) OrderRouter \<Rightarrow> ('r, 'v) BrokerAdapter \<Rightarrow> string \<Rightarrow> ('r, 'v, unit) eng" where
  "cancel_at_venue rt adapter cid =
     bindE (update_status (pool rt) cid PENDING_CANCEL) (\<lambda>_.
     bindE (ad_cancel adapter cid) (\<lambda>ack.
     if \<not> cancel_ok ack then raiseE (AdapterError ''cancel not confirmed'')
     else update_status (pool rt) cid CANCELLED))"

definition cancel :: "('r, 'v) OrderRouter \<Rightarrow> string \<Rightarrow> ('r, 'v, NormalizedOrderResult) eng" where
  "cancel rt cid =
     bindE (fetch_order cid) (\<lambda>found.
     case found of
       None \<Rightarrow> raiseE (Rejected OrderNotFound (Some cid))
     | Some row \<Rightarrow>
         if is_terminal (r_status row) then raiseE (Rejected IllegalTransition (Some cid))
         else if r_status row = PENDING_CANCEL then get_order cid
         else if r_status row \<in> {PENDING_NEW, PENDING_REPLACE}
         then raiseE (Rejected IllegalTransition (Some cid))
         else
           bindE (liftE (resolve rt (r_broker row) (r_account row) TRADE)) (\<lambda>adapter.
           bindE (breaker_guard adapter) (\<lambda>_.
           bindE (cancel_at_venue rt adapter cid) (\<lambda>_.
           get_order cid))))"

section \<open>Amend\<close>

definition assert_amend_quantities ::
  "string \<Rightarrow> OrderRow \<Rightarrow> int option \<Rightarrow> int \<Rightarrow> exn + unit" where
  "assert_amend_quantities cid row new_qty filled =
     (case new_qty of
        None \<Rightarrow> Inr ()
      | Some q \<Rightarrow>
          if q \<le> filled then Inl (Rejected AmendRejected (Some cid))
          else if (case r_display_qty row of Some d \<Rightarrow> q < d | None \<Rightarrow> False)
          then Inl (Rejected AmendRejected (Some cid))
          else Inr ())"

definition venue_amend ::
  "('r, 'v) BrokerAdapter \<Rightarrow> string \<Rightarrow> decimal option \<Rightarrow> int option \<Rightarrow> ('r, 'v, AmendAck) eng" where
  "venue_amend adapter cid new_price new_qty =
     catchE is_adapter_error (ad_amend adapter cid new_price new_qty)
       (\<lambda>_. returnE \<lparr>amend_ok = False, amend_semantics = ''native'', amend_reason = Some ''adapter error''\<rparr>)"

definition restore_partial :: "('r, 'v) OrderRouter \<Rightarrow> string \<Rightarrow> int \<Rightarrow> ('r, 'v, unit) eng" where
  "restore_partial rt cid filled =
     (if 0 < filled then update_status (pool rt) cid PARTIALLY_FILLED else returnE ())"

definition amend_native ::
  "('r, 'v) OrderRouter \<Rightarrow> OrderRow \<Rightarrow> string option \<Rightarrow> decimal option \<Rightarrow> int option \<Rightarrow>
   ('r, 'v, SubmitOutcome) eng" where
  "amend_native rt row new_cid new_price new_qty =
     (let cid = r_client_order_id row
      in if new_cid \<noteq> None then raiseE (Rejected AmendRejected (Some cid))
         else if r_status row \<notin> {NEW, PARTIALLY_FILLED}
         then raiseE (Rejected IllegalTransition (Some cid))
         else
           bindE (fetch_order_result cid) (\<lambda>found.
           case found of
             None \<Rightarrow> raiseE (Rejected OrderNotFound (Some cid))
           | Some result \<Rightarrow>
               let filled = filled_qty result
               in bindE (liftE (assert_amend_quantities cid row new_qty filled)) (\<lambda>_.
                  bindE (liftE (amended_order row cid new_price new_qty)) (\<lambda>amended.
                  bindE (risk_check (settings rt) (client rt) amended) (\<lambda>_.
                  bindE (liftE (resolve rt (r_broker row) (r_account row) TRADE)) (\<lambda>adapter.
                  bindE (breaker_guard adapter) (\<lambda>_.
                  bindE (update_status (pool rt) cid PENDING_REPLACE) (\<lambda>_.
                  bindE (venue_amend adapter cid new_price new_qty) (\<lambda>ack.
                  if amend_ok ack then
                    bindE (replace_order (pool rt) cid new_price new_qty) (\<lambda>_.
                    bindE (restore_partial rt cid filled) (\<lambda>_.
                    bindE (get_order cid) (\<lambda>res.
                    returnE \<lparr>so_result = res, so_duplicate = False, so_resolution = CONFIRMED\<rparr>)))
                  else
                    bindE (update_status (pool rt) cid NEW) (\<lambda>_.
                    bindE (restore_partial rt cid filled) (\<lambda>_.
                    raiseE (Rejected AmendRejected (Some cid)))))))))))))"

definition amend_cancel_replace ::
  "('r, 'v) OrderRouter \<Rightarrow> OrderRow \<Rightarrow> string option \<Rightarrow> decimal option \<Rightarrow> int option \<Rightarrow>
   ('r, 'v, SubmitOutcome) eng" where
  "amend_cancel_replace rt row new_cid new_price new_qty =
     (case new_cid of
        None \<Rightarrow> raiseE (Rejected AmendRejected (Some (r_client_order_id row)))
      | Some fresh \<Rightarrow>
          bindE (cancel rt (r_client_order_id row)) (\<lambda>_.
          bindE (liftE (amended_order row fresh new_price new_qty)) (\<lambda>replacement.
          submit rt replacement (r_strategy_id row))))"

definition amend ::
  "('r, 'v) OrderRouter \<Rightarrow> string \<Rightarrow> string option \<Rightarrow> decimal option \<Rightarrow> int option \<Rightarrow>
   ('r, 'v, SubmitOutcome) eng" where
  "amend rt cid new_cid new_price new_qty =
     bindE (assert_disengaged (settings rt) (client rt)) (\<lambda>_.
     if new_price = None \<and> new_qty = None then raiseE (Rejected AmendRejected (Some cid))
     else
       bindE (fetch_order cid) (\<lambda>found.
       case found of
         None \<Rightarrow> raiseE (Rejected OrderNotFound (Some cid))
       | Some row \<Rightarrow>
           bindE (liftE (lookup (r_broker row) (r_market row))) (\<lambda>caps.
           if amend_kind caps = native then amend_native rt row new_cid new_price new_qty
           else amend_cancel_replace rt row new_cid new_price new_qty)))"

section \<open>The mass-cancel sweep\<close>

definition sweep_one :: "('r, 'v) OrderRouter \<Rightarrow> OrderRow \<Rightarrow> ('r, 'v, unit) eng" where
  "sweep_one rt row =
     bindE (liftE (resolve rt (r_broker row) (r_account row) TRADE)) (\<lambda>adapter.
     cancel_at_venue rt adapter (r_client_order_id row))"

fun sweep :: "('r, 'v) OrderRouter \<Rightarrow> OrderRow list \<Rightarrow> ('r, 'v, string list \<times> string list) eng" where
  "sweep rt [] = returnE ([], [])"
| "sweep rt (row # rows) =
     bindE (catchE (\<lambda>_. True) (bindE (sweep_one rt row) (\<lambda>_. returnE True)) (\<lambda>_. returnE False)) (\<lambda>ok.
     bindE (sweep rt rows) (\<lambda>(cancelled, failed).
     returnE (if ok then (r_client_order_id row # cancelled, failed)
              else (cancelled, r_client_order_id row # failed))))"

definition mass_cancel :: "('r, 'v) OrderRouter \<Rightarrow> ('r, 'v, string list \<times> string list) eng" where
  "mass_cancel rt = bindE fetch_open_orders (sweep rt)"

section \<open>Broker reads\<close>

definition broker_read ::
  "('r, 'v) OrderRouter \<Rightarrow> Broker \<Rightarrow> string \<Rightarrow> (('r, 'v) BrokerAdapter \<Rightarrow> ('r, 'v, 'a) eng) \<Rightarrow>
   ('r, 'v, 'a) eng" where
  "broker_read rt b acct query = bindE (liftE (resolve rt b acct READ)) query"

definition get_account ::
  "('r, 'v) OrderRouter \<Rightarrow> Broker \<Rightarrow> string \<Rightarrow> ('r, 'v, AccountInfo) eng" where
  "get_account rt b acct = broker_read rt b acct (\<lambda>a. ad_get_account a acct)"

definition get_open_orders ::
  "('r, 'v) OrderRouter \<Rightarrow> Broker \<Rightarrow> string \<Rightarrow> ('r, 'v, NormalizedOrder list) eng" where
  "get_open_orders rt b acct = broker_read rt b acct (\<lambda>a. ad_get_open_orders a acct)"

definition get_positions ::
  "('r, 'v) OrderRouter \<Rightarrow> Broker \<Rightarrow> string \<Rightarrow> ('r, 'v, Position list) eng" where
  "get_positions rt b acct = broker_read rt b acct (\<lambda>a. ad_get_positions a acct)"

definition get_venue_orders ::
  "('r, 'v) OrderRouter \<Rightarrow> Broker \<Rightarrow> string \<Rightarrow> ('r, 'v, VenueOrderView list) eng" where
  "get_venue_orders rt b acct = broker_read rt b acct (\<lambda>a. ad_get_venue_orders a acct)"

end
