(* ===== verification/RouterSafety.thy ===== *)
theory RouterSafety
  imports Router
begin

text \<open>
  What the router's operations can do to the state, whole: the tables move only as the store
  promises, the venue is reached only on the one authorised path, the kill switch and the
  gates come before every write.
\<close>

section \<open>Effects of the router's operations\<close>

context redis_frame
begin

lemma guard_R: "effect R any (breaker_guard ad)"
  unfolding breaker_guard_def by (intro effect_seq effect_gets_any effect_lift_any)

lemma band_R: "effect R any (price_band_check s md od)"
  by (simp add: effect_def price_band_frame R_refl)

text \<open>The gates touch Redis only, and hand on an adapter that was resolved for the order.\<close>

lemma submit_gates_R: "effect R (\<lambda>ad. resolve rt (broker od) (account od) TRADE = Inr ad) (submit_gates rt od)"
  unfolding submit_gates_def
  by (rule effect_seq [OF effect_lift_any], rule effect_seq [OF effect_lift_any],
      rule effect_seq [OF effect_cache [OF only_redis_risk_check]], rule effect_seq [OF band_R],
      rule effect_bind [OF effect_lift, where Q = "\<lambda>ad. resolve rt (broker od) (account od) TRADE = Inr ad"])
    (auto intro!: effect_seq guard_R effect_return)

lemma assert_disengaged_R: "effect R any (assert_disengaged s c)"
  by (rule effect_cache [OF only_redis_assert_disengaged])

end

text \<open>
  An adapter is routable under a relation when its calls stay within it, and so does the
  recovery burst whenever an accepted placement can come back without a venue handle.
\<close>

definition routable ::
  "(('r, 'v) world \<Rightarrow> ('r, 'v) world \<Rightarrow> bool) \<Rightarrow> ('r, 'v) OrderRouter \<Rightarrow> ('r, 'v) BrokerAdapter \<Rightarrow> bool" where
  "routable R rt ad \<longleftrightarrow>
     (\<exists>Q. (\<forall>od. effect R Q (ad_place ad od)) \<and>
          ((\<forall>ack. Q ack \<longrightarrow> \<not> rejected ack \<longrightarrow> broker_order_id ack \<noteq> None) \<or>
           (\<forall>od. effect R any (recover rt od)))) \<and>
     (\<forall>cid. effect R any (ad_cancel ad cid)) \<and>
     (\<forall>cid np nq. effect R any (ad_amend ad cid np nq))"

definition trades_within ::
  "(('r, 'v) world \<Rightarrow> ('r, 'v) world \<Rightarrow> bool) \<Rightarrow> ('r, 'v) OrderRouter \<Rightarrow> bool" where
  "trades_within R rt \<longleftrightarrow> (\<forall>b acct ad. resolve rt b acct TRADE = Inr ad \<longrightarrow> routable R rt ad)"

text \<open>
  The interface between the router and a relation on states that its whole effect is to stay
  within: the store's functions and a sleep do. What the router's operations do under such a
  relation is derived once, from the adapters they may resolve.
\<close>

locale engine_effect = redis_frame R
  for R :: "('r, 'v) world \<Rightarrow> ('r, 'v) world \<Rightarrow> bool" +
  fixes rt :: "('r, 'v) OrderRouter"
  assumes insert_R: "effect R any (insert_order (pool rt) od sid)"
    and ack_R: "effect R any (ack_order (pool rt) cid boid)"
    and replace_R: "effect R any (replace_order (pool rt) cid np nq)"
    and status_R: "effect R any (update_status (pool rt) cid st)"
    and reason_R: "effect R any (set_reject_reason (pool rt) cid reason)"
    and fill_R: "effect R any (apply_fill (pool rt) cid fid pr qty exec_ts tot)"
    and pause_R: "R w (pause rt d w)"
begin

lemma fetch_R: "effect R any (fetch_order cid)" "effect R any (fetch_order_result cid)"
  "effect R any fetch_open_orders"
  unfolding fetch_order_def fetch_order_result_def fetch_open_orders_def by (rule effect_gets_any)+

lemma get_order_R: "effect R any (get_order cid)"
  unfolding get_order_def by (intro effect_seq effect_option effect_raise effect_return fetch_R) simp

lemma await_R: "effect R any (await_concurrent rt cid waited)"
proof (rule effectI)
  show "R w (after (await_concurrent rt cid waited) w)" for w
  proof (induction "nat (submit_lock_wait_ms (settings rt) - waited)" arbitrary: waited w rule: less_induct)
    case less
    show ?case
    proof (cases "find_order cid w = None \<and> waited < submit_lock_wait_ms (settings rt)")
      case True
      have "R w (pause rt 50000 w)" by (rule pause_R)
      also have "R (pause rt 50000 w) (after (await_concurrent rt cid (waited + 50)) (pause rt 50000 w))"
        using True by (intro less) linarith
      finally (R_trans) show ?thesis using True by (subst await_concurrent.simps) simp
    next
      case False
      then show ?thesis by (subst await_concurrent.simps) (auto simp: R_refl split: option.splits)
    qed
  qed
qed simp

lemma settle_fills_R: "effect R any (settle_fills rt od reports)"
  unfolding settle_fills_def by (intro effect_for effect_seq effect_return fill_R) simp

lemma place_and_settle_R:
  assumes "routable R rt ad"
  shows "effect R any (place_and_settle rt ad od)"
proof -
  from assms obtain Q where places: "\<forall>od. effect R Q (ad_place ad od)"
    and boid: "(\<forall>ack. Q ack \<longrightarrow> \<not> rejected ack \<longrightarrow> broker_order_id ack \<noteq> None) \<or>
               (\<forall>od. effect R any (recover rt od))"
    and cancels: "\<forall>cid. effect R any (ad_cancel ad cid)"
    unfolding routable_def by blast
  have place: "effect R Q (ad_place ad od)" and cancel: "\<And>cid. effect R any (ad_cancel ad cid)"
    using places cancels by blast+
  have remainder: "effect R any (settle_remainder rt ad od)"
    unfolding settle_remainder_def by (intro effect_seq status_R cancel)
  show ?thesis
    unfolding place_and_settle_def
  proof (rule effect_bind [OF place])
    fix ack
    assume "Q ack"
    with boid have "broker_order_id ack = None \<Longrightarrow> \<not> rejected ack \<Longrightarrow> effect R any (recover rt od)" by blast
    then show "effect R any
      (if rejected ack then
         bindE (update_status (pool rt) (client_order_id od) REJECTED) (\<lambda>_.
         bindE (set_reject_reason (pool rt) (client_order_id od)
                  (case reject_reason ack of
                     Some r \<Rightarrow> if r = [] then ''rejected by adapter'' else r
                   | None \<Rightarrow> ''rejected by adapter'')) (\<lambda>_.
         returnE CONFIRMED))
       else case broker_order_id ack of
         None \<Rightarrow> recover rt od
       | Some boid \<Rightarrow>
           bindE (ack_order (pool rt) (client_order_id od) boid) (\<lambda>_.
           bindE (settle_fills rt od (ack_fills ack)) (\<lambda>_.
           bindE (if remainder_cancelled ack then settle_remainder rt ad od else returnE ()) (\<lambda>_.
           returnE CONFIRMED))))"
      by (intro effect_if effect_option effect_seq status_R reason_R ack_R settle_fills_R remainder
          effect_return) simp_all
  qed
qed

lemma submit_locked_R:
  assumes "routable R rt ad"
  shows "effect R any (submit_locked rt ad od sid acquired)"
  unfolding submit_locked_def
  by (intro effect_if effect_seq effect_catch effect_option effect_return effect_raise await_R insert_R
      fetch_R place_and_settle_R [OF assms]) simp_all

lemma submit_new_R:
  assumes "\<And>ad. resolve rt (broker od) (account od) TRADE = Inr ad \<Longrightarrow> routable R rt ad"
  shows "effect R any (submit_new rt od sid)"
  unfolding submit_new_def
proof (rule effect_bind [OF submit_gates_R], intro effect_seq effect_gets_any effect_single_flight)
  fix ad acquired
  assume "resolve rt (broker od) (account od) TRADE = Inr ad"
  then show "effect R any (submit_locked rt ad od sid acquired)"
    by (intro submit_locked_R assms)
next
  fix r :: "SubmitOutcome + HandleResolution"
  show "effect R any (case r of Inl oc \<Rightarrow> returnE oc
     | Inr resolution \<Rightarrow>
         bindE (fetch_order_result (client_order_id od)) (\<lambda>row.
         case row of
           None \<Rightarrow> raiseE (Rejected OrderNotFound (Some (client_order_id od)))
         | Some r \<Rightarrow>
             returnE \<lparr>so_result = to_result r, so_duplicate = False, so_resolution = resolution\<rparr>))"
    by (cases r) (auto intro!: effect_seq effect_option effect_raise effect_return fetch_R)
qed

lemma submit_R:
  assumes "\<And>ad. resolve rt (broker od) (account od) TRADE = Inr ad \<Longrightarrow> routable R rt ad"
  shows "effect R any (submit rt od sid)"
  unfolding submit_def
  by (intro effect_seq [OF assert_disengaged_R] effect_seq [OF fetch_R(2)] effect_option effect_return
      submit_new_R assms) simp_all

lemma submit_within: "trades_within R rt \<Longrightarrow> effect R any (submit rt od sid)"
  by (rule submit_R) (simp add: trades_within_def)

lemma cancel_at_venue_R: "routable R rt ad \<Longrightarrow> effect R any (cancel_at_venue rt ad cid)"
  unfolding cancel_at_venue_def
  by (intro effect_seq effect_if effect_raise status_R) (simp add: routable_def)

text \<open>A resolved adapter, used.\<close>

lemma resolved_R:
  assumes "trades_within R rt" and "\<And>ad. routable R rt ad \<Longrightarrow> effect R any (k ad)"
  shows "effect R any (bindE (liftE (resolve rt b acct TRADE)) k)"
  by (rule effect_bind [OF effect_lift, where Q = "routable R rt"])
    (use assms in \<open>auto simp: trades_within_def\<close>)

lemma cancel_R:
  assumes "trades_within R rt"
  shows "effect R any (cancel rt cid)"
  unfolding cancel_def
  by (intro effect_seq [OF fetch_R(1)] effect_option effect_if effect_raise get_order_R resolved_R assms
      effect_seq [OF guard_R] effect_seq [OF cancel_at_venue_R])

lemma restore_R: "effect R any (restore_partial rt cid filled)"
  unfolding restore_partial_def by (intro effect_if status_R effect_return) simp

lemma venue_amend_R: "routable R rt ad \<Longrightarrow> effect R any (venue_amend ad cid np nq)"
  unfolding venue_amend_def by (intro effect_catch effect_return) (simp_all add: routable_def)

lemma amend_native_R:
  assumes "trades_within R rt"
  shows "effect R any (amend_native rt row new_cid np nq)"
  unfolding amend_native_def Let_def
  by (intro effect_if effect_raise effect_seq [OF fetch_R(2)] effect_option effect_seq [OF effect_lift_any]
      resolved_R assms effect_seq [OF effect_cache [OF only_redis_risk_check]] effect_seq [OF guard_R]
      effect_seq [OF status_R] effect_seq [OF venue_amend_R] effect_seq [OF replace_R] effect_seq [OF restore_R]
      effect_seq [OF get_order_R] effect_return) simp_all

lemma amend_cancel_replace_R:
  assumes "trades_within R rt"
  shows "effect R any (amend_cancel_replace rt row new_cid np nq)"
  unfolding amend_cancel_replace_def
  by (intro effect_option effect_raise effect_seq [OF cancel_R] effect_seq [OF effect_lift_any] submit_within assms)

lemma amend_R:
  assumes "trades_within R rt"
  shows "effect R any (amend rt cid new_cid np nq)"
  unfolding amend_def
  by (intro effect_seq [OF assert_disengaged_R] effect_if effect_raise effect_seq [OF fetch_R(1)] effect_option
      effect_seq [OF effect_lift_any] amend_native_R amend_cancel_replace_R assms)

lemma sweep_one_R:
  assumes "trades_within R rt"
  shows "effect R any (sweep_one rt row)"
  unfolding sweep_one_def by (intro resolved_R assms cancel_at_venue_R)

lemma mass_cancel_R:
  assumes "trades_within R rt"
  shows "effect R any (mass_cancel rt)"
proof -
  have one: "effect R any (sweep_one rt row)" for row by (intro sweep_one_R assms)
  have "effect R any (sweep rt rows)" for rows
  proof (induction rows)
    case Nil
    show ?case unfolding sweep.simps by (rule effect_return) simp
  next
    case (Cons row rows)
    then show ?case unfolding sweep.simps case_prod_unfold
      by (intro effect_seq effect_catch effect_return one) simp_all
  qed
  then show ?thesis unfolding mass_cancel_def by (intro effect_seq fetch_R)
qed

end

section \<open>The store under the router\<close>

text \<open>
  What the rest of the system owes the router: the trigger encodes the frozen graph, the real
  adapters do not write the tables, the handle resolver and whatever other coroutines do
  during a sleep write them only as the engine's own functions do.
\<close>

definition router_ok :: "('r, 'v) OrderRouter \<Rightarrow> bool" where
  "router_ok rt \<longleftrightarrow>
     guard_frozen (pool rt) \<and>
     (\<forall>ad. liberator rt = Some ad \<or> streaming_pro rt = Some ad \<longrightarrow> broker_adapter ad) \<and>
     (\<forall>rs cid. handle_resolver rt = Some rs \<longrightarrow> effect evolves any (rs cid)) \<and>
     (\<forall>d w. evolves w (pause rt d w))"

lemma recover_loop_evolves:
  assumes "effect evolves any (rs cid)" and "\<And>d w. evolves w (ps d w)"
  shows "evolves w (snd (recover_loop k rs ps cid submitted_at cadence deadline min_polls read_ok attempts w))"
proof (induction k arbitrary: read_ok attempts w)
  case (Suc k)
  obtain answer w1 where res: "rs cid w = (answer, w1)" by fastforce
  have w1: "evolves w w1" using effectD [OF assms(1), of w] res by simp
  have "evolves w1 (snd (recover_loop k rs ps cid submitted_at cadence deadline min_polls r a (ps cadence w1)))" for r a
    by (rule evolves_trans [OF assms(2) Suc])
  with w1 have "evolves w (snd (recover_loop k rs ps cid submitted_at cadence deadline min_polls r a (ps cadence w1)))" for r a
    by (blast intro: evolves_trans)
  with w1 res show ?case by (auto simp: Let_def split: sum.splits bool.splits)
qed (simp add: evolves_refl)

lemma recover_evolves:
  assumes "router_ok rt"
  shows "effect evolves any (recover rt od)"
proof (cases "handle_resolver rt")
  case None
  then show ?thesis by (simp add: recover_def store.effect_return)
next
  case (Some rs)
  have rs: "effect evolves any (rs cid)" for cid using assms Some by (simp add: router_ok_def)
  have ps: "evolves w (pause rt d w)" for d w using assms by (simp add: router_ok_def)
  have loop: "evolves w (snd (recover_handle k rs (pause rt) cid a b c d w))" for k cid a b c d w
    unfolding recover_handle_def by (rule recover_loop_evolves) (rule rs, rule ps)
  have "after (recover rt od) w =
      snd (recover_handle (fuel rt) rs (pause rt) (client_order_id od)
             (case find_order (client_order_id od) w of Some r \<Rightarrow> r_created_at r | None \<Rightarrow> clock w)
             (handle_recovery_cadence_ms (settings rt) * 1000)
             (handle_recovery_deadline_ms (settings rt) * 1000)
             (handle_recovery_min_polls (settings rt)) w)" for w
    by (simp add: recover_def Some fetch_order_def split: prod.split option.split)
  with loop show ?thesis by (intro effectI) simp_all
qed

lemma adapter_of_contract:
  assumes "router_ok rt"
  shows "broker_adapter (adapter_of rt ref)"
proof -
  have "broker_adapter (sim_of rt)" unfolding sim_of_def by (rule sim.broker_adapter_axioms)
  then show ?thesis
    using assms by (cases ref) (auto simp: adapter_of_def router_ok_def split: option.splits)
qed

lemma router_ok_trades:
  assumes "router_ok rt"
  shows "trades_within evolves rt"
  unfolding trades_within_def
proof (intro allI impI)
  fix b acct ad
  assume "resolve rt b acct TRADE = Inr ad"
  then obtain ref where "ad = adapter_of rt ref"
    by (cases "resolve_ref rt b acct TRADE") (auto simp: resolve_def map_sum_def)
  then have "broker_adapter ad" using adapter_of_contract [OF assms] by simp
  then show "routable evolves rt ad"
    unfolding routable_def
    using recover_evolves [OF assms] broker_adapter.place_evolves broker_adapter.cancel_evolves
      broker_adapter.amend_evolves by blast
qed

locale order_router =
  fixes rt :: "('r, 'v) OrderRouter"
  assumes ok: "router_ok rt"
begin

lemma guarded: "guard_frozen (pool rt)"
  using ok by (simp add: router_ok_def)

end

sublocale order_router \<subseteq> durable: engine_effect evolves rt
  by unfold_locales
    (use ok in \<open>auto intro: store_effects evolves_apply_fill simp: router_ok_def\<close>)

section \<open>The venue under the router\<close>

text \<open>A router whose sleeps are not used by others to reach the venue.\<close>

locale quiet_router =
  fixes rt :: "('r, 'v) OrderRouter"
  assumes quiet: "same_venue w (pause rt d w)"

sublocale quiet_router \<subseteq> silent: engine_effect same_venue rt
  by unfold_locales (auto intro: venue_effects simp: quiet)

lemma sim_routable: "routable same_venue rt (sim_of rt)"
proof -
  have "effect same_venue (\<lambda>ack. \<not> rejected ack \<longrightarrow> broker_order_id ack \<noteq> None) (ad_place (sim_of rt) od)" for od
  proof (rule effectI)
    show "same_venue w (after (ad_place (sim_of rt) od) w)" for w
      unfolding sim_of_def by (rule effectD [OF sim.place_offline])
    fix w ack
    assume "outcome (ad_place (sim_of rt) od) w = Inr ack"
    then obtain w' where "ad_place (sim_of rt) od w = (Inr ack, w')" by (metis prod.collapse)
    then show "\<not> rejected ack \<longrightarrow> broker_order_id ack \<noteq> None"
      unfolding sim_of_def by (auto elim: sim_place_accepted)
  qed
  moreover have "effect same_venue any (ad_cancel (sim_of rt) cid)" for cid
    unfolding sim_of_def by (rule sim.cancel_offline)
  moreover have "effect same_venue any (ad_amend (sim_of rt) cid np nq)" for cid np nq
    unfolding sim_of_def by (rule sim.amend_offline)
  ultimately show ?thesis unfolding routable_def by blast
qed

text \<open>A trade resolves to a real adapter under one condition only.\<close>

definition real_trade :: "('r, 'v) OrderRouter \<Rightarrow> Broker \<Rightarrow> string \<Rightarrow> bool" where
  "real_trade rt b acct \<longleftrightarrow>
     stage (settings rt) = Stage_MICRO_LIVE \<and> b \<noteq> SIM \<and> acct \<in> set (authorized_accounts (settings rt))"

lemma resolve_ref_trade:
  assumes "resolve_ref rt b acct TRADE = Inr ref"
  shows "ref = Sim_ref \<or> real_trade rt b acct"
  using assms
  by (cases "stage (settings rt)"; cases b)
    (auto simp: resolve_ref_def resolve_adapter_def real_adapter_for_def REAL_BROKERS_def
      assert_may_route_real_def real_trade_def Let_def split: option.splits if_splits)

lemma resolve_not_real:
  assumes "resolve rt b acct TRADE = Inr ad" and "\<not> real_trade rt b acct"
  shows "ad = sim_of rt"
  using assms resolve_ref_trade [of rt b acct]
  by (cases "resolve_ref rt b acct TRADE") (auto simp: resolve_def adapter_of_def map_sum_def)

section \<open>Deployments\<close>

text \<open>
  The router of a node without broker credentials: any settings, any Redis, any market-data
  service, no real adapter, a database whose trigger is the frozen graph, alone on its loop.
\<close>

definition standalone_router ::
  "Settings \<Rightarrow> 'r redis_client option \<Rightarrow> 'v MarketDataClient option \<Rightarrow> 'v MarketDataClient \<Rightarrow>
   ('r, 'v) OrderRouter" where
  "standalone_router s c src md =
     \<lparr>settings = s, pool = frozen_db, client = c, liberator = None, streaming_pro = None,
      sim_price_source = src, market_data = md, handle_resolver = None,
      pause = (\<lambda>d w. w\<lparr>clock := clock w + d\<rparr>), fresh_token = (\<lambda>_. ''token''), fuel = 0\<rparr>"

lemma standalone_ok: "router_ok (standalone_router s c src md)"
proof -
  have "evolves w (w\<lparr>clock := clock w + d\<rparr>)" for w :: "('a, 'b) world" and d
    by (rule same_store_evolves) (simp add: same_store_def)
  then show ?thesis by (simp add: router_ok_def standalone_router_def)
qed

interpretation standalone: order_router "standalone_router s c src md"
  by unfold_locales (rule standalone_ok)

interpretation standalone_quiet: quiet_router "standalone_router s c src md"
  by unfold_locales (simp add: standalone_router_def same_venue_def)

section \<open>Any sequence of requests\<close>

datatype request =
    Submit NormalizedOrder "string option"
  | Cancel string
  | Amend string "string option" "decimal option" "int option"
  | MassCancel

definition serve_one :: "('r, 'v) OrderRouter \<Rightarrow> request \<Rightarrow> ('r, 'v) world \<Rightarrow> ('r, 'v) world" where
  "serve_one rt req w =
     (case req of
        Submit od sid \<Rightarrow> after (submit rt od sid) w
      | Cancel cid \<Rightarrow> after (cancel rt cid) w
      | Amend cid new_cid np nq \<Rightarrow> after (amend rt cid new_cid np nq) w
      | MassCancel \<Rightarrow> after (mass_cancel rt) w)"

definition serve :: "('r, 'v) OrderRouter \<Rightarrow> request list \<Rightarrow> ('r, 'v) world \<Rightarrow> ('r, 'v) world" where
  "serve rt reqs w = foldl (\<lambda>u req. serve_one rt req u) w reqs"

context engine_effect
begin

lemma serve_R:
  assumes "trades_within R rt"
  shows "R w (serve rt reqs w)"
proof (induction reqs arbitrary: w)
  case Nil
  show ?case by (simp add: serve_def R_refl)
next
  case (Cons req reqs)
  have "R w (serve_one rt req w)"
    by (cases req)
      (simp_all add: serve_one_def effectD [OF submit_within [OF assms]] effectD [OF cancel_R [OF assms]]
        effectD [OF amend_R [OF assms]] effectD [OF mass_cancel_R [OF assms]])
  then show ?case using Cons [of "serve_one rt req w"] by (auto simp: serve_def intro: R_trans)
qed

end

context order_router
begin

lemma serve_evolves: "evolves w (serve rt reqs w)"
  by (rule durable.serve_R) (rule router_ok_trades [OF ok])

lemma sweeps_evolve: "effect evolves any (mass_cancel rt)"
  by (rule durable.mass_cancel_R) (rule router_ok_trades [OF ok])

end

text \<open>
  The history of every order, under any sequence of requests, served or refused: an order
  that exists keeps existing with the same identity, its status only ever moves along the
  frozen edges, a terminal order never changes status again, every recorded fill stays
  recorded, and the keys of both tables stay unique.
\<close>

theorem engine_history:
  assumes "router_ok rt"
  shows "(\<forall>cid r. find_order cid w = Some r \<longrightarrow>
            (\<exists>r'. find_order cid (serve rt reqs w) = Some r' \<and> same_identity r r' \<and>
                  legal_path (r_status r) (r_status r') \<and>
                  (is_terminal (r_status r) \<longrightarrow> r_status r' = r_status r))) \<and>
         prefix (fills w) (fills (serve rt reqs w)) \<and>
         (store_wf w \<longrightarrow> store_wf (serve rt reqs w))"
proof -
  have step: "evolves w (serve rt reqs w)"
    by (rule order_router.serve_evolves) (rule order_router.intro [OF assms])
  show ?thesis
  proof (intro conjI allI impI)
    fix cid r
    assume row: "find_order cid w = Some r"
    from evolves_row [OF step row] obtain r' where r': "find_order cid (serve rt reqs w) = Some r'"
      "same_identity r r'" "legal_path (r_status r) (r_status r')" by blast
    then show "\<exists>r'. find_order cid (serve rt reqs w) = Some r' \<and> same_identity r r' \<and>
                  legal_path (r_status r) (r_status r') \<and>
                  (is_terminal (r_status r) \<longrightarrow> r_status r' = r_status r)"
      by (auto dest: legal_path_terminal)
  qed (use step in \<open>auto simp: evolves_def\<close>)
qed

definition demo_router_sim :: "(unit, unit) OrderRouter" where
  "demo_router_sim =
     standalone_router default_settings None None (new_market_data_client None (\<lambda>_ _ _. Inr JNull))"

theorem engine_history_witness:
  "\<exists>r'. find_order ''c'' (serve demo_router_sim [Cancel ''c'', MassCancel]
            (demo_world [demo_row ''c'' FILLED] [])) = Some r' \<and> r_status r' = FILLED"
proof -
  let ?w = "demo_world [demo_row ''c'' FILLED] []"
  have ok: "router_ok demo_router_sim" unfolding demo_router_sim_def by (rule standalone_ok)
  have row: "find_order ''c'' ?w = Some (demo_row ''c'' FILLED)" by (simp add: demo_defs)
  have st: "r_status (demo_row ''c'' FILLED) = FILLED" "is_terminal FILLED"
    by (simp_all add: demo_row_def is_terminal_def TERMINAL_STATES_def)
  from engine_history [OF ok, of ?w "[Cancel ''c'', MassCancel]"] row
  obtain r' where "find_order ''c'' (serve demo_router_sim [Cancel ''c'', MassCancel] ?w) = Some r'"
    and "is_terminal (r_status (demo_row ''c'' FILLED)) \<longrightarrow> r_status r' = r_status (demo_row ''c'' FILLED)"
    by blast
  then show ?thesis unfolding st by (simp add: st(2))
qed

section \<open>Where orders can go\<close>

lemma not_real_trades:
  assumes "\<And>b acct. \<not> real_trade rt b acct"
  shows "trades_within same_venue rt"
  unfolding trades_within_def using assms resolve_not_real sim_routable by blast

context quiet_router
begin

lemma submit_unauthorised: "\<not> real_trade rt (broker od) (account od) \<Longrightarrow> effect same_venue any (submit rt od sid)"
  by (rule silent.submit_R) (metis resolve_not_real sim_routable)

lemma serve_unauthorised:
  "(\<And>b acct. \<not> real_trade rt b acct) \<Longrightarrow> same_venue w (serve rt reqs w)"
  by (rule silent.serve_R) (rule not_real_trades)

end



section \<open>What comes before every write\<close>

lemma after_only_redis: "effect only_redis any m \<Longrightarrow> only_redis w (after m w)"
  by (rule effectD)

text \<open>
  C7. The kill switch is first. While it is on, by the environment flag or by the key in
  Redis, submit and amend raise the typed rejection whatever the order, and all they have
  done is read Redis: no gate has counted anything, no table, venue, event or clock changed.
\<close>

theorem kill_switch_first:
  assumes "switch_on (settings rt) (client rt) (redis w)"
  shows "fst (submit rt od sid w) = Inl (Rejected KillSwitchEngagedError None) \<and>
         snd (submit rt od sid w) = snd (kill_switch_status (settings rt) (client rt) w) \<and>
         fst (amend rt cid new_cid np nq w) = Inl (Rejected KillSwitchEngagedError None) \<and>
         snd (amend rt cid new_cid np nq w) = snd (kill_switch_status (settings rt) (client rt) w) \<and>
         only_redis w (snd (kill_switch_status (settings rt) (client rt) w))"
proof -
  have on: "outcome (assert_disengaged (settings rt) (client rt)) w = Inl (Rejected KillSwitchEngagedError None)"
    using assms by (cases rule: assert_disengaged_cases [of "settings rt" "client rt" w]) simp_all
  have "after (assert_disengaged (settings rt) (client rt)) w = after (kill_switch_status (settings rt) (client rt)) w"
    by (auto simp: assert_disengaged_def bindE_def split: prod.splits sum.splits)
  with on have "assert_disengaged (settings rt) (client rt) w =
      (Inl (Rejected KillSwitchEngagedError None), after (kill_switch_status (settings rt) (client rt)) w)"
    by (metis prod.collapse)
  then show ?thesis
    using effectD [OF only_redis_status, of w "settings rt" "client rt"]
    by (simp add: submit_def amend_def bindE_Inl)
qed

theorem kill_switch_first_witness:
  "fst (submit (demo_router_sim\<lparr>settings := default_settings\<lparr>kill_switch_engaged := True\<rparr>\<rparr>)
          (demo_order demo_uuid 100 (Dec 10 0)) None (demo_world [] [])) =
     Inl (Rejected KillSwitchEngagedError None)"
proof -
  let ?rt = "demo_router_sim\<lparr>settings := default_settings\<lparr>kill_switch_engaged := True\<rparr>\<rparr>"
  have "switch_on (settings ?rt) (client ?rt) (redis (demo_world [] []))" by (simp add: switch_on_def)
  from kill_switch_first [OF this] show ?thesis by blast
qed

text \<open>
  C12. Submitting is idempotent on the id. With the switch off, a submit whose id already has a
  row returns that order's current result, marked as a duplicate, whatever else the order
  says; it passes no gate, places nothing and writes nothing.
\<close>

theorem duplicate_submit_is_a_read:
  assumes "\<not> switch_on (settings rt) (client rt) (redis w)"
    and "find_order (client_order_id od) w = Some r"
  shows "fst (submit rt od sid w) = Inr (duplicate_outcome (order_result r (fills w))) \<and>
         only_redis w (snd (submit rt od sid w)) \<and>
         snd (submit rt od sid w) = snd (assert_disengaged (settings rt) (client rt) w)"
proof -
  obtain x w1 where d: "assert_disengaged (settings rt) (client rt) w = (x, w1)" by fastforce
  have "x = Inr ()"
    using assms(1) d by (cases rule: assert_disengaged_cases [of "settings rt" "client rt" w]) simp_all
  moreover have w1: "only_redis w w1" using effectD [OF only_redis_assert_disengaged, of w "settings rt" "client rt"] d by simp
  moreover have "same_store w w1" using w1 by (rule only_redis_same_store)
  ultimately show ?thesis
    using d assms(2)
    by (auto simp: submit_def bindE_Inr fetch_order_result_def same_store_def)
qed

theorem duplicate_submit_is_a_read_witness:
  "fst (submit demo_router_sim (demo_order ''c'' 7 (Dec 1 0)) None (demo_world [demo_row ''c'' NEW] [])) =
     Inr (duplicate_outcome (order_result (demo_row ''c'' NEW) []))"
proof -
  let ?w = "demo_world [demo_row ''c'' NEW] []" and ?od = "demo_order ''c'' 7 (Dec 1 0)"
  have "\<not> switch_on (settings demo_router_sim) (client demo_router_sim) (redis ?w)"
    by (simp add: switch_on_def demo_router_sim_def standalone_router_def default_settings_def)
  moreover have "find_order (client_order_id ?od) ?w = Some (demo_row ''c'' NEW)"
    by (simp add: demo_order_def demo_defs)
  ultimately have "fst (submit demo_router_sim ?od None ?w) =
      Inr (duplicate_outcome (order_result (demo_row ''c'' NEW) (fills ?w)))"
    using duplicate_submit_is_a_read by blast
  then show ?thesis by (simp add: demo_world_def)
qed

end
