(* ===== verification/OrderStanding.thy ===== *)
theory OrderStanding
  imports Store
begin

text \<open>
  Where one order stands in the store, and how every repository function moves it: the
  Hoare-style steps the proofs about the router and the reconcilers compose.
\<close>

section \<open>Where an order stands\<close>

text \<open>
  \<open>order_at cid st q qs ids w\<close>: the order is there with that status and those terms (price and
  quantity), and its recorded fills are these quantities under these venue ids, in order.
\<close>

definition order_at ::
  "string \<Rightarrow> OrderState \<Rightarrow> decimal option \<times> int \<Rightarrow> int list \<Rightarrow> string list \<Rightarrow> ('r, 'v) world \<Rightarrow> bool" where
  "order_at cid st q qs ids w \<longleftrightarrow>
     (\<exists>r. find_order cid w = Some r \<and> r_status r = st \<and> (r_price r, r_quantity r) = q) \<and>
     map f_quantity (fills_of cid (fills w)) = qs \<and>
     map f_broker_fill_id (fills_of cid (fills w)) = ids"

lemma order_at_result:
  assumes "order_at cid st q qs ids w"
  shows "\<exists>row. outcome (fetch_order_result cid) w = Inr (Some row) \<and> r_status (result_row row) = st \<and>
    filled_qty row = sum_list qs \<and> r_quantity (result_row row) = snd q"
  using assms
  by (auto simp: order_at_def fetch_order_result_def order_result_def sum_quantity_def
      dest: tbl_find_SomeD)

lemma fill_key_known:
  "tbl_find fill_key (cid, fid) fs = None \<longleftrightarrow> fid \<notin> set (map f_broker_fill_id (fills_of cid fs))"
  by (induction fs) (auto simp: fill_key_def fills_of_def)

lemma insert_order_at:
  assumes "open_schema env" and "find_order (client_order_id od) w = None"
    and "fills_of (client_order_id od) (fills w) = []"
  shows "\<exists>w'. insert_order env od sid w = (Inr (), w') \<and>
    order_at (client_order_id od) PENDING_NEW (price od, quantity od) [] [] w'"
  using assms
  by (auto simp: insert_order_def db_insert_order_def bindE_def catchE_def row_of_order_def open_schema_def
      hub_register_def hub_publish_def order_at_def split: option.splits)

lemma ack_order_at:
  assumes "open_schema env" and "order_at cid PENDING_NEW q qs ids w"
  shows "\<exists>w'. ack_order env cid boid w = (Inr (), w') \<and> order_at cid NEW q qs ids w'"
proof -
  from assms(2) obtain r where r: "find_order cid w = Some r" "r_status r = PENDING_NEW" "(r_price r, r_quantity r) = q"
    by (auto simp: order_at_def)
  let ?r' = "r\<lparr>r_status := NEW, r_broker_order_id := Some boid, r_updated_at := touched env (clock w) r\<rparr>"
  have "r_client_order_id ?r' = cid" using tbl_find_SomeD [OF r(1)] by simp
  note upd = find_order_tbl_update [OF r(1) this]
  have "db_update env cid (\<lambda>r. r_status r = PENDING_NEW)
      (\<lambda>r. r\<lparr>r_status := NEW, r_broker_order_id := Some boid\<rparr>) w =
      (Inr 1, w\<lparr>orders := tbl_update r_client_order_id cid (\<lambda>_. ?r') (orders w)\<rparr>)"
    using r assms(1) by (simp add: db_update_def Let_def open_schema_def)
  with assms(2) upd r show ?thesis
    by (simp add: ack_order_def bindE_def hub_publish_def order_at_def)
qed

lemma update_status_at:
  assumes "open_schema env" and "order_at cid s q qs ids w" and "edge s t"
  shows "\<exists>w'. update_status env cid t w = (Inr (), w') \<and> order_at cid t q qs ids w'"
proof -
  from assms(2) obtain r where r: "find_order cid w = Some r" "r_status r = s" "(r_price r, r_quantity r) = q"
    by (auto simp: order_at_def)
  let ?r' = "r\<lparr>r_status := t, r_updated_at := touched env (clock w) r\<rparr>"
  have "r_client_order_id ?r' = cid" using tbl_find_SomeD [OF r(1)] by simp
  note upd = find_order_tbl_update [OF r(1) this]
  have "s \<noteq> t" using assms(3) edge_irreflexive by metis
  moreover have "db_update env cid (\<lambda>_. True) (\<lambda>r. r\<lparr>r_status := t\<rparr>) w =
      (Inr 1, w\<lparr>orders := tbl_update r_client_order_id cid (\<lambda>_. ?r') (orders w)\<rparr>)"
    using r assms by (intro db_update_status_ok) (simp_all add: open_schema_def)
  ultimately show ?thesis
    using assms r upd
    by (simp add: update_status_def fetch_order_def assert_legal_def is_legal_edge bindE_def catchE_def
        hub_publish_def order_at_def)
qed

lemma set_reject_reason_at:
  assumes "open_schema env" and "order_at cid s q qs ids w"
  shows "\<exists>w'. set_reject_reason env cid reason w = (Inr (), w') \<and> order_at cid s q qs ids w'"
proof -
  from assms(2) obtain r where r: "find_order cid w = Some r" "r_status r = s" "(r_price r, r_quantity r) = q"
    by (auto simp: order_at_def)
  let ?r' = "r\<lparr>r_reject_reason := Some reason, r_updated_at := touched env (clock w) r\<rparr>"
  have "r_client_order_id ?r' = cid" using tbl_find_SomeD [OF r(1)] by simp
  note upd = find_order_tbl_update [OF r(1) this]
  have "db_update env cid (\<lambda>_. True) (\<lambda>r. r\<lparr>r_reject_reason := Some reason\<rparr>) w =
      (Inr 1, w\<lparr>orders := tbl_update r_client_order_id cid (\<lambda>_. ?r') (orders w)\<rparr>)"
    using r assms(1) by (simp add: db_update_def Let_def open_schema_def)
  with assms(2) upd r show ?thesis
    by (simp add: set_reject_reason_def bindE_def order_at_def)
qed

lemma apply_fill_at:
  assumes "open_schema env" and "order_at cid st q qs ids w" and "st \<in> {NEW, PARTIALLY_FILLED}"
    and "fid \<notin> set ids"
  shows "\<exists>w'. apply_fill env cid fid pr qty exec_ts tot w = (Inr (fill_status (sum_list qs + qty) tot), w') \<and>
    order_at cid (fill_status (sum_list qs + qty) tot) q (qs @ [qty]) (ids @ [fid]) w'"
proof -
  from assms(2) obtain r where r: "find_order cid w = Some r" "r_status r = st" "(r_price r, r_quantity r) = q"
    by (auto simp: order_at_def)
  have sum: "fill_status (sum_list qs + qty) tot = fill_status (sum_quantity (fills_of cid (fills w)) + qty) tot"
    using assms(2) by (simp add: order_at_def sum_quantity_def)
  have "tbl_find fill_key (cid, fid) (fills w) = None"
    using assms(2,4) by (simp add: fill_key_known order_at_def)
  from apply_fill_first [OF r(1) _ this assms(1) sum, of pr exec_ts] r assms(2,3) show ?thesis
    by (auto simp: order_at_def fills_of_def fill_row_def)
qed

lemma order_at_store: "same_store w w' \<Longrightarrow> order_at cid st q qs ids w' = order_at cid st q qs ids w"
  by (simp add: order_at_def same_store_def)

lemma replace_order_at:
  assumes "open_schema env" and "order_at cid PENDING_REPLACE q qs ids w"
  shows "\<exists>w'. replace_order env cid np nq w = (Inr (), w') \<and>
    order_at cid NEW (case np of Some p \<Rightarrow> Some p | None \<Rightarrow> fst q, case nq of Some n \<Rightarrow> n | None \<Rightarrow> snd q) qs ids w'"
proof -
  let ?f = "\<lambda>r. r\<lparr>r_status := NEW, r_price := (case np of Some p \<Rightarrow> Some p | None \<Rightarrow> r_price r),
                 r_quantity := (case nq of Some n \<Rightarrow> n | None \<Rightarrow> r_quantity r)\<rparr>"
  from assms(2) obtain r where r: "find_order cid w = Some r" "r_status r = PENDING_REPLACE" "(r_price r, r_quantity r) = q"
    by (auto simp: order_at_def)
  let ?r' = "(?f r)\<lparr>r_updated_at := touched env (clock w) r\<rparr>"
  have "r_client_order_id ?r' = cid" using tbl_find_SomeD [OF r(1)] by simp
  note upd = find_order_tbl_update [OF r(1) this]
  have "db_update env cid (\<lambda>r. r_status r = PENDING_REPLACE) ?f w =
      (Inr 1, w\<lparr>orders := tbl_update r_client_order_id cid (\<lambda>_. ?r') (orders w)\<rparr>)"
    using r assms(1) by (simp add: db_update_def Let_def open_schema_def)
  with assms(2) upd show ?thesis
    unfolding r(3) [symmetric] fst_conv snd_conv by (simp add: replace_order_def bindE_def hub_publish_def order_at_def)
qed

lemma update_status_done:
  assumes "update_status env cid st w = (Inr (), w')"
  shows "\<exists>r. find_order cid w' = Some r \<and> r_status r = st"
proof -
  from assms obtain r where row: "find_order cid w = Some r"
    by (auto simp: update_status_def fetch_order_def split: option.splits)
  show ?thesis
  proof (cases "r_status r = st")
    case True
    then show ?thesis using assms row by (simp add: update_status_def fetch_order_def)
  next
    case False
    from db_update_cases [of cid w env "\<lambda>_. True" "\<lambda>r. r\<lparr>r_status := st\<rparr>"] show ?thesis
    proof cases
      case (written r1 r')
      have "r_client_order_id r' = cid" using written tbl_find_SomeD [OF written(1)] by simp
      note upd = find_order_tbl_update [OF written(1) this]
      from assms row False written upd show ?thesis
        by (auto simp: update_status_def fetch_order_def bindE_def catchE_def hub_publish_def
            split: sum.splits prod.splits)
    qed (use assms row False in \<open>auto simp: update_status_def fetch_order_def bindE_def catchE_def split: sum.splits prod.splits\<close>)
  qed
qed

end
