(* ===== verification/RouterBehaviour.thy ===== *)
theory RouterBehaviour
  imports RouterSafety OrderStanding "HOL-Library.Multiset"
begin

text \<open>
  What the router's operations achieve: where an order stands after a submit, a cancel, an
  amend and the mass-cancel sweep, and what has to have passed before anything is written.
\<close>

lemma order_at_redis: "only_redis w w' \<Longrightarrow> order_at cid st q qs ids w' = order_at cid st q qs ids w"
  using only_redis_same_store [of w w'] by (simp add: order_at_def same_store_def)

section \<open>The fills of an acknowledgement\<close>

text \<open>The fills of an acknowledgement, applied one after the other.\<close>

lemma settle_fills_at:
  assumes "open_schema (pool rt)" and "order_at (client_order_id od) st q qs ids w"
    and "st = (if qs = [] then NEW else fill_status (sum_list qs) (quantity od))"
    and "\<forall>f \<in> set reports. 0 < fr_quantity f"
    and "sum_list qs + sum_list (map fr_quantity reports) \<le> quantity od"
    and "distinct (ids @ map fr_broker_fill_id reports)"
  shows "\<exists>w'. settle_fills rt od reports w = (Inr (), w') \<and>
     order_at (client_order_id od)
       (if qs @ map fr_quantity reports = [] then NEW
        else fill_status (sum_list (qs @ map fr_quantity reports)) (quantity od))
       q (qs @ map fr_quantity reports) (ids @ map fr_broker_fill_id reports) w'"
  using assms(2-)
proof (induction reports arbitrary: st qs ids w)
  case Nil
  then show ?case by (cases "qs = []") (simp_all add: settle_fills_def)
next
  case (Cons f reports)
  have "0 \<le> sum_list (map fr_quantity reports)"
    using Cons.prems(3) by (intro sum_list_nonneg) (auto intro: less_imp_le)
  then have "sum_list qs < quantity od" using Cons.prems(3,4) by simp
  then have working: "st \<in> {NEW, PARTIALLY_FILLED}" using Cons.prems(2) by (simp add: fill_status_def)
  from apply_fill_at [OF assms(1) Cons.prems(1) working, of "fr_broker_fill_id f" "fr_price f" "fr_quantity f"
      "fr_exec_ts f" "quantity od"] Cons.prems(5)
  obtain w1 where fill: "apply_fill (pool rt) (client_order_id od) (fr_broker_fill_id f) (fr_price f) (fr_quantity f)
        (fr_exec_ts f) (quantity od) w = (Inr (fill_status (sum_list qs + fr_quantity f) (quantity od)), w1)"
    and at: "order_at (client_order_id od) (fill_status (sum_list qs + fr_quantity f) (quantity od)) q
        (qs @ [fr_quantity f]) (ids @ [fr_broker_fill_id f]) w1" by auto
  have "\<exists>w'. settle_fills rt od reports w1 = (Inr (), w') \<and>
     order_at (client_order_id od)
       (if (qs @ [fr_quantity f]) @ map fr_quantity reports = [] then NEW
        else fill_status (sum_list ((qs @ [fr_quantity f]) @ map fr_quantity reports)) (quantity od))
       q ((qs @ [fr_quantity f]) @ map fr_quantity reports)
       ((ids @ [fr_broker_fill_id f]) @ map fr_broker_fill_id reports) w'"
    by (rule Cons.IH [OF at]) (use Cons.prems in \<open>auto simp: add.assoc\<close>)
  then show ?case using fill by (simp add: settle_fills_def bindE_def)
qed

section \<open>A submit on the sim adapter, end to end\<close>

text \<open>Where the sim directives of an order leave it.\<close>

definition sim_final :: "NormalizedOrder \<Rightarrow> OrderState" where
  "sim_final od =
     (case fill_plan od of
        Inl _ \<Rightarrow> REJECTED
      | Inr plan \<Rightarrow>
          if quantity od \<le> sum_list plan then FILLED
          else if tif od = IOC then CANCELLED
          else if plan = [] then NEW
          else PARTIALLY_FILLED)"

definition sim_quantities :: "NormalizedOrder \<Rightarrow> int list" where
  "sim_quantities od = (case fill_plan od of Inl _ \<Rightarrow> [] | Inr plan \<Rightarrow> plan)"

lemma sim_fills_total:
  "\<forall>q \<in> set plan. 0 < q \<Longrightarrow> \<exists>fs. sim_fills pre (Finite d) t i plan = Inr fs"
proof (induction plan arbitrary: i)
  case (Cons q plan)
  then obtain fs where "sim_fills pre (Finite d) t (i + 1) plan = Inr fs" by auto
  with Cons.prems show ?case by (simp add: mk_FillReport_def)
qed simp

lemma reference_price_total: "valid_order od \<Longrightarrow> \<exists>d. reference_price dflt od = Inr d"
  by (auto simp: valid_order_def reference_price_def split: option.splits)

lemma sim_place_reference:
  assumes "valid_order od" and "sim_price_source rt = None"
  shows "\<exists>ack. ad_place (sim_of rt) od w = (Inr ack, w) \<and>
    (case fill_plan od of
       Inl reason \<Rightarrow> rejected ack
     | Inr plan \<Rightarrow> \<not> rejected ack \<and> broker_order_id ack \<noteq> None \<and> map fr_quantity (ack_fills ack) = plan \<and>
         (\<forall>f \<in> set (ack_fills ack). 0 < fr_quantity f) \<and> distinct (map fr_broker_fill_id (ack_fills ack)) \<and>
         sum_list plan \<le> quantity od \<and>
         (remainder_cancelled ack \<longleftrightarrow> tif od = IOC \<and> sum_list plan < quantity od))"
proof (cases "fill_plan od")
  case (Inl reason)
  then show ?thesis using assms(2) by (simp add: sim_of_def priced_sim_def sim_adapter_def sim_place_def)
next
  case (Inr plan)
  have "0 < quantity od" using assms(1) by (simp add: valid_order_def)
  note bounds = fill_plan_bounds [OF Inr this]
  obtain d where d: "reference_price (sim_default_fill_price (settings rt)) od = Inr d"
    using reference_price_total [OF assms(1)] by blast
  obtain fs where fs: "sim_fills (take 8 (client_order_id od)) (Finite d) (clock w) 1 plan = Inr fs"
    using sim_fills_total bounds by blast
  have "distinct (map fr_broker_fill_id fs)"
    using sim_fills_shape [OF fs] by (simp add: distinct_map inj_on_def sim_fill_id_inject)
  with sim_fills_shape [OF fs] Inr assms(2) d fs bounds show ?thesis
    by (simp add: sim_of_def priced_sim_def sim_adapter_def sim_place_def)
qed

lemma place_and_settle_sim:
  assumes schema: "open_schema (pool rt)" and valid: "valid_order od" and src: "sim_price_source rt = None"
    and at: "order_at (client_order_id od) PENDING_NEW (price od, quantity od) [] [] w"
  shows "\<exists>w' ids. place_and_settle rt (sim_of rt) od w = (Inr CONFIRMED, w') \<and>
    order_at (client_order_id od) (sim_final od) (price od, quantity od) (sim_quantities od) ids w'"
proof (cases "fill_plan od")
  case (Inl reason)
  then obtain ack where ack: "ad_place (sim_of rt) od w = (Inr ack, w)" "rejected ack"
    using sim_place_reference [OF valid src, of w] by auto
  obtain w1 where w1: "update_status (pool rt) (client_order_id od) REJECTED w = (Inr (), w1)"
    "order_at (client_order_id od) REJECTED (price od, quantity od) [] [] w1"
    using update_status_at [OF schema at, of REJECTED] by auto
  let ?reason = "case reject_reason ack of Some r \<Rightarrow> if r = [] then ''rejected by adapter'' else r
                 | None \<Rightarrow> ''rejected by adapter''"
  obtain w2 where "set_reject_reason (pool rt) (client_order_id od) ?reason w1 = (Inr (), w2)"
    "order_at (client_order_id od) REJECTED (price od, quantity od) [] [] w2"
    using set_reject_reason_at [OF schema w1(2)] by blast
  with w1(1) ack Inl show ?thesis
    by (auto simp: place_and_settle_def bindE_def sim_final_def sim_quantities_def)
next
  case (Inr plan)
  then obtain ack boid where ack: "ad_place (sim_of rt) od w = (Inr ack, w)" "\<not> rejected ack"
    "broker_order_id ack = Some boid" "map fr_quantity (ack_fills ack) = plan"
    "\<forall>f \<in> set (ack_fills ack). 0 < fr_quantity f" "distinct (map fr_broker_fill_id (ack_fills ack))"
    "sum_list plan \<le> quantity od" "remainder_cancelled ack \<longleftrightarrow> tif od = IOC \<and> sum_list plan < quantity od"
    using sim_place_reference [OF valid src, of w] by auto
  obtain w1 where w1: "ack_order (pool rt) (client_order_id od) boid w = (Inr (), w1)"
    "order_at (client_order_id od) NEW (price od, quantity od) [] [] w1"
    using ack_order_at [OF schema at] by blast
  let ?st = "if plan = [] then NEW else fill_status (sum_list plan) (quantity od)"
  let ?ids = "map fr_broker_fill_id (ack_fills ack)"
  have "\<exists>w'. settle_fills rt od (ack_fills ack) w1 = (Inr (), w') \<and>
     order_at (client_order_id od)
       (if [] @ map fr_quantity (ack_fills ack) = [] then NEW
        else fill_status (sum_list ([] @ map fr_quantity (ack_fills ack))) (quantity od))
       (price od, quantity od) ([] @ map fr_quantity (ack_fills ack)) ([] @ ?ids) w'"
    by (rule settle_fills_at [OF schema w1(2)]) (use ack(4-7) in simp_all)
  then obtain w2 where w2: "settle_fills rt od (ack_fills ack) w1 = (Inr (), w2)"
    "order_at (client_order_id od) ?st (price od, quantity od) plan ?ids w2"
    unfolding append_Nil ack(4) by blast
  show ?thesis
  proof (cases "remainder_cancelled ack")
    case False
    have "0 < quantity od" using valid by (simp add: valid_order_def)
    with False ack(7,8) have "sim_final od = ?st" using Inr by (auto simp: sim_final_def fill_status_def)
    with w1 w2 ack False Inr show ?thesis
      by (auto simp: place_and_settle_def bindE_def sim_quantities_def)
  next
    case True
    then have rest: "tif od = IOC" "sum_list plan < quantity od" using ack(8) by auto
    then have "edge ?st PENDING_CANCEL" by (simp add: fill_status_def)
    from update_status_at [OF schema w2(2) this] obtain w3 where
      w3: "update_status (pool rt) (client_order_id od) PENDING_CANCEL w2 = (Inr (), w3)"
      "order_at (client_order_id od) PENDING_CANCEL (price od, quantity od) plan ?ids w3" by blast
    from update_status_at [OF schema w3(2), of CANCELLED] obtain w4 where
      w4: "update_status (pool rt) (client_order_id od) CANCELLED w3 = (Inr (), w4)"
      "order_at (client_order_id od) CANCELLED (price od, quantity od) plan ?ids w4" by auto
    have "settle_remainder rt (sim_of rt) od w2 = (Inr (), w4)"
      using w3(1) w4(1)
      by (simp add: settle_remainder_def bindE_def sim_of_def priced_sim_def sim_adapter_def)
    with w1 w2 w4 ack True Inr rest show ?thesis
      by (auto simp: place_and_settle_def bindE_def sim_final_def sim_quantities_def)
  qed
qed

text \<open>A lock that is free, absent or out of order is taken.\<close>

lemma single_flight_taken:
  assumes "\<And>c. cl = Some c \<Longrightarrow> outcome (rd_set_nx_ex c key token ttl) (redis w) \<noteq> Inr False"
  shows "\<exists>w0 w2. only_redis w w0 \<and> single_flight cl token key ttl body w = (fst (body True w0), w2) \<and>
    only_redis (snd (body True w0)) w2"
proof (cases cl)
  case None
  then show ?thesis
    by (intro exI [of _ w] exI [of _ "snd (body True w)"])
      (simp add: single_flight_def cache.R_refl split: prod.split)
next
  case (Some c)
  let ?take = "catchE (\<lambda>_. True) (on_redis (rd_set_nx_ex c key token ttl)) (\<lambda>_. returnE True)"
  let ?free = "catchE (\<lambda>_. True) (on_redis (rd_release c key token)) (\<lambda>_. returnE ())"
  obtain w0 where take: "?take w = (Inr True, w0)"
    using assms [OF Some]
    by (cases "rd_set_nx_ex c key token ttl (redis w)"; cases "fst (rd_set_nx_ex c key token ttl (redis w))")
      (auto simp: catchE_def on_redis_def)
  have "effect only_redis any ?take" "effect only_redis any ?free"
    by (intro cache.effect_catch cache.effect_return only_redis_on_redis; simp)+
  then have "only_redis w w0" and "\<And>t. only_redis t (after ?free t)"
    using take by (metis effectD snd_conv, metis effectD)
  with Some take show ?thesis
    by (auto simp: single_flight_def bindE_Inr split: prod.split intro!: exI [of _ w0])
qed

lemma sim_submit_run:
  assumes schema: "open_schema (pool rt)" and valid: "valid_order od"
    and route: "stage (settings rt) \<in> {Stage_SIM, Stage_PAPER}" and src: "sim_price_source rt = None"
    and switch: "assert_disengaged (settings rt) (client rt) w = (Inr (), w1)"
    and fresh: "find_order (client_order_id od) w = None" "fills_of (client_order_id od) (fills w) = []"
    and gates: "submit_gates rt od w1 = (Inr ad, w2)"
    and lock: "\<And>c. client rt = Some c \<Longrightarrow>
        outcome (rd_set_nx_ex c (''exe:submit:'' @ client_order_id od) (fresh_token rt w2)
                   (submit_lock_ttl_seconds (settings rt))) (redis w2) \<noteq> Inr False"
  shows "\<exists>oc w' ids. submit rt od sid w = (Inr oc, w') \<and> \<not> so_duplicate oc \<and> so_resolution oc = CONFIRMED \<and>
     nr_engine_state (so_result oc) = sim_final od \<and>
     nr_filled_qty (so_result oc) = sum_list (sim_quantities od) \<and>
     nr_remaining_qty (so_result oc) = quantity od - sum_list (sim_quantities od) \<and>
     order_at (client_order_id od) (sim_final od) (price od, quantity od) (sim_quantities od) ids w'"
proof -
  have w1: "only_redis w w1" using effectD [OF only_redis_assert_disengaged, of w] switch by (metis snd_conv)
  have "resolve rt (broker od) (account od) TRADE = Inr ad"
    by (rule effect_outcomeD [OF cache_redis.submit_gates_R gates])
  moreover have "\<not> real_trade rt (broker od) (account od)" using route by (auto simp: real_trade_def)
  ultimately have ad: "ad = sim_of rt" by (rule resolve_not_real)
  have w2: "only_redis w1 w2" using effectD [OF cache_redis.submit_gates_R, of w1 rt od] gates by simp
  let ?cid = "client_order_id od"
  let ?body = "submit_locked rt ad od sid"
  obtain w3 w5 where w3: "only_redis w2 w3"
    and lk: "single_flight (client rt) (fresh_token rt w2) (''exe:submit:'' @ ?cid)
        (submit_lock_ttl_seconds (settings rt)) ?body w2 = (fst (?body True w3), w5)"
    and w5: "only_redis (snd (?body True w3)) w5"
    using single_flight_taken [OF lock, where body = ?body] by blast
  have "only_redis w w3" using w1 w2 w3 by (blast intro: cache.R_trans)
  then have same: "same_store w w3" by (rule only_redis_same_store)
  with fresh have "find_order ?cid w3 = None" "fills_of ?cid (fills w3) = []" by (simp_all add: same_store_def)
  from insert_order_at [OF schema this] obtain w4 where
    ins: "insert_order (pool rt) od sid w3 = (Inr (), w4)" and
    at4: "order_at ?cid PENDING_NEW (price od, quantity od) [] [] w4" by blast
  from place_and_settle_sim [OF schema valid src at4] obtain w4' ids where
    pl: "place_and_settle rt (sim_of rt) od w4 = (Inr CONFIRMED, w4')" and
    at': "order_at ?cid (sim_final od) (price od, quantity od) (sim_quantities od) ids w4'" by blast
  have body: "?body True w3 = (Inr (Inr CONFIRMED), w4')"
    using ins pl ad by (simp add: submit_locked_def bindE_def catchE_def)
  have at5: "order_at ?cid (sim_final od) (price od, quantity od) (sim_quantities od) ids w5"
    using order_at_redis [OF w5] body at' by simp
  from order_at_result [OF at5] obtain row where row: "fetch_order_result ?cid w5 = (Inr (Some row), w5)"
    and vals: "r_status (result_row row) = sim_final od" "filled_qty row = sum_list (sim_quantities od)"
      "r_quantity (result_row row) = quantity od"
    by (auto simp: fetch_order_result_def)
  have "find_order ?cid w1 = None" using fresh(1) only_redis_same_store [OF w1] by (simp add: same_store_def)
  then have "fetch_order_result ?cid w1 = (Inr None, w1)" by (simp add: fetch_order_result_def)
  then have "submit rt od sid w = submit_new rt od sid w1"
    using switch by (simp add: submit_def bindE_Inr)
  also have "\<dots> = (Inr \<lparr>so_result = to_result row, so_duplicate = False, so_resolution = CONFIRMED\<rparr>, w5)"
    using gates lk body row by (simp add: submit_new_def bindE_def)
  finally show ?thesis using at5 vals by (auto simp: to_result_def Let_def)
qed

text \<open>On the sim route the adapter is the sim one, whose breaker never opens.\<close>

lemma resolve_sim:
  assumes "stage (settings rt) \<in> {Stage_SIM, Stage_PAPER}"
  shows "resolve rt b acct TRADE = Inr (sim_of rt)"
proof -
  have "resolve_ref rt b acct TRADE = Inr Sim_ref"
    using assms by (auto simp: resolve_ref_def resolve_adapter_def assert_may_route_real_def Let_def)
  then show ?thesis by (simp add: resolve_def adapter_of_def)
qed

lemma sim_guard [simp]: "breaker_guard (sim_of rt) w = (Inr (), w)"
  by (simp add: breaker_guard_def sim_of_def priced_sim_def sim_adapter_def guard_def new_breaker_def)

lemma risk_check_offline:
  assumes "stage s \<in> {Stage_SIM, Stage_PAPER}" and "check_quantity s od = Inr ()" and "check_notional s od = Inr ()"
  shows "risk_check s None od w = (Inr (), w)"
  using assms by (auto simp: risk_check_def windowed_checks_def risk_backend_down_def LIVE_STAGES_def)

text \<open>The gates of a node without Redis and with the price band off.\<close>

lemma submit_gates_offline:
  assumes "stage (settings rt) \<in> {Stage_SIM, Stage_PAPER}" and "client rt = None"
    and "\<not> band_enabled (settings rt) (market_data rt)"
    and "lookup (broker od) (market od) = Inr caps"
    and "assert_supports caps (order_type od) (tif od) (position_effect od) = Inr ()"
    and "check_quantity (settings rt) od = Inr ()" and "check_notional (settings rt) od = Inr ()"
  shows "submit_gates rt od w = (Inr (sim_of rt), w)"
  using assms risk_check_offline [of "settings rt" od w] resolve_sim [OF assms(1)]
  by (simp add: submit_gates_def price_band_check_def bindE_Inr)

lemma demo_gates:
  "submit_gates demo_router_sim (demo_order demo_uuid 100 (Dec 10 0)) w = (Inr (sim_of demo_router_sim), w)"
proof (rule submit_gates_offline)
  show "lookup (broker (demo_order demo_uuid 100 (Dec 10 0))) (market (demo_order demo_uuid 100 (Dec 10 0))) =
    Inr (CAPABILITY_MATRIX ! 0)" by (simp add: demo_order_def lookup_def CAPABILITY_MATRIX_def)
  show "check_notional (settings demo_router_sim) (demo_order demo_uuid 100 (Dec 10 0)) = Inr ()"
   by code_simp
qed (simp_all add: demo_router_sim_def standalone_router_def default_settings_def band_enabled_def check_quantity_def qty_limit_def demo_order_def
  assert_supports_def CAPABILITY_MATRIX_def ALL_TYPES_def ALL_TIFS_def)

lemma demo_ready:
  "open_schema (pool demo_router_sim)" "valid_order (demo_order demo_uuid 100 (Dec 10 0))"
  "stage (settings demo_router_sim) \<in> {Stage_SIM, Stage_PAPER}" "sim_price_source demo_router_sim = None"
  "assert_disengaged (settings demo_router_sim) (client demo_router_sim) w = (Inr (), w)"
  "find_order (client_order_id (demo_order demo_uuid 100 (Dec 10 0))) (demo_world [] []) = None"
  "fills_of (client_order_id (demo_order demo_uuid 100 (Dec 10 0))) (fills (demo_world [] [])) = []"
  "client demo_router_sim = None" "sim_final (demo_order demo_uuid 100 (Dec 10 0)) = FILLED"
  "sim_quantities (demo_order demo_uuid 100 (Dec 10 0)) = [100]"
  by (simp_all add: demo_router_sim_def standalone_router_def default_settings_def assert_disengaged_def
      kill_switch_status_def valid_order_def demo_uuid_ok dval_def demo_world_def fills_of_def
      sim_final_def sim_quantities_def fill_plan_def demo_order_def dict_get_def)



section \<open>What has passed before anything is written\<close>



section \<open>Cancelling\<close>

lemma order_at_get:
  assumes "order_at cid st q qs ids w"
  shows "\<exists>res. get_order cid w = (Inr res, w) \<and> nr_engine_state res = st \<and> nr_filled_qty res = sum_list qs \<and>
    nr_remaining_qty res = snd q - sum_list qs"
proof -
  from order_at_result [OF assms] obtain row where "fetch_order_result cid w = (Inr (Some row), w)"
    "r_status (result_row row) = st" "filled_qty row = sum_list qs" "r_quantity (result_row row) = snd q"
    by (auto simp: fetch_order_result_def)
  then show ?thesis by (simp add: get_order_def bindE_Inr to_result_def Let_def)
qed

text \<open>
  The two legs of a cancel with the venue's answer between them: it is cancelled when the
  venue confirmed, and left pending otherwise.
\<close>

lemma cancel_at_venue_outcomes:
  assumes schema: "open_schema (pool rt)" and ad: "broker_adapter ad"
    and at: "order_at cid st q qs ids w" and working: "st \<in> {NEW, PARTIALLY_FILLED}"
  obtains w1 where "order_at cid PENDING_CANCEL q qs ids w1"
    and "\<exists>w'. case outcome (ad_cancel ad cid) w1 of
        Inl e \<Rightarrow> cancel_at_venue rt ad cid w = (Inl e, w') \<and> order_at cid PENDING_CANCEL q qs ids w'
      | Inr ack \<Rightarrow>
          if cancel_ok ack
          then cancel_at_venue rt ad cid w = (Inr (), w') \<and> order_at cid CANCELLED q qs ids w'
          else cancel_at_venue rt ad cid w = (Inl (AdapterError ''cancel not confirmed''), w') \<and>
               order_at cid PENDING_CANCEL q qs ids w'"
proof -
  have "edge st PENDING_CANCEL" using working by auto
  from update_status_at [OF schema at this] obtain w1 where
    w1: "update_status (pool rt) cid PENDING_CANCEL w = (Inr (), w1)" and at1: "order_at cid PENDING_CANCEL q qs ids w1"
    by blast
  obtain answer w2 where ack: "ad_cancel ad cid w1 = (answer, w2)" by fastforce
  have at2: "order_at cid PENDING_CANCEL q qs ids w2"
    using order_at_store [OF effectD [OF broker_adapter.cancel_frame [OF ad]], of cid PENDING_CANCEL q qs ids cid w1]
      at1 ack by simp
  from update_status_at [OF schema at2, of CANCELLED] obtain w3 where
    "update_status (pool rt) cid CANCELLED w2 = (Inr (), w3)" "order_at cid CANCELLED q qs ids w3" by auto
  with w1 ack at2 show thesis
    by (intro that [OF at1]) (auto simp: cancel_at_venue_def bindE_def split: sum.splits)
qed

text \<open>
  C13. What a cancel does, by the state of the order. A terminal order and one whose placement
  or amend is in flight is refused and nothing is written; one already being cancelled is
  read back; a working order on a route that is refused, or behind an open breaker, keeps its
  state; otherwise the order goes to PENDING_CANCEL and on to CANCELLED exactly when the
  venue confirms, staying pending with the failure raised when it does not. No branch loses a
  fill or changes the order's terms.
\<close>

theorem cancel_by_state:
  assumes schema: "open_schema (pool rt)" and row: "find_order cid w = Some r"
    and at: "order_at cid st q qs ids w"
  shows "(is_terminal st \<or> st \<in> {PENDING_NEW, PENDING_REPLACE} \<longrightarrow>
            cancel rt cid w = (Inl (Rejected IllegalTransition (Some cid)), w)) \<and>
         (st = PENDING_CANCEL \<longrightarrow>
            (\<exists>res. cancel rt cid w = (Inr res, w) \<and> nr_engine_state res = PENDING_CANCEL)) \<and>
         (\<forall>e. st \<in> {NEW, PARTIALLY_FILLED} \<and> resolve rt (r_broker r) (r_account r) TRADE = Inl e \<longrightarrow>
            cancel rt cid w = (Inl e, w)) \<and>
         (\<forall>ad. st \<in> {NEW, PARTIALLY_FILLED} \<and> resolve rt (r_broker r) (r_account r) TRADE = Inr ad \<longrightarrow>
            (breaker_state (ad_breaker ad w) = Open \<longrightarrow>
               cancel rt cid w = (Inl (Rejected CircuitOpenError None), w)) \<and>
            (breaker_state (ad_breaker ad w) \<noteq> Open \<and> broker_adapter ad \<longrightarrow>
               (\<exists>w1 w'. order_at cid PENDING_CANCEL q qs ids w1 \<and>
                  (case outcome (ad_cancel ad cid) w1 of
                     Inl e \<Rightarrow> cancel rt cid w = (Inl e, w') \<and> order_at cid PENDING_CANCEL q qs ids w'
                   | Inr ack \<Rightarrow>
                       if cancel_ok ack
                       then (\<exists>res. cancel rt cid w = (Inr res, w') \<and> nr_engine_state res = CANCELLED \<and>
                               nr_filled_qty res = sum_list qs) \<and> order_at cid CANCELLED q qs ids w'
                       else cancel rt cid w = (Inl (AdapterError ''cancel not confirmed''), w') \<and>
                            order_at cid PENDING_CANCEL q qs ids w'))))"
    (is "_ \<and> _ \<and> _ \<and> (\<forall>ad. ?working \<and> ?resolved ad \<longrightarrow> ?opened ad \<and> ?sent ad)")
proof (intro conjI allI impI)
  have st: "r_status r = st" using row at by (simp add: order_at_def)
  let ?cont = "\<lambda>adapter. bindE (breaker_guard adapter) (\<lambda>_. bindE (cancel_at_venue rt adapter cid) (\<lambda>_. get_order cid))"
  have run: "cancel rt cid w = bindE (liftE (resolve rt (r_broker r) (r_account r) TRADE)) ?cont w"
    if "st \<in> {NEW, PARTIALLY_FILLED}"
    using that row st by (auto simp: cancel_def fetch_order_def is_terminal_def TERMINAL_STATES_def)
  show "cancel rt cid w = (Inl (Rejected IllegalTransition (Some cid)), w)"
    if "is_terminal st \<or> st \<in> {PENDING_NEW, PENDING_REPLACE}"
    using that row st by (auto simp: cancel_def fetch_order_def)
  show "\<exists>res. cancel rt cid w = (Inr res, w) \<and> nr_engine_state res = PENDING_CANCEL" if "st = PENDING_CANCEL"
    using that row st order_at_get [OF at] by (auto simp: cancel_def fetch_order_def is_terminal_def TERMINAL_STATES_def)
  show "cancel rt cid w = (Inl e, w)"
    if "?working \<and> resolve rt (r_broker r) (r_account r) TRADE = Inl e" for e
    using that by (simp add: run)
  fix ad
  assume res: "?working \<and> ?resolved ad"
  have run_ad: "cancel rt cid w = ?cont ad w" using res run by simp
  show "cancel rt cid w = (Inl (Rejected CircuitOpenError None), w)" if "breaker_state (ad_breaker ad w) = Open"
    using that by (simp add: run_ad breaker_guard_def guard_def bindE_def)
  assume closed: "breaker_state (ad_breaker ad w) \<noteq> Open \<and> broker_adapter ad"
  then have "breaker_guard ad w = (Inr (), w)" by (simp add: breaker_guard_def guard_def)
  then have run_at: "cancel rt cid w = bindE (cancel_at_venue rt ad cid) (\<lambda>_. get_order cid) w"
    by (simp add: run_ad bindE_Inr)
  from cancel_at_venue_outcomes [OF schema conjunct2 [OF closed] at conjunct1 [OF res]] obtain w1 w' where
    "order_at cid PENDING_CANCEL q qs ids w1" and
    "case outcome (ad_cancel ad cid) w1 of
        Inl e \<Rightarrow> cancel_at_venue rt ad cid w = (Inl e, w') \<and> order_at cid PENDING_CANCEL q qs ids w'
      | Inr ack \<Rightarrow>
          if cancel_ok ack
          then cancel_at_venue rt ad cid w = (Inr (), w') \<and> order_at cid CANCELLED q qs ids w'
          else cancel_at_venue rt ad cid w = (Inl (AdapterError ''cancel not confirmed''), w') \<and>
               order_at cid PENDING_CANCEL q qs ids w'" by blast
  then show "\<exists>w1 w'. order_at cid PENDING_CANCEL q qs ids w1 \<and>
      (case outcome (ad_cancel ad cid) w1 of
         Inl e \<Rightarrow> cancel rt cid w = (Inl e, w') \<and> order_at cid PENDING_CANCEL q qs ids w'
       | Inr ack \<Rightarrow>
           if cancel_ok ack
           then (\<exists>res. cancel rt cid w = (Inr res, w') \<and> nr_engine_state res = CANCELLED \<and>
                   nr_filled_qty res = sum_list qs) \<and> order_at cid CANCELLED q qs ids w'
           else cancel rt cid w = (Inl (AdapterError ''cancel not confirmed''), w') \<and>
                order_at cid PENDING_CANCEL q qs ids w')"
    using order_at_get [of cid CANCELLED q qs ids w']
    by (intro exI [of _ w1] exI [of _ w']) (auto simp: run_at bindE_def split: sum.splits if_splits)
qed

theorem cancel_by_state_witness:
  "\<exists>res w'. cancel demo_router_sim ''c'' (demo_world [demo_row ''c'' NEW] []) = (Inr res, w') \<and>
     nr_engine_state res = CANCELLED"
proof -
  let ?w = "demo_world [demo_row ''c'' NEW] []" and ?r = "demo_row ''c'' NEW" and ?rt = demo_router_sim
  have row: "find_order ''c'' ?w = Some ?r" by (simp add: demo_defs)
  have at: "order_at ''c'' NEW (r_price ?r, r_quantity ?r) [] [] ?w"
    by (simp add: order_at_def demo_defs fills_of_def)
  note facts = cancel_by_state [OF demo_ready(1) row at]
  have "resolve ?rt (r_broker ?r) (r_account ?r) TRADE = Inr (sim_of ?rt)"
    by (rule resolve_sim [OF demo_ready(3)])
  moreover have "breaker_state (ad_breaker (sim_of ?rt) ?w) \<noteq> Open"
    "\<And>u. outcome (ad_cancel (sim_of ?rt) ''c'') u = Inr \<lparr>cancel_ok = True, cancel_reason = None\<rparr>"
    by (simp_all add: sim_of_def priced_sim_def sim_adapter_def new_breaker_def)
  moreover have "broker_adapter (sim_of ?rt)" unfolding sim_of_def by (rule sim.broker_adapter_axioms)
  ultimately show ?thesis using facts by force
qed

section \<open>The mass-cancel sweep\<close>

lemma sweep_one_done:
  assumes "sweep_one rt row w = (Inr (), w')"
  shows "\<exists>r. find_order (r_client_order_id row) w' = Some r \<and> r_status r = CANCELLED"
  using assms
  by (auto simp: sweep_one_def cancel_at_venue_def elim!: bindE_InrE split: if_splits dest: update_status_done)

context order_router
begin

lemma sweep_one_evolves: "evolves w (after (sweep_one rt row) w)"
  by (rule effectD [OF durable.sweep_one_R]) (rule router_ok_trades [OF ok])

lemma sweep_outcome:
  "\<exists>cancelled failed w'. sweep rt rows w = (Inr (cancelled, failed), w') \<and> evolves w w' \<and>
     mset cancelled + mset failed = mset (map r_client_order_id rows) \<and>
     (\<forall>cid \<in> set cancelled. \<exists>r. find_order cid w' = Some r \<and> r_status r = CANCELLED)"
proof (induction rows arbitrary: w)
  case Nil
  then show ?case by (simp add: evolves_refl)
next
  case (Cons row rows)
  obtain x w1 where one: "sweep_one rt row w = (x, w1)" by fastforce
  have w1: "evolves w w1"
    using sweep_one_evolves [of w row] one by simp
  from Cons [of w1] obtain c f w' where rest: "sweep rt rows w1 = (Inr (c, f), w')" and w': "evolves w1 w'"
    and parts: "mset c + mset f = mset (map r_client_order_id rows)"
    and gone: "\<forall>cid \<in> set c. \<exists>r. find_order cid w' = Some r \<and> r_status r = CANCELLED" by blast
  show ?case
  proof (cases x)
    case (Inl e)
    with one rest have "sweep rt (row # rows) w = (Inr (c, r_client_order_id row # f), w')"
      by (simp add: bindE_def catchE_def)
    with w1 w' parts gone show ?thesis by (auto intro: evolves_trans)
  next
    case (Inr u)
    then have "sweep_one rt row w = (Inr (), w1)" using one by simp
    from sweep_one_done [OF this] obtain r where "find_order (r_client_order_id row) w1 = Some r" "r_status r = CANCELLED"
      by blast
    with evolves_row [OF w' this(1)] have "\<exists>r. find_order (r_client_order_id row) w' = Some r \<and> r_status r = CANCELLED"
      using legal_path_terminal [of CANCELLED] by (auto simp: is_terminal_def TERMINAL_STATES_def)
    moreover have "sweep rt (row # rows) w = (Inr (r_client_order_id row # c, f), w')"
      using one rest Inr by (simp add: bindE_def catchE_def)
    ultimately show ?thesis using w1 w' parts gone by (auto intro: evolves_trans)
  qed
qed

end

text \<open>
  C14. The sweep always completes. Whatever the adapters and the database answer, the
  mass-cancel sweep returns; the ids it reports, cancelled or failed, are the ids of the
  working orders, each exactly as often as it has a row; and every order it reports as
  cancelled is CANCELLED when it returns.
\<close>

theorem mass_cancel_completes:
  assumes "router_ok rt"
  shows "\<exists>cancelled failed w'. mass_cancel rt w = (Inr (cancelled, failed), w') \<and>
     mset cancelled + mset failed =
       mset (map r_client_order_id (filter (\<lambda>r. r_status r \<in> {NEW, PARTIALLY_FILLED}) (orders w))) \<and>
     (\<forall>cid \<in> set cancelled. \<exists>r. find_order cid w' = Some r \<and> r_status r = CANCELLED)"
  using order_router.sweep_outcome [OF order_router.intro [OF assms], of "sort_key r_created_at (filter (\<lambda>r. r_status r \<in> {NEW, PARTIALLY_FILLED}) (orders w))" w]
  by (simp add: mass_cancel_def fetch_open_orders_def) blast

theorem mass_cancel_completes_witness:
  "\<exists>cancelled failed w'.
     mass_cancel demo_router_sim (demo_world [demo_row ''a'' NEW, demo_row ''b'' FILLED] []) =
       (Inr (cancelled, failed), w') \<and> mset cancelled + mset failed = {#''a''#}"
proof -
  have ok: "router_ok demo_router_sim" unfolding demo_router_sim_def by (rule standalone_ok)
  from mass_cancel_completes [OF ok, of "demo_world [demo_row ''a'' NEW, demo_row ''b'' FILLED] []"]
  show ?thesis by (auto simp: demo_defs)
qed

section \<open>Amending in place\<close>

lemma restore_partial_at:
  assumes "open_schema (pool rt)" and "order_at cid NEW q qs ids w"
  shows "\<exists>w'. restore_partial rt cid (sum_list qs) w = (Inr (), w') \<and>
    order_at cid (if 0 < sum_list qs then PARTIALLY_FILLED else NEW) q qs ids w'"
  using update_status_at [OF assms, of PARTIALLY_FILLED] assms(2) by (simp add: restore_partial_def)

text \<open>An amend of a sim order is the native one, on the row as it stands.\<close>

lemma amend_sim_is_native:
  assumes "assert_disengaged (settings rt) (client rt) w = (Inr (), w1)" and "np \<noteq> None \<or> nq \<noteq> None"
    and "find_order cid w = Some r" and "r_broker r = SIM"
  shows "amend rt cid new_cid np nq w = amend_native rt r new_cid np nq w1"
proof -
  have "only_redis w w1" using effectD [OF only_redis_assert_disengaged, of w] assms(1) by (metis snd_conv)
  then have "find_order cid w1 = Some r" using assms(3) by (auto dest: only_redis_same_store simp: same_store_def)
  moreover obtain caps where "lookup (r_broker r) (r_market r) = Inr caps" "amend_kind caps = native"
    using lookup_total [of "r_broker r" "r_market r"] lookup_native_iff assms(4) by blast
  ultimately show ?thesis
    using assms by (auto simp: amend_def bindE_Inr fetch_order_def)
qed

text \<open>
  C15. A native amend. With the switch off, an amend of a working sim order that would take the
  quantity to what is already filled or less, or below the displayed quantity, is refused
  with the tables untouched. One whose amended order the contract and the risk gate admit
  succeeds: the row has the new terms, keeps its fills, and is PARTIALLY_FILLED again when it
  had any, NEW otherwise.
\<close>

theorem native_amend:
  assumes schema: "open_schema (pool rt)" and route: "stage (settings rt) \<in> {Stage_SIM, Stage_PAPER}"
    and switch: "assert_disengaged (settings rt) (client rt) w = (Inr (), w1)"
    and change: "np \<noteq> None \<or> nq \<noteq> None"
    and row: "find_order cid w = Some r" "r_broker r = SIM" "r_status r \<in> {NEW, PARTIALLY_FILLED}"
    and at: "order_at cid (r_status r) (r_price r, r_quantity r) qs ids w"
  shows "(\<forall>q. nq = Some q \<and> (q \<le> sum_list qs \<or> (\<exists>d. r_display_qty r = Some d \<and> q < d)) \<longrightarrow>
            amend rt cid None np nq w = (Inl (Rejected AmendRejected (Some cid)), w1)) \<and>
         (\<forall>od w2. assert_amend_quantities cid r nq (sum_list qs) = Inr () \<and> amended_order r cid np nq = Inr od \<and>
            risk_check (settings rt) (client rt) od w1 = (Inr (), w2) \<longrightarrow>
            (\<exists>oc w'. amend rt cid None np nq w = (Inr oc, w') \<and> \<not> so_duplicate oc \<and>
               nr_engine_state (so_result oc) = (if 0 < sum_list qs then PARTIALLY_FILLED else NEW) \<and>
               nr_filled_qty (so_result oc) = sum_list qs \<and>
               nr_remaining_qty (so_result oc) = quantity od - sum_list qs \<and>
               order_at cid (if 0 < sum_list qs then PARTIALLY_FILLED else NEW) (price od, quantity od) qs ids w'))"
proof (intro conjI allI impI)
  have cid: "r_client_order_id r = cid" using tbl_find_SomeD [OF row(1)] by simp
  have w1: "only_redis w w1" using effectD [OF only_redis_assert_disengaged, of w] switch by (metis snd_conv)
  have at1: "order_at cid (r_status r) (r_price r, r_quantity r) qs ids w1" using at order_at_redis [OF w1] by simp
  from order_at_result [OF at1] obtain res where res: "fetch_order_result cid w1 = (Inr (Some res), w1)"
    "filled_qty res = sum_list qs" by (auto simp: fetch_order_result_def)
  note native = amend_sim_is_native [OF switch change row(1,2)]
  show "amend rt cid None np nq w = (Inl (Rejected AmendRejected (Some cid)), w1)"
    if "nq = Some q \<and> (q \<le> sum_list qs \<or> (\<exists>d. r_display_qty r = Some d \<and> q < d))" for q
  proof -
    have "assert_amend_quantities cid r nq (sum_list qs) = Inl (Rejected AmendRejected (Some cid))"
      using that by (auto simp: assert_amend_quantities_def)
    then show ?thesis using row(3) res unfolding native by (simp add: amend_native_def cid bindE_Inr)
  qed
  fix od w2
  assume ok: "assert_amend_quantities cid r nq (sum_list qs) = Inr () \<and> amended_order r cid np nq = Inr od \<and>
            risk_check (settings rt) (client rt) od w1 = (Inr (), w2)"
  have "only_redis w1 w2" using effectD [OF only_redis_risk_check, of w1] ok by (metis snd_conv)
  then have at2: "order_at cid (r_status r) (r_price r, r_quantity r) qs ids w2" using at1 order_at_redis by blast
  have "edge (r_status r) PENDING_REPLACE" using row(3) by auto
  from update_status_at [OF schema at2 this] obtain w3 where
    w3: "update_status (pool rt) cid PENDING_REPLACE w2 = (Inr (), w3)"
    "order_at cid PENDING_REPLACE (r_price r, r_quantity r) qs ids w3" by blast
  have terms: "price od = (case np of Some p \<Rightarrow> Some p | None \<Rightarrow> r_price r)"
    "quantity od = (case nq of Some n \<Rightarrow> n | None \<Rightarrow> r_quantity r)"
    using ok by (auto simp: amended_order_def mk_NormalizedOrder_ok)
  from replace_order_at [OF schema w3(2), of np nq] obtain w4 where
    w4: "replace_order (pool rt) cid np nq w3 = (Inr (), w4)" "order_at cid NEW (price od, quantity od) qs ids w4"
    unfolding terms fst_conv snd_conv by blast
  from restore_partial_at [OF schema w4(2)] obtain w5 where
    w5: "restore_partial rt cid (sum_list qs) w4 = (Inr (), w5)"
    "order_at cid (if 0 < sum_list qs then PARTIALLY_FILLED else NEW) (price od, quantity od) qs ids w5" by blast
  from order_at_get [OF w5(2)] obtain out where out: "get_order cid w5 = (Inr out, w5)"
    "nr_engine_state out = (if 0 < sum_list qs then PARTIALLY_FILLED else NEW)" "nr_filled_qty out = sum_list qs"
    "nr_remaining_qty out = quantity od - sum_list qs" by auto
  have venue: "venue_amend (sim_of rt) cid np nq w3 =
      (Inr \<lparr>amend_ok = True, amend_semantics = ''native'', amend_reason = None\<rparr>, w3)"
    by (simp add: venue_amend_def catchE_def sim_of_def priced_sim_def sim_adapter_def)
  have "amend_native rt r None np nq w1 =
      (Inr \<lparr>so_result = out, so_duplicate = False, so_resolution = CONFIRMED\<rparr>, w5)"
    using row(3) res ok w3(1) w4(1) w5(1) out(1) venue resolve_sim [OF route]
    by (simp add: amend_native_def cid bindE_Inr Let_def)
  then show "\<exists>oc w'. amend rt cid None np nq w = (Inr oc, w') \<and> \<not> so_duplicate oc \<and>
       nr_engine_state (so_result oc) = (if 0 < sum_list qs then PARTIALLY_FILLED else NEW) \<and>
       nr_filled_qty (so_result oc) = sum_list qs \<and>
       nr_remaining_qty (so_result oc) = quantity od - sum_list qs \<and>
       order_at cid (if 0 < sum_list qs then PARTIALLY_FILLED else NEW) (price od, quantity od) qs ids w'"
    using native w5(2) out by simp
qed

theorem native_amend_witness:
  "\<exists>oc w'. amend demo_router_sim demo_uuid None None (Some 200)
       (demo_world [demo_row demo_uuid PARTIALLY_FILLED] [demo_fill demo_uuid ''f1'' 40]) = (Inr oc, w') \<and>
     nr_engine_state (so_result oc) = PARTIALLY_FILLED \<and> nr_remaining_qty (so_result oc) = 160"
proof -
  let ?r = "demo_row demo_uuid PARTIALLY_FILLED" and ?rt = demo_router_sim
  let ?w = "demo_world [?r] [demo_fill demo_uuid ''f1'' 40]" and ?od = "demo_order demo_uuid 200 (Dec 10 0)"
  have row: "find_order demo_uuid ?w = Some ?r" "r_broker ?r = SIM" "r_status ?r \<in> {NEW, PARTIALLY_FILLED}"
    by (simp_all add: demo_defs)
  have at: "order_at demo_uuid (r_status ?r) (r_price ?r, r_quantity ?r) [40] [''f1''] ?w"
    by (simp add: order_at_def demo_defs fills_of_def)
  have "check_quantity (settings ?rt) ?od = Inr ()"
    by (simp add: check_quantity_def qty_limit_def demo_router_sim_def standalone_router_def default_settings_def
        demo_order_def)
  moreover have "check_notional (settings ?rt) ?od = Inr ()" by code_simp
  ultimately have risk: "risk_check (settings ?rt) (client ?rt) ?od ?w = (Inr (), ?w)"
    unfolding demo_ready(8) by (rule risk_check_offline [OF demo_ready(3)])
  have "valid_order ?od" by (simp add: valid_order_def demo_order_def demo_uuid_ok dval_def)
  then have new: "amended_order ?r demo_uuid None (Some 200) = Inr ?od"
    by (simp add: amended_order_def mk_NormalizedOrder_ok demo_order_def demo_row_def)
  have "assert_amend_quantities demo_uuid ?r (Some 200) (sum_list [40]) = Inr ()"
    by (simp add: assert_amend_quantities_def demo_row_def)
  with native_amend [OF demo_ready(1,3,5) _ row at, of None "Some 200"] new risk
  show ?thesis by (force simp: demo_order_def)
qed

section \<open>Amending by cancel and replace\<close>

text \<open>Programs that write at most one order's row and no fill.\<close>

definition touches_only :: "string \<Rightarrow> ('r, 'v) world \<Rightarrow> ('r, 'v) world \<Rightarrow> bool" where
  "touches_only cid w w' \<longleftrightarrow> fills w' = fills w \<and> (\<forall>j. j \<noteq> cid \<longrightarrow> find_order j w' = find_order j w)"

interpretation one_row: effect_order "touches_only cid"
  by unfold_locales (auto simp: touches_only_def)

lemma db_update_touches:
  assumes "\<And>r. r_client_order_id (f r) = r_client_order_id r"
  shows "effect (touches_only cid) any (db_update env cid p f)"
proof (rule effectI)
  show "touches_only cid w (after (db_update env cid p f) w)" for w
  proof (cases rule: db_update_cases [of cid w env p f])
    case (written r r')
    have "r_client_order_id r' = cid" using written assms tbl_find_SomeD [OF written(1)] by simp
    with written show ?thesis by (simp add: touches_only_def find_order_tbl_update [OF written(1)])
  qed (simp_all add: touches_only_def)
qed simp

lemma update_status_touches: "effect (touches_only cid) any (update_status env cid st)"
proof -
  have "effect (touches_only cid) any (hub_publish cid st sid boid pr qty fl)" for sid boid pr qty fl
    by (simp add: effect_def hub_publish_def touches_only_def)
  then show ?thesis
    unfolding update_status_def fetch_order_def
    by (intro one_row.effect_seq one_row.effect_option one_row.effect_if one_row.effect_catch one_row.effect_raise
        one_row.effect_return one_row.effect_gets_any one_row.effect_lift_any db_update_touches) simp_all
qed

context order_router
begin

lemma submit_evolves: "evolves w (after (submit rt od sid) w)"
  by (rule effectD [OF durable.submit_within]) (rule router_ok_trades [OF ok])

end

lemma cancel_sim_touches: "effect (touches_only cid) any (cancel_at_venue rt (sim_of rt) cid)"
  unfolding cancel_at_venue_def sim_of_def priced_sim_def sim_adapter_def
  by (simp add: one_row.effect_seq update_status_touches)

lemma cancel_sim:
  assumes "open_schema (pool rt)" and "stage (settings rt) \<in> {Stage_SIM, Stage_PAPER}"
    and at: "order_at cid st q qs ids w" and "st \<in> {NEW, PARTIALLY_FILLED}"
  shows "\<exists>res w'. cancel rt cid w = (Inr res, w') \<and> order_at cid CANCELLED q qs ids w' \<and> touches_only cid w w'"
proof -
  obtain r where row: "find_order cid w = Some r" "r_status r = st" using at by (auto simp: order_at_def)
  have ad: "broker_adapter (sim_of rt)" unfolding sim_of_def by (rule sim.broker_adapter_axioms)
  have yes: "outcome (ad_cancel (sim_of rt) cid) u = Inr \<lparr>cancel_ok = True, cancel_reason = None\<rparr>" for u
    by (simp add: sim_of_def priced_sim_def sim_adapter_def)
  obtain w' where run: "cancel_at_venue rt (sim_of rt) cid w = (Inr (), w')"
    and at': "order_at cid CANCELLED q qs ids w'"
    by (rule cancel_at_venue_outcomes [OF assms(1) ad at assms(4)]) (auto simp: yes)
  have "touches_only cid w w'" using effectD [OF cancel_sim_touches, of cid w rt] run by simp
  moreover obtain res where "get_order cid w' = (Inr res, w')" using order_at_get [OF at'] by blast
  ultimately show ?thesis
    using row assms(4) run at' resolve_sim [OF assms(2)]
    by (auto simp: cancel_def fetch_order_def is_terminal_def TERMINAL_STATES_def bindE_def)
qed



end
