(* ===== verification/Coroutines.thy ===== *)
theory Coroutines
  imports Prelude
begin

text \<open>
  Coroutines that can be interleaved. A program of \<open>Prelude\<close> runs to its end in one go; a
  coroutine gives the event loop the chance to run others at every \<open>await\<close>. It is either
  finished or about to do one action, which carries a label and leads to the rest of it.
  Running a coroutine alone gives a program again, so the two views of a handler can be
  compared; and a set of coroutines can be run in any interleaving.
\<close>

section \<open>Coroutines\<close>

datatype ('l, 's, 'e, 'a) co =
    Ret "'e + 'a"
  | Act 'l "'s \<Rightarrow> ('l, 's, 'e, 'a) co \<times> 's"

primrec run_alone :: "('l, 's, 'e, 'a) co \<Rightarrow> ('s, 'e, 'a) prog" where
  "run_alone (Ret x) = (\<lambda>s. (x, s))"
| "run_alone (Act l g) = (\<lambda>s. case map_prod run_alone id (g s) of (k, t) \<Rightarrow> k t)"

primrec bindC :: "('l, 's, 'e, 'a) co \<Rightarrow> ('a \<Rightarrow> ('l, 's, 'e, 'b) co) \<Rightarrow> ('l, 's, 'e, 'b) co" where
  "bindC (Ret x) f = (case x of Inl e \<Rightarrow> Ret (Inl e) | Inr a \<Rightarrow> f a)"
| "bindC (Act l g) f = Act l (map_prod (\<lambda>c. bindC c f) id \<circ> g)"

text \<open>\<open>try: m  finally: h\<close>.\<close>

primrec finallyC :: "('l, 's, 'e, 'a) co \<Rightarrow> ('l, 's, 'e, unit) co \<Rightarrow> ('l, 's, 'e, 'a) co" where
  "finallyC (Ret x) h = bindC h (\<lambda>_. Ret x)"
| "finallyC (Act l g) h = Act l (map_prod (\<lambda>c. finallyC c h) id \<circ> g)"

text \<open>One action, and a value or an exception without one.\<close>

definition act :: "'l \<Rightarrow> ('s, 'e, 'a) prog \<Rightarrow> ('l, 's, 'e, 'a) co" where
  "act l m = Act l (\<lambda>s. case m s of (x, t) \<Rightarrow> (Ret x, t))"

definition returnC :: "'a \<Rightarrow> ('l, 's, 'e, 'a) co" where
  "returnC x = Ret (Inr x)"

definition raiseC :: "'e \<Rightarrow> ('l, 's, 'e, 'a) co" where
  "raiseC e = Ret (Inl e)"

fun forC :: "'x list \<Rightarrow> ('x \<Rightarrow> ('l, 's, 'e, unit) co) \<Rightarrow> ('l, 's, 'e, unit) co" where
  "forC [] body = returnC ()"
| "forC (x # xs) body = bindC (body x) (\<lambda>_. forC xs body)"

lemma co_induct [case_names Ret Act]:
  assumes "\<And>x. P (Ret x)" and "\<And>l g. (\<And>s. P (fst (g s))) \<Longrightarrow> P (Act l g)"
  shows "P c"
proof (induction c)
  case (Act l g)
  have "P (fst (g s))" for s by (rule Act.IH [of "g s"]) (auto simp: prod_set_simps fsts.simps)
  then show ?case by (rule assms(2))
qed (rule assms(1))

lemma bindC_assoc: "bindC (bindC c f) g = bindC c (\<lambda>a. bindC (f a) g)"
proof (induction c rule: co_induct)
  case (Ret x)
  then show ?case by (cases x) simp_all
next
  case (Act l h)
  then show ?case by (auto simp: fun_eq_iff map_prod_def split: prod.split) (metis fst_conv)
qed

lemma run_alone_act [simp]: "run_alone (act l m) = m"
  by (rule ext) (simp add: act_def split: prod.split)

lemma run_alone_simps [simp]: "run_alone (returnC x) = returnE x" "run_alone (raiseC e) = raiseE e"
  by (simp_all add: returnC_def raiseC_def returnE_def raiseE_def)

lemma run_alone_bind [simp]: "run_alone (bindC c f) = bindE (run_alone c) (\<lambda>a. run_alone (f a))"
proof (induction c rule: co_induct)
  case (Ret x)
  then show ?case by (cases x) (auto simp: bindE_def)
next
  case (Act l g)
  then show ?case by (intro ext) (simp add: bindE_def case_prod_unfold)
qed

lemma run_alone_for [simp]: "run_alone (forC xs body) = forE xs (\<lambda>x. run_alone (body x))"
  by (induction xs) simp_all

lemma run_alone_finally:
  assumes "\<And>s. \<exists>t. run_alone h s = (Inr (), t)"
  shows "run_alone (finallyC c h) s = (case run_alone c s of (x, t) \<Rightarrow> (x, after (run_alone h) t))"
proof (induction c arbitrary: s rule: co_induct)
  case (Ret x)
  obtain t where "run_alone h s = (Inr (), t)" using assms by blast
  then show ?case by (simp add: bindE_def)
next
  case (Act l g)
  then show ?case by (simp add: case_prod_unfold)
qed

section \<open>Interleavings\<close>

text \<open>
  The event loop: coroutines are started, one of them does its next action, or something else
  changes the state within \<open>R\<close>. The last list is the labels of the actions done, in order.
\<close>

inductive interleaved ::
  "(('l, 's, 'e, 'a) co \<Rightarrow> bool) \<Rightarrow> ('s \<Rightarrow> 's \<Rightarrow> bool) \<Rightarrow> 's \<Rightarrow> ('l, 's, 'e, 'a) co list \<Rightarrow> 's \<Rightarrow> 'l list \<Rightarrow> bool"
  for spawn R s0 where
  idle: "interleaved spawn R s0 [] s0 []"
| spawned: "interleaved spawn R s0 cs s tr \<Longrightarrow> spawn c \<Longrightarrow> interleaved spawn R s0 (cs @ [c]) s tr"
| stepped: "interleaved spawn R s0 cs s tr \<Longrightarrow> i < length cs \<Longrightarrow> cs ! i = Act l g \<Longrightarrow> g s = (c', s') \<Longrightarrow>
    interleaved spawn R s0 (cs[i := c']) s' (tr @ [l])"
| elsewhere: "interleaved spawn R s0 cs s tr \<Longrightarrow> R s s' \<Longrightarrow> interleaved spawn R s0 cs s' tr"

text \<open>The labels of a coroutine run alone, and such a run as an interleaving.\<close>

primrec labels :: "('l, 's, 'e, 'a) co \<Rightarrow> 's \<Rightarrow> 'l list" where
  "labels (Ret x) = (\<lambda>s. [])"
| "labels (Act l g) = (\<lambda>s. l # (case map_prod labels id (g s) of (k, t) \<Rightarrow> k t))"

lemma labels_bind:
  "labels (bindC c f) s = labels c s @ (case run_alone c s of (Inr a, t) \<Rightarrow> labels (f a) t | (Inl e, t) \<Rightarrow> [])"
proof (induction c arbitrary: s rule: co_induct)
  case (Ret x)
  then show ?case by (cases x) simp_all
next
  case (Act l g)
  then show ?case by (simp add: case_prod_unfold)
qed

lemma labels_act [simp]: "labels (act l m) s = [l]"
  by (simp add: act_def split: prod.split)

lemma interleaved_alone:
  assumes "interleaved spawn R s0 cs s tr" and "i < length cs" and "cs ! i = c"
  shows "interleaved spawn R s0 (cs[i := Ret (outcome (run_alone c) s)]) (after (run_alone c) s) (tr @ labels c s)"
  using assms
proof (induction c arbitrary: cs s tr rule: co_induct)
  case (Ret x)
  then show ?case by (metis append.right_neutral fst_conv labels.simps(1) list_update_id run_alone.simps(1) snd_conv)
next
  case (Act l g)
  obtain c' s' where g: "g s = (c', s')" by fastforce
  from interleaved.stepped [OF Act.prems g] have "interleaved spawn R s0 (cs[i := c']) s' (tr @ [l])" .
  moreover have "i < length (cs[i := c'])" "cs[i := c'] ! i = fst (g s)" using Act.prems(2) g by simp_all
  ultimately show ?case using Act.IH g by fastforce
qed

section \<open>An action that is done once\<close>

text \<open>
  Three stages of a coroutine around an action labelled \<open>l\<close> that is only done after the
  coroutine itself has made \<open>present\<close> true: it will not do the action, it will do it at most
  once, it will do it only after making \<open>present\<close> true.
\<close>

primrec quiet :: "'l \<Rightarrow> ('l, 's, 'e, 'a) co \<Rightarrow> bool" where
  "quiet l (Ret x) = True"
| "quiet l (Act m g) = (m \<noteq> l \<and> (\<forall>s. fst (map_prod (quiet l) id (g s))))"

primrec once :: "'l \<Rightarrow> ('l, 's, 'e, 'a) co \<Rightarrow> bool" where
  "once l (Ret x) = True"
| "once l (Act m g) = (\<forall>s. if m = l then quiet l (fst (g s)) else fst (map_prod (once l) id (g s)))"

primrec fresh :: "('s \<Rightarrow> bool) \<Rightarrow> 'l \<Rightarrow> ('l, 's, 'e, 'a) co \<Rightarrow> bool" where
  "fresh present l (Ret x) = True"
| "fresh present l (Act m g) =
     (m \<noteq> l \<and> (\<forall>s. fst (map_prod (fresh present l) id (g s)) \<or>
                   \<not> present s \<and> present (snd (g s)) \<and> once l (fst (g s))))"

text \<open>Every action of the coroutine changes the state within \<open>R\<close>.\<close>

primrec stays :: "('s \<Rightarrow> 's \<Rightarrow> bool) \<Rightarrow> ('l, 's, 'e, 'a) co \<Rightarrow> bool" where
  "stays R (Ret x) = True"
| "stays R (Act m g) = (\<forall>s. R s (snd (g s)) \<and> fst (map_prod (stays R) id (g s)))"

lemma quiet_once: "quiet l c \<Longrightarrow> once l c"
  by (induction c rule: co_induct) auto

lemma quiet_fresh: "quiet l c \<Longrightarrow> fresh present l c"
  by (induction c rule: co_induct) auto

lemma quiet_bind: "quiet l c \<Longrightarrow> (\<And>a. quiet l (f a)) \<Longrightarrow> quiet l (bindC c f)"
  by (induction c rule: co_induct) (auto split: sum.split)

lemma once_bind: "quiet l c \<Longrightarrow> (\<And>a. once l (f a)) \<Longrightarrow> once l (bindC c f)"
  by (induction c rule: co_induct) (auto split: sum.split)

lemma once_then_quiet: "once l c \<Longrightarrow> (\<And>a. quiet l (f a)) \<Longrightarrow> once l (bindC c f)"
  by (induction c rule: co_induct) (auto split: sum.split if_splits intro: quiet_once quiet_bind)

lemma fresh_bind: "quiet l c \<Longrightarrow> (\<And>a. fresh present l (f a)) \<Longrightarrow> fresh present l (bindC c f)"
  by (induction c rule: co_induct) (auto split: sum.split)

lemma fresh_then_quiet:
  assumes "fresh present l c" and "\<And>a. quiet l (f a)"
  shows "fresh present l (bindC c f)"
  using assms(1)
proof (induction c rule: co_induct)
  case (Ret x)
  then show ?case by (auto split: sum.split intro: quiet_fresh assms(2))
next
  case (Act m g)
  have "fresh present l (bindC (fst (g s)) f) \<or> \<not> present s \<and> present (snd (g s)) \<and> once l (bindC (fst (g s)) f)" for s
    using Act.prems Act.IH [of s] once_then_quiet [of l "fst (g s)" f] assms(2) by auto
  then show ?case using Act.prems by simp
qed

lemma stays_bind: "stays R c \<Longrightarrow> (\<And>a. stays R (f a)) \<Longrightarrow> stays R (bindC c f)"
  by (induction c rule: co_induct) (auto split: sum.split)

lemma quiet_finally: "quiet l c \<Longrightarrow> quiet l h \<Longrightarrow> quiet l (finallyC c h)"
  by (induction c rule: co_induct) (auto intro: quiet_bind)

lemma once_finally:
  assumes "once l c" and "quiet l h"
  shows "once l (finallyC c h)"
  using assms(1)
proof (induction c rule: co_induct)
  case (Ret x)
  then show ?case using assms(2) by (simp add: once_bind)
next
  case (Act m g)
  then show ?case using assms(2) by (auto split: if_splits intro: quiet_finally)
qed

lemma fresh_finally:
  assumes "fresh present l c" and "quiet l h"
  shows "fresh present l (finallyC c h)"
  using assms(1)
proof (induction c rule: co_induct)
  case (Ret x)
  then show ?case using assms(2) by (simp add: quiet_fresh quiet_bind)
next
  case (Act m g)
  have "fresh present l (finallyC (fst (g s)) h) \<or> \<not> present s \<and> present (snd (g s)) \<and> once l (finallyC (fst (g s)) h)" for s
    using Act.prems Act.IH [of s] once_finally [of l "fst (g s)" h] assms(2) by auto
  then show ?case using Act.prems by simp
qed

lemma stays_finally: "stays R c \<Longrightarrow> stays R h \<Longrightarrow> stays R (finallyC c h)"
  by (induction c rule: co_induct) (auto intro: stays_bind)

lemma quiet_act: "m \<noteq> l \<Longrightarrow> quiet l (act m p)"
  by (simp add: act_def split: prod.split)

lemma once_act: "once l (act m p)"
  by (simp add: act_def split: prod.split)

lemma stays_act: "effect R any p \<Longrightarrow> stays R (act m p)"
  using effectD [of R any p] by (auto simp: act_def split: prod.split) (metis snd_conv)

lemma stage_returns [simp]:
  "quiet l (returnC x)" "quiet l (raiseC e)" "stays R (returnC x)" "stays R (raiseC e)"
  by (simp_all add: returnC_def raiseC_def)

lemma quiet_for: "(\<And>x. quiet l (body x)) \<Longrightarrow> quiet l (forC xs body)"
  by (induction xs) (auto intro: quiet_bind)

lemma stays_for: "(\<And>x. stays R (body x)) \<Longrightarrow> stays R (forC xs body)"
  by (induction xs) (auto intro: stays_bind)

lemma fresh_ActD:
  "fresh present l (Act m g) \<Longrightarrow> g s = (c', s') \<Longrightarrow>
     m \<noteq> l \<and> (fresh present l c' \<or> \<not> present s \<and> present s' \<and> once l c')"
  by (auto dest: spec [of _ s])

lemma once_ActD: "once l (Act m g) \<Longrightarrow> g s = (c', s') \<Longrightarrow> if m = l then quiet l c' else once l c'"
  by (auto dest: spec [of _ s] split: if_splits)

lemma stays_ActD: "stays R (Act m g) \<Longrightarrow> g s = (c', s') \<Longrightarrow> R s s' \<and> stays R c'"
  by (auto dest: spec [of _ s])

text \<open>
  The contract between such coroutines and the rest of the program: what \<open>R\<close> allows keeps
  \<open>present\<close> true once it is. Then, however the coroutines are interleaved, the action is done
  at most once altogether, never when \<open>present\<close> was true from the start, and \<open>present\<close> holds
  from then on.
\<close>

locale guarded_action =
  fixes present :: "'s \<Rightarrow> bool" and R :: "'s \<Rightarrow> 's \<Rightarrow> bool" and l :: 'l
  assumes keeps: "R s t \<Longrightarrow> present s \<Longrightarrow> present t"
begin

lemma done_once_inv:
  assumes run: "interleaved spawn R s0 cs s tr" and sp: "\<And>c. spawn c \<Longrightarrow> fresh present l c \<and> stays R c"
  shows "(\<forall>c \<in> set cs. stays R c) \<and> (l \<in> set tr \<longrightarrow> present s) \<and> (present s0 \<longrightarrow> present s \<and> l \<notin> set tr) \<and>
    ((\<forall>c \<in> set cs. fresh present l c) \<and> count_list tr l \<le> 1 \<or>
     (\<exists>k < length cs. once l (cs ! k) \<and> (\<forall>i < length cs. i \<noteq> k \<longrightarrow> fresh present l (cs ! i)) \<and>
        present s \<and> \<not> present s0 \<and> l \<notin> set tr))"
  using run
proof (induction rule: interleaved.induct)
  case idle
  then show ?case by simp
next
  case (spawned cs s tr c)
  then show ?case using sp [of c] by (auto simp: nth_append less_Suc_eq)
next
  case (stepped cs s tr i m g c' s')
  then have mem: "Act m g \<in> set cs" using nth_mem by metis
  have "stays R (Act m g)" using stepped.IH mem by blast
  then have R: "R s s'" and c': "stays R c'" by (metis stays_ActD stepped.hyps(4))+
  have pres: "present s \<Longrightarrow> present s'" using keeps R by blast
  have wi: "\<forall>c \<in> set (cs[i := c']). stays R c"
    using stepped.IH c' set_update_subset_insert by fastforce
  consider (none) "\<forall>c \<in> set cs. fresh present l c" "count_list tr l \<le> 1"
    | (one) k where "k < length cs" "once l (cs ! k)" "\<forall>j < length cs. j \<noteq> k \<longrightarrow> fresh present l (cs ! j)"
        "present s" "\<not> present s0" "l \<notin> set tr"
    using stepped.IH by blast
  then show ?case
  proof cases
    case none
    then have "fresh present l (Act m g)" using mem by blast
    then consider (f) "m \<noteq> l" "fresh present l c'" | (o) "m \<noteq> l" "\<not> present s" "present s'" "once l c'"
      using stepped.hyps(4) fresh_ActD by metis
    then show ?thesis
    proof cases
      case f
      then have "\<forall>c \<in> set (cs[i := c']). fresh present l c"
        using none(1) set_update_subset_insert by fastforce
      then show ?thesis using stepped.IH pres wi f none(2) by auto
    next
      case o
      then have "once l (cs[i := c'] ! i)" "\<forall>j < length (cs[i := c']). j \<noteq> i \<longrightarrow> fresh present l (cs[i := c'] ! j)"
        using none(1) stepped.hyps(2) by auto
      moreover have "\<not> present s0" "l \<notin> set tr" using stepped.IH o(2) by auto
      ultimately show ?thesis using wi o stepped.hyps(2) by auto
    qed
  next
    case (one k)
    show ?thesis
    proof (cases "i = k")
      case True
      then have on: "once l (Act m g)" using one(2) stepped.hyps(3) by simp
      show ?thesis
      proof (cases "m = l")
        case True
        then have "fresh present l c'" using on stepped.hyps(4) once_ActD quiet_fresh by metis
        then have "\<forall>c \<in> set (cs[i := c']). fresh present l c"
          using one(1,3) \<open>i = k\<close> by (auto simp: in_set_conv_nth nth_list_update)
        then show ?thesis using True wi one pres by simp
      next
        case False
        then have "once l c'" using on stepped.hyps(4) once_ActD by metis
        then show ?thesis using False wi one pres \<open>i = k\<close> by (auto intro!: exI [of _ k])
      qed
    next
      case False
      then have "fresh present l (Act m g)" using one(3) stepped.hyps(2,3) by metis
      then have "m \<noteq> l" "fresh present l c'" using stepped.hyps(4) fresh_ActD one(4) by metis+
      then have "\<forall>j < length cs. j \<noteq> k \<longrightarrow> fresh present l (cs[i := c'] ! j)"
        using one(3) stepped.hyps(2) by (simp add: nth_list_update)
      then show ?thesis using \<open>m \<noteq> l\<close> False wi one pres by (auto intro!: exI [of _ k])
    qed
  qed
next
  case (elsewhere cs s tr s')
  then show ?case using keeps by blast
qed

lemma done_once:
  assumes "interleaved spawn R s0 cs s tr" and "\<And>c. spawn c \<Longrightarrow> fresh present l c \<and> stays R c"
  shows "count_list tr l \<le> 1" and "present s0 \<Longrightarrow> l \<notin> set tr" and "l \<in> set tr \<Longrightarrow> present s"
  using done_once_inv [OF assms] by (auto simp: count_list_0_iff)

end

end
