(* ===== verification/SubmitRace.thy ===== *)
theory SubmitRace
  imports RouterBehaviour Coroutines
begin

text \<open>
  The submit and amend of \<open>core/router.py\<close> as coroutines: every call that waits on the
  database, on Redis, on the venue or on the clock is one action, and anything may run between
  two of them. Run alone they are the operations of \<open>Router\<close>; run against each other, in
  one process or in several that share the database, they place an order at most once.
\<close>

section \<open>The handlers as coroutines\<close>

text \<open>
  The label of an action is the id of the order it places at the venue, if it places one.
  The Redis commands of one gate and the requests of one adapter call count as one action.
\<close>

type_synonym ('r, 'v, 'a) handler = "(string option, ('r, 'v) world, exn, 'a) co"

abbreviation await :: "('r, 'v, 'a) eng \<Rightarrow> ('r, 'v, 'a) handler" where
  "await m \<equiv> act None m"

definition liftC :: "exn + 'a \<Rightarrow> ('r, 'v, 'a) handler" where
  "liftC r = Ret r"

function await_concurrent_co ::
  "('r, 'v) OrderRouter \<Rightarrow> string \<Rightarrow> int \<Rightarrow> ('r, 'v, SubmitOutcome) handler" where
  "await_concurrent_co rt cid waited =
     bindC (await (fetch_order_result cid)) (\<lambda>row.
     case row of
       Some r \<Rightarrow> returnC (duplicate_outcome r)
     | None \<Rightarrow>
         if submit_lock_wait_ms (settings rt) \<le> waited then raiseC (Rejected ConcurrentSubmit (Some cid))
         else bindC (await (modifyE (pause rt 50000))) (\<lambda>_. await_concurrent_co rt cid (waited + 50)))"
  by pat_completeness auto
termination
  by (relation "measure (\<lambda>(rt, cid, waited). nat (submit_lock_wait_ms (settings rt) - waited))") auto

declare await_concurrent_co.simps [simp del]

text \<open>One poll of the recovery burst: the resolver's answer, or that it raised, and the time after.\<close>

definition poll :: "('r, 'v) resolver \<Rightarrow> string \<Rightarrow> ('r, 'v, (exn + bool) \<times> timestamp) eng" where
  "poll resolver cid = (\<lambda>w. case resolver cid w of (answer, w1) \<Rightarrow> (Inr (answer, clock w1), w1))"

fun recover_loop_co ::
  "nat \<Rightarrow> ('r, 'v) resolver \<Rightarrow> ('r, 'v) pause \<Rightarrow> string \<Rightarrow> timestamp \<Rightarrow> int \<Rightarrow> int \<Rightarrow> int \<Rightarrow>
   bool \<Rightarrow> int \<Rightarrow> ('r, 'v, HandleResolution) handler" where
  "recover_loop_co 0 resolver ps cid submitted_at cadence deadline min_polls read_ok attempts =
     raiseC (OtherError ''out of fuel'')"
| "recover_loop_co (Suc n) resolver ps cid submitted_at cadence deadline min_polls read_ok attempts =
     bindC (await (poll resolver cid)) (\<lambda>(answer, now).
     if answer = Inr True then returnC CONFIRMED
     else if min_polls \<le> attempts + 1 \<and> deadline < elapsed now submitted_at + cadence
     then returnC (if read_ok \<or> answer = Inr False then PENDING else UNKNOWN)
     else bindC (await (modifyE (ps cadence))) (\<lambda>_.
          recover_loop_co n resolver ps cid submitted_at cadence deadline min_polls
            (read_ok \<or> answer = Inr False) (attempts + 1)))"

definition recover_co ::
  "('r, 'v) OrderRouter \<Rightarrow> NormalizedOrder \<Rightarrow> ('r, 'v, HandleResolution) handler" where
  "recover_co rt od =
     (case handle_resolver rt of
        None \<Rightarrow> returnC UNKNOWN
      | Some rs \<Rightarrow>
          bindC (await (fetch_order (client_order_id od))) (\<lambda>row.
          bindC (await (getsE clock)) (\<lambda>now.
          recover_loop_co (fuel rt) rs (pause rt) (client_order_id od)
            (case row of Some r \<Rightarrow> r_created_at r | None \<Rightarrow> now)
            (handle_recovery_cadence_ms (settings rt) * 1000)
            (handle_recovery_deadline_ms (settings rt) * 1000)
            (handle_recovery_min_polls (settings rt)) False 0)))"

definition settle_remainder_co ::
  "('r, 'v) OrderRouter \<Rightarrow> ('r, 'v) BrokerAdapter \<Rightarrow> NormalizedOrder \<Rightarrow> ('r, 'v, unit) handler" where
  "settle_remainder_co rt adapter od =
     bindC (await (update_status (pool rt) (client_order_id od) PENDING_CANCEL)) (\<lambda>_.
     bindC (await (ad_cancel adapter (client_order_id od))) (\<lambda>_.
     await (update_status (pool rt) (client_order_id od) CANCELLED)))"

definition settle_co ::
  "('r, 'v) OrderRouter \<Rightarrow> ('r, 'v) BrokerAdapter \<Rightarrow> NormalizedOrder \<Rightarrow> PlaceAck \<Rightarrow>
   ('r, 'v, HandleResolution) handler" where
  "settle_co rt adapter od ack =
     (if rejected ack then
        bindC (await (update_status (pool rt) (client_order_id od) REJECTED)) (\<lambda>_.
        bindC (await (set_reject_reason (pool rt) (client_order_id od)
                 (case reject_reason ack of
                    Some r \<Rightarrow> if r = [] then ''rejected by adapter'' else r
                  | None \<Rightarrow> ''rejected by adapter''))) (\<lambda>_.
        returnC CONFIRMED))
      else case broker_order_id ack of
        None \<Rightarrow> recover_co rt od
      | Some boid \<Rightarrow>
          bindC (await (ack_order (pool rt) (client_order_id od) boid)) (\<lambda>_.
          bindC (forC (ack_fills ack) (\<lambda>f.
             bindC (await (apply_fill (pool rt) (client_order_id od) (fr_broker_fill_id f) (fr_price f)
                      (fr_quantity f) (fr_exec_ts f) (quantity od))) (\<lambda>_. returnC ()))) (\<lambda>_.
          bindC (if remainder_cancelled ack then settle_remainder_co rt adapter od else returnC ()) (\<lambda>_.
          returnC CONFIRMED))))"

definition place_and_settle_co ::
  "('r, 'v) OrderRouter \<Rightarrow> ('r, 'v) BrokerAdapter \<Rightarrow> NormalizedOrder \<Rightarrow> ('r, 'v, HandleResolution) handler"
where
  "place_and_settle_co rt adapter od =
     bindC (act (Some (client_order_id od)) (ad_place adapter od)) (settle_co rt adapter od)"

definition submit_locked_co ::
  "('r, 'v) OrderRouter \<Rightarrow> ('r, 'v) BrokerAdapter \<Rightarrow> NormalizedOrder \<Rightarrow> string option \<Rightarrow> bool \<Rightarrow>
   ('r, 'v, SubmitOutcome + HandleResolution) handler" where
  "submit_locked_co rt adapter od strategy_id acquired =
     (if \<not> acquired then
        bindC (await_concurrent_co rt (client_order_id od) 0) (\<lambda>oc. returnC (Inl oc))
      else
        bindC (await (catchE (\<lambda>e. e = DuplicateOrderSignal)
                        (bindE (insert_order (pool rt) od strategy_id) (\<lambda>_. returnE True))
                        (\<lambda>_. returnE False))) (\<lambda>inserted.
        if inserted then
          bindC (place_and_settle_co rt adapter od) (\<lambda>resolution. returnC (Inr resolution))
        else
          bindC (await (fetch_order_result (client_order_id od))) (\<lambda>row.
          case row of
            None \<Rightarrow> raiseC (Rejected ConcurrentSubmit (Some (client_order_id od)))
          | Some r \<Rightarrow> returnC (Inl (duplicate_outcome r)))))"

definition submit_gates_co ::
  "('r, 'v) OrderRouter \<Rightarrow> NormalizedOrder \<Rightarrow> ('r, 'v, ('r, 'v) BrokerAdapter) handler" where
  "submit_gates_co rt od =
     bindC (liftC (lookup (broker od) (market od))) (\<lambda>caps.
     bindC (liftC (assert_supports caps (order_type od) (tif od) (position_effect od))) (\<lambda>_.
     bindC (await (risk_check (settings rt) (client rt) od)) (\<lambda>_.
     bindC (await (price_band_check (settings rt) (market_data rt) od)) (\<lambda>_.
     bindC (liftC (resolve rt (broker od) (account od) TRADE)) (\<lambda>adapter.
     bindC (await (breaker_guard adapter)) (\<lambda>_.
     returnC adapter))))))"

text \<open>\<open>async with single_flight(...)\<close>: the release runs whether the body returned or raised.\<close>

definition single_flight_co ::
  "'r redis_client option \<Rightarrow> string \<Rightarrow> string \<Rightarrow> int \<Rightarrow> (bool \<Rightarrow> ('r, 'v, 'a) handler) \<Rightarrow>
   ('r, 'v, 'a) handler" where
  "single_flight_co c token key ttl_seconds body =
     (case c of
        None \<Rightarrow> body True
      | Some r \<Rightarrow>
          bindC (await (catchE (\<lambda>_. True) (on_redis (rd_set_nx_ex r key token ttl_seconds)) (\<lambda>_. returnE True)))
            (\<lambda>acquired.
               if acquired
               then finallyC (body True)
                      (await (catchE (\<lambda>_. True) (on_redis (rd_release r key token)) (\<lambda>_. returnE ())))
               else body False))"

definition submit_new_co ::
  "('r, 'v) OrderRouter \<Rightarrow> NormalizedOrder \<Rightarrow> string option \<Rightarrow> ('r, 'v, SubmitOutcome) handler" where
  "submit_new_co rt od strategy_id =
     bindC (submit_gates_co rt od) (\<lambda>adapter.
     bindC (await (getsE (fresh_token rt))) (\<lambda>token.
     bindC (single_flight_co (client rt) token (''exe:submit:'' @ client_order_id od)
              (submit_lock_ttl_seconds (settings rt)) (submit_locked_co rt adapter od strategy_id)) (\<lambda>r.
     case r of
       Inl oc \<Rightarrow> returnC oc
     | Inr resolution \<Rightarrow>
         bindC (await (fetch_order_result (client_order_id od))) (\<lambda>row.
         case row of
           None \<Rightarrow> raiseC (Rejected OrderNotFound (Some (client_order_id od)))
         | Some r \<Rightarrow>
             returnC \<lparr>so_result = to_result r, so_duplicate = False, so_resolution = resolution\<rparr>))))"

definition submit_co ::
  "('r, 'v) OrderRouter \<Rightarrow> NormalizedOrder \<Rightarrow> string option \<Rightarrow> ('r, 'v, SubmitOutcome) handler" where
  "submit_co rt od strategy_id =
     bindC (await (assert_disengaged (settings rt) (client rt))) (\<lambda>_.
     bindC (await (fetch_order_result (client_order_id od))) (\<lambda>existing.
     case existing of
       Some r \<Rightarrow> returnC (duplicate_outcome r)
     | None \<Rightarrow> submit_new_co rt od strategy_id))"

text \<open>Amend: a venue that amends natively is amended in place, any other gets a cancel and a new order.\<close>

definition cancel_co :: "('r, 'v) OrderRouter \<Rightarrow> string \<Rightarrow> ('r, 'v, NormalizedOrderResult) handler" where
  "cancel_co rt cid =
     bindC (await (fetch_order cid)) (\<lambda>found.
     case found of
       None \<Rightarrow> raiseC (Rejected OrderNotFound (Some cid))
     | Some row \<Rightarrow>
         if is_terminal (r_status row) then raiseC (Rejected IllegalTransition (Some cid))
         else if r_status row = PENDING_CANCEL then await (get_order cid)
         else if r_status row \<in> {PENDING_NEW, PENDING_REPLACE}
         then raiseC (Rejected IllegalTransition (Some cid))
         else
           bindC (liftC (resolve rt (r_broker row) (r_account row) TRADE)) (\<lambda>adapter.
           bindC (await (breaker_guard adapter)) (\<lambda>_.
           bindC (await (update_status (pool rt) cid PENDING_CANCEL)) (\<lambda>_.
           bindC (await (ad_cancel adapter cid)) (\<lambda>ack.
           bindC (if \<not> cancel_ok ack then raiseC (AdapterError ''cancel not confirmed'')
                  else await (update_status (pool rt) cid CANCELLED)) (\<lambda>_.
           await (get_order cid)))))))"

definition amend_native_co ::
  "('r, 'v) OrderRouter \<Rightarrow> OrderRow \<Rightarrow> string option \<Rightarrow> decimal option \<Rightarrow> int option \<Rightarrow>
   ('r, 'v, SubmitOutcome) handler" where
  "amend_native_co rt row new_cid new_price new_qty =
     (let cid = r_client_order_id row
      in if new_cid \<noteq> None then raiseC (Rejected AmendRejected (Some cid))
         else if r_status row \<notin> {NEW, PARTIALLY_FILLED}
         then raiseC (Rejected IllegalTransition (Some cid))
         else
           bindC (await (fetch_order_result cid)) (\<lambda>found.
           case found of
             None \<Rightarrow> raiseC (Rejected OrderNotFound (Some cid))
           | Some result \<Rightarrow>
               let filled = filled_qty result
               in bindC (liftC (assert_amend_quantities cid row new_qty filled)) (\<lambda>_.
                  bindC (liftC (amended_order row cid new_price new_qty)) (\<lambda>amended.
                  bindC (await (risk_check (settings rt) (client rt) amended)) (\<lambda>_.
                  bindC (liftC (resolve rt (r_broker row) (r_account row) TRADE)) (\<lambda>adapter.
                  bindC (await (breaker_guard adapter)) (\<lambda>_.
                  bindC (await (update_status (pool rt) cid PENDING_REPLACE)) (\<lambda>_.
                  bindC (await (venue_amend adapter cid new_price new_qty)) (\<lambda>ack.
                  if amend_ok ack then
                    bindC (await (replace_order (pool rt) cid new_price new_qty)) (\<lambda>_.
                    bindC (await (restore_partial rt cid filled)) (\<lambda>_.
                    bindC (await (get_order cid)) (\<lambda>res.
                    returnC \<lparr>so_result = res, so_duplicate = False, so_resolution = CONFIRMED\<rparr>)))
                  else
                    bindC (await (update_status (pool rt) cid NEW)) (\<lambda>_.
                    bindC (await (restore_partial rt cid filled)) (\<lambda>_.
                    raiseC (Rejected AmendRejected (Some cid)))))))))))))"

definition amend_cancel_replace_co ::
  "('r, 'v) OrderRouter \<Rightarrow> OrderRow \<Rightarrow> string option \<Rightarrow> decimal option \<Rightarrow> int option \<Rightarrow>
   ('r, 'v, SubmitOutcome) handler" where
  "amend_cancel_replace_co rt row new_cid new_price new_qty =
     (case new_cid of
        None \<Rightarrow> raiseC (Rejected AmendRejected (Some (r_client_order_id row)))
      | Some replacing \<Rightarrow>
          bindC (cancel_co rt (r_client_order_id row)) (\<lambda>_.
          bindC (liftC (amended_order row replacing new_price new_qty)) (\<lambda>replacement.
          submit_co rt replacement (r_strategy_id row))))"

definition amend_co ::
  "('r, 'v) OrderRouter \<Rightarrow> string \<Rightarrow> string option \<Rightarrow> decimal option \<Rightarrow> int option \<Rightarrow>
   ('r, 'v, SubmitOutcome) handler" where
  "amend_co rt cid new_cid new_price new_qty =
     bindC (await (assert_disengaged (settings rt) (client rt))) (\<lambda>_.
     if new_price = None \<and> new_qty = None then raiseC (Rejected AmendRejected (Some cid))
     else
       bindC (await (fetch_order cid)) (\<lambda>found.
       case found of
         None \<Rightarrow> raiseC (Rejected OrderNotFound (Some cid))
       | Some row \<Rightarrow>
           bindC (liftC (lookup (r_broker row) (r_market row))) (\<lambda>caps.
           if amend_kind caps = native then amend_native_co rt row new_cid new_price new_qty
           else amend_cancel_replace_co rt row new_cid new_price new_qty)))"

section \<open>Run alone, they are the operations of the router\<close>

lemma run_alone_lift [simp]: "run_alone (liftC r) = liftE r"
  by (simp add: liftC_def liftE_def)

lemma run_alone_if: "run_alone (if b then c else d) = (if b then run_alone c else run_alone d)"
  by simp

lemma run_alone_option:
  "run_alone (case x of None \<Rightarrow> c | Some y \<Rightarrow> f y) = (case x of None \<Rightarrow> run_alone c | Some y \<Rightarrow> run_alone (f y))"
  by (cases x) simp_all

lemma run_alone_await: "run_alone (await_concurrent_co rt cid waited) = await_concurrent rt cid waited"
proof (induction rt cid waited rule: await_concurrent_co.induct)
  case (1 rt cid waited)
  show ?case
  proof
    fix w
    show "run_alone (await_concurrent_co rt cid waited) w = await_concurrent rt cid waited w"
      by (subst await_concurrent_co.simps, subst await_concurrent.simps)
        (auto simp: run_alone_option run_alone_if fetch_order_result_def 1 split: option.split)
  qed
qed

lemma run_alone_recover_loop:
  "run_alone (recover_loop_co n rs ps cid submitted_at cadence deadline min_polls read_ok attempts) w =
     (case recover_loop n rs ps cid submitted_at cadence deadline min_polls read_ok attempts w of
        (Some resolution, w') \<Rightarrow> (Inr resolution, w')
      | (None, w') \<Rightarrow> (Inl (OtherError ''out of fuel''), w'))"
proof (induction n arbitrary: read_ok attempts w)
  case (Suc n)
  obtain answer w1 where rs: "rs cid w = (answer, w1)" by fastforce
  show ?case
    by (cases answer rule: sum.exhaust)
      (auto simp: rs poll_def bindE_def run_alone_if Suc Let_def split: bool.splits)
qed simp

lemma run_alone_recover: "run_alone (recover_co rt od) = recover rt od"
  by (rule ext)
    (auto simp: recover_co_def recover_def recover_handle_def run_alone_option run_alone_recover_loop
      fetch_order_def split: option.split)

lemma run_alone_place_and_settle: "run_alone (place_and_settle_co rt ad od) = place_and_settle rt ad od"
  by (simp add: place_and_settle_co_def place_and_settle_def settle_co_def settle_remainder_co_def
      settle_remainder_def settle_fills_def run_alone_if run_alone_option run_alone_recover
      cong: if_cong option.case_cong)

lemma run_alone_submit_locked: "run_alone (submit_locked_co rt ad od sid acquired) = submit_locked rt ad od sid acquired"
  by (simp add: submit_locked_co_def submit_locked_def run_alone_if run_alone_option run_alone_await
      run_alone_place_and_settle cong: if_cong option.case_cong)

lemma run_alone_single_flight:
  assumes "\<And>acquired. run_alone (body acquired) = body' acquired"
  shows "run_alone (single_flight_co c token key ttl body) = single_flight c token key ttl body'"
proof (cases c)
  case None
  then show ?thesis by (auto simp: single_flight_co_def single_flight_def assms bindE_def fun_eq_iff split: prod.split)
next
  case (Some r)
  let ?acquire = "catchE (\<lambda>_. True) (on_redis (rd_set_nx_ex r key token ttl)) (\<lambda>_. returnE True)"
  let ?release = "catchE (\<lambda>_. True) (on_redis (rd_release r key token)) (\<lambda>_. returnE ())"
  have rel: "\<exists>t. run_alone (act None ?release) w = (Inr (), t)" for w
    by (auto simp: catchE_def split: prod.split sum.split)
  have "run_alone (if a then finallyC (body True) (act None ?release) else body False) w =
      (case body' a w of (x, t) \<Rightarrow> (x, after (if a then ?release else returnE ()) t))" for a w
    using run_alone_finally [OF rel, of "body True" w]
    by (cases a) (auto simp: assms split: prod.split)
  then show ?thesis by (auto simp: single_flight_co_def single_flight_def Some intro!: arg_cong [where f = "bindE ?acquire"])
qed

lemma run_alone_submit_gates: "run_alone (submit_gates_co rt od) = submit_gates rt od"
  by (simp add: submit_gates_co_def submit_gates_def)

lemma run_alone_submit: "run_alone (submit_co rt od sid) = submit rt od sid"
  by (simp add: submit_co_def submit_def submit_new_co_def submit_new_def run_alone_option sum.case_distrib
      run_alone_submit_gates run_alone_single_flight [OF run_alone_submit_locked] cong: option.case_cong sum.case_cong)

lemma bindE_assoc: "bindE (bindE m f) g = bindE m (\<lambda>x. bindE (f x) g)"
  by (rule ext) (simp add: bindE_def split: prod.split sum.split)

lemma run_alone_cancel: "run_alone (cancel_co rt cid) = cancel rt cid"
  by (simp add: cancel_co_def cancel_def cancel_at_venue_def bindE_assoc run_alone_option run_alone_if
      cong: option.case_cong if_cong)

lemma run_alone_amend: "run_alone (amend_co rt cid new_cid np nq) = amend rt cid new_cid np nq"
  by (simp add: amend_co_def amend_def amend_native_co_def amend_native_def amend_cancel_replace_co_def
      amend_cancel_replace_def run_alone_option run_alone_if run_alone_submit run_alone_cancel Let_def
      cong: option.case_cong if_cong)

section \<open>Each order is placed at most once\<close>

text \<open>An insert that went through found no row under the id, and leaves one.\<close>

lemma insert_order_new:
  assumes "insert_order db od sid w = (Inr x, w')"
  shows "find_order (client_order_id od) w = None" and "find_order (client_order_id od) w' \<noteq> None"
  using assms
  by (auto simp: insert_order_def db_insert_order_def bindE_def catchE_def row_of_order_def
      hub_register_def hub_publish_def split: option.splits if_splits)

lemma fresh_await_bind:
  assumes "\<And>s a t. p s = (Inr a, t) \<Longrightarrow>
      fresh present (Some cid) (f a) \<or> \<not> present s \<and> present t \<and> once (Some cid) (f a)"
  shows "fresh present (Some cid) (bindC (await p) f)"
  using assms by (auto simp: act_def split: prod.split sum.split)

lemma quiet_lift [simp]: "quiet l (liftC r)" "stays R (liftC r)"
  by (simp_all add: liftC_def)

lemma stays_lift_bind: "(\<And>x. r = Inr x \<Longrightarrow> stays R (f x)) \<Longrightarrow> stays R (bindC (liftC r) f)"
  by (simp add: liftC_def split: sum.split)

lemmas quiet_intros = quiet_bind quiet_act quiet_for quiet_finally

lemma quiet_await: "quiet (Some cid) (await_concurrent_co rt cid2 waited)"
proof (induction rt cid2 waited rule: await_concurrent_co.induct)
  case (1 rt cid2 waited)
  then show ?case by (subst await_concurrent_co.simps) (auto intro!: quiet_intros split: option.split)
qed

lemma quiet_recover_loop:
  "quiet (Some cid) (recover_loop_co n rs ps cid2 submitted_at cadence deadline min_polls read_ok attempts)"
  by (induction n arbitrary: read_ok attempts) (auto intro!: quiet_intros)

lemma quiet_settle: "quiet (Some cid) (settle_co rt ad od ack)"
  by (auto simp: settle_co_def settle_remainder_co_def recover_co_def
      intro!: quiet_intros quiet_recover_loop split: option.split)

lemma once_place: "once (Some cid) (place_and_settle_co rt ad od)"
  unfolding place_and_settle_co_def by (intro once_then_quiet once_act quiet_settle)

lemma quiet_place: "client_order_id od \<noteq> cid \<Longrightarrow> quiet (Some cid) (place_and_settle_co rt ad od)"
  by (auto simp: place_and_settle_co_def intro!: quiet_intros quiet_settle)

definition stored :: "string \<Rightarrow> ('r, 'v) world \<Rightarrow> bool" where
  "stored cid w \<longleftrightarrow> find_order cid w \<noteq> None"

lemma fresh_known:
  "fresh present (Some cid) (bindC (await (fetch_order_result id2)) (\<lambda>row.
     case row of None \<Rightarrow> raiseC e | Some r \<Rightarrow> returnC (f r)))"
  by (auto intro!: quiet_fresh quiet_intros split: option.split)

lemma once_placed: "once (Some cid) (bindC (place_and_settle_co rt ad od) (\<lambda>resolution. returnC (f resolution)))"
  by (intro once_then_quiet once_place) simp

lemma fresh_submit_locked: "fresh (stored cid) (Some cid) (submit_locked_co rt ad od sid acquired)"
proof (cases acquired)
  case False
  then show ?thesis by (auto simp: submit_locked_co_def intro!: quiet_fresh quiet_bind quiet_await)
next
  case True
  show ?thesis
  proof (cases "client_order_id od = cid")
    case False
    then show ?thesis
      by (auto simp: submit_locked_co_def True intro!: quiet_fresh quiet_intros quiet_await quiet_place split: option.split)
  next
    case same: True
    have ins: "find_order cid s = None \<and> find_order cid t \<noteq> None"
      if "catchE (\<lambda>e. e = DuplicateOrderSignal)
            (bindE (insert_order (pool rt) od sid) (\<lambda>_. returnE True)) (\<lambda>_. returnE False) s = (Inr True, t)" for s t
      using that insert_order_new [of "pool rt" od sid s _ t] same
      by (auto simp: catchE_def bindE_def split: prod.splits sum.splits if_splits)
    have "fresh (stored cid) (Some cid) (submit_locked_co rt ad od sid True)"
      unfolding submit_locked_co_def
    proof (subst if_not_P, simp, rule fresh_await_bind, goal_cases)
      case (1 s a t)
      then show ?case using ins [of s t] by (cases a) (simp_all add: stored_def fresh_known once_placed)
    qed
    with True show ?thesis by simp
  qed
qed

lemma fresh_single_flight:
  assumes "\<And>acquired. fresh present (Some cid) (body acquired)"
  shows "fresh present (Some cid) (single_flight_co c token key ttl body)"
  using assms
  by (auto simp: single_flight_co_def intro!: fresh_bind fresh_finally quiet_intros split: option.split)

lemma quiet_gates: "quiet (Some cid) (submit_gates_co rt od)"
  by (auto simp: submit_gates_co_def intro!: quiet_intros)

lemma fresh_submit_new: "fresh (stored cid) (Some cid) (submit_new_co rt od sid)"
  unfolding submit_new_co_def
  by (rule fresh_bind [OF quiet_gates], rule fresh_bind [OF quiet_act], simp,
      rule fresh_then_quiet [OF fresh_single_flight [OF fresh_submit_locked]])
    (auto intro!: quiet_intros split: option.split sum.split)

lemma fresh_submit: "fresh (stored cid) (Some cid) (submit_co rt od sid)"
  unfolding submit_co_def
  by (rule fresh_bind [OF quiet_act], simp, rule fresh_bind [OF quiet_act], simp)
    (simp add: fresh_submit_new quiet_fresh split: option.split)

lemma quiet_cancel: "quiet (Some cid) (cancel_co rt cid2)"
  by (auto simp: cancel_co_def intro!: quiet_intros split: option.split)

lemma quiet_amend_native: "quiet (Some cid) (amend_native_co rt row new_cid np nq)"
  by (auto simp: amend_native_co_def Let_def intro!: quiet_intros split: option.split)

lemma fresh_cancel_replace: "fresh (stored cid) (Some cid) (amend_cancel_replace_co rt row new_cid np nq)"
  by (auto simp: amend_cancel_replace_co_def quiet_fresh split: option.split
      intro!: fresh_bind [OF quiet_cancel] fresh_bind [OF quiet_lift(1)] fresh_submit)

lemma fresh_amend: "fresh (stored cid) (Some cid) (amend_co rt cid2 new_cid np nq)"
  unfolding amend_co_def
  by (rule fresh_bind [OF quiet_act], simp)
    (auto simp: quiet_fresh quiet_amend_native fresh_cancel_replace split: option.split
      intro!: fresh_bind [OF quiet_act] fresh_bind [OF quiet_lift(1)])

section \<open>The coroutines stay within what the store promises\<close>

context engine_effect
begin

lemmas stays_intros = stays_bind stays_act stays_for stays_finally

lemma stays_pause: "stays R (await (modifyE (pause rt d)))"
  by (intro stays_act effect_modify pause_R)

lemma stays_await: "stays R (await_concurrent_co rt cid waited)"
proof (induction "nat (submit_lock_wait_ms (settings rt) - waited)" arbitrary: waited rule: less_induct)
  case less
  then have "\<not> submit_lock_wait_ms (settings rt) \<le> waited \<Longrightarrow> stays R (await_concurrent_co rt cid (waited + 50))"
    by simp
  then show ?case
    by (subst await_concurrent_co.simps)
      (auto intro!: stays_bind stays_pause stays_act fetch_R split: option.split)
qed

lemma stays_recover_loop:
  assumes "effect R any (poll rs cid)"
  shows "stays R (recover_loop_co n rs (pause rt) cid submitted_at cadence deadline min_polls read_ok attempts)"
  by (induction n arbitrary: read_ok attempts) (auto intro!: stays_bind stays_act assms stays_pause)

lemma stays_settle:
  assumes "routable R rt ad" and "\<And>rs cid. handle_resolver rt = Some rs \<Longrightarrow> effect R any (poll rs cid)"
  shows "stays R (settle_co rt ad od ack)"
proof -
  have "effect R any (ad_cancel ad cid)" for cid using assms(1) by (simp add: routable_def)
  then show ?thesis
    by (auto simp: settle_co_def settle_remainder_co_def recover_co_def
        intro!: stays_intros stays_recover_loop assms(2) status_R reason_R ack_R fill_R fetch_R effect_gets_any
        split: option.split)
qed

lemma stays_submit_locked:
  assumes ad: "routable R rt ad" and rs: "\<And>rs cid. handle_resolver rt = Some rs \<Longrightarrow> effect R any (poll rs cid)"
  shows "stays R (submit_locked_co rt ad od sid acquired)"
proof -
  have "effect R any (ad_place ad od)" using ad by (auto simp: routable_def intro: effect_any)
  then have "stays R (place_and_settle_co rt ad od)"
    unfolding place_and_settle_co_def by (intro stays_bind stays_act stays_settle ad rs)
  moreover have "effect R any (catchE (\<lambda>e. e = DuplicateOrderSignal)
      (bindE (insert_order (pool rt) od sid) (\<lambda>_. returnE True)) (\<lambda>_. returnE False))"
    by (intro effect_catch effect_seq insert_R effect_return) simp_all
  ultimately show ?thesis
    by (auto simp: submit_locked_co_def intro!: stays_bind stays_act stays_await fetch_R split: option.split)
qed

lemma stays_gates_bind:
  assumes "\<And>ad. resolve rt (broker od) (account od) TRADE = Inr ad \<Longrightarrow> stays R (f ad)"
  shows "stays R (bindC (submit_gates_co rt od) f)"
  unfolding submit_gates_co_def bindC_assoc
  by (rule stays_lift_bind, rule stays_lift_bind, rule stays_bind [OF stays_act [OF effect_cache [OF only_redis_risk_check]]],
      rule stays_bind [OF stays_act [OF band_R]], rule stays_lift_bind, rule stays_bind [OF stays_act [OF guard_R]])
    (simp add: returnC_def assms)

lemma stays_single_flight:
  assumes "\<And>acquired. stays R (body acquired)"
  shows "stays R (single_flight_co c token key ttl body)"
  using assms
  by (auto simp: single_flight_co_def intro!: stays_intros effect_catch effect_on_redis effect_return split: option.split)

lemma stays_submit:
  assumes "trades_within R rt" and "\<And>rs cid. handle_resolver rt = Some rs \<Longrightarrow> effect R any (poll rs cid)"
  shows "stays R (submit_co rt od sid)"
proof -
  have "stays R (submit_new_co rt od sid)"
    unfolding submit_new_co_def
  proof (intro stays_gates_bind)
    fix ad
    assume "resolve rt (broker od) (account od) TRADE = Inr ad"
    then have "routable R rt ad" using assms(1) by (simp add: trades_within_def)
    from stays_submit_locked [OF this assms(2)]
    show "stays R (bindC (await (getsE (fresh_token rt))) (\<lambda>token.
     bindC (single_flight_co (client rt) token (''exe:submit:'' @ client_order_id od)
              (submit_lock_ttl_seconds (settings rt)) (submit_locked_co rt ad od sid)) (\<lambda>r.
     case r of
       Inl oc \<Rightarrow> returnC oc
     | Inr resolution \<Rightarrow>
         bindC (await (fetch_order_result (client_order_id od))) (\<lambda>row.
         case row of
           None \<Rightarrow> raiseC (Rejected OrderNotFound (Some (client_order_id od)))
         | Some r \<Rightarrow>
             returnC \<lparr>so_result = to_result r, so_duplicate = False, so_resolution = resolution\<rparr>))))"
      by (auto intro!: stays_bind stays_act stays_single_flight effect_gets_any fetch_R split: option.split sum.split)
  qed
  then show ?thesis
    by (auto simp: submit_co_def intro!: stays_bind stays_act assert_disengaged_R fetch_R split: option.split)
qed

lemma stays_resolved:
  assumes "trades_within R rt" and "\<And>ad. routable R rt ad \<Longrightarrow> stays R (f ad)"
  shows "stays R (bindC (liftC (resolve rt b acct TRADE)) f)"
  by (rule stays_lift_bind) (use assms in \<open>auto simp: trades_within_def\<close>)

text \<open>A bind on a resolved adapter goes by \<open>stays_resolved\<close>, the others by these.\<close>

lemmas stays_binds = stays_bind [where c = "act m p" for m p] stays_bind [where c = "if b then c else d" for b c d]
  stays_bind [where c = "liftC (assert_amend_quantities i r n q)" for i r n q]
  stays_bind [where c = "liftC (amended_order r i p n)" for r i p n]

lemma stays_cancel:
  assumes "trades_within R rt"
  shows "stays R (cancel_co rt cid)"
proof -
  have "effect R any (ad_cancel ad cid)" if "routable R rt ad" for ad
    using that by (simp add: routable_def)
  then show ?thesis
    by (auto simp: cancel_co_def intro!: stays_resolved assms stays_binds stays_act fetch_R get_order_R guard_R status_R
        split: option.split)
qed

lemma stays_amend_native:
  assumes "trades_within R rt"
  shows "stays R (amend_native_co rt row new_cid np nq)"
  by (auto simp: amend_native_co_def Let_def intro!: stays_resolved assms stays_binds stays_act fetch_R get_order_R
      guard_R status_R replace_R restore_R venue_amend_R effect_cache [OF only_redis_risk_check] split: option.split)

lemma stays_amend:
  assumes "trades_within R rt" and "\<And>rs cid. handle_resolver rt = Some rs \<Longrightarrow> effect R any (poll rs cid)"
  shows "stays R (amend_co rt cid new_cid np nq)"
  by (auto simp: amend_co_def amend_cancel_replace_co_def assms intro!: stays_bind stays_act assert_disengaged_R fetch_R
      stays_cancel stays_amend_native stays_submit split: option.split)

end

lemma poll_evolves: "router_ok rt \<Longrightarrow> handle_resolver rt = Some rs \<Longrightarrow> effect evolves any (poll rs cid)"
  by (auto simp: router_ok_def effect_def poll_def split: prod.split) (metis snd_conv)

text \<open>
  A row, once stored, stays: the contract of an action guarded by the insert of the row, for
  every order id.
\<close>

interpretation placement: guarded_action "stored cid" evolves "Some cid"
  by unfold_locales (auto simp: stored_def dest: evolves_row)

section \<open>Properties\<close>

text \<open>What the event loops run: submits and amends, each of a router that keeps its contract.\<close>

inductive engine_handler :: "('r, 'v, SubmitOutcome) handler \<Rightarrow> bool" where
  submits: "router_ok rt \<Longrightarrow> engine_handler (submit_co rt od sid)"
| amends: "router_ok rt \<Longrightarrow> engine_handler (amend_co rt cid new_cid np nq)"

context order_router
begin

lemma submit_stays: "stays evolves (submit_co rt od sid)"
  by (rule durable.stays_submit [OF router_ok_trades [OF ok]]) (rule poll_evolves [OF ok])

lemma amend_stays: "stays evolves (amend_co rt cid new_cid np nq)"
  by (rule durable.stays_amend [OF router_ok_trades [OF ok]]) (rule poll_evolves [OF ok])

end

lemma engine_handler_placement: "engine_handler c \<Longrightarrow> fresh (stored cid) (Some cid) c \<and> stays evolves c"
  by (cases rule: engine_handler.cases)
    (auto intro: fresh_submit fresh_amend order_router.submit_stays order_router.amend_stays order_router.intro)

text \<open>
  C2. An order is placed at most once, however the requests are interleaved. Let any number of
  submits and amends run, in one process or in several on the same database, with the lock in
  Redis held, lost or absent, each suspended at any of its awaits, and the tables move
  meanwhile in any way the store allows. Then no id is placed at a venue twice, an id that had
  a row at the start is not placed at all, and an id that was placed has its row stored.
\<close>

theorem placed_at_most_once:
  assumes "interleaved engine_handler evolves w0 cs w placed"
  shows "count_list placed (Some cid) \<le> 1 \<and>
         (find_order cid w0 \<noteq> None \<longrightarrow> Some cid \<notin> set placed) \<and>
         (Some cid \<in> set placed \<longrightarrow> find_order cid w \<noteq> None)"
  using placement.done_once [OF assms engine_handler_placement] by (auto simp: stored_def)


text \<open>
  Two clients submit the same id, and both have looked it up and found nothing before either
  goes on; then the first runs to its end, and then the second.
\<close>

abbreviation demo_submit :: "(unit, unit, SubmitOutcome) handler" where
  "demo_submit \<equiv> submit_co demo_router_sim (demo_order demo_uuid 100 (Dec 10 0)) None"

abbreviation demo_submit_new :: "(unit, unit, SubmitOutcome) handler" where
  "demo_submit_new \<equiv> submit_new_co demo_router_sim (demo_order demo_uuid 100 (Dec 10 0)) None"

lemma demo_submit_looks_up:
  assumes "find_order demo_uuid w = None"
  shows "\<exists>g c' g'. demo_submit = Act None g \<and> g w = (c', w) \<and> c' = Act None g' \<and> g' w = (demo_submit_new, w)"
  using assms demo_ready(5) [of w]
  by (simp add: submit_co_def act_def fetch_order_result_def demo_order_def)

lemma demo_submit_new_places: "Some demo_uuid \<in> set (labels demo_submit_new (demo_world [] []))"
proof -
  let ?od = "demo_order demo_uuid 100 (Dec 10 0)" and ?w = "demo_world [] []"
  obtain w' where ins: "insert_order (pool demo_router_sim) ?od None ?w = (Inr (), w')"
    using insert_order_at [OF demo_ready(1,6,7)] by blast
  have "client_order_id ?od = demo_uuid" by (simp add: demo_order_def)
  then have "Some demo_uuid \<in> set (labels (submit_locked_co demo_router_sim (sim_of demo_router_sim) ?od None True) ?w)"
    by (simp add: submit_locked_co_def place_and_settle_co_def labels_bind ins bindE_def catchE_def)
  then show ?thesis
    by (simp add: submit_new_co_def labels_bind run_alone_submit_gates demo_gates single_flight_co_def demo_ready(8))
qed

theorem placed_at_most_once_witness:
  "\<exists>cs w placed. interleaved engine_handler evolves (demo_world [] []) cs w placed \<and> length cs = 2 \<and>
     (\<forall>c \<in> set cs. \<exists>x. c = Ret x) \<and> Some demo_uuid \<in> set placed \<and> count_list placed (Some demo_uuid) = 1"
proof -
  let ?w = "demo_world [] []"
  have ok: "router_ok demo_router_sim" unfolding demo_router_sim_def by (rule standalone_ok)
  have sp: "engine_handler demo_submit" by (rule engine_handler.submits [OF ok])
  have "interleaved engine_handler evolves ?w [demo_submit] ?w []"
    using interleaved.spawned [where spawn = engine_handler, OF interleaved.idle sp] by simp
  then have two: "interleaved engine_handler evolves ?w [demo_submit, demo_submit] ?w []"
    using interleaved.spawned [where spawn = engine_handler, OF _ sp] by fastforce
  have none: "find_order demo_uuid ?w = None" using demo_ready(6) by (simp add: demo_order_def)
  from demo_submit_looks_up [OF none] obtain g c' g' where g: "demo_submit = Act None g" "g ?w = (c', ?w)"
    "c' = Act None g'" "g' ?w = (demo_submit_new, ?w)" by blast
  have "interleaved engine_handler evolves ?w [c', demo_submit] ?w [None]"
    using interleaved.stepped [OF two, of 0 None g] g by simp
  then have "interleaved engine_handler evolves ?w [c', c'] ?w [None, None]"
    using interleaved.stepped [of engine_handler evolves ?w "[c', demo_submit]" ?w "[None]" 1 None g] g by simp
  then have "interleaved engine_handler evolves ?w [demo_submit_new, c'] ?w [None, None, None]"
    using interleaved.stepped [of engine_handler evolves ?w "[c', c']" ?w "[None, None]" 0 None g'] g by simp
  then have "interleaved engine_handler evolves ?w [demo_submit_new, demo_submit_new] ?w [None, None, None, None]"
    using interleaved.stepped [of engine_handler evolves ?w "[demo_submit_new, c']" ?w "[None, None, None]" 1 None g'] g by simp
  from interleaved_alone [OF this, of 0] obtain x w1 where
    "interleaved engine_handler evolves ?w [Ret x, demo_submit_new] w1 ([None, None, None, None] @ labels demo_submit_new ?w)" by auto
  from interleaved_alone [OF this, of 1] obtain y w2 tr where
    run: "interleaved engine_handler evolves ?w [Ret x, Ret y] w2 tr" and "Some demo_uuid \<in> set tr"
    using demo_submit_new_places by auto
  moreover have "count_list tr (Some demo_uuid) \<le> 1" using placed_at_most_once [OF run] by blast
  ultimately show ?thesis by (auto intro!: exI [of _ "[Ret x, Ret y]"] exI [of _ w2] exI [of _ tr] simp: le_Suc_eq count_list_0_iff)
qed


end
