(* ===== verification/Calendar.thy ===== *)
theory Calendar
  imports MarketData
begin

text \<open>
  The dates of Python's \<open>datetime\<close> module, as far as the engine uses them: the proleptic
  Gregorian calendar, ordinals, comparison, \<open>isoformat\<close> and \<open>date.fromisoformat\<close>. The range
  check of the module (years 1 to 9999) is left out of the arithmetic: instants of the engine
  are far from either end.
\<close>

section \<open>The calendar\<close>

datatype pydate = Date (yr: int) (mo: int) (dy: int)

definition is_leap :: "int \<Rightarrow> bool" where
  "is_leap y \<longleftrightarrow> y mod 4 = 0 \<and> (y mod 100 \<noteq> 0 \<or> y mod 400 = 0)"

definition days_in_year :: "int \<Rightarrow> int" where
  "days_in_year y = (if is_leap y then 366 else 365)"

definition days_in_month :: "int \<Rightarrow> int \<Rightarrow> int" where
  "days_in_month y m = (if m = 2 then (if is_leap y then 29 else 28) else if m \<in> {4, 6, 9, 11} then 30 else 31)"

definition days_before_year :: "int \<Rightarrow> int" where
  "days_before_year y = (let n = y - 1 in n * 365 + n div 4 - n div 100 + n div 400)"

definition days_before_month :: "int \<Rightarrow> int \<Rightarrow> int" where
  "days_before_month y m = sum_list (map (days_in_month y) [1..m - 1])"

definition toordinal :: "pydate \<Rightarrow> int" where
  "toordinal d = days_before_year (yr d) + days_before_month (yr d) (mo d) + dy d"

definition valid_date :: "pydate \<Rightarrow> bool" where
  "valid_date d \<longleftrightarrow> 1 \<le> mo d \<and> mo d \<le> 12 \<and> 1 \<le> dy d \<and> dy d \<le> days_in_month (yr d) (mo d)"

text \<open>
  The date of an ordinal: whole cycles of 400 years at once, then year by year and month by
  month. The two loops take the number of days left.
\<close>

function year_of :: "int \<Rightarrow> int \<Rightarrow> int \<times> int" where
  "year_of y n = (if n < days_in_year y then (y, n) else year_of (y + 1) (n - days_in_year y))"
  by pat_completeness auto
termination
  by (relation "measure (\<lambda>(y, n). nat n)") (auto simp: days_in_year_def split: if_splits)

function month_of :: "int \<Rightarrow> int \<Rightarrow> int \<Rightarrow> int \<times> int" where
  "month_of y m n =
     (if n < days_in_month y m \<or> 12 \<le> m then (m, n) else month_of y (m + 1) (n - days_in_month y m))"
  by pat_completeness auto
termination
  by (relation "measure (\<lambda>(y, m, n). nat (12 - m))") auto

declare year_of.simps [simp del] month_of.simps [simp del]

definition fromordinal :: "int \<Rightarrow> pydate" where
  "fromordinal n =
     (let k = n - 1;
          (y, a) = year_of (400 * (k div 146097) + 1) (k mod 146097);
          (m, b) = month_of y 1 a
      in Date y m (b + 1))"

text \<open>Comparison is of year, then month, then day.\<close>

instantiation pydate :: linorder
begin

definition less_eq_pydate :: "pydate \<Rightarrow> pydate \<Rightarrow> bool" where
  "less_eq_pydate d e \<longleftrightarrow>
     yr d < yr e \<or> yr d = yr e \<and> (mo d < mo e \<or> mo d = mo e \<and> dy d \<le> dy e)"

definition less_pydate :: "pydate \<Rightarrow> pydate \<Rightarrow> bool" where
  "less_pydate d e \<longleftrightarrow>
     yr d < yr e \<or> yr d = yr e \<and> (mo d < mo e \<or> mo d = mo e \<and> dy d < dy e)"

instance
  by standard (auto simp: less_eq_pydate_def less_pydate_def intro: pydate.expand)

end

section \<open>Ordinals and dates are the same thing\<close>

lemma div_pred:
  fixes y k :: int
  assumes "0 < k"
  shows "y div k = (y - 1) div k + of_bool (y mod k = 0)"
proof -
  have y: "y - 1 = (y mod k - 1) + k * (y div k)" using mult_div_mod_eq [of k y] by simp
  have "y mod k < k" "0 \<le> y mod k" using assms by simp_all
  then have "y mod k \<noteq> 0 \<Longrightarrow> (y mod k - 1) div k = 0" by (intro div_pos_pos_trivial) linarith+
  then have "(y mod k - 1) div k = (if y mod k = 0 then - 1 else 0)" using assms by (simp add: div_eq_minus1)
  moreover have "(y - 1) div k = (y mod k - 1) div k + y div k"
    unfolding y [of] using assms by simp
  ultimately show ?thesis by simp
qed

lemma days_before_year_step: "days_before_year (y + 1) = days_before_year y + days_in_year y"
proof -
  have "(100 :: int) dvd 400" "(4 :: int) dvd 100" by simp_all
  then have "y mod 400 = 0 \<Longrightarrow> y mod 100 = 0" "y mod 100 = 0 \<Longrightarrow> y mod 4 = 0"
    by (auto simp: mod_eq_0_iff_dvd intro: dvd_trans)
  moreover define a b c where "a = (y - 1) div 4" and "b = (y - 1) div 100" and "c = (y - 1) div 400"
  moreover have "y div 4 = (y - 1) div 4 + of_bool (y mod 4 = 0)" "y div 100 = (y - 1) div 100 + of_bool (y mod 100 = 0)"
    "y div 400 = (y - 1) div 400 + of_bool (y mod 400 = 0)" by (rule div_pred, simp)+
  ultimately have "days_before_year (y + 1) = y * 365 + (a + of_bool (y mod 4 = 0)) - (b + of_bool (y mod 100 = 0)) +
      (c + of_bool (y mod 400 = 0))" "days_before_year y = (y - 1) * 365 + a - b + c"
    "y mod 400 = 0 \<Longrightarrow> y mod 100 = 0" "y mod 100 = 0 \<Longrightarrow> y mod 4 = 0"
    by (simp_all only: days_before_year_def Let_def add_diff_cancel_right')
  then show ?thesis
    by (cases "y mod 4 = 0"; cases "y mod 100 = 0"; cases "y mod 400 = 0")
      (simp_all add: days_in_year_def is_leap_def)
qed

lemma days_before_year_era: "days_before_year (400 * e + 1) = 146097 * e"
  by (simp add: days_before_year_def Let_def)

lemma days_before_month_step:
  assumes "1 \<le> m"
  shows "days_before_month y (m + 1) = days_before_month y m + days_in_month y m"
  using assms upto_rec2 [of 1 m] by (simp add: days_before_month_def)

lemma days_before_month_ends:
  "days_before_month y 1 = 0" "days_before_month y 12 + 31 = days_in_year y" "days_in_month y 12 = 31"
  by (simp_all add: days_before_month_def days_in_month_def days_in_year_def upto_rec1)

lemma days_in_month_bounds: "28 \<le> days_in_month y m" "days_in_month y m \<le> 31"
  by (auto simp: days_in_month_def)

lemma year_of_spec:
  assumes "year_of y n = (y', n')" and "0 \<le> n"
  shows "days_before_year y' + n' = days_before_year y + n \<and> 0 \<le> n' \<and> n' < days_in_year y' \<and> y \<le> y'"
  using assms
proof (induction y n rule: year_of.induct)
  case (1 y n)
  show ?case
  proof (cases "n < days_in_year y")
    case True
    with 1 show ?thesis by (simp add: year_of.simps)
  next
    case False
    then have "year_of (y + 1) (n - days_in_year y) = (y', n')" using 1(2) by (simp add: year_of.simps)
    from 1(1) [OF False this] False show ?thesis by (simp add: days_before_year_step)
  qed
qed

lemma month_of_spec:
  assumes "month_of y m n = (m', n')" and "0 \<le> n" and "1 \<le> m" and "m \<le> 12" and "days_before_month y m + n < days_in_year y"
  shows "days_before_month y m' + n' = days_before_month y m + n \<and> 0 \<le> n' \<and> n' < days_in_month y m' \<and> 1 \<le> m' \<and> m' \<le> 12"
  using assms
proof (induction y m n rule: month_of.induct)
  case (1 y m n)
  show ?case
  proof (cases "n < days_in_month y m \<or> 12 \<le> m")
    case True
    have "m = 12 \<Longrightarrow> n < days_in_month y m" using 1(6) days_before_month_ends(2,3) [of y] by simp
    moreover have "m' = m" "n' = n" using 1(2) True by (simp_all add: month_of.simps)
    ultimately show ?thesis using 1(3,4,5) True by auto
  next
    case False
    then have "month_of y (m + 1) (n - days_in_month y m) = (m', n')" using 1(2) by (simp add: month_of.simps)
    from 1(1) [OF False this] False 1 show ?thesis by (simp add: days_before_month_step)
  qed
qed

lemma ordinal_of_date: "valid_date (fromordinal n)" "toordinal (fromordinal n) = n"
proof -
  obtain y a where y: "year_of (400 * ((n - 1) div 146097) + 1) ((n - 1) mod 146097) = (y, a)" by fastforce
  obtain m b where m: "month_of y 1 a = (m, b)" by fastforce
  note ys = year_of_spec [OF y, simplified days_before_year_era]
  have d: "fromordinal n = Date y m (b + 1)" by (simp add: fromordinal_def y m)
  have ms: "days_before_month y m + b = a" "0 \<le> b" "b < days_in_month y m" "1 \<le> m" "m \<le> 12"
    using month_of_spec [OF m] ys days_before_month_ends(1) by auto
  then show "valid_date (fromordinal n)" by (simp add: d valid_date_def)
  have "146097 * ((n - 1) div 146097) + (n - 1) mod 146097 = n - 1" by simp
  with ms ys show "toordinal (fromordinal n) = n" by (simp add: d toordinal_def)
qed

lemma days_before_year_less: "y < y' \<Longrightarrow> days_before_year y + days_in_year y \<le> days_before_year y'"
proof (induction y' rule: int_gr_induct [of y])
  case base
  then show ?case by (simp add: days_before_year_step)
next
  case (step z)
  then show ?case using days_before_year_step [of z] by (simp add: days_in_year_def)
qed

lemma days_before_month_less:
  assumes "m < m'" and "1 \<le> m"
  shows "days_before_month y m + days_in_month y m \<le> days_before_month y m'"
  using assms
proof (induction m' rule: int_gr_induct [of m])
  case base
  then show ?case by (simp add: days_before_month_step)
next
  case (step k)
  then show ?case using days_before_month_step [of k y] days_in_month_bounds(1) [of y k] by simp
qed

text \<open>Within a valid date, the day lies in its month and the month in its year.\<close>

lemma toordinal_year:
  assumes "valid_date d"
  shows "days_before_year (yr d) < toordinal d" and "toordinal d \<le> days_before_year (yr d) + days_in_year (yr d)"
proof -
  have m: "1 \<le> mo d" "mo d \<le> 12" "1 \<le> dy d" "dy d \<le> days_in_month (yr d) (mo d)"
    using assms by (simp_all add: valid_date_def)
  have "days_before_month (yr d) 1 \<le> days_before_month (yr d) (mo d)"
    using days_before_month_less [of 1 "mo d" "yr d"] days_in_month_bounds(1) [of "yr d" 1] m(1)
    by (cases "mo d = 1") auto
  with m(3) show "days_before_year (yr d) < toordinal d" by (simp add: toordinal_def days_before_month_ends)
  have "days_before_month (yr d) (mo d) + days_in_month (yr d) (mo d) \<le> days_in_year (yr d)"
    using days_before_month_less [of "mo d" 12 "yr d"] days_before_month_ends [of "yr d"] m
    by (cases "mo d = 12") auto
  with m(4) show "toordinal d \<le> days_before_year (yr d) + days_in_year (yr d)" by (simp add: toordinal_def)
qed

lemma toordinal_less:
  assumes "valid_date d" and "valid_date e" and "d < e"
  shows "toordinal d < toordinal e"
proof -
  consider "yr d < yr e" | "yr d = yr e" "mo d < mo e" | "yr d = yr e" "mo d = mo e" "dy d < dy e"
    using assms(3) by (auto simp: less_pydate_def)
  then show ?thesis
  proof cases
    case 1
    then show ?thesis
      using days_before_year_less toordinal_year [OF assms(1)] toordinal_year [OF assms(2)] by fastforce
  next
    case 2
    then show ?thesis
      using days_before_month_less [of "mo d" "mo e" "yr d"] assms(1,2) by (simp add: valid_date_def toordinal_def)
  next
    case 3
    then show ?thesis by (simp add: toordinal_def)
  qed
qed

lemma toordinal_less_iff: "valid_date d \<Longrightarrow> valid_date e \<Longrightarrow> toordinal d < toordinal e \<longleftrightarrow> d < e"
  using toordinal_less [of d e] toordinal_less [of e d] by (cases d e rule: linorder_cases) auto

lemma toordinal_inject: "valid_date d \<Longrightarrow> valid_date e \<Longrightarrow> toordinal d = toordinal e \<longleftrightarrow> d = e"
  using toordinal_less_iff [of d e] toordinal_less_iff [of e d] by (cases d e rule: linorder_cases) auto

lemma date_of_ordinal: "valid_date d \<Longrightarrow> fromordinal (toordinal d) = d"
  using ordinal_of_date [of "toordinal d"] toordinal_inject by blast

lemma fromordinal_less_iff: "fromordinal m < fromordinal n \<longleftrightarrow> m < n"
  using toordinal_less_iff [OF ordinal_of_date(1) ordinal_of_date(1)] by (simp add: ordinal_of_date(2))

lemma fromordinal_le_iff: "fromordinal m \<le> fromordinal n \<longleftrightarrow> m \<le> n"
  by (simp add: fromordinal_less_iff flip: not_less)

section \<open>Months\<close>

text \<open>\<open>d.replace(day=k)\<close> and \<open>d + timedelta(days=n)\<close>.\<close>

definition replace_day :: "pydate \<Rightarrow> int \<Rightarrow> pydate" where
  "replace_day d k = Date (yr d) (mo d) k"

definition add_days :: "pydate \<Rightarrow> int \<Rightarrow> pydate" where
  "add_days d n = fromordinal (toordinal d + n)"

definition first_of_month :: "pydate \<Rightarrow> bool" where
  "first_of_month d \<longleftrightarrow> valid_date d \<and> dy d = 1"

lemma replace_day_valid: "valid_date d \<Longrightarrow> 1 \<le> k \<Longrightarrow> k \<le> 28 \<Longrightarrow> valid_date (replace_day d k)"
  using days_in_month_bounds(1) [of "yr d" "mo d"] by (simp add: valid_date_def replace_day_def)

lemma first_of_month_replace: "valid_date d \<Longrightarrow> first_of_month (replace_day d 1)"
  by (simp add: first_of_month_def replace_day_valid) (simp add: replace_day_def)

text \<open>The first of the month after: the day after the last of this one.\<close>

definition month_after :: "pydate \<Rightarrow> pydate" where
  "month_after d = (if mo d = 12 then Date (yr d + 1) 1 1 else Date (yr d) (mo d + 1) 1)"

lemma month_after_first: "first_of_month d \<Longrightarrow> first_of_month (month_after d)"
  using days_in_month_bounds(1) [of "yr d + 1" 1] days_in_month_bounds(1) [of "yr d" "mo d + 1"]
  by (auto simp: first_of_month_def month_after_def valid_date_def)

lemma toordinal_month_after:
  assumes "first_of_month d"
  shows "toordinal (month_after d) = toordinal d + days_in_month (yr d) (mo d)"
proof (cases "mo d = 12")
  case True
  then show ?thesis
    using assms days_before_year_step [of "yr d"] days_before_month_ends(1) days_before_month_ends(2,3) [of "yr d"]
    by (simp add: first_of_month_def month_after_def toordinal_def)
next
  case False
  then show ?thesis
    using assms days_before_month_step [of "mo d" "yr d"]
    by (simp add: first_of_month_def month_after_def toordinal_def valid_date_def)
qed

text \<open>A date that lies within the days of a month bears its year and number.\<close>

lemma replace_day_within:
  assumes "first_of_month m" and "valid_date d" and "m \<le> d" and "d < month_after m"
  shows "replace_day d 1 = m"
  using assms
  by (cases m; cases d) (auto simp: first_of_month_def month_after_def valid_date_def less_eq_pydate_def less_pydate_def
      replace_day_def split: if_splits)

lemma within_month:
  assumes "valid_date d"
  shows "replace_day d 1 \<le> d" and "d < month_after (replace_day d 1)"
  using assms by (auto simp: replace_day_def month_after_def less_eq_pydate_def less_pydate_def valid_date_def)

section \<open>Text\<close>

definition zfill :: "nat \<Rightarrow> string \<Rightarrow> string" where
  "zfill n s = replicate (n - length s) (CHR ''0'') @ s"

definition isoformat_date :: "pydate \<Rightarrow> string" where
  "isoformat_date d =
     zfill 4 (int_str (yr d)) @ ''-'' @ zfill 2 (int_str (mo d)) @ ''-'' @ zfill 2 (int_str (dy d))"

text \<open>\<open>n\<close> digits at the front, and what follows them.\<close>

definition parse_digits :: "nat \<Rightarrow> string \<Rightarrow> (int \<times> string) option" where
  "parse_digits n s =
     (if length (take n s) = n \<and> list_all is_digit (take n s) then Some (int (digits_val (take n s)), drop n s) else None)"

text \<open>The date of a day in an ISO week; None where the calendar has no such week or day.\<close>

definition iso_to_ymd :: "int \<Rightarrow> int \<Rightarrow> int \<Rightarrow> pydate option" where
  "iso_to_ymd y week d =
     (let first_day = toordinal (Date y 1 1);
          first_weekday = (first_day + 6) mod 7;
          week1_monday = first_day - first_weekday + (if 3 < first_weekday then 7 else 0);
          long_year = (first_weekday = 3 \<or> first_weekday = 2 \<and> is_leap y)
      in if week \<le> 0 \<or> 53 < week \<or> week = 53 \<and> \<not> long_year \<or> d \<le> 0 \<or> 8 \<le> d then None
         else Some (fromordinal (week1_monday + (week - 1) * 7 + d - 1)))"

definition in_range :: "pydate \<Rightarrow> bool" where
  "in_range d \<longleftrightarrow> valid_date d \<and> 1 \<le> yr d \<and> yr d \<le> 9999"

text \<open>\<open>date.fromisoformat\<close>: calendar and week dates, with and without separators.\<close>

definition fromisoformat_date :: "string \<Rightarrow> pydate option" where
  "fromisoformat_date s =
     (if length s \<notin> {7, 8, 10} then None
      else
        Option.bind (parse_digits 4 s) (\<lambda>(y, p).
        let sep = (p \<noteq> [] \<and> hd p = CHR ''-'');
            q = (if sep then tl p else p)
        in Option.bind
             (if q \<noteq> [] \<and> hd q = CHR ''W'' then
                Option.bind (parse_digits 2 (tl q)) (\<lambda>(week, r).
                if r = [] then iso_to_ymd y week 1
                else if sep \<and> hd r \<noteq> CHR ''-'' then None
                else Option.bind (parse_digits 1 (if sep then tl r else r)) (\<lambda>(d, r').
                     if r' = [] then iso_to_ymd y week d else None))
              else
                Option.bind (parse_digits 2 q) (\<lambda>(m, r).
                if sep \<and> (r = [] \<or> hd r \<noteq> CHR ''-'') then None
                else Option.bind (parse_digits 2 (if sep then tl r else r)) (\<lambda>(d, r').
                     if r' = [] then Some (Date y m d) else None)))
             (\<lambda>d. if in_range d then Some d else None)))"

lemma length_nat_str: "k < 10 ^ n \<Longrightarrow> 0 < n \<Longrightarrow> length (nat_str k) \<le> n"
proof (induction n arbitrary: k)
  case (Suc n)
  show ?case
  proof (cases "k < 10")
    case True
    then show ?thesis by (subst nat_str.simps) simp
  next
    case False
    then have "0 < n" using Suc.prems(1) by (cases n) auto
    moreover have "k div 10 < 10 ^ n" using Suc.prems(1) by (simp add: less_mult_imp_div_less mult.commute)
    ultimately show ?thesis using Suc.IH [of "k div 10"] False by (subst nat_str.simps) simp
  qed
qed simp

lemma digit_chars: "c \<in> set ''0123456789'' \<Longrightarrow> is_digit c"
  by (auto simp: is_digit_def)

lemma parse_zfill:
  assumes "0 \<le> k" and "k < 10 ^ n" and "0 < n"
  shows "parse_digits n (zfill n (int_str k) @ rest) = Some (k, rest)"
proof -
  have "nat k < 10 ^ n" using assms(1,2) by (metis nat_less_iff of_nat_numeral of_nat_power)
  then have len: "length (nat_str (nat k)) \<le> n" using assms(3) by (rule length_nat_str)
  have "list_all is_digit (nat_str (nat k))"
    unfolding list_all_iff using nat_str_digits [of "nat k"] digit_chars by blast
  moreover have "list_all is_digit (replicate j (CHR ''0''))" for j by (induction j) (simp_all add: is_digit_def)
  ultimately have "list_all is_digit (zfill n (int_str k))"
    using assms(1) by (simp add: zfill_def int_str_def)
  moreover have "length (zfill n (int_str k)) = n" using len assms(1) by (simp add: zfill_def int_str_def)
  moreover have "digits_val (zfill n (int_str k)) = nat k"
    using assms(1) by (simp add: zfill_def int_str_def digits_val_zeros digits_val_nat_str)
  ultimately show ?thesis using assms(1) by (simp add: parse_digits_def)
qed

text \<open>What \<open>isoformat\<close> writes, \<open>fromisoformat\<close> reads.\<close>

lemma fromisoformat_isoformat:
  assumes "in_range d"
  shows "fromisoformat_date (isoformat_date d) = Some d"
proof -
  have d: "0 \<le> yr d" "yr d < 10 ^ 4" "0 \<le> mo d" "mo d < 10 ^ 2" "0 \<le> dy d" "dy d < 10 ^ 2"
    using assms days_in_month_bounds(2) [of "yr d" "mo d"] by (auto simp: in_range_def valid_date_def)
  have digs: "length (zfill n (int_str k)) = n \<and> list_all is_digit (zfill n (int_str k))"
    if "0 \<le> k" "k < 10 ^ n" "0 < n" for n k
    using parse_zfill [OF that, of "[]"] unfolding parse_digits_def by (simp split: if_splits)
  let ?m = "zfill 2 (int_str (mo d))"
  have "length (isoformat_date d) = 10" using digs [OF d(1,2)] digs [OF d(3,4)] digs [OF d(5,6)]
    by (simp add: isoformat_date_def)
  moreover have "?m \<noteq> []" "hd ?m \<noteq> CHR ''W''"
    using digs [OF d(3,4)] by (cases ?m; force simp: is_digit_def)+
  moreover note parse_zfill [OF d(1,2)] parse_zfill [OF d(3,4)] parse_zfill [OF d(5,6), of "[]"]
  ultimately show ?thesis using assms
    by (simp add: fromisoformat_date_def isoformat_date_def)
qed

end
