(* ===== verification/VenueWire.thy ===== *)
theory VenueWire
  imports AdapterBase HandleRecovery
begin

text \<open>
  What the two broker packages share of the standard library and of the wire: the HTTP client,
  upper case, \<open>str\<close> and \<open>quantize\<close> of a decimal, the coarse state of a venue order, the
  placeholder ids of venue rows, and the wait for a placement token. The HTTP client
  (\<open>httpx\<close>) and the bridges behind it are not in the repository: a client is a record of two
  operations on the opaque venue state.
\<close>

section \<open>HTTP\<close>

text \<open>
  A response is its status and its decoded body, None where the body is not JSON. A failure of
  the connection or a timeout is the exception \<open>HTTPError\<close>.
\<close>

type_synonym http_response = "int \<times> json option"

record 'v http_client =
  hc_get :: "string \<Rightarrow> ('v, exn, http_response) prog"
  hc_post :: "string \<Rightarrow> json \<Rightarrow> ('v, exn, http_response) prog"

definition is_http_error :: "exn \<Rightarrow> bool" where
  "is_http_error e \<longleftrightarrow> e = OtherError ''HTTPError''"

definition on_venue :: "('v, exn, 'a) prog \<Rightarrow> ('r, 'v, 'a) eng" where
  "on_venue m = (\<lambda>w. case m (venue w) of (x, v) \<Rightarrow> (x, w\<lparr>venue := v\<rparr>))"

lemma on_venue_frame: "effect same_store any (on_venue m)"
  by (simp add: effect_def on_venue_def same_store_def split: prod.splits)

section \<open>Text\<close>

definition upper_char :: "char \<Rightarrow> char" where
  "upper_char c =
     (let n = (of_char c :: nat) in if 97 \<le> n \<and> n \<le> 122 then char_of (n - 32) else c)"

definition upper :: "string \<Rightarrow> string" where
  "upper s = map upper_char s"

text \<open>\<open>str(d)\<close>: plain notation while the exponent is not positive and the point is near.\<close>

definition dec_str :: "decimal \<Rightarrow> string" where
  "dec_str d =
     (let digits = nat_str (nat \<bar>dcoeff d\<bar>);
          left = dexp d + int (length digits);
          place = (if dexp d \<le> 0 \<and> - 6 < left then left else 1);
          n = int (length digits);
          ip = (if place \<le> 0 then ''0''
                else if n \<le> place then digits @ replicate (nat (place - n)) (CHR ''0'')
                else take (nat place) digits);
          fp = (if place \<le> 0 then ''.'' @ replicate (nat (- place)) (CHR ''0'') @ digits
                else if n \<le> place then []
                else ''.'' @ drop (nat place) digits);
          ex = left - place
      in (if dcoeff d < 0 then ''-'' else []) @ ip @ fp @
         (if ex = 0 then [] else ''E'' @ (if 0 < ex then ''+'' else []) @ int_str ex))"

text \<open>
  \<open>d.quantize(Decimal(1).scaleb(e))\<close>, half even; None where the result would need more digits
  than the context holds and the method raises.
\<close>

definition dec_quantize :: "decimal \<Rightarrow> int \<Rightarrow> decimal option" where
  "dec_quantize d e =
     (let c = nat \<bar>dcoeff d\<bar>;
          c' = (if e \<le> dexp d then c * 10 ^ nat (dexp d - e) else div_half_even c (10 ^ nat (e - dexp d)))
      in if dec_prec < ndigits c' then None
         else Some (Dec ((if dcoeff d < 0 then - 1 else 1) * int c') e))"

section \<open>Venue orders\<close>

text \<open>A parsed \<open>datetime\<close>, with or without an offset; the instant, or the wall clock, in microseconds.\<close>

datatype pydatetime = Aware timestamp | Naive timestamp

text \<open>\<open>(entry_time - row.created_at)\<close>: Python refuses to mix the two kinds.\<close>

fun minus_aware :: "pydatetime \<Rightarrow> timestamp \<Rightarrow> exn + int" where
  "minus_aware (Aware t) u = Inr (t - u)"
| "minus_aware (Naive t) u = Inl (OtherError ''TypeError'')"

text \<open>\<open>isoformat\<close> keeps the offset the parser read, which the model does not: a parameter.\<close>

type_synonym isoformat = "pydatetime \<Rightarrow> string"

datatype VenueOrderState = V_RESTING | V_CANCELLED | V_REJECTED | V_EXPIRED

fun venue_state_value :: "VenueOrderState \<Rightarrow> string" where
  "venue_state_value V_RESTING = ''resting''"
| "venue_state_value V_CANCELLED = ''cancelled''"
| "venue_state_value V_REJECTED = ''rejected''"
| "venue_state_value V_EXPIRED = ''expired''"

subsection \<open>Placeholder ids\<close>

text \<open>The first sixteen bytes of the digest, the version and variant bits set, as a UUID.\<close>

definition digest_bytes :: "string \<Rightarrow> nat list" where
  "digest_bytes s = concat (map (\<lambda>x. be_bytes 4 (unat x)) (sha256 (map of_char s)))"

definition uuid4_bytes :: "nat list \<Rightarrow> nat list" where
  "uuid4_bytes bs =
     (let b = take 16 bs
      in (b[6 := b ! 6 mod 16 + 64])[8 := b ! 8 mod 64 + 128])"

definition hex_of_bytes :: "nat list \<Rightarrow> string" where
  "hex_of_bytes bs = concat (map (\<lambda>b. [hex_char (b div 16), hex_char (b mod 16)]) bs)"

definition uuid_str :: "nat list \<Rightarrow> string" where
  "uuid_str bs =
     (let h = hex_of_bytes bs
      in take 8 h @ ''-'' @ take 4 (drop 8 h) @ ''-'' @ take 4 (drop 12 h) @ ''-'' @
         take 4 (drop 16 h) @ ''-'' @ drop 20 h)"

definition synthetic_client_order_id :: "string \<Rightarrow> string \<Rightarrow> string" where
  "synthetic_client_order_id broker_name order_no =
     uuid_str (uuid4_bytes (digest_bytes (broker_name @ '':'' @ order_no)))"

section \<open>Waiting for a placement token\<close>

text \<open>
  \<open>await self._place_limiter.acquire()\<close>, on the one clock of the world; the bucket is locked
  while its holder sleeps, so it is the one read at entry.
\<close>

definition seconds :: "timestamp \<Rightarrow> rat" where
  "seconds t = of_int t / 1000000"

definition sleep_for :: "('r, 'v) pause \<Rightarrow> rat \<Rightarrow> ('r, 'v) world \<Rightarrow> ('r, 'v) world" where
  "sleep_for ps wait w = ps \<lceil>wait * 1000000\<rceil> w"

definition acquire_token :: "('r, 'v) pause \<Rightarrow> Broker \<Rightarrow> ('r, 'v, unit) eng" where
  "acquire_token ps b w =
     (case acquire (seconds (clock w)) (\<lambda>wait. seconds (clock (sleep_for ps wait w))) (buckets w b) of
        (slept, b') \<Rightarrow>
          let w' = (case slept of None \<Rightarrow> w | Some wait \<Rightarrow> sleep_for ps wait w)
          in (Inr (), w'\<lparr>buckets := (buckets w')(b := b')\<rparr>))"

lemma acquire_token_evolves:
  assumes "\<And>d w. evolves w (ps d w)"
  shows "effect evolves any (acquire_token ps b)"
proof (rule effectI)
  fix w
  obtain slept b' where a: "acquire (seconds (clock w)) (\<lambda>wait. seconds (clock (sleep_for ps wait w))) (buckets w b) =
    (slept, b')" by fastforce
  have "evolves u (u\<lparr>buckets := bs\<rparr>)" for u :: "('a, 'b) world" and bs
    by (rule same_store_evolves) (simp add: same_store_def)
  moreover have "evolves w (case slept of None \<Rightarrow> w | Some wait \<Rightarrow> sleep_for ps wait w)"
    using assms by (auto simp: sleep_for_def evolves_refl split: option.split)
  ultimately show "evolves w (after (acquire_token ps b) w)"
    using a by (auto simp: acquire_token_def Let_def intro: evolves_trans)
qed simp

text \<open>A token is always handed out: the wait ends, nothing is dropped or raised.\<close>

lemma acquire_token_ok: "outcome (acquire_token ps b) w = Inr ()"
  by (simp add: acquire_token_def Let_def split: prod.split)

section \<open>Placeholder ids are version-4 UUIDs\<close>

lemma below_16: "n < 16 \<Longrightarrow> n \<in> set [0 ..< 16 :: nat]"
  by simp

lemma hex_char_val: "n < 16 \<Longrightarrow> hex_val (hex_char n) = Some n"
  by (drule below_16) (auto simp: hex_char_def hex_val_def upt_rec simp del: set_upt)

definition nibbles :: "nat list \<Rightarrow> nat list" where
  "nibbles bs = concat (map (\<lambda>b. [b div 16, b mod 16]) bs)"

lemma hex_of_bytes_nibbles: "hex_of_bytes bs = map hex_char (nibbles bs)"
  by (simp add: hex_of_bytes_def nibbles_def map_concat o_def)

lemma hex_char_facts:
  assumes "n < 16"
  shows "hex_char n \<noteq> CHR ''-''" "hex_char n \<noteq> CHR ''_''" "hex_char n \<noteq> CHR ''u''" "hex_char n \<noteq> CHR ''x''"
    "hex_char n \<noteq> CHR ''X''" "hex_char n \<noteq> CHR ''+''" "hex_char n \<noteq> CHR 123" "hex_char n \<noteq> CHR 125" "\<not> is_space (hex_char n)"
  using below_16 [OF assms] by (auto simp: hex_char_def is_space_def upt_rec simp del: set_upt)

lemma hex_run_digits:
  "\<forall>n \<in> set ns. n < 16 \<Longrightarrow> ns \<noteq> [] \<or> dg \<Longrightarrow>
   hex_run acc dg (map hex_char ns) = Some (foldl (\<lambda>a n. 16 * a + n) acc ns)"
  by (induction ns arbitrary: acc dg) (auto simp: hex_char_val hex_char_facts)

text \<open>A number in base sixteen, and its digits.\<close>

abbreviation hex_number :: "nat list \<Rightarrow> nat" where
  "hex_number ns \<equiv> foldl (\<lambda>a n. 16 * a + n) 0 ns"

lemma foldl_hex: "foldl (\<lambda>a n. 16 * a + n) acc ns = acc * 16 ^ length ns + hex_number ns"
proof (induction ns arbitrary: acc)
  case (Cons n ns)
  show ?case using Cons [of "16 * acc + n"] Cons [of n] by (simp add: algebra_simps)
qed simp

lemma hex_number_append: "hex_number (xs @ ys) = hex_number xs * 16 ^ length ys + hex_number ys"
  using foldl_hex [of "hex_number xs" ys] by simp

lemma hex_number_less: "\<forall>n \<in> set ns. n < 16 \<Longrightarrow> hex_number ns < 16 ^ length ns"
proof (induction ns rule: rev_induct)
  case (snoc n ns)
  then show ?case by simp
qed simp

lemma hex_number_digit:
  assumes "\<forall>n \<in> set ns. n < 16" and "i < length ns"
  shows "hex_number ns div 16 ^ (length ns - 1 - i) mod 16 = ns ! i"
proof -
  let ?k = "length ns - 1 - i"
  have split: "ns = take (Suc i) ns @ drop (Suc i) ns" by simp
  have low: "hex_number (drop (Suc i) ns) < 16 ^ ?k"
    using hex_number_less [of "drop (Suc i) ns"] assms(1) by (auto dest: in_set_dropD)
  have "hex_number ns = hex_number (take (Suc i) ns) * 16 ^ ?k + hex_number (drop (Suc i) ns)"
    using hex_number_append [of "take (Suc i) ns" "drop (Suc i) ns"] by simp
  then have "hex_number ns div 16 ^ ?k = hex_number (take (Suc i) ns)" using low by simp
  then show ?thesis using assms by (simp add: take_Suc_conv_app_nth)
qed

lemma remove_all_absent: "c \<notin> set s \<Longrightarrow> remove_all (c # cs) s = s"
  by (induction s) (auto simp: remove_all.simps)

lemma remove_all_char: "remove_all [c] s = filter (\<lambda>x. x \<noteq> c) s"
  by (induction s) (auto simp: remove_all.simps)

lemma strip_by_none: "\<forall>c \<in> set s. \<not> p c \<Longrightarrow> strip_by p s = s"
proof -
  assume none: "\<forall>c \<in> set s. \<not> p c"
  have "dropWhile p t = t" if "set t \<subseteq> set s" for t using that none by (cases t) auto
  then show ?thesis by (simp add: strip_by_def)
qed

lemma int16_hex:
  assumes "\<forall>n \<in> set ns. n < 16" and "2 \<le> length ns"
  shows "int16 (map hex_char ns) = Some (int (hex_number ns))"
proof -
  obtain a b ms where ns: "ns = a # b # ms" using assms(2) by (auto simp: Suc_le_length_iff numeral_2_eq_2)
  have "strip (map hex_char ns) = map hex_char ns"
    unfolding strip_def by (rule strip_by_none) (use assms(1) in \<open>auto simp: hex_char_facts\<close>)
  then show ?thesis
    using assms(1) hex_run_digits [of ns False 0] by (simp add: int16_def hex_unsigned_def ns hex_char_facts)
qed

lemma uuid_int_hex:
  assumes "\<forall>n \<in> set ns. n < 16" and "length ns = 32" and "h = map hex_char ns"
  shows "uuid_int (take 8 h @ ''-'' @ take 4 (drop 8 h) @ ''-'' @ take 4 (drop 12 h) @ ''-'' @
           take 4 (drop 16 h) @ ''-'' @ drop 20 h) = Some (hex_number ns)" (is "uuid_int ?v = _")
proof -
  have chars: "c \<in> set h \<Longrightarrow> c \<noteq> CHR ''-'' \<and> c \<noteq> CHR ''u'' \<and> c \<notin> set ''{}''" for c
    using assms(1,3) hex_char_facts by fastforce
  have parts: "set ?v \<subseteq> insert (CHR ''-'') (set h)" by (auto dest: in_set_takeD in_set_dropD)
  have one: "c \<noteq> CHR ''u'' \<and> c \<notin> set ''{}''" if "c \<in> set ?v" for c
  proof (cases "c \<in> set h")
    case False
    then have "c = CHR ''-''" using subsetD [OF parts that] by simp
    then show ?thesis by simp
  qed (use chars in blast)
  have "CHR ''u'' \<notin> set ?v" and "\<forall>c \<in> set ?v. c \<notin> set ''{}''" using one by blast+
  moreover have "filter (\<lambda>x. x \<noteq> CHR ''-'') ?v = h"
  proof -
    have keep: "filter (\<lambda>x. x \<noteq> CHR ''-'') t = t" if "set t \<subseteq> set h" for t
      using that chars by (auto intro!: filter_True)
    have sub: "set (take n t) \<subseteq> set t" "set (drop n t) \<subseteq> set t" for n and t :: string
      by (rule set_take_subset, rule set_drop_subset)
    have "filter (\<lambda>x. x \<noteq> CHR ''-'') ?v =
        take 8 h @ take 4 (drop 8 h) @ take 4 (drop 12 h) @ take 4 (drop 16 h) @ drop 20 h"
      using sub by (simp add: keep subset_trans [OF sub(1) sub(2)])
    also have "\<dots> = h"
      using append_take_drop_id [of 4 "drop 16 h"] append_take_drop_id [of 4 "drop 12 h"]
        append_take_drop_id [of 4 "drop 8 h"] append_take_drop_id [of 8 h] by simp
    finally show ?thesis .
  qed
  moreover have "hex_number ns < 2 ^ 128" using hex_number_less [OF assms(1)] assms(2) by simp
  moreover have "int16 h = Some (int (hex_number ns))" using int16_hex [OF assms(1)] assms(2,3) by simp
  ultimately show ?thesis
    using assms(2,3) by (simp add: uuid_int_def Let_def remove_all_absent strip_by_none remove_all_char)
qed

lemma uuid_version_nibbles:
  assumes "\<forall>n \<in> set ns. n < 16" and "length ns = 32" and "ns ! 12 = 4" and "8 \<le> ns ! 16" and "ns ! 16 < 12"
  shows "uuid_version (hex_number ns) = Some 4"
proof -
  have version: "hex_number ns div 2 ^ 76 mod 16 = 4"
    using hex_number_digit [OF assms(1), of 12] assms(2,3) by simp
  define m where "m = hex_number ns div 2 ^ 60"
  have m: "m mod 16 = ns ! 16" using hex_number_digit [OF assms(1), of 16] assms(2) by (simp add: m_def)
  have "hex_number ns div 2 ^ 63 = m div 8" "hex_number ns div 2 ^ 62 = m div 4"
    by (simp_all add: m_def div_mult2_eq [symmetric])
  moreover have "m div 8 mod 2 = 1" "m div 4 mod 2 = 0" using m assms(4,5) by presburger+
  ultimately show ?thesis using version by (simp add: uuid_version_def)
qed

lemma length_nibbles [simp]: "length (nibbles bs) = 2 * length bs"
  by (induction bs) (simp_all add: nibbles_def)

lemma nibbles_nth: "i < length bs \<Longrightarrow> nibbles bs ! (2 * i) = bs ! i div 16"
proof (induction bs arbitrary: i)
  case (Cons b bs)
  then show ?case by (cases i) (simp_all add: nibbles_def)
qed simp

lemma nibbles_less: "\<forall>b \<in> set bs. b < 256 \<Longrightarrow> \<forall>n \<in> set (nibbles bs). n < 16"
  by (auto simp: nibbles_def)

lemma length_digest_bytes: "length (digest_bytes s) = 32"
proof -
  have "length (sha256 bs) = 8" for bs
    by (simp add: sha256_def length_fold_block sha_h0_def sha_primes_def)
  then show ?thesis by (simp add: digest_bytes_def length_concat be_bytes_def o_def sum_list_triv)
qed

lemma digest_bytes_less: "b \<in> set (digest_bytes s) \<Longrightarrow> b < 256"
  by (auto simp: digest_bytes_def be_bytes_def)

text \<open>
  The placeholder id of a venue row, whatever the row's number, is a version-4 UUID of the
  RFC 4122 variant: the contract's own validator accepts it.
\<close>

lemma synthetic_id_is_uuid4: "is_uuid4 (synthetic_client_order_id broker_name order_no)"
proof -
  define bs where "bs = digest_bytes (broker_name @ '':'' @ order_no)"
  define b where "b = take 16 bs"
  have b: "length b = 16" "\<forall>x \<in> set b. x < 256"
    by (auto simp: b_def bs_def length_digest_bytes dest: in_set_takeD digest_bytes_less)
  have us: "uuid4_bytes bs = (b[6 := b ! 6 mod 16 + 64])[8 := b ! 8 mod 64 + 128]"
    by (simp add: uuid4_bytes_def b_def Let_def)
  have bytes: "\<forall>x \<in> set (uuid4_bytes bs). x < 256"
    using b(2) by (auto simp: us dest!: set_update_subset_insert [THEN subsetD])
  define ns where "ns = nibbles (uuid4_bytes bs)"
  have ns: "\<forall>n \<in> set ns. n < 16" "length ns = 32"
    using nibbles_less [OF bytes] b(1) by (simp_all add: ns_def us)
  have "ns ! 12 = uuid4_bytes bs ! 6 div 16" "ns ! 16 = uuid4_bytes bs ! 8 div 16"
    using nibbles_nth [of 6 "uuid4_bytes bs"] nibbles_nth [of 8 "uuid4_bytes bs"] b(1) by (simp_all add: ns_def us)
  then have "ns ! 12 = 4" "8 \<le> ns ! 16" "ns ! 16 < 12" using b(1) by (simp_all add: us)
  from uuid_version_nibbles [OF ns this] uuid_int_hex [OF ns refl]
  have "is_uuid4 (uuid_str (uuid4_bytes bs))"
    by (simp add: is_uuid4_def uuid_str_def Let_def hex_of_bytes_nibbles ns_def)
  then show ?thesis by (simp add: synthetic_client_order_id_def bs_def)
qed

end
