(* ===== verification/FeeSchedule.thy ===== *)
theory FeeSchedule
  imports Calendar VenueWire
begin

text \<open>
  The canonical fee basis of \<open>reference/fee_schedule.py\<close>: the reader of the TOML file, the
  entry in force on a date, the one-sided comparison of an observation with it, and the block
  that adopts a higher observation. \<open>tomllib\<close> is a parameter: the model starts from the
  values it returns.
\<close>

section \<open>TOML values\<close>

text \<open>
  A float carries its \<open>repr\<close> and what \<open>int\<close> makes of it, a date or time its \<open>str\<close> and its
  \<open>repr\<close>. Text is a list of bytes, UTF-8 where it is not ASCII.
\<close>

datatype toml =
    TStr string
  | TInt int
  | TFloat string "int option"
  | TBool bool
  | TMoment string string
  | TArr "toml list"
  | TTab "(string \<times> toml) list"

fun toml_repr :: "toml \<Rightarrow> string" where
  "toml_repr (TStr s) = repr_str s"
| "toml_repr (TInt i) = int_str i"
| "toml_repr (TFloat r _) = r"
| "toml_repr (TBool b) = (if b then ''True'' else ''False'')"
| "toml_repr (TMoment s r) = r"
| "toml_repr (TArr xs) = ''['' @ join '', '' (map toml_repr xs) @ '']''"
| "toml_repr (TTab kvs) = ''{'' @ join '', '' (map (\<lambda>(k, v). repr_str k @ '': '' @ toml_repr v) kvs) @ ''}''"

definition toml_str :: "toml \<Rightarrow> string" where
  "toml_str v = (case v of TStr s \<Rightarrow> s | TMoment s _ \<Rightarrow> s | _ \<Rightarrow> toml_repr v)"

definition toml_bool :: "toml \<Rightarrow> bool" where
  "toml_bool v =
     (case v of
        TStr s \<Rightarrow> s \<noteq> []
      | TInt i \<Rightarrow> i \<noteq> 0
      | TFloat r _ \<Rightarrow> r \<notin> {''0.0'', ''-0.0''}
      | TBool b \<Rightarrow> b
      | TMoment _ _ \<Rightarrow> True
      | TArr xs \<Rightarrow> xs \<noteq> []
      | TTab kvs \<Rightarrow> kvs \<noteq> [])"

definition toml_int :: "toml \<Rightarrow> exn + int" where
  "toml_int v =
     (case v of
        TInt i \<Rightarrow> Inr i
      | TBool b \<Rightarrow> Inr (if b then 1 else 0)
      | TFloat _ n \<Rightarrow> (case n of Some i \<Rightarrow> Inr i | None \<Rightarrow> Inl (OtherError ''ValueError''))
      | TStr s \<Rightarrow> (case int10 s of Some i \<Rightarrow> Inr i | None \<Rightarrow> Inl (OtherError ''ValueError''))
      | _ \<Rightarrow> Inl (OtherError ''TypeError''))"

text \<open>\<open>v[key]\<close>, \<open>v.items()\<close> and \<open>v.get(key, default)\<close>.\<close>

definition toml_at :: "toml \<Rightarrow> string \<Rightarrow> exn + toml" where
  "toml_at v k =
     (case v of
        TTab kvs \<Rightarrow> (case map_of kvs k of Some x \<Rightarrow> Inr x | None \<Rightarrow> Inl (OtherError ''KeyError''))
      | _ \<Rightarrow> Inl (OtherError ''TypeError''))"

definition toml_items :: "toml \<Rightarrow> exn + (string \<times> toml) list" where
  "toml_items v = (case v of TTab kvs \<Rightarrow> Inr kvs | _ \<Rightarrow> Inl (OtherError ''AttributeError''))"

definition toml_get :: "toml \<Rightarrow> string \<Rightarrow> toml \<Rightarrow> exn + toml" where
  "toml_get v k dflt =
     (case v of
        TTab kvs \<Rightarrow> Inr (case map_of kvs k of Some x \<Rightarrow> x | None \<Rightarrow> dflt)
      | _ \<Rightarrow> Inl (OtherError ''AttributeError''))"

definition toml_iter :: "toml \<Rightarrow> exn + toml list" where
  "toml_iter v =
     (case v of
        TArr xs \<Rightarrow> Inr xs
      | TTab kvs \<Rightarrow> Inr (map (TStr \<circ> fst) kvs)
      | TStr s \<Rightarrow> Inr (map (\<lambda>c. TStr [c]) s)
      | _ \<Rightarrow> Inl (OtherError ''TypeError''))"

section \<open>Pure code that may raise\<close>

fun bindR :: "exn + 'a \<Rightarrow> ('a \<Rightarrow> exn + 'b) \<Rightarrow> exn + 'b" where
  "bindR (Inl e) f = Inl e"
| "bindR (Inr x) f = f x"

fun mapR :: "('a \<Rightarrow> exn + 'b) \<Rightarrow> 'a list \<Rightarrow> exn + 'b list" where
  "mapR f [] = Inr []"
| "mapR f (x # xs) = bindR (f x) (\<lambda>y. bindR (mapR f xs) (\<lambda>ys. Inr (y # ys)))"

lemma bindR_Inr_iff: "bindR m f = Inr y \<longleftrightarrow> (\<exists>x. m = Inr x \<and> f x = Inr y)"
  by (cases m) auto

lemma mapR_append: "mapR f (xs @ ys) = bindR (mapR f xs) (\<lambda>us. bindR (mapR f ys) (\<lambda>vs. Inr (us @ vs)))"
proof (induction xs)
  case Nil
  then show ?case by (cases "mapR f ys") simp_all
next
  case (Cons x xs)
  then show ?case by (cases "f x"; cases "mapR f xs"; cases "mapR f ys") simp_all
qed

section \<open>The schedule\<close>

definition SOURCE_KINDS :: "string list" where
  "SOURCE_KINDS = [''operator_supplied'', ''venue_fetched'', ''derived'', ''observed_adopted'']"

datatype Verdict = AT_OR_BELOW | ABOVE

record FeeEntry =
  fe_key :: string
  fe_value :: pydecimal
  fe_unit :: string
  fe_source_kind :: string
  fe_source :: string
  fe_corroborated :: bool
  fe_effective_from :: pydate
  fe_recorded_utc :: pydatetime
  fe_max_age_days :: int
  fe_note :: string
  fe_verbatim :: string

record Instrument =
  in_key :: string
  in_label :: string
  in_venue :: string
  in_ticker :: string
  in_broker :: string
  in_series :: "(string \<times> FeeEntry list) list"

record Gap =
  gap_instrument :: string
  gap_label :: string
  gap_what_exists :: string
  gap_where :: string
  gap_why_not_canonical :: string
  gap_what_would_close_it :: string

record Comparison =
  cmp_instrument :: string
  cmp_field :: string
  cmp_observed :: pydecimal
  cmp_basis :: pydecimal
  cmp_basis_effective_from :: pydate
  cmp_verdict :: Verdict

record FeeSchedule =
  schema_version :: int
  currency :: string
  instruments :: "(string \<times> Instrument) list"
  gaps :: "Gap list"

definition should_alert :: "Comparison \<Rightarrow> bool" where
  "should_alert c \<longleftrightarrow> cmp_verdict c = ABOVE"

definition should_adopt :: "Comparison \<Rightarrow> bool" where
  "should_adopt c \<longleftrightarrow> cmp_verdict c = ABOVE"

text \<open>\<open>(now - recorded_utc).days\<close>: the floor of whole days; mixing the two kinds of \<open>datetime\<close> raises.\<close>

definition day_us :: int where
  "day_us = 24 * 3600 * 1000000"

definition age_days :: "FeeEntry \<Rightarrow> timestamp \<Rightarrow> exn + int" where
  "age_days e now =
     (case fe_recorded_utc e of
        Aware t \<Rightarrow> Inr ((now - t) div day_us)
      | Naive _ \<Rightarrow> Inl (OtherError ''TypeError''))"

definition is_stale :: "FeeEntry \<Rightarrow> timestamp \<Rightarrow> exn + bool" where
  "is_stale e now = bindR (age_days e now) (\<lambda>a. Inr (fe_max_age_days e < a))"

definition series_for :: "FeeSchedule \<Rightarrow> string \<Rightarrow> string \<Rightarrow> exn + FeeEntry list" where
  "series_for s instrument field =
     (case map_of (instruments s) instrument of
        None \<Rightarrow> Inl (OtherError ''KeyError'')
      | Some inst \<Rightarrow>
          (case map_of (in_series inst) field of
             None \<Rightarrow> Inl (OtherError ''KeyError'')
           | Some entries \<Rightarrow> Inr entries))"

text \<open>\<open>resolve\<close>: \<open>now\<close> is the argument of that name or the clock. An empty series fails in its own message.\<close>

definition resolve_entry ::
  "FeeSchedule \<Rightarrow> string \<Rightarrow> string \<Rightarrow> pydate \<Rightarrow> bool \<Rightarrow> timestamp \<Rightarrow> exn + FeeEntry" where
  "resolve_entry s instrument field on allow_stale now =
     bindR (series_for s instrument field) (\<lambda>entries.
     let applicable = filter (\<lambda>e. fe_effective_from e \<le> on) entries
     in if applicable = [] then
          (if entries = [] then Inl (OtherError ''IndexError'') else Inl (OtherError ''KeyError''))
        else
          let entry = last applicable
          in bindR (is_stale entry now) (\<lambda>stale.
             if stale \<and> \<not> allow_stale then Inl (OtherError ''FeeScheduleStale'') else Inr entry))"

text \<open>The UTC calendar date of an instant; 719163 is the ordinal of the first of January 1970.\<close>

definition utc_date :: "timestamp \<Rightarrow> pydate" where
  "utc_date t = fromordinal (t div day_us + 719163)"

definition get_entry :: "FeeSchedule \<Rightarrow> string \<Rightarrow> string \<Rightarrow> bool \<Rightarrow> timestamp \<Rightarrow> exn + FeeEntry" where
  "get_entry s instrument field allow_stale now =
     resolve_entry s instrument field (utc_date now) allow_stale now"

text \<open>\<open>a > b\<close> of decimals that may be special.\<close>

fun pd_gt :: "pydecimal \<Rightarrow> pydecimal \<Rightarrow> exn + bool" where
  "pd_gt NaN b = Inl (OtherError ''InvalidOperation'')"
| "pd_gt a NaN = Inl (OtherError ''InvalidOperation'')"
| "pd_gt (Finite a) (Finite b) = Inr (dec_lt b a)"
| "pd_gt (Finite a) (Infinity neg) = Inr neg"
| "pd_gt (Infinity neg) (Finite b) = Inr (\<not> neg)"
| "pd_gt (Infinity neg) (Infinity neg') = Inr (\<not> neg \<and> neg')"

definition compare_fee ::
  "FeeSchedule \<Rightarrow> string \<Rightarrow> string \<Rightarrow> pydecimal \<Rightarrow> pydate \<Rightarrow> bool \<Rightarrow> timestamp \<Rightarrow> exn + Comparison" where
  "compare_fee s instrument field observed on allow_stale now =
     bindR (resolve_entry s instrument field on allow_stale now) (\<lambda>entry.
     bindR (pd_gt observed (fe_value entry)) (\<lambda>above.
     Inr \<lparr>cmp_instrument = instrument, cmp_field = field, cmp_observed = observed, cmp_basis = fe_value entry,
          cmp_basis_effective_from = fe_effective_from entry,
          cmp_verdict = (if above then ABOVE else AT_OR_BELOW)\<rparr>))"

section \<open>Reading the file\<close>

definition replace_Z :: "string \<Rightarrow> string" where
  "replace_Z s = concat (map (\<lambda>c. if c = CHR ''Z'' then ''+00:00'' else [c]) s)"

text \<open>\<open>datetime.fromisoformat\<close> is the parameter \<open>from_iso\<close>; None where it raises.\<close>

definition fee_entry :: "(string \<Rightarrow> pydatetime option) \<Rightarrow> string \<Rightarrow> toml \<Rightarrow> exn + FeeEntry" where
  "fee_entry from_iso key raw =
     bindR (toml_at raw ''source_kind'') (\<lambda>k.
     let kind = toml_str k
     in if kind \<notin> set SOURCE_KINDS then Inl (OtherError ''ValueError'')
        else
          bindR (toml_at raw ''value'') (\<lambda>value.
          case value of
            TStr text \<Rightarrow>
              bindR (case parse_decimal text of Some d \<Rightarrow> Inr d | None \<Rightarrow> Inl (OtherError ''InvalidOperation'')) (\<lambda>d.
              bindR (toml_at raw ''unit'') (\<lambda>unit.
              bindR (toml_at raw ''source'') (\<lambda>source.
              bindR (toml_at raw ''corroborated'') (\<lambda>corroborated.
              bindR (toml_at raw ''effective_from'') (\<lambda>eff.
              bindR (case fromisoformat_date (toml_str eff) of
                       Some dt \<Rightarrow> Inr dt | None \<Rightarrow> Inl (OtherError ''ValueError'')) (\<lambda>effective_from.
              bindR (toml_at raw ''recorded_utc'') (\<lambda>rec.
              bindR (case from_iso (replace_Z (toml_str rec)) of
                       Some dt \<Rightarrow> Inr dt | None \<Rightarrow> Inl (OtherError ''ValueError'')) (\<lambda>recorded_utc.
              bindR (bindR (toml_at raw ''max_age_days'') toml_int) (\<lambda>max_age_days.
              bindR (toml_get raw ''note'' (TStr [])) (\<lambda>note.
              bindR (toml_get raw ''verbatim'' (TStr [])) (\<lambda>verbatim.
              Inr \<lparr>fe_key = key, fe_value = d, fe_unit = toml_str unit, fe_source_kind = kind,
                   fe_source = toml_str source, fe_corroborated = toml_bool corroborated,
                   fe_effective_from = effective_from, fe_recorded_utc = recorded_utc,
                   fe_max_age_days = max_age_days, fe_note = strip (toml_str note),
                   fe_verbatim = strip (toml_str verbatim)\<rparr>)))))))))))
          | _ \<Rightarrow> Inl (OtherError ''TypeError'')))"

text \<open>The fields of an instrument that hold a series: those whose value is an array.\<close>

fun read_series ::
  "(string \<Rightarrow> pydatetime option) \<Rightarrow> string \<Rightarrow> (string \<times> toml) list \<Rightarrow> exn + (string \<times> FeeEntry list) list" where
  "read_series from_iso key [] = Inr []"
| "read_series from_iso key ((fk, fv) # rest) =
     (case fv of
        TArr blocks \<Rightarrow>
          bindR (mapR (fee_entry from_iso (key @ ''.'' @ fk)) blocks) (\<lambda>parsed.
          bindR (read_series from_iso key rest) (\<lambda>series.
          Inr ((fk, sort_key fe_effective_from parsed) # series)))
      | _ \<Rightarrow> read_series from_iso key rest)"

definition read_instrument ::
  "(string \<Rightarrow> pydatetime option) \<Rightarrow> string \<times> toml \<Rightarrow> exn + string \<times> Instrument" where
  "read_instrument from_iso kb =
     (case kb of (key, block) \<Rightarrow>
        bindR (toml_items block) (\<lambda>kvs.
        bindR (read_series from_iso key kvs) (\<lambda>series.
        bindR (toml_at block ''label'') (\<lambda>label.
        bindR (toml_at block ''venue'') (\<lambda>ven.
        bindR (toml_at block ''ticker'') (\<lambda>ticker.
        bindR (toml_at block ''broker'') (\<lambda>brk.
        Inr (key, \<lparr>in_key = key, in_label = toml_str label, in_venue = toml_str ven, in_ticker = toml_str ticker,
                   in_broker = toml_str brk, in_series = series\<rparr>))))))))"

definition read_gap :: "toml \<Rightarrow> exn + Gap" where
  "read_gap g =
     bindR (toml_at g ''instrument'') (\<lambda>i.
     bindR (toml_at g ''label'') (\<lambda>l.
     bindR (toml_at g ''what_exists'') (\<lambda>e.
     bindR (toml_at g ''where'') (\<lambda>w.
     bindR (toml_at g ''why_not_canonical'') (\<lambda>y.
     bindR (toml_at g ''what_would_close_it'') (\<lambda>c.
     Inr \<lparr>gap_instrument = toml_str i, gap_label = toml_str l, gap_what_exists = strip (toml_str e),
          gap_where = strip (toml_str w), gap_why_not_canonical = strip (toml_str y),
          gap_what_would_close_it = strip (toml_str c)\<rparr>))))))"

definition load_fee_schedule :: "(string \<Rightarrow> pydatetime option) \<Rightarrow> toml \<Rightarrow> exn + FeeSchedule" where
  "load_fee_schedule from_iso raw =
     bindR (toml_at raw ''instrument'') (\<lambda>insts.
     bindR (toml_items insts) (\<lambda>kbs.
     bindR (mapR (read_instrument from_iso) kbs) (\<lambda>instruments.
     bindR (bindR (toml_get raw ''gap'' (TArr [])) toml_iter) (\<lambda>gs.
     bindR (mapR read_gap gs) (\<lambda>gaps.
     bindR (bindR (toml_at raw ''schema_version'') toml_int) (\<lambda>version.
     bindR (bindR (toml_at raw ''meta'') (\<lambda>m. toml_at m ''currency'')) (\<lambda>cur.
     Inr \<lparr>schema_version = version, currency = toml_str cur, instruments = instruments, gaps = gaps\<rparr>)))))))"

section \<open>Adopting an observation\<close>

definition pd_str :: "pydecimal \<Rightarrow> string" where
  "pd_str d = (case d of Finite a \<Rightarrow> dec_str a | Infinity neg \<Rightarrow> (if neg then ''-Infinity'' else ''Infinity'') | NaN \<Rightarrow> ''NaN'')"

definition quoted :: "string \<Rightarrow> string" where
  "quoted s = CHR 34 # s @ [CHR 34]"

text \<open>\<open>%Y-%m-%dT%H:%M:%SZ\<close> of an instant, in UTC.\<close>

definition strftime_utc :: "timestamp \<Rightarrow> string" where
  "strftime_utc t =
     (let sec = (t mod day_us) div 1000000
      in isoformat_date (utc_date t) @ ''T'' @ zfill 2 (int_str (sec div 3600)) @ '':'' @
         zfill 2 (int_str (sec div 60 mod 60)) @ '':'' @ zfill 2 (int_str (sec mod 60)) @ ''Z'')"

definition adopted_source :: "pydate \<Rightarrow> string" where
  "adopted_source observed_on = ''execution.fee_observations, observed '' @ isoformat_date observed_on"

text \<open>The note of an adopted entry, line by line; it opens with a red circle and has one dash.\<close>

definition adopted_note :: "pydecimal \<Rightarrow> pydate \<Rightarrow> string list" where
  "adopted_note prior effective_from =
     [[CHR 0xF0, CHR 0x9F, CHR 0x94, CHR 0xB4] @
        '' ADOPTED AUTOMATICALLY because an observation EXCEEDED the prior basis of '' @ pd_str prior @ ''.'',
      ''The conservative basis had stopped being conservative, which means every strategy'',
      ''calculation between '' @ isoformat_date effective_from @ '' and this entry was UNDERSTATING cost.'',
      ''The prior entry is retained above and stays resolvable for any period before'',
      isoformat_date effective_from @ '' '' @ [CHR 0xE2, CHR 0x80, CHR 0x94] @
        '' results computed then must remain reconstructible.'']"

definition render_entry ::
  "string \<Rightarrow> string \<Rightarrow> pydecimal \<Rightarrow> string \<Rightarrow> pydate \<Rightarrow> pydate \<Rightarrow> pydecimal \<Rightarrow> timestamp \<Rightarrow> string" where
  "render_entry instrument field value unit effective_from observed_on prior now =
     concat (map (\<lambda>l. l @ [CHR 10])
       ([[],
         ''  [[instrument.'' @ instrument @ ''.'' @ field @ '']]'',
         ''  value        = '' @ quoted (pd_str value),
         ''  effective_from = '' @ quoted (isoformat_date effective_from),
         ''  unit         = '' @ quoted unit,
         ''  source_kind  = '' @ quoted ''observed_adopted'',
         ''  source       = '' @ quoted (adopted_source observed_on),
         ''  corroborated = true'',
         ''  note = '' @ [CHR 34, CHR 34, CHR 34]] @
        butlast (adopted_note prior effective_from) @
        [last (adopted_note prior effective_from) @ [CHR 34, CHR 34, CHR 34],
         ''  recorded_utc = '' @ quoted (strftime_utc now),
         ''  max_age_days = 180'']))"

definition append_entry :: "string \<Rightarrow> string \<Rightarrow> string" where
  "append_entry contents block = contents @ block"

text \<open>
  What a TOML reader makes of a file with such a block at its end: the array of the field gains
  the table of the block, nothing else changes.
\<close>

definition adopted_table ::
  "pydecimal \<Rightarrow> string \<Rightarrow> pydate \<Rightarrow> pydate \<Rightarrow> pydecimal \<Rightarrow> timestamp \<Rightarrow> toml" where
  "adopted_table value unit effective_from observed_on prior now =
     TTab [(''value'', TStr (pd_str value)), (''effective_from'', TStr (isoformat_date effective_from)),
           (''unit'', TStr unit), (''source_kind'', TStr ''observed_adopted''),
           (''source'', TStr (adopted_source observed_on)), (''corroborated'', TBool True),
           (''note'', TStr (join [CHR 10] (adopted_note prior effective_from))),
           (''recorded_utc'', TStr (strftime_utc now)), (''max_age_days'', TInt 180)]"

fun at_key :: "'k \<Rightarrow> ('v \<Rightarrow> 'v) \<Rightarrow> ('k \<times> 'v) list \<Rightarrow> ('k \<times> 'v) list" where
  "at_key k g [] = []"
| "at_key k g ((a, v) # rest) = (if a = k then (a, g v) # rest else (a, v) # at_key k g rest)"

fun tab_at :: "string \<Rightarrow> (toml \<Rightarrow> toml) \<Rightarrow> toml \<Rightarrow> toml" where
  "tab_at k g (TTab kvs) = TTab (at_key k g kvs)"
| "tab_at k g v = v"

fun arr_snoc :: "toml \<Rightarrow> toml \<Rightarrow> toml" where
  "arr_snoc b (TArr xs) = TArr (xs @ [b])"
| "arr_snoc b v = v"

definition with_block :: "toml \<Rightarrow> string \<Rightarrow> string \<Rightarrow> toml \<Rightarrow> toml" where
  "with_block raw instrument field b = tab_at ''instrument'' (tab_at instrument (tab_at field (arr_snoc b))) raw"

text \<open>The array of a field in the file.\<close>

definition series_blocks :: "toml \<Rightarrow> string \<Rightarrow> string \<Rightarrow> exn + toml" where
  "series_blocks raw instrument field =
     bindR (toml_at raw ''instrument'') (\<lambda>i. bindR (toml_at i instrument) (\<lambda>b. toml_at b field))"

lemma length_mapR: "mapR f xs = Inr ys \<Longrightarrow> length ys = length xs"
  by (induction xs arbitrary: ys) (auto simp: bindR_Inr_iff)

lemma map_of_at_key: "map_of (at_key k g kvs) j = (if j = k then map_option g (map_of kvs k) else map_of kvs j)"
  by (induction kvs) auto

lemma toml_at_Inr: "toml_at v k = Inr x \<longleftrightarrow> (\<exists>kvs. v = TTab kvs \<and> map_of kvs k = Some x)"
  by (cases v) (auto simp: toml_at_def split: option.splits)

lemma toml_at_tab_at [simp]:
  "toml_at (tab_at k g v) j = (if j = k then map_sum id g (toml_at v j) else toml_at v j)"
  by (cases v) (auto simp: toml_at_def map_of_at_key split: option.split)

lemma toml_get_tab_at [simp]: "j \<noteq> k \<Longrightarrow> toml_get (tab_at k g v) j d = toml_get v j d"
  by (cases v) (auto simp: toml_get_def map_of_at_key)

text \<open>One more block in a series: one more entry, at its place by date; the other fields are as before.\<close>

lemma read_series_snoc:
  assumes "read_series fi key kvs = Inr series" and "map_of kvs f = Some (TArr xs)"
    and "fee_entry fi (key @ ''.'' @ f) b = Inr e"
  shows "\<exists>parsed series'. length parsed = length xs \<and> map_of series f = Some (sort_key fe_effective_from parsed) \<and>
     read_series fi key (at_key f (arr_snoc b) kvs) = Inr series' \<and>
     map_of series' f = Some (sort_key fe_effective_from (parsed @ [e])) \<and>
     (\<forall>g. g \<noteq> f \<longrightarrow> map_of series' g = map_of series g)"
  using assms(1,2)
proof (induction kvs arbitrary: series)
  case (Cons kv kvs)
  obtain k v where kv: "kv = (k, v)" by fastforce
  show ?case
  proof (cases "k = f")
    case True
    with Cons.prems kv obtain parsed rest where "mapR (fee_entry fi (key @ ''.'' @ f)) xs = Inr parsed"
      "read_series fi key kvs = Inr rest" "series = (f, sort_key fe_effective_from parsed) # rest"
      by (auto simp: bindR_Inr_iff)
    then show ?thesis using kv True Cons.prems(2) assms(3)
      by (auto simp: mapR_append dest: length_mapR)
  next
    case False
    show ?thesis
    proof (cases "\<exists>ys. v = TArr ys")
      case True
      then obtain ys ps rest where "v = TArr ys" "mapR (fee_entry fi (key @ ''.'' @ k)) ys = Inr ps"
        "read_series fi key kvs = Inr rest" "series = (k, sort_key fe_effective_from ps) # rest"
        using Cons.prems kv by (auto simp: bindR_Inr_iff)
      then show ?thesis using Cons.IH [of rest] Cons.prems(2) kv False by (fastforce simp: bindR_Inr_iff)
    next
      case not_arr: False
      then have "read_series fi key ((k, v) # rest) = read_series fi key rest" for rest by (cases v) auto
      then show ?thesis using Cons kv False by auto
    qed
  qed
qed simp

lemma read_instrument_snoc:
  assumes "read_instrument fi (i, block) = Inr (i', inst)" and "toml_at block f = Inr (TArr xs)"
    and "fee_entry fi (i @ ''.'' @ f) b = Inr e" and "f \<notin> {''label'', ''venue'', ''ticker'', ''broker''}"
  shows "i' = i \<and> (\<exists>parsed series'. length parsed = length xs \<and> map_of (in_series inst) f = Some (sort_key fe_effective_from parsed) \<and>
     read_instrument fi (i, tab_at f (arr_snoc b) block) = Inr (i, inst\<lparr>in_series := series'\<rparr>) \<and>
     map_of series' f = Some (sort_key fe_effective_from (parsed @ [e])) \<and>
     (\<forall>g. g \<noteq> f \<longrightarrow> map_of series' g = map_of (in_series inst) g))"
proof -
  obtain kvs where kvs: "block = TTab kvs" "map_of kvs f = Some (TArr xs)" using assms(2) by (auto simp: toml_at_Inr)
  then obtain series where series: "read_series fi i kvs = Inr series" and inst: "i' = i" "in_series inst = series"
    using assms(1) by (auto simp: read_instrument_def toml_items_def bindR_Inr_iff)
  from read_series_snoc [OF series kvs(2) assms(3)] obtain parsed series' where
    s': "length parsed = length xs" "map_of series f = Some (sort_key fe_effective_from parsed)"
      "read_series fi i (at_key f (arr_snoc b) kvs) = Inr series'"
      "map_of series' f = Some (sort_key fe_effective_from (parsed @ [e]))"
      "\<forall>g. g \<noteq> f \<longrightarrow> map_of series' g = map_of series g" by blast
  have "toml_at (TTab (at_key f (arr_snoc b) kvs)) g = toml_at (TTab kvs) g"
    if "g \<in> {''label'', ''venue'', ''ticker'', ''broker''}" for g
    using assms(4) that by (auto simp: toml_at_def map_of_at_key split: option.split)
  then have "read_instrument fi (i, tab_at f (arr_snoc b) block) = Inr (i, inst\<lparr>in_series := series'\<rparr>)"
    using assms(1) series s'(3) by (auto simp: kvs(1) read_instrument_def toml_items_def bindR_Inr_iff)
  with s' inst show ?thesis by auto
qed

lemma read_instruments_snoc:
  assumes "mapR (read_instrument fi) kbs = Inr insts" and "map_of kbs i = Some block"
    and "toml_at block f = Inr (TArr xs)" and "fee_entry fi (i @ ''.'' @ f) b = Inr e"
    and "f \<notin> {''label'', ''venue'', ''ticker'', ''broker''}"
  shows "\<exists>inst parsed series' insts'. map_of insts i = Some inst \<and> length parsed = length xs \<and>
     map_of (in_series inst) f = Some (sort_key fe_effective_from parsed) \<and>
     mapR (read_instrument fi) (at_key i (tab_at f (arr_snoc b)) kbs) = Inr insts' \<and>
     map_of insts' i = Some (inst\<lparr>in_series := series'\<rparr>) \<and>
     map_of series' f = Some (sort_key fe_effective_from (parsed @ [e])) \<and>
     (\<forall>g. g \<noteq> f \<longrightarrow> map_of series' g = map_of (in_series inst) g) \<and>
     (\<forall>j. j \<noteq> i \<longrightarrow> map_of insts' j = map_of insts j)"
  using assms(1,2)
proof (induction kbs arbitrary: insts)
  case (Cons kb kbs)
  obtain k block' where kb: "kb = (k, block')" by fastforce
  from Cons.prems(1) obtain k' inst rest where r: "read_instrument fi (k, block') = Inr (k', inst)"
    "mapR (read_instrument fi) kbs = Inr rest" "insts = (k', inst) # rest"
    by (auto simp: kb bindR_Inr_iff)
  have k': "k' = k" using r(1) by (auto simp: read_instrument_def bindR_Inr_iff)
  show ?case
  proof (cases "k = i")
    case True
    then have "block' = block" using Cons.prems(2) kb by simp
    with True read_instrument_snoc [OF _ assms(3,4,5)] r(1)
    obtain parsed series' where "length parsed = length xs"
      "map_of (in_series inst) f = Some (sort_key fe_effective_from parsed)"
      "read_instrument fi (i, tab_at f (arr_snoc b) block) = Inr (i, inst\<lparr>in_series := series'\<rparr>)"
      "map_of series' f = Some (sort_key fe_effective_from (parsed @ [e]))"
      "\<forall>g. g \<noteq> f \<longrightarrow> map_of series' g = map_of (in_series inst) g" by blast
    then show ?thesis using True r k' kb \<open>block' = block\<close> by auto
  next
    case False
    then have "map_of kbs i = Some block" using Cons.prems(2) kb by simp
    from Cons.IH [OF r(2) this] obtain inst' parsed series' insts' where
      "map_of rest i = Some inst'" "length parsed = length xs" "map_of (in_series inst') f = Some (sort_key fe_effective_from parsed)"
      "mapR (read_instrument fi) (at_key i (tab_at f (arr_snoc b)) kbs) = Inr insts'"
      "map_of insts' i = Some (inst'\<lparr>in_series := series'\<rparr>)"
      "map_of series' f = Some (sort_key fe_effective_from (parsed @ [e]))"
      "\<forall>g. g \<noteq> f \<longrightarrow> map_of series' g = map_of (in_series inst') g" "\<forall>j. j \<noteq> i \<longrightarrow> map_of insts' j = map_of rest j"
      by blast
    then show ?thesis using False r k' kb
      by (intro exI [of _ inst'] exI [of _ parsed] exI [of _ series'] exI [of _ "(k, inst) # insts'"]) simp
  qed
qed simp

text \<open>Loading the file with one more block, from loading it without.\<close>

lemma load_with_block:
  assumes "load_fee_schedule fi raw = Inr s" and "series_blocks raw i f = Inr (TArr xs)"
    and "fee_entry fi (i @ ''.'' @ f) b = Inr e" and "f \<notin> {''label'', ''venue'', ''ticker'', ''broker''}"
  shows "\<exists>parsed s'. length parsed = length xs \<and> series_for s i f = Inr (sort_key fe_effective_from parsed) \<and>
     load_fee_schedule fi (with_block raw i f b) = Inr s' \<and>
     series_for s' i f = Inr (sort_key fe_effective_from (parsed @ [e])) \<and>
     (\<forall>j g. (j, g) \<noteq> (i, f) \<longrightarrow> series_for s' j g = series_for s j g)"
proof -
  obtain insts block where b: "toml_at raw ''instrument'' = Inr insts" "toml_at insts i = Inr block"
    "toml_at block f = Inr (TArr xs)" using assms(2) by (auto simp: series_blocks_def bindR_Inr_iff)
  obtain kbs where kbs: "insts = TTab kbs" "map_of kbs i = Some block" using b(2) by (auto simp: toml_at_Inr)
  obtain ins gs gaps v m cur where l: "mapR (read_instrument fi) kbs = Inr ins"
    "bindR (toml_get raw ''gap'' (TArr [])) toml_iter = Inr gs" "mapR read_gap gs = Inr gaps"
    "bindR (toml_at raw ''schema_version'') toml_int = Inr v"
    "bindR (toml_at raw ''meta'') (\<lambda>m. toml_at m ''currency'') = Inr cur"
    "s = \<lparr>schema_version = v, currency = toml_str cur, instruments = ins, gaps = gaps\<rparr>"
    using assms(1) b(1) kbs(1) unfolding load_fee_schedule_def toml_items_def by (fastforce simp: bindR_Inr_iff)
  from read_instruments_snoc [OF l(1) kbs(2) b(3) assms(3,4)] obtain inst parsed series' insts' where
    len: "length parsed = length xs" and
    r: "map_of ins i = Some inst" "map_of (in_series inst) f = Some (sort_key fe_effective_from parsed)"
      "mapR (read_instrument fi) (at_key i (tab_at f (arr_snoc b)) kbs) = Inr insts'"
      "map_of insts' i = Some (inst\<lparr>in_series := series'\<rparr>)"
      "map_of series' f = Some (sort_key fe_effective_from (parsed @ [e]))"
      "\<forall>g. g \<noteq> f \<longrightarrow> map_of series' g = map_of (in_series inst) g" "\<forall>j. j \<noteq> i \<longrightarrow> map_of insts' j = map_of ins j"
    by blast
  have "load_fee_schedule fi (with_block raw i f b) =
      Inr \<lparr>schema_version = v, currency = toml_str cur, instruments = insts', gaps = gaps\<rparr>"
    using l r(3) b(1) kbs(1) by (simp add: load_fee_schedule_def with_block_def toml_items_def)
  moreover have "series_for \<lparr>schema_version = v, currency = toml_str cur, instruments = insts', gaps = gaps\<rparr> j g = series_for s j g"
    if "(j, g) \<noteq> (i, f)" for j g
    using r l(6) that by (cases "j = i") (simp_all add: series_for_def)
  ultimately show ?thesis using r l(6) len by (intro exI [of _ parsed] exI) (auto simp: series_for_def)
qed

section \<open>The entry in force\<close>

text \<open>A stable sort puts an element whose key is nowhere exceeded at the end.\<close>

lemma sort_key_snoc_max:
  assumes "\<And>x. x \<in> set xs \<Longrightarrow> k x \<le> k e"
  shows "sort_key k (xs @ [e]) = sort_key k xs @ [e]"
proof -
  have ins: "insort_key k x (ys @ [e]) = insort_key k x ys @ [e]" if "k x \<le> k e" for x ys
    using that by (induction ys) auto
  show ?thesis using assms by (induction xs) (auto simp: ins)
qed

lemma last_sorted_max:
  assumes "sorted (map k xs)" and "x \<in> set xs"
  shows "k x \<le> k (last xs)"
  using assms by (induction xs) auto

lemma loaded_sorted:
  assumes "load_fee_schedule fi raw = Inr s" and "series_for s i f = Inr es"
  shows "sorted (map fe_effective_from es)"
proof -
  have series: "sorted (map fe_effective_from es)"
    if "read_series fi key kvs = Inr series" "(g, es) \<in> set series" for key kvs series g es
    using that
  proof (induction kvs arbitrary: series)
    case (Cons kv kvs)
    obtain k v where "kv = (k, v)" by fastforce
    then show ?case using Cons by (cases v) (auto simp: bindR_Inr_iff)
  qed simp
  have insts: "\<exists>key kvs. read_series fi key kvs = Inr (in_series inst)"
    if "mapR (read_instrument fi) kbs = Inr insts" "(j, inst) \<in> set insts" for kbs insts j inst
    using that
  proof (induction kbs arbitrary: insts)
    case (Cons kb kbs)
    then show ?case by (cases kb) (auto simp: bindR_Inr_iff read_instrument_def, blast)
  qed simp
  show ?thesis
    using assms series insts
    by (auto simp: load_fee_schedule_def series_for_def bindR_Inr_iff split: option.splits) (metis map_of_SomeD)
qed

text \<open>
  C35. The entry in force. From a file that loads, \<open>resolve\<close> gives, for a date, an entry of the
  series that was effective by then, and no entry effective by then is effective later; it is
  within its staleness window unless the caller accepts a stale one. When nothing is effective
  by that date the call raises, and so it does when the entry is stale.
\<close>

theorem entry_in_force:
  assumes "load_fee_schedule fi raw = Inr s" and "series_for s i f = Inr es"
  shows "(\<forall>e. resolve_entry s i f on allow_stale now = Inr e \<longrightarrow>
            e \<in> set es \<and> fe_effective_from e \<le> on \<and>
            (\<forall>e' \<in> set es. fe_effective_from e' \<le> on \<longrightarrow> fe_effective_from e' \<le> fe_effective_from e) \<and>
            (\<exists>a. age_days e now = Inr a \<and> (allow_stale \<or> a \<le> fe_max_age_days e))) \<and>
         ((\<forall>e \<in> set es. on < fe_effective_from e) \<and> es \<noteq> [] \<longrightarrow>
            resolve_entry s i f on allow_stale now = Inl (OtherError ''KeyError'')) \<and>
         ((\<exists>e \<in> set es. fe_effective_from e \<le> on) \<and>
            (\<forall>e \<in> set es. \<exists>a. age_days e now = Inr a \<and> fe_max_age_days e < a) \<and> \<not> allow_stale \<longrightarrow>
            resolve_entry s i f on allow_stale now = Inl (OtherError ''FeeScheduleStale''))"
proof -
  let ?ap = "filter (\<lambda>e. fe_effective_from e \<le> on) es"
  have "sorted (map fe_effective_from ?ap)" using loaded_sorted [OF assms] by (rule sorted_filter)
  then have last: "fe_effective_from e' \<le> fe_effective_from (last ?ap)" if "e' \<in> set es" "fe_effective_from e' \<le> on" for e'
    using last_sorted_max [of fe_effective_from ?ap e'] that by simp
  have mem: "last ?ap \<in> set es \<and> fe_effective_from (last ?ap) \<le> on" if "?ap \<noteq> []"
    using last_in_set [OF that] by simp
  have none: "?ap = [] \<longleftrightarrow> (\<forall>e \<in> set es. on < fe_effective_from e)" by (auto simp: filter_empty_conv not_le)
  show ?thesis
  proof (intro conjI allI impI)
    fix e
    assume "resolve_entry s i f on allow_stale now = Inr e"
    then show "e \<in> set es" "fe_effective_from e \<le> on"
      "\<forall>e' \<in> set es. fe_effective_from e' \<le> on \<longrightarrow> fe_effective_from e' \<le> fe_effective_from e"
      "\<exists>a. age_days e now = Inr a \<and> (allow_stale \<or> a \<le> fe_max_age_days e)"
      using assms(2) last mem
      by (auto simp: resolve_entry_def is_stale_def bindR_Inr_iff Let_def not_less split: if_splits)
  next
    assume "(\<forall>e \<in> set es. on < fe_effective_from e) \<and> es \<noteq> []"
    then show "resolve_entry s i f on allow_stale now = Inl (OtherError ''KeyError'')"
      using assms(2) none by (simp add: resolve_entry_def Let_def)
  next
    assume old: "(\<exists>e \<in> set es. fe_effective_from e \<le> on) \<and>
        (\<forall>e \<in> set es. \<exists>a. age_days e now = Inr a \<and> fe_max_age_days e < a) \<and> \<not> allow_stale"
    then have "?ap \<noteq> []" using none by (simp only: not_less) (meson leD)
    then obtain a where "age_days (last ?ap) now = Inr a" "fe_max_age_days (last ?ap) < a" using mem old by blast
    then show "resolve_entry s i f on allow_stale now = Inl (OtherError ''FeeScheduleStale'')"
      using assms(2) \<open>?ap \<noteq> []\<close> old by (simp add: resolve_entry_def Let_def is_stale_def)
  qed
qed

section \<open>Adoption\<close>

text \<open>The text of a decimal in plain notation reads back as the same decimal.\<close>

definition plain_decimal :: "decimal \<Rightarrow> bool" where
  "plain_decimal d \<longleftrightarrow> 0 \<le> dcoeff d \<and> dexp d \<le> 0 \<and> - 6 < dexp d + int (length (nat_str (nat \<bar>dcoeff d\<bar>)))"

lemma digit_inert: "is_digit c \<or> c = CHR ''.'' \<Longrightarrow> \<not> is_space c \<and> c \<noteq> CHR ''_'' \<and> lower_char c = c"
  by (auto simp: is_digit_def is_space_def lower_char_def Let_def)

lemma parse_decimal_plain:
  assumes ip: "list_all is_digit ip" "ip \<noteq> []" and fp: "list_all is_digit fp"
  shows "parse_decimal (ip @ (if fp = [] then [] else CHR ''.'' # fp)) =
     Some (Finite (Dec (int (digits_val (ip @ fp))) (- int (length fp))))"
proof -
  let ?t = "ip @ (if fp = [] then [] else CHR ''.'' # fp)"
  have inert: "\<not> is_space c \<and> c \<noteq> CHR ''_'' \<and> lower_char c = c" if "c \<in> set ?t" for c
    by (rule digit_inert) (use that ip(1) fp in \<open>auto simp: list_all_iff split: if_splits\<close>)
  have keep: "dropWhile is_space xs = xs" if "\<forall>c \<in> set xs. \<not> is_space c" for xs
    using that by (cases xs) auto
  have "strip xs = xs" if "\<forall>c \<in> set xs. \<not> is_space c" for xs
    using keep [of xs] keep [of "rev xs"] that by (simp add: strip_def strip_by_def)
  then have "strip ?t = ?t" using inert by blast
  moreover have "filter (\<lambda>c. c \<noteq> CHR ''_'') ?t = ?t" using inert by (simp add: filter_id_conv)
  moreover have "map lower_char ?t = ?t" using inert by (simp add: map_idI)
  ultimately have clean: "map lower_char (filter (\<lambda>c. c \<noteq> CHR ''_'') (strip ?t)) = ?t" by simp
  obtain c cs where c: "ip = c # cs" "is_digit c" using ip by (cases ip) auto
  then have hd: "hd ?t = c" "?t \<noteq> []" "c \<notin> set ''-+ins''" by (auto simp: is_digit_def)
  have tw: "takeWhile is_digit ?t = ip" "dropWhile is_digit ?t = (if fp = [] then [] else CHR ''.'' # fp)"
    using ip(1) by (auto simp: list_all_iff is_digit_def takeWhile_append dropWhile_append)
  have twf: "takeWhile is_digit fp = fp" "dropWhile is_digit fp = []" using fp by (auto simp: list_all_iff)
  have "parse_finite ?t = Some (Dec (int (digits_val (ip @ fp))) (- int (length fp)))"
    unfolding parse_finite_def Let_def tw using ip(2) by (cases "fp = []") (simp_all add: parse_exponent_def twf)
  moreover have "take 3 ?t \<noteq> ''nan''" "take 4 ?t \<noteq> ''snan''" "?t \<noteq> ''inf''" "?t \<noteq> ''infinity''"
    using hd c by auto
  ultimately show ?thesis
    unfolding parse_decimal_def clean Let_def using hd by (auto simp: id_def)
qed

lemma parse_dec_str:
  assumes "plain_decimal d"
  shows "parse_decimal (dec_str d) = Some (Finite d)"
proof -
  define ds where "ds = nat_str (nat \<bar>dcoeff d\<bar>)"
  define k where "k = nat (- dexp d)"
  have c: "0 \<le> dcoeff d" "dexp d = - int k" using assms by (simp_all add: plain_decimal_def k_def)
  have ds: "list_all is_digit ds" "ds \<noteq> []" "digits_val ds = nat (dcoeff d)"
    using nat_str_digits [of "nat \<bar>dcoeff d\<bar>"] digit_chars c(1)
    by (auto simp: ds_def digits_val_nat_str list_all_iff simp del: set_simps)
  have zeros: "list_all is_digit (replicate j (CHR ''0''))" for j by (induction j) (simp_all add: is_digit_def)
  let ?ip = "if length ds \<le> k then ''0'' else take (length ds - k) ds"
  let ?fp = "if length ds \<le> k then replicate (k - length ds) (CHR ''0'') @ ds else drop (length ds - k) ds"
  have "dec_str d = ?ip @ (if ?fp = [] then [] else CHR ''.'' # ?fp)"
    using assms c ds(2) unfolding dec_str_def plain_decimal_def ds_def [symmetric] Let_def
    by (auto simp: nat_diff_distrib' le_diff_conv nat_int_add) 
  moreover have "list_all is_digit ?ip" "?ip \<noteq> []" "list_all is_digit ?fp"
    using ds zeros by (auto simp: is_digit_def list_all_append list_all_iff dest: in_set_takeD in_set_dropD)
  moreover have "int (digits_val (?ip @ ?fp)) = dcoeff d" "length ?fp = k"
    using ds(3) c(1) digits_val_zeros [of "Suc (k - length ds)" ds] by (auto simp: replicate_append_same)
  ultimately show ?thesis using parse_decimal_plain [of ?ip ?fp] c(2) by (cases d) auto
qed

text \<open>The adopted block, read: an entry of the observed value, effective from its date.\<close>

lemma adopted_entry:
  assumes "plain_decimal d" and "in_range eff" and "from_iso (replace_Z (strftime_utc now)) = Some (Aware t)"
  shows "\<exists>e. fee_entry from_iso key (adopted_table (Finite d) unit eff observed_on prior now) = Inr e \<and>
     fe_value e = Finite d \<and> fe_effective_from e = eff \<and> fe_recorded_utc e = Aware t \<and>
     fe_source_kind e = ''observed_adopted'' \<and> fe_max_age_days e = 180"
  using assms parse_dec_str [OF assms(1)] fromisoformat_isoformat [OF assms(2)]
  by (simp add: adopted_table_def fee_entry_def toml_at_def toml_get_def toml_str_def toml_int_def toml_bool_def
      pd_str_def SOURCE_KINDS_def)

lemma resolve_of_series:
  assumes "series_for s i f = Inr es"
  shows "resolve_entry s i f on allow_stale now =
     (let applicable = filter (\<lambda>e. fe_effective_from e \<le> on) es
      in if applicable = [] then Inl (OtherError (if es = [] then ''IndexError'' else ''KeyError''))
         else bindR (is_stale (last applicable) now) (\<lambda>stale.
              if stale \<and> \<not> allow_stale then Inl (OtherError ''FeeScheduleStale'') else Inr (last applicable)))"
  using assms by (simp add: resolve_entry_def Let_def)

lemma adopted_block:
  assumes load: "load_fee_schedule from_iso raw = Inr s"
    and field: "series_blocks raw i f = Inr (TArr (x # xs))" "f \<notin> {''label'', ''venue'', ''ticker'', ''broker''}"
    and d: "plain_decimal d" and eff: "in_range eff"
    and stamp: "from_iso (replace_Z (strftime_utc now)) = Some (Aware t)"
  shows "\<exists>s' e. load_fee_schedule from_iso
             (with_block raw i f (adopted_table (Finite d) unit eff observed_on prior now)) = Inr s' \<and>
         fe_value e = Finite d \<and> fe_effective_from e = eff \<and>
         (\<forall>on allow_stale u. on < eff \<longrightarrow>
            resolve_entry s' i f on allow_stale u = resolve_entry s i f on allow_stale u) \<and>
         (\<forall>j g on allow_stale u. (j, g) \<noteq> (i, f) \<longrightarrow>
            resolve_entry s' j g on allow_stale u = resolve_entry s j g on allow_stale u) \<and>
         ((\<forall>es. series_for s i f = Inr es \<longrightarrow> (\<forall>e \<in> set es. fe_effective_from e \<le> eff)) \<longrightarrow>
          (\<forall>on u. eff \<le> on \<longrightarrow>
             resolve_entry s' i f on True u = Inr e \<and>
             (\<exists>c. compare_fee s' i f (Finite d) on True u = Inr c \<and> \<not> should_alert c)))"
proof -
  let ?b = "adopted_table (Finite d) unit eff observed_on prior now"
  from adopted_entry [where from_iso = from_iso, OF d eff stamp] obtain e where
    e: "fee_entry from_iso (i @ ''.'' @ f) ?b = Inr e" "fe_value e = Finite d" "fe_effective_from e = eff"
      "fe_recorded_utc e = Aware t" by blast
  from load_with_block [OF load field(1) e(1) field(2)] obtain ps s' where
    len: "length ps = length (x # xs)" and s: "series_for s i f = Inr (sort_key fe_effective_from ps)" and
    s': "load_fee_schedule from_iso (with_block raw i f ?b) = Inr s'"
      "series_for s' i f = Inr (sort_key fe_effective_from (ps @ [e]))"
      "\<And>j g. (j, g) \<noteq> (i, f) \<Longrightarrow> series_for s' j g = series_for s j g" by blast
  have "ps \<noteq> []" using len by auto
  have nonempty: "sort_key fe_effective_from qs \<noteq> []" if "qs \<noteq> []" for qs
    using that length_sort [of fe_effective_from qs] by (metis length_0_conv)
  have before: "resolve_entry s' i f on stale u = resolve_entry s i f on stale u" if "on < eff" for on stale u
    using that e(3) nonempty [OF \<open>ps \<noteq> []\<close>] nonempty [of "ps @ [e]"]
    unfolding resolve_of_series [OF s] resolve_of_series [OF s'(2)] filter_sort by (simp add: not_le [symmetric])
  have others: "resolve_entry s' j g on stale u = resolve_entry s j g on stale u" if "(j, g) \<noteq> (i, f)" for j g on stale u
    using s'(3) [OF that] by (simp add: resolve_entry_def)
  have adopted: "resolve_entry s' i f on True u = Inr e"
    if "\<forall>e \<in> set ps. fe_effective_from e \<le> eff" "eff \<le> on" for on u
  proof -
    have "sort_key fe_effective_from (ps @ [e]) = sort_key fe_effective_from ps @ [e]"
      using that(1) e(3) by (intro sort_key_snoc_max) simp
    then show ?thesis using that(2) e(3,4)
      unfolding resolve_of_series [OF s'(2)] by (simp add: Let_def is_stale_def age_days_def)
  qed
  have quiet: "\<exists>c. compare_fee s' i f (Finite d) on True u = Inr c \<and> \<not> should_alert c"
    if "resolve_entry s' i f on True u = Inr e" for on u
    using that e(2) by (simp add: compare_fee_def should_alert_def dec_lt_def dec_le_dval)
  show ?thesis
    using s'(1) e(2,3) before others adopted quiet s by (intro exI [of _ s'] exI [of _ e]) simp
qed

text \<open>What \<open>tomllib\<close> makes of the file is a parameter; of it only how the appended block reads is used.\<close>


text \<open>A file of one field, recorded on the fourth of September 2026, and one adoption a month later.\<close>

definition demo_fee_file :: toml where
  "demo_fee_file =
     TTab [(''schema_version'', TInt 1), (''meta'', TTab [(''currency'', TStr ''THB'')]),
           (''instrument'', TTab [(''s50_futures'', TTab
             [(''label'', TStr ''SET50 Index Futures''), (''venue'', TStr ''TFEX''), (''ticker'', TStr ''S50''),
              (''broker'', TStr ''liberator''),
              (''commission'', TArr [TTab
                 [(''value'', TStr ''14''), (''effective_from'', TStr ''2026-09-04''), (''unit'', TStr ''THB''),
                  (''source_kind'', TStr ''operator_supplied''), (''source'', TStr ''operator''),
                  (''corroborated'', TBool False), (''recorded_utc'', TStr ''2026-09-04T08:37:26Z''),
                  (''max_age_days'', TInt 180)]])])])]"

definition demo_from_iso :: "string \<Rightarrow> pydatetime option" where
  "demo_from_iso s =
     (if s = ''2026-09-04T08:37:26+00:00'' then Some (Aware 1788511046000000)
      else if s = ''2026-10-04T00:00:00+00:00'' then Some (Aware 1791072000000000) else None)"

lemma demo_fee_file_loads: "\<exists>s. load_fee_schedule demo_from_iso demo_fee_file = Inr s"
proof -
  have "\<not> isl (load_fee_schedule demo_from_iso demo_fee_file)" by code_simp
  then show ?thesis by (metis sum.collapse(2))
qed

text \<open>A reader of exactly two files: that one, and that one with the block of the adoption.\<close>

definition demo_block :: string where
  "demo_block = render_entry ''s50_futures'' ''commission'' (Finite (Dec 155 (- 1))) ''THB'' (Date 2026 10 1)
     (Date 2026 10 4) (Finite (Dec 14 0)) 1791072000000000"

definition demo_loads :: "string \<Rightarrow> toml option" where
  "demo_loads text =
     (if text = ''f'' then Some demo_fee_file
      else if text = append_entry ''f'' demo_block
      then Some (with_block demo_fee_file ''s50_futures'' ''commission''
             (adopted_table (Finite (Dec 155 (- 1))) ''THB'' (Date 2026 10 1) (Date 2026 10 4) (Finite (Dec 14 0))
               1791072000000000))
      else None)"

lemma demo_loads_reads:
  "demo_loads ''f'' = Some demo_fee_file"
  "demo_loads (append_entry ''f'' (render_entry ''s50_futures'' ''commission'' (Finite (Dec 155 (- 1))) ''THB'' (Date 2026 10 1)
     (Date 2026 10 4) (Finite (Dec 14 0)) 1791072000000000)) =
   Some (with_block demo_fee_file ''s50_futures'' ''commission''
     (adopted_table (Finite (Dec 155 (- 1))) ''THB'' (Date 2026 10 1) (Date 2026 10 4) (Finite (Dec 14 0)) 1791072000000000))"
proof -
  have "append_entry ''f'' demo_block \<noteq> ''f''" by (simp add: append_entry_def demo_block_def render_entry_def)
  then show "demo_loads (append_entry ''f'' (render_entry ''s50_futures'' ''commission'' (Finite (Dec 155 (- 1))) ''THB''
      (Date 2026 10 1) (Date 2026 10 4) (Finite (Dec 14 0)) 1791072000000000)) =
    Some (with_block demo_fee_file ''s50_futures'' ''commission''
      (adopted_table (Finite (Dec 155 (- 1))) ''THB'' (Date 2026 10 1) (Date 2026 10 4) (Finite (Dec 14 0)) 1791072000000000))"
    unfolding demo_loads_def demo_block_def by (simp only: if_False refl if_True)
qed (simp add: demo_loads_def)

lemma demo_adoption:
  "series_blocks demo_fee_file ''s50_futures'' ''commission'' = Inr (TArr [TTab
     [(''value'', TStr ''14''), (''effective_from'', TStr ''2026-09-04''), (''unit'', TStr ''THB''),
      (''source_kind'', TStr ''operator_supplied''), (''source'', TStr ''operator''),
      (''corroborated'', TBool False), (''recorded_utc'', TStr ''2026-09-04T08:37:26Z''), (''max_age_days'', TInt 180)]])"
  "''commission'' \<notin> {''label'', ''venue'', ''ticker'', ''broker''}"
  "plain_decimal (Dec 155 (- 1))" "in_range (Date 2026 10 1)"
  "demo_from_iso (replace_Z (strftime_utc 1791072000000000)) = Some (Aware 1791072000000000)"
  by (simp add: series_blocks_def demo_fee_file_def toml_at_def, simp, code_simp, code_simp, code_simp)


theorem entry_in_force_witness:
  "\<exists>s es e. load_fee_schedule demo_from_iso demo_fee_file = Inr s \<and>
     series_for s ''s50_futures'' ''commission'' = Inr es \<and>
     resolve_entry s ''s50_futures'' ''commission'' (Date 2026 9 5) False 1788600000000000 = Inr e \<and>
     e \<in> set es \<and> fe_effective_from e \<le> Date 2026 9 5"
proof -
  have "case load_fee_schedule demo_from_iso demo_fee_file of
      Inl _ \<Rightarrow> False
    | Inr s \<Rightarrow> \<not> isl (series_for s ''s50_futures'' ''commission'') \<and>
        \<not> isl (resolve_entry s ''s50_futures'' ''commission'' (Date 2026 9 5) False 1788600000000000)" by code_simp
  moreover obtain s where s: "load_fee_schedule demo_from_iso demo_fee_file = Inr s" using demo_fee_file_loads by blast
  ultimately have "\<not> isl (series_for s ''s50_futures'' ''commission'')"
    "\<not> isl (resolve_entry s ''s50_futures'' ''commission'' (Date 2026 9 5) False 1788600000000000)" by simp_all
  with s obtain es e where r: "load_fee_schedule demo_from_iso demo_fee_file = Inr s"
    "series_for s ''s50_futures'' ''commission'' = Inr es"
    "resolve_entry s ''s50_futures'' ''commission'' (Date 2026 9 5) False 1788600000000000 = Inr e"
    using sum.collapse(2) by metis
  from entry_in_force [OF r(1,2), of "Date 2026 9 5" False 1788600000000000] r show ?thesis by blast
qed

end
