(* ===== verification/FeeObservations.thy ===== *)
theory FeeObservations
  imports FeeSchedule
begin

text \<open>
  The store of fee observations of \<open>db/fee_observations.py\<close>: the venue calendar, the one
  write that checks an observation against the basis and appends it with its verdict, the
  reads, and the filled quantity of an account in a fee month.
\<close>

section \<open>The venue calendar\<close>

text \<open>The Bangkok date of an instant, seven hours ahead of UTC; a naive \<open>datetime\<close> is read as UTC.\<close>

fun instant :: "pydatetime \<Rightarrow> timestamp" where
  "instant (Aware t) = t"
| "instant (Naive t) = t"

definition venue_date :: "pydatetime \<Rightarrow> pydate" where
  "venue_date dt = fromordinal ((instant dt + 7 * 3600 * 1000000) div day_us + 719163)"

definition venue_fee_month :: "pydatetime \<Rightarrow> pydate" where
  "venue_fee_month dt = replace_day (venue_date dt) 1"

definition next_fee_month :: "pydate \<Rightarrow> pydate" where
  "next_fee_month fee_month = replace_day (add_days (replace_day fee_month 28) 4) 1"

section \<open>Observations\<close>

datatype ObservationKind = INDICATIVE_QUOTE | CHARGED

record FeeObservation =
  ob_observed_at :: pydatetime
  ob_kind :: ObservationKind
  ob_source :: string
  ob_broker :: string
  ob_account :: string
  ob_symbol :: string
  ob_contract_month :: string
  ob_side :: string
  ob_quantity :: int
  ob_price :: pydecimal
  ob_raw_response :: json
  ob_is_roll_boundary :: bool
  ob_commission :: "pydecimal option"
  ob_exchange_fee :: "pydecimal option"
  ob_clearing_fee :: "pydecimal option"
  ob_vat :: "pydecimal option"
  ob_total_fee :: "pydecimal option"
  ob_month_to_date_contracts :: "int option"

definition ob_fee_month :: "FeeObservation \<Rightarrow> pydate" where
  "ob_fee_month obs = venue_fee_month (ob_observed_at obs)"

record FeeObservationRow =
  fo_id :: int
  fo_observed_at :: timestamp
  fo_observation_kind :: ObservationKind
  fo_source :: string
  fo_broker :: string
  fo_account :: string
  fo_symbol :: string
  fo_contract_month :: string
  fo_is_roll_boundary :: bool
  fo_side :: string
  fo_quantity :: int
  fo_price :: pydecimal
  fo_commission :: "pydecimal option"
  fo_exchange_fee :: "pydecimal option"
  fo_clearing_fee :: "pydecimal option"
  fo_vat :: "pydecimal option"
  fo_total_fee :: "pydecimal option"
  fo_fee_month :: pydate
  fo_month_to_date_contracts :: "int option"
  fo_raw_response :: json
  fo_basis_value :: "pydecimal option"
  fo_basis_effective_from :: "pydate option"
  fo_verdict :: "Verdict option"
  fo_inserted_at :: timestamp

record Recorded =
  observation_id :: int
  comparison :: Comparison

definition recorded_should_alert :: "Recorded \<Rightarrow> bool" where
  "recorded_should_alert r = should_alert (comparison r)"

section \<open>The table\<close>

text \<open>
  The database around the table: why it would refuse a row (a CHECK, a missing privilege, any
  other error of the driver), the id of the next row, the instant the driver makes of a
  \<open>datetime\<close> and what a JSONB column gives back of a document.
\<close>

record fee_db =
  fd_refuses :: "FeeObservationRow \<Rightarrow> exn option"
  fd_new_id :: "FeeObservationRow list \<Rightarrow> int"
  fd_instant :: "pydatetime \<Rightarrow> timestamp"
  fd_jsonb :: "json \<Rightarrow> json"

record fee_store =
  fee_rows :: "FeeObservationRow list"
  fee_clock :: timestamp

definition observation_row ::
  "fee_db \<Rightarrow> FeeObservation \<Rightarrow> Comparison option \<Rightarrow> int \<Rightarrow> timestamp \<Rightarrow> FeeObservationRow" where
  "observation_row db obs c rid now =
     \<lparr>fo_id = rid, fo_observed_at = fd_instant db (ob_observed_at obs), fo_observation_kind = ob_kind obs,
      fo_source = ob_source obs, fo_broker = ob_broker obs, fo_account = ob_account obs, fo_symbol = ob_symbol obs,
      fo_contract_month = ob_contract_month obs, fo_is_roll_boundary = ob_is_roll_boundary obs, fo_side = ob_side obs,
      fo_quantity = ob_quantity obs, fo_price = ob_price obs, fo_commission = ob_commission obs,
      fo_exchange_fee = ob_exchange_fee obs, fo_clearing_fee = ob_clearing_fee obs, fo_vat = ob_vat obs,
      fo_total_fee = ob_total_fee obs, fo_fee_month = ob_fee_month obs,
      fo_month_to_date_contracts = ob_month_to_date_contracts obs, fo_raw_response = fd_jsonb db (ob_raw_response obs),
      fo_basis_value = map_option cmp_basis c, fo_basis_effective_from = map_option cmp_basis_effective_from c,
      fo_verdict = map_option cmp_verdict c, fo_inserted_at = now\<rparr>"

definition is_named_refusal :: "exn \<Rightarrow> bool" where
  "is_named_refusal e \<longleftrightarrow> e = CheckViolationError \<or> e = OtherError ''InsufficientPrivilegeError''"

definition insert_observation ::
  "fee_db \<Rightarrow> FeeObservation \<Rightarrow> Comparison option \<Rightarrow> (fee_store, exn, int) prog" where
  "insert_observation db obs c =
     catchE is_named_refusal
       (\<lambda>st. let row = observation_row db obs c (fd_new_id db (fee_rows st)) (fee_clock st)
             in case fd_refuses db row of
                  Some e \<Rightarrow> (Inl e, st)
                | None \<Rightarrow> (Inr (fo_id row), st\<lparr>fee_rows := fee_rows st @ [row]\<rparr>))
       (\<lambda>_. raiseE RepositoryError)"

definition record_observation ::
  "fee_db \<Rightarrow> FeeSchedule \<Rightarrow> FeeObservation \<Rightarrow> string \<Rightarrow> string \<Rightarrow> pydecimal \<Rightarrow>
   (fee_store, exn, Recorded) prog" where
  "record_observation db fees obs instrument field observed_value =
     bindE (getsE fee_clock) (\<lambda>now.
     bindE (liftE (compare_fee fees instrument field observed_value (venue_date (ob_observed_at obs)) True now)) (\<lambda>c.
     bindE (insert_observation db obs (Some c)) (\<lambda>rid.
     returnE \<lparr>observation_id = rid, comparison = c\<rparr>)))"

text \<open>The reads; rows observed at the same instant come in the order of the table.\<close>

definition fetch_observations ::
  "ObservationKind \<Rightarrow> pydate \<Rightarrow> string \<Rightarrow> (fee_store, exn, FeeObservationRow list) prog" where
  "fetch_observations kind fee_month sy =
     getsE (\<lambda>st. sort_key fo_observed_at
       (filter (\<lambda>r. fo_observation_kind r = kind \<and> fo_fee_month r = fee_month \<and> fo_symbol r = sy) (fee_rows st)))"

definition fetch_latest ::
  "ObservationKind \<Rightarrow> string \<Rightarrow> (fee_store, exn, FeeObservationRow option) prog" where
  "fetch_latest kind sy =
     getsE (\<lambda>st.
       let rows = sort_key (\<lambda>r. - fo_observed_at r)
             (filter (\<lambda>r. fo_observation_kind r = kind \<and> fo_symbol r = sy) (fee_rows st))
       in if rows = [] then None else Some (hd rows))"

text \<open>The join of fills and orders, summed over one Bangkok month.\<close>

definition month_to_date_contracts ::
  "string \<Rightarrow> string \<Rightarrow> string \<Rightarrow> pydate \<Rightarrow> ('r, 'v, int) eng" where
  "month_to_date_contracts brk acct mkt fee_month =
     getsE (\<lambda>w. sum_list (map f_quantity (filter (\<lambda>f.
       (case find_order (f_client_order_id f) w of
          None \<Rightarrow> False
        | Some r \<Rightarrow> broker_value (r_broker r) = brk \<and> r_account r = acct \<and> market_value (r_market r) = mkt) \<and>
       fee_month \<le> venue_date (Aware (f_exec_ts f)) \<and>
       venue_date (Aware (f_exec_ts f)) < next_fee_month fee_month) (fills w))))"

section \<open>Fee months\<close>

lemma venue_date_valid: "valid_date (venue_date dt)"
  by (simp add: venue_date_def ordinal_of_date)

lemma venue_fee_month_first: "first_of_month (venue_fee_month dt)"
  by (simp add: venue_fee_month_def first_of_month_replace venue_date_valid)

lemma next_fee_month_after:
  assumes "first_of_month m"
  shows "next_fee_month m = month_after m"
proof -
  have v: "valid_date m" "dy m = 1" using assms by (simp_all add: first_of_month_def)
  let ?d = "add_days (replace_day m 28) 4"
  have "toordinal (replace_day m 28) = toordinal m + 27" using v(2) by (simp add: replace_day_def toordinal_def)
  then have ord: "toordinal ?d = toordinal m + 31" by (simp add: add_days_def ordinal_of_date)
  have next1: "first_of_month (month_after m)" using assms by (rule month_after_first)
  have ord1: "toordinal (month_after m) = toordinal m + days_in_month (yr m) (mo m)"
    using assms by (rule toordinal_month_after)
  have ord2: "toordinal (month_after (month_after m)) =
      toordinal (month_after m) + days_in_month (yr (month_after m)) (mo (month_after m))"
    using next1 by (rule toordinal_month_after)
  have d: "valid_date ?d" by (simp add: add_days_def ordinal_of_date)
  have "\<not> ?d < month_after m"
    using toordinal_less_iff [OF d, of "month_after m"] next1 ord ord1 days_in_month_bounds(2) [of "yr m" "mo m"]
    by (auto simp: first_of_month_def)
  moreover have "?d < month_after (month_after m)"
    using toordinal_less_iff [OF d, of "month_after (month_after m)"] month_after_first [OF next1] ord ord1 ord2
      days_in_month_bounds(1) [of "yr m" "mo m"] days_in_month_bounds(1) [of "yr (month_after m)" "mo (month_after m)"]
    by (auto simp: first_of_month_def)
  ultimately show ?thesis unfolding next_fee_month_def
    by (intro replace_day_within [OF next1 d]) (simp_all add: not_less)
qed

lemma month_contains:
  assumes "first_of_month m"
  shows "m \<le> venue_date dt \<and> venue_date dt < next_fee_month m \<longleftrightarrow> m = venue_fee_month dt"
proof -
  have "m = venue_fee_month dt" if "m \<le> venue_date dt" "venue_date dt < month_after m"
    using replace_day_within [OF assms venue_date_valid that] by (simp add: venue_fee_month_def)
  moreover have "venue_fee_month dt \<le> venue_date dt" "venue_date dt < month_after (venue_fee_month dt)"
    using within_month [OF venue_date_valid] by (simp_all add: venue_fee_month_def)
  ultimately show ?thesis using next_fee_month_after [OF assms] by auto
qed

text \<open>
  The fee months divide the venue's time. Every instant lies in the month it is filed
  under, from its first day up to and without the first day of the next; and a month contains
  an instant only if the instant is filed under it, so that no observation and no fill is
  counted in two months or in none.
\<close>

theorem fee_months_partition:
  "first_of_month (venue_fee_month dt) \<and>
   venue_fee_month dt \<le> venue_date dt \<and> venue_date dt < next_fee_month (venue_fee_month dt) \<and>
   (first_of_month m \<longrightarrow> (m \<le> venue_date dt \<and> venue_date dt < next_fee_month m \<longleftrightarrow> m = venue_fee_month dt))"
  using month_contains [OF venue_fee_month_first, of dt dt] month_contains [of m dt] venue_fee_month_first [of dt] by blast

theorem fee_months_partition_witness:
  "venue_date (Aware 1788206400000000) = Date 2026 9 1 \<and>
   (Date 2026 9 1 \<le> venue_date (Aware 1788206400000000) \<and>
      venue_date (Aware 1788206400000000) < next_fee_month (Date 2026 9 1) \<longleftrightarrow>
    Date 2026 9 1 = venue_fee_month (Aware 1788206400000000))"
proof -
  have "first_of_month (Date 2026 9 1)" by code_simp
  moreover have "venue_date (Aware 1788206400000000) = Date 2026 9 1" by code_simp
  ultimately show ?thesis using fee_months_partition [of "Aware 1788206400000000" "Date 2026 9 1"] by blast
qed

text \<open>
  The tier context of a fee month is the filled quantity of that month: over the fills whose
  order is of the broker, the account and the market, those executed in the month by the
  venue's calendar, each once. The month is named by its first day.
\<close>

theorem month_to_date_is_the_month:
  assumes "first_of_month fee_month"
  shows "month_to_date_contracts brk acct mkt fee_month w =
     (Inr (\<Sum>f \<leftarrow> filter (\<lambda>f. venue_fee_month (Aware (f_exec_ts f)) = fee_month \<and>
              (\<exists>r. find_order (f_client_order_id f) w = Some r \<and> broker_value (r_broker r) = brk \<and>
                   r_account r = acct \<and> market_value (r_market r) = mkt)) (fills w). f_quantity f), w)"
proof -
  have "fee_month \<le> venue_date dt \<and> venue_date dt < next_fee_month fee_month \<longleftrightarrow> venue_fee_month dt = fee_month" for dt
    using month_contains [OF assms] by auto
  then show ?thesis
    unfolding month_to_date_contracts_def getsE_apply
    by (auto intro!: arg_cong [where f = sum_list] map_cong filter_cong split: option.split)
qed

section \<open>Observations and their verdicts\<close>

lemma insert_observation_cases:
  obtains (stored) row where "insert_observation db obs c st = (Inr (fo_id row), st\<lparr>fee_rows := fee_rows st @ [row]\<rparr>)"
      "row = observation_row db obs c (fd_new_id db (fee_rows st)) (fee_clock st)"
    | (refused) e where "insert_observation db obs c st = (Inl e, st)"
proof (cases "fd_refuses db (observation_row db obs c (fd_new_id db (fee_rows st)) (fee_clock st))")
  case None
  then show thesis using stored by (simp add: insert_observation_def catchE_def Let_def)
next
  case (Some e)
  then show thesis using refused by (cases "is_named_refusal e") (simp_all add: insert_observation_def catchE_def Let_def)
qed

text \<open>
  C37. No observation without its check. Recording an observation either raises and leaves the
  table as it was, or appends exactly one row: the row is filed under the venue month of the
  observation's own instant and carries the basis in force on its own venue day, the date
  that basis is effective from and the verdict; the verdict is ABOVE, and the result alerts,
  exactly when the observed value exceeds that basis. The row is read back under its kind,
  month and symbol.
\<close>

theorem recorded_with_verdict:
  assumes "record_observation db fees obs i f (Finite v) st = (x, st')"
  shows "(\<forall>e. x = Inl e \<longrightarrow> st' = st) \<and>
         (\<forall>r. x = Inr r \<longrightarrow>
            (\<exists>row entry b. fee_rows st' = fee_rows st @ [row] \<and>
               resolve_entry fees i f (venue_date (ob_observed_at obs)) True (fee_clock st) = Inr entry \<and>
               fo_basis_value row = Some (fe_value entry) \<and>
               fo_basis_effective_from row = Some (fe_effective_from entry) \<and>
               fo_fee_month row = venue_fee_month (ob_observed_at obs) \<and>
               pd_gt (Finite v) (fe_value entry) = Inr b \<and>
               (fo_verdict row = Some ABOVE \<longleftrightarrow> b) \<and> (recorded_should_alert r \<longleftrightarrow> b) \<and>
               (\<exists>rows. fetch_observations (ob_kind obs) (venue_fee_month (ob_observed_at obs)) (ob_symbol obs) st' =
                         (Inr rows, st') \<and> row \<in> set rows)))"
proof -
  let ?on = "venue_date (ob_observed_at obs)"
  show ?thesis
  proof (cases "compare_fee fees i f (Finite v) ?on True (fee_clock st)")
    case (Inl e)
    then show ?thesis using assms by (auto simp: record_observation_def)
  next
    case (Inr c)
    then obtain entry b where e: "resolve_entry fees i f ?on True (fee_clock st) = Inr entry"
      "pd_gt (Finite v) (fe_value entry) = Inr b" "cmp_basis c = fe_value entry"
      "cmp_basis_effective_from c = fe_effective_from entry" "cmp_verdict c = (if b then ABOVE else AT_OR_BELOW)"
      by (auto simp: compare_fee_def bindR_Inr_iff)
    show ?thesis
    proof (cases rule: insert_observation_cases [of db obs "Some c" st])
      case (stored row)
      then have "x = Inr \<lparr>observation_id = fo_id row, comparison = c\<rparr>" "st' = st\<lparr>fee_rows := fee_rows st @ [row]\<rparr>"
        using assms Inr by (auto simp: record_observation_def bindE_def)
      moreover have "fo_basis_value row = Some (fe_value entry)" "fo_basis_effective_from row = Some (fe_effective_from entry)"
        "fo_fee_month row = venue_fee_month (ob_observed_at obs)" "fo_verdict row = Some (if b then ABOVE else AT_OR_BELOW)"
        "fo_observation_kind row = ob_kind obs" "fo_symbol row = ob_symbol obs"
        by (simp_all add: stored(2) observation_row_def ob_fee_month_def e)
      ultimately show ?thesis
        using e by (auto simp: recorded_should_alert_def should_alert_def fetch_observations_def)
    next
      case (refused e)
      then show ?thesis using assms Inr by (auto simp: record_observation_def bindE_def)
    qed
  qed
qed

section \<open>Two observations on the demonstration schedule\<close>

definition demo_fee_db :: fee_db where
  "demo_fee_db =
     \<lparr>fd_refuses = (\<lambda>r. if fo_quantity r \<le> 0 then Some CheckViolationError else None),
      fd_new_id = (\<lambda>rows. int (length rows) + 1), fd_instant = instant, fd_jsonb = (\<lambda>j. j)\<rparr>"

definition demo_observation :: FeeObservation where
  "demo_observation =
     \<lparr>ob_observed_at = Aware 1788600000000000, ob_kind = CHARGED, ob_source = ''blotter'', ob_broker = ''liberator'',
      ob_account = ''A1'', ob_symbol = ''S50Z26'', ob_contract_month = ''2026-12'', ob_side = ''BUY'', ob_quantity = 1,
      ob_price = Finite (Dec 900 0), ob_raw_response = JNull, ob_is_roll_boundary = False,
      ob_commission = Some (Finite (Dec 155 (- 1))), ob_exchange_fee = None, ob_clearing_fee = None, ob_vat = None,
      ob_total_fee = None, ob_month_to_date_contracts = None\<rparr>"

theorem recorded_with_verdict_witness:
  "\<exists>s r st' row. load_fee_schedule demo_from_iso demo_fee_file = Inr s \<and>
     record_observation demo_fee_db s demo_observation ''s50_futures'' ''commission'' (Finite (Dec 155 (- 1)))
       \<lparr>fee_rows = [], fee_clock = 1788600000000000\<rparr> = (Inr r, st') \<and>
     recorded_should_alert r \<and> fee_rows st' = [row] \<and> fo_verdict row = Some ABOVE"
proof -
  let ?st = "\<lparr>fee_rows = [], fee_clock = 1788600000000000\<rparr>"
  let ?run = "\<lambda>s. record_observation demo_fee_db s demo_observation ''s50_futures'' ''commission'' (Finite (Dec 155 (- 1))) ?st"
  obtain s where s: "load_fee_schedule demo_from_iso demo_fee_file = Inr s" using demo_fee_file_loads by blast
  have "case load_fee_schedule demo_from_iso demo_fee_file of
      Inl _ \<Rightarrow> False
    | Inr s \<Rightarrow> (case ?run s of (Inr r, st') \<Rightarrow> recorded_should_alert r | _ \<Rightarrow> False)" by code_simp
  then obtain r st' where run: "?run s = (Inr r, st')" and al: "recorded_should_alert r"
    using s by (auto split: sum.splits prod.splits)
  from recorded_with_verdict [OF run] al obtain row where "fee_rows st' = fee_rows ?st @ [row]" "fo_verdict row = Some ABOVE"
    by blast
  then show ?thesis using s run al by fastforce
qed

theorem month_to_date_is_the_month_witness:
  "first_of_month (Date 1970 1 1) \<and>
   fst (month_to_date_contracts ''sim'' ''A'' ''SET'' (Date 1970 1 1)
          (demo_world [demo_row ''c'' NEW] [demo_fill ''c'' ''f1'' 30])) = Inr 30"
proof -
  have first: "first_of_month (Date 1970 1 1)" by code_simp
  have "venue_fee_month (Aware 0) = Date 1970 1 1" by code_simp
  then show ?thesis
    using month_to_date_is_the_month [OF first, of "''sim''" "''A''" "''SET''"
        "demo_world [demo_row ''c'' NEW] [demo_fill ''c'' ''f1'' 30]"] first
    by (simp add: demo_defs)
qed

end
