(* ===== verification/FeeDoc.thy ===== *)
theory FeeDoc
  imports FeeSchedule
begin

text \<open>
  The generator of the fee document, \<open>scripts/generate_fee_doc.py\<close>: the text it renders from a
  loaded schedule, and the script with and without \<open>--check\<close>. The file system is the content
  of the output file. Text is a list of bytes, UTF-8 where it is not ASCII; the line breaks
  outside ASCII that \<open>splitlines\<close> also knows do not occur in it.
\<close>

section \<open>Pieces of text\<close>

definition red_circle :: string where
  "red_circle = [CHR 0xF0, CHR 0x9F, CHR 0x94, CHR 0xB4]"

definition dash :: string where
  "dash = [CHR 0xE2, CHR 0x80, CHR 0x94]"

definition mid_dot :: string where
  "mid_dot = [CHR 0xC2, CHR 0xB7]"

definition times_sign :: string where
  "times_sign = [CHR 0xC3, CHR 0x97]"

definition apostrophe :: string where
  "apostrophe = [CHR 0x27]"

definition speaking_head :: string where
  "speaking_head = [CHR 0xF0, CHR 0x9F, CHR 0x97, CHR 0xA3, CHR 0xEF, CHR 0xB8, CHR 0x8F]"

definition classical_building :: string where
  "classical_building = [CHR 0xF0, CHR 0x9F, CHR 0x8F, CHR 0x9B, CHR 0xEF, CHR 0xB8, CHR 0x8F]"

definition abacus :: string where
  "abacus = [CHR 0xF0, CHR 0x9F, CHR 0xA7, CHR 0xAE]"

definition ticked :: "string \<Rightarrow> string" where
  "ticked s = CHR 0x60 # s @ [CHR 0x60]"

definition fence :: string where
  "fence = [CHR 0x60, CHR 0x60, CHR 0x60]"

definition CANON :: string where
  "CANON = ''quant-execution-engine/src/quant_execution_engine/reference/fee_schedule.toml''"

definition KIND :: "(string \<times> string) list" where
  "KIND =
     [(''operator_supplied'', speaking_head @ '' operator-supplied''),
      (''venue_fetched'', classical_building @ '' venue-fetched''),
      (''derived'', abacus @ '' derived'')]"

definition is_break :: "char \<Rightarrow> bool" where
  "is_break c = (let n = (of_char c :: nat) in 10 \<le> n \<and> n \<le> 13 \<or> 28 \<le> n \<and> n \<le> 30)"

fun split_lines :: "string \<Rightarrow> string \<Rightarrow> string list" where
  "split_lines acc [] = (if acc = [] then [] else [rev acc])"
| "split_lines acc (c # cs) =
     (if \<not> is_break c then split_lines (c # acc) cs
      else rev acc # split_lines [] (if c = CHR 13 \<and> cs \<noteq> [] \<and> hd cs = CHR 10 then tl cs else cs))"

section \<open>The document\<close>

definition doc_prologue :: "FeeSchedule \<Rightarrow> string list" where
  "doc_prologue s =
     [''# Trading fee schedule '' @ dash @ '' GENERATED, do not edit'',
      [],
      ''> '' @ red_circle @ '' **This file is GENERATED. Every edit here is lost and a drift test will fail.**'',
      ''> The single source of truth is'',
      ''> ['' @ ticked CANON @ ''](../../'' @ CANON @ '').'',
      ''>'',
      ''> '' @ fence @ ''bash'',
      ''> cd quant-execution-engine && uv run python scripts/generate_fee_doc.py'',
      ''> '' @ fence,
      [],
      red_circle @ '' **This is a POLICY, not a record of facts.** The broker runs promotions, so the rate'',
      ''actually charged varies day to day. This is a **fixed, deliberately conservative basis**'',
      ''pinned at the most expensive tier, so every strategy calculation is deterministic and'',
      ''never flatters itself. What is *actually* charged lives in '' @ ticked ''execution.fee_observations'',
      ''and is checked against this **one-sidedly**: an observation at or below the basis is'',
      ''normal and silent; one **above** it means the basis has stopped being conservative,'',
      ''which alerts and appends a new dated entry.'',
      [],
      ''**Entries are an append-only dated series.** Resolve the entry in force for **the period'',
      ''you are computing over**, never simply the newest '' @ dash @ '' that is what keeps an old result'',
      ''reconstructible. Adoption appends; it never overwrites.'',
      [],
      ''It still carries **no cost logic, no slippage model, and nothing conditioned on a'',
      ''strategy or an outcome**. Consumers keep their own logic and read the basis from here.'',
      [],
      ''Currency **'' @ currency s @ ''** '' @ mid_dot @ '' schema v'' @ int_str (schema_version s),
      [],
      ''## Why this exists'',
      [],
      ''An audit on 2026-09-04 found **five independent cost models** in this umbrella. Their'',
      ''multipliers and tick sizes were venue-correct; their **fees were not**, and the'',
      ''operator'' @ apostrophe @ ''s real schedule existed only in conversation. The widest divergence, measured'',
      ''rather than repeated:'',
      [],
      ''| source | S50, per side | vs actual |'',
      ''|---|---|---|'',
      ''| operator'' @ apostrophe @ ''s actual, all-in | **21.40** | '' @ dash @ '' |'',
      ''| '' @ ticked ''tfex-s50-multi-tf-swing/backtest/costs.py'' @ '' | 160 + 1 = **161** | **7.52'' @ times_sign @ ''** (11.43'' @ times_sign @ '' on commission alone) |'',
      [],
      ''## How to read provenance'',
      [],
      ''| marker | meaning |'',
      ''|---|---|'',
      ''| '' @ speaking_head @ '' operator-supplied | Stated by the operator. **No published source, no in-tree corroboration.** |'',
      ''| '' @ classical_building @ '' venue-fetched | Read from the venue'' @ apostrophe @ ''s own published page, quoted verbatim below. |'',
      ''| '' @ abacus @ '' derived | Computed from other entries in this file; the arithmetic is test-pinned. |'',
      [],
      ''**'' @ ticked ''corroborated: no'' @ '' is not a defect** '' @ dash @ '' it is the honest state of a figure only one'',
      ''person has stated. It is recorded so nobody later mistakes it for a fetched fact, which'',
      ''is precisely how the SSF coefficients in this tree came to be mis-described as *seeds*.'',
      [],
      red_circle @ '' **Stale figures are REFUSED, not returned.** Each entry carries a staleness window;'',
      ''reading past it raises '' @ ticked ''FeeScheduleStale'' @ ''. A caller wanting a known-stale figure must'',
      ''pass '' @ ticked ''allow_stale=True'' @ '', so the decision appears in their code and in review.'']"

text \<open>A row of the table of an instrument. \<open>day\<close> is \<open>strftime\<close> with year, month and day.\<close>

definition doc_row :: "(pydatetime \<Rightarrow> string) \<Rightarrow> string \<Rightarrow> FeeEntry \<Rightarrow> exn + string" where
  "doc_row day fk e =
     (case map_of KIND (fe_source_kind e) of
        None \<Rightarrow> Inl (OtherError ''KeyError'')
      | Some provenance \<Rightarrow> Inr
          (''| '' @ ticked fk @ '' | '' @ ticked (isoformat_date (fe_effective_from e)) @ '' | **'' @ pd_str (fe_value e) @
           ''** | '' @ fe_unit e @ '' | '' @ provenance @ '' | '' @ (if fe_corroborated e then ''yes'' else ''**no**'') @
           '' | '' @ day (fe_recorded_utc e) @ '' | '' @ int_str (fe_max_age_days e) @ ''d |''))"

definition doc_note :: "string \<Rightarrow> FeeEntry list \<Rightarrow> exn + string list" where
  "doc_note fk entries =
     (if entries = [] then Inl (OtherError ''IndexError'')
      else
        let e = last entries
        in Inr (if fe_verbatim e = [] \<and> fe_note e = [] then []
                else [[], ''**'' @ ticked fk @ ''** '' @ dash @ '' '' @ fe_source e] @
                  (if fe_verbatim e = [] then [] else [[], ''> venue, verbatim: '' @ ticked (fe_verbatim e)]) @
                  (if fe_note e = [] then []
                   else [] # map (\<lambda>line. if strip line = [] then ''>'' else ''> '' @ line) (split_lines [] (fe_note e)))))"

definition doc_instrument :: "(pydatetime \<Rightarrow> string) \<Rightarrow> string \<times> Instrument \<Rightarrow> exn + string list" where
  "doc_instrument day ki =
     (case ki of (key, inst) \<Rightarrow>
        bindR (mapR (\<lambda>(fk, entries). mapR (doc_row day fk) entries) (in_series inst)) (\<lambda>rows.
        bindR (mapR (\<lambda>(fk, entries). doc_note fk entries) (in_series inst)) (\<lambda>notes.
        Inr ([[],
              ''## '' @ in_label inst,
              [],
              ticked key @ '' '' @ mid_dot @ '' venue **'' @ in_venue inst @ ''** '' @ mid_dot @ '' ticker **'' @
                in_ticker inst @ ''** '' @ mid_dot @ '' broker **'' @ in_broker inst @ ''**'',
              [],
              ''| field | effective from | value | unit | provenance | corroborated | recorded | max age |'',
              ''|---|---|---|---|---|---|---|---|''] @ concat rows @ concat notes))))"

definition doc_gap :: "Gap \<Rightarrow> string list" where
  "doc_gap g =
     [[],
      ''### '' @ gap_label g @ '' ('' @ ticked (gap_instrument g) @ '')'',
      [],
      ''- **what exists:** '' @ ticked (gap_what_exists g),
      ''- **where:** '' @ ticked (gap_where g),
      ''- **why not canonical:** '' @ gap_why_not_canonical g,
      ''- **what would close it:** '' @ gap_what_would_close_it g]"

definition doc_gaps_heading :: "string list" where
  "doc_gaps_heading =
     [[],
      ''## Gaps '' @ dash @ '' recorded, deliberately NOT filled'',
      [],
      ''These classes are modelled elsewhere in the umbrella but their fee facts do **not**'',
      ''reach the standard above. Nothing uncorroborated is made canonical; the gap is named'',
      ''instead, with what would close it.'']"

definition doc_epilogue :: "string list" where
  "doc_epilogue =
     [[],
      ''---'',
      [],
      ''<sub>Generated from '' @ ticked CANON @ '' by '' @ ticked ''scripts/generate_fee_doc.py'' @ ''. Do not edit.</sub>'',
      []]"

definition render :: "(pydatetime \<Rightarrow> string) \<Rightarrow> FeeSchedule \<Rightarrow> exn + string" where
  "render day s =
     bindR (mapR (doc_instrument day) (instruments s)) (\<lambda>sections.
     Inr (join [CHR 10] (doc_prologue s @ concat sections @ doc_gaps_heading @ concat (map doc_gap (gaps s)) @ doc_epilogue)))"

section \<open>The script\<close>

text \<open>\<open>read_text\<close> translates every line end to one newline.\<close>

fun universal_newlines :: "string \<Rightarrow> string" where
  "universal_newlines [] = []"
| "universal_newlines (c # cs) =
     (if c = CHR 13 then CHR 10 # universal_newlines (if cs \<noteq> [] \<and> hd cs = CHR 10 then tl cs else cs)
      else c # universal_newlines cs)"

text \<open>
  \<open>main\<close>: the file is the content of the output path, None where it does not exist. The result
  is the exit code and the file after.
\<close>

definition main ::
  "(pydatetime \<Rightarrow> string) \<Rightarrow> (string \<Rightarrow> pydatetime option) \<Rightarrow> toml \<Rightarrow> bool \<Rightarrow> string option \<Rightarrow>
   exn + int \<times> string option" where
  "main day from_iso raw check out =
     bindR (bindR (load_fee_schedule from_iso raw) (render day)) (\<lambda>want.
     if check then
       let have_text = (case out of Some text \<Rightarrow> universal_newlines text | None \<Rightarrow> [])
       in Inr (if have_text \<noteq> want then 1 else 0, out)
     else Inr (0, Some want))"

section \<open>When there is a document\<close>

lemma mapR_defined: "(\<exists>ys. mapR f xs = Inr ys) \<longleftrightarrow> (\<forall>x \<in> set xs. \<exists>y. f x = Inr y)"
  by (induction xs) (auto simp: bindR_Inr_iff)

lemma doc_row_defined: "(\<exists>r. doc_row day fk e = Inr r) \<longleftrightarrow> fe_source_kind e \<in> fst ` set KIND"
  by (auto simp: doc_row_def KIND_def split: option.split)

lemma doc_note_defined: "(\<exists>n. doc_note fk entries = Inr n) \<longleftrightarrow> entries \<noteq> []"
  by (simp add: doc_note_def Let_def)

lemma doc_instrument_defined:
  "(\<exists>t. doc_instrument day (key, inst) = Inr t) \<longleftrightarrow>
   (\<forall>p \<in> set (in_series inst). snd p \<noteq> [] \<and> (\<forall>e \<in> set (snd p). fe_source_kind e \<in> fst ` set KIND))"
proof -
  have "(\<exists>t. doc_instrument day (key, inst) = Inr t) \<longleftrightarrow>
      (\<exists>rows. mapR (\<lambda>(fk, entries). mapR (doc_row day fk) entries) (in_series inst) = Inr rows) \<and>
      (\<exists>notes. mapR (\<lambda>(fk, entries). doc_note fk entries) (in_series inst) = Inr notes)"
    by (auto simp: doc_instrument_def bindR_Inr_iff)
  then show ?thesis
    unfolding case_prod_unfold mapR_defined doc_row_defined doc_note_defined by blast
qed

text \<open>A schedule has a document when no series is empty and every kind of source is one the document knows.\<close>

lemma render_defined:
  "(\<exists>text. render day s = Inr text) \<longleftrightarrow>
   (\<forall>ki \<in> set (instruments s). \<forall>p \<in> set (in_series (snd ki)).
      snd p \<noteq> [] \<and> (\<forall>e \<in> set (snd p). fe_source_kind e \<in> fst ` set KIND))"
proof -
  have "(\<exists>text. render day s = Inr text) \<longleftrightarrow> (\<forall>ki \<in> set (instruments s). \<exists>t. doc_instrument day (fst ki, snd ki) = Inr t)"
    by (simp add: render_def bindR_Inr_iff mapR_defined)
  then show ?thesis by (simp only: doc_instrument_defined)
qed

lemma universal_newlines_id: "CHR 13 \<notin> set s \<Longrightarrow> universal_newlines s = s"
  by (induction s) auto

text \<open>
  The document and its check agree. When the schedule has a document and the document no
  carriage return, writing it makes the check pass, the check of any other text fails, and no
  check changes the file.
\<close>

theorem document_check:
  assumes "bindR (load_fee_schedule from_iso raw) (render day) = Inr want" and "CHR 13 \<notin> set want"
  shows "main day from_iso raw False out = Inr (0, Some want) \<and>
         main day from_iso raw True (Some want) = Inr (0, Some want) \<and>
         (\<forall>text. CHR 13 \<notin> set text \<longrightarrow> text \<noteq> want \<longrightarrow> main day from_iso raw True (Some text) = Inr (1, Some text)) \<and>
         (\<forall>file code file'. main day from_iso raw True file = Inr (code, file') \<longrightarrow> file' = file)"
  using assms by (auto simp: main_def Let_def universal_newlines_id)

text \<open>
  An adopted entry leaves no document. The block that adopts an observation names a kind of
  source that the reader of the file accepts and the document does not know: whatever the
  file, once the block of \<open>render_entry\<close> is appended the file loads and the generator raises,
  both to write and to check.
\<close>

theorem adoption_breaks_the_document:
  assumes "toml_loads contents = Some raw"
    and "toml_loads (append_entry contents (render_entry i f (Finite d) unit eff observed_on prior now)) =
           Some (with_block raw i f (adopted_table (Finite d) unit eff observed_on prior now))"
    and "load_fee_schedule from_iso raw = Inr s"
    and "series_blocks raw i f = Inr (TArr xs)" and "f \<notin> {''label'', ''venue'', ''ticker'', ''broker''}"
    and "plain_decimal d" and "in_range eff"
    and "from_iso (replace_Z (strftime_utc now)) = Some (Aware t)"
  shows "\<exists>raw' s' e.
         toml_loads (append_entry contents (render_entry i f (Finite d) unit eff observed_on prior now)) = Some raw' \<and>
         load_fee_schedule from_iso raw' = Inr s' \<and> main day from_iso raw' check out = Inl e"
proof -
  let ?b = "adopted_table (Finite d) unit eff observed_on prior now"
  from adopted_entry [where from_iso = from_iso, OF assms(6,7,8)] obtain e where
    e: "fee_entry from_iso (i @ ''.'' @ f) ?b = Inr e" "fe_source_kind e = ''observed_adopted''" by blast
  from load_with_block [OF assms(3,4) e(1) assms(5)] obtain ps s' where
    s': "load_fee_schedule from_iso (with_block raw i f ?b) = Inr s'"
      "series_for s' i f = Inr (sort_key fe_effective_from (ps @ [e]))" by blast
  obtain inst where inst: "(i, inst) \<in> set (instruments s')" "(f, sort_key fe_effective_from (ps @ [e])) \<in> set (in_series inst)"
    using s'(2) by (auto simp: series_for_def dest: map_of_SomeD split: option.splits)
  have "e \<in> set (sort_key fe_effective_from (ps @ [e]))" by simp
  moreover have "fe_source_kind e \<notin> fst ` set KIND" by (simp add: e(2) KIND_def)
  ultimately have "\<nexists>text. render day s' = Inr text" unfolding render_defined using inst by force
  then obtain err where "render day s' = Inl err" by (cases "render day s'") auto
  then show ?thesis using s'(1) assms(2) by (auto simp: main_def)
qed

theorem adoption_breaks_the_document_witness:
  "\<exists>raw s' e. demo_loads (append_entry ''f'' demo_block) = Some raw \<and> load_fee_schedule demo_from_iso raw = Inr s' \<and>
     main (\<lambda>_. ''2026-09-04'') demo_from_iso raw True None = Inl e"
proof -
  obtain s where s: "load_fee_schedule demo_from_iso demo_fee_file = Inr s" using demo_fee_file_loads by blast
  show ?thesis
    by (rule adoption_breaks_the_document [where from_iso = demo_from_iso, OF demo_loads_reads s demo_adoption,
          folded demo_block_def])
qed

text \<open>A file with no instrument yet has a document.\<close>

definition bare_fee_file :: toml where
  "bare_fee_file = TTab [(''schema_version'', TInt 1), (''meta'', TTab [(''currency'', TStr ''THB'')]), (''instrument'', TTab [])]"

definition bare_schedule :: FeeSchedule where
  "bare_schedule = \<lparr>schema_version = 1, currency = ''THB'', instruments = [], gaps = []\<rparr>"

lemma set_join: "set (join sep xs) \<subseteq> set sep \<union> \<Union> (set ` set xs)"
  by (induction sep xs rule: join.induct) auto

lemma bare_lines: "list_all (list_all (\<lambda>c. c \<noteq> CHR 13)) (doc_prologue bare_schedule @ doc_gaps_heading @ doc_epilogue)"
  by code_simp

lemma bare_document:
  "bindR (load_fee_schedule from_iso bare_fee_file) (render day) =
     Inr (join [CHR 10] (doc_prologue bare_schedule @ doc_gaps_heading @ doc_epilogue))"
  by (simp add: bare_fee_file_def bare_schedule_def load_fee_schedule_def toml_at_def toml_items_def toml_get_def
      toml_iter_def toml_int_def toml_str_def render_def)

theorem document_check_witness:
  "\<exists>want. main (\<lambda>_. ''2026-09-04'') demo_from_iso bare_fee_file False None = Inr (0, Some want) \<and>
     main (\<lambda>_. ''2026-09-04'') demo_from_iso bare_fee_file True (Some want) = Inr (0, Some want) \<and>
     main (\<lambda>_. ''2026-09-04'') demo_from_iso bare_fee_file True (Some (want @ ''edited'')) = Inr (1, Some (want @ ''edited''))"
proof -
  let ?want = "join [CHR 10] (doc_prologue bare_schedule @ doc_gaps_heading @ doc_epilogue)"
  have "\<forall>l \<in> set (doc_prologue bare_schedule @ doc_gaps_heading @ doc_epilogue). CHR 13 \<notin> set l"
    using bare_lines unfolding list_all_iff by blast
  then have clean: "CHR 13 \<notin> set ?want" using set_join [of "[CHR 10]"] by fastforce
  then have "CHR 13 \<notin> set (?want @ ''edited'')" "?want @ ''edited'' \<noteq> ?want" by simp_all
  with document_check [OF bare_document clean] show ?thesis by blast
qed

end
