(* ===== verification/Liberator.thy ===== *)
theory Liberator
  imports VenueWire SimAdapter
begin

text \<open>
  The Liberator package (\<open>adapters/liberator/\<close>): its wire models, the pure mapping, the
  transport and the adapter. Decoding a JSON object into a wire model is the validation
  library's work and a parameter (\<open>lib_schema\<close>); everything done with the result is here.
\<close>

section \<open>Wire models\<close>

text \<open>\<open>LiberatorData\<close> and \<open>LiberatorEnvelope\<close>; a \<open>detail\<close> that is null is absent.\<close>

record LiberatorData =
  error_code :: "int option"
  err_msg :: "string option"
  data_result :: "json option"

record LiberatorEnvelope =
  env_success :: bool
  env_message :: "string option"
  env_data :: "LiberatorData option"
  env_detail :: "json option"

definition env_ok :: "LiberatorEnvelope \<Rightarrow> bool" where
  "env_ok e \<longleftrightarrow>
     env_success e \<and>
     (case env_data e of
        None \<Rightarrow> False
      | Some d \<Rightarrow> error_code d = Some 0 \<and> (err_msg d = None \<or> err_msg d = Some []))"

definition data_parts :: "LiberatorData option \<Rightarrow> string list" where
  "data_parts data =
     (case data of
        None \<Rightarrow> []
      | Some d \<Rightarrow>
          (case error_code d of
             Some n \<Rightarrow> if n \<noteq> 0 then [''errorCode='' @ int_str n] else []
           | None \<Rightarrow> []) @
          (case err_msg d of Some msg \<Rightarrow> if msg \<noteq> [] then [msg] else [] | None \<Rightarrow> []))"

definition env_reject_reason :: "LiberatorEnvelope \<Rightarrow> string" where
  "env_reject_reason e =
     (let parts = data_parts (env_data e);
          parts = (case env_message e of
                     Some msg \<Rightarrow> if parts = [] \<and> msg \<noteq> [] then [msg] else parts
                   | None \<Rightarrow> parts);
          parts = (case env_detail e of
                     Some v \<Rightarrow> if parts = [] then [py_str v] else parts
                   | None \<Rightarrow> parts);
          text = join ''; '' parts
      in if text = [] then ''liberator rejected the request'' else text)"

definition env_order_no :: "LiberatorEnvelope \<Rightarrow> string option" where
  "env_order_no e =
     (case env_data e of
        None \<Rightarrow> None
      | Some d \<Rightarrow>
          (case data_result d of
             Some (JObj kvs) \<Rightarrow> map_option py_str (dict_get kvs ''orderNo'')
           | _ \<Rightarrow> None))"

record VenueOrderItem =
  vi_order_no :: string
  vi_account_no :: string
  vi_symbol :: string
  vi_side :: string
  vi_position :: "string option"
  vi_price_type :: string
  vi_iceberg_vol :: int
  vi_volume :: int
  vi_price :: "decimal option"
  vi_matched :: int
  vi_balance :: int
  vi_cancelled :: int
  vi_amount :: "decimal option"
  vi_status :: string
  vi_status_show :: string
  vi_reject_code :: string
  vi_can_cancel :: bool
  vi_validity_type :: string
  vi_stop_price :: "decimal option"
  vi_stop_symbol :: "string option"
  vi_entry_time :: "pydatetime option"
  vi_trade_time :: "pydatetime option"

text \<open>\<open>model_validate\<close> of the two models: the model, or the \<open>ValidationError\<close> it raises.\<close>

record lib_schema =
  validate_envelope :: "(string \<times> json) list \<Rightarrow> exn + LiberatorEnvelope"
  validate_item :: "(string \<times> json) list \<Rightarrow> exn + VenueOrderItem"

definition envelope_result :: "(string \<times> json) list \<Rightarrow> string \<Rightarrow> (string \<times> json) list option" where
  "envelope_result payload key =
     (case map_of payload key of
        Some (JObj envelope) \<Rightarrow>
          (case map_of envelope ''result'' of Some (JObj result) \<Rightarrow> Some result | _ \<Rightarrow> None)
      | _ \<Rightarrow> None)"

fun json_objects :: "json list \<Rightarrow> (string \<times> json) list list" where
  "json_objects [] = []"
| "json_objects (JObj kvs # rest) = kvs # json_objects rest"
| "json_objects (_ # rest) = json_objects rest"

definition venue_order_rows :: "json \<Rightarrow> exn + (string \<times> json) list list" where
  "venue_order_rows body =
     (case body of
        JObj payload \<Rightarrow>
          (case (case envelope_result payload ''raw_response'' of
                   Some r \<Rightarrow> Some r
                 | None \<Rightarrow> envelope_result payload ''data'') of
             None \<Rightarrow> Inl (LiberatorTransportError ''liberator orders: no result object'')
           | Some result \<Rightarrow>
               (case map_of result ''list'' of
                  Some (JList items) \<Rightarrow> Inr (json_objects items)
                | _ \<Rightarrow> Inr []))
      | _ \<Rightarrow> Inl (OtherError ''AttributeError''))"

text \<open>\<open>[f(row) for row in rows]\<close> where \<open>f\<close> may raise.\<close>

fun map_exn :: "('a \<Rightarrow> exn + 'b) \<Rightarrow> 'a list \<Rightarrow> exn + 'b list" where
  "map_exn f [] = Inr []"
| "map_exn f (x # xs) =
     (case f x of Inl e \<Rightarrow> Inl e | Inr y \<Rightarrow> map_sum id ((#) y) (map_exn f xs))"

definition parse_order_items :: "lib_schema \<Rightarrow> json \<Rightarrow> exn + VenueOrderItem list" where
  "parse_order_items schema body =
     (case venue_order_rows body of
        Inl e \<Rightarrow> Inl e
      | Inr rows \<Rightarrow> map_exn (validate_item schema) rows)"

section \<open>Mapping, the write side\<close>

fun set_price_type :: "OrderType \<Rightarrow> string option" where
  "set_price_type LIMIT = Some ''Limit''"
| "set_price_type MARKET = Some ''Market''"
| "set_price_type MTL = Some ''MP''"
| "set_price_type ATO = Some ''ATO''"
| "set_price_type ATC = Some ''ATC''"
| "set_price_type ICEBERG = Some ''Limit''"
| "set_price_type _ = None"

fun tfex_price_type :: "OrderType \<Rightarrow> string option" where
  "tfex_price_type LIMIT = Some ''Limit''"
| "tfex_price_type MARKET = Some ''Market''"
| "tfex_price_type STOP = Some ''Stop''"
| "tfex_price_type STOP_LIMIT = Some ''Stop''"
| "tfex_price_type ICEBERG = Some ''Limit''"
| "tfex_price_type _ = None"

fun venue_validity :: "Tif \<Rightarrow> string" where
  "venue_validity DAY = ''Day''"
| "venue_validity GTC = ''GTC''"
| "venue_validity IOC = ''IOC''"
| "venue_validity FOK = ''FOK''"

fun venue_side :: "Side \<Rightarrow> Market \<Rightarrow> string" where
  "venue_side BUY SET = ''Buy''"
| "venue_side SELL SET = ''Sell''"
| "venue_side BUY TFEX = ''Long''"
| "venue_side SELL TFEX = ''Short''"

fun venue_position :: "PositionEffect \<Rightarrow> string" where
  "venue_position OPEN = ''Open''"
| "venue_position CLOSE = ''Close''"

definition lib_place_path :: "Market \<Rightarrow> string" where
  "lib_place_path m = (if m = SET then ''order/place/set'' else ''order/place/tfex'')"

definition lib_cancel_path :: "Market \<Rightarrow> string" where
  "lib_cancel_path m = (if m = SET then ''order/cancelled/set'' else ''order/cancelled/tfex'')"

definition lib_orders_path :: "string \<Rightarrow> string" where
  "lib_orders_path acct = ''orders/'' @ acct"

definition venue_price_type :: "OrderType \<Rightarrow> Market \<Rightarrow> exn + string" where
  "venue_price_type ot m =
     (case (if m = SET then set_price_type ot else tfex_price_type ot) of
        Some t \<Rightarrow> Inr t
      | None \<Rightarrow>
          Inl (LiberatorMappingError
                (''order_type '' @ order_type_value ot @ '' is not expressible on the Liberator '' @
                 market_value m @ '' wire'')))"

definition set_wire_price :: "NormalizedOrder \<Rightarrow> exn + string" where
  "set_wire_price od =
     (case (case price od of Some p \<Rightarrow> Some p | None \<Rightarrow> stop_price od) of
        None \<Rightarrow>
          Inl (LiberatorMappingError
                ''liberator SET wire requires price > 0 even for market-family orders; supply an indicative price'')
      | Some p \<Rightarrow>
          (case dec_quantize p (-2) of
             None \<Rightarrow> Inl (OtherError ''InvalidOperation'')
           | Some q \<Rightarrow>
               if \<not> dec_eq p q
               then Inl (LiberatorMappingError
                      (''liberator SET wire allows at most 2 decimal places (got '' @ dec_str p @ '')''))
               else Inr (format_f q)))"

definition bridge_pin :: json where
  "bridge_pin = JStr ''0000000000''"

definition iceberg_vol :: "NormalizedOrder \<Rightarrow> json" where
  "iceberg_vol od = JInt (case display_qty od of Some d \<Rightarrow> d | None \<Rightarrow> 0)"

definition lib_to_set_payload :: "NormalizedOrder \<Rightarrow> exn + json" where
  "lib_to_set_payload od =
     (case set_wire_price od of
        Inl e \<Rightarrow> Inl e
      | Inr p \<Rightarrow>
          (case venue_price_type (order_type od) SET of
             Inl e \<Rightarrow> Inl e
           | Inr t \<Rightarrow>
               Inr (JObj [(''accountNo'', JStr (account od)), (''icebergVol'', iceberg_vol od),
                          (''volume'', JInt (quantity od)), (''symbol'', JStr (symbol od)),
                          (''side'', JStr (venue_side (side od) SET)), (''pin'', bridge_pin),
                          (''price'', JStr p), (''priceType'', JStr t),
                          (''validityType'', JStr (venue_validity (tif od))), (''nvdr'', JBool False)])))"

definition lib_to_tfex_payload :: "NormalizedOrder \<Rightarrow> exn + json" where
  "lib_to_tfex_payload od =
     (case position_effect od of
        None \<Rightarrow> Inl (LiberatorMappingError ''TFEX orders require position_effect'')
      | Some pe \<Rightarrow>
          let p = (case price od of Some p \<Rightarrow> p | None \<Rightarrow> Dec 0 0);
              sp = (case stop_price od of
                      Some s \<Rightarrow> if order_type od \<in> {STOP, STOP_LIMIT} then s else Dec 0 0
                    | None \<Rightarrow> Dec 0 0)
          in (case venue_price_type (order_type od) TFEX of
                Inl e \<Rightarrow> Inl e
              | Inr t \<Rightarrow>
                  Inr (JObj [(''accountNo'', JStr (account od)), (''icebergVol'', iceberg_vol od),
                             (''volume'', JInt (quantity od)), (''symbol'', JStr (symbol od)),
                             (''side'', JStr (venue_side (side od) TFEX)),
                             (''position'', JStr (venue_position pe)), (''pin'', bridge_pin),
                             (''price'', JStr (format_f p)), (''priceType'', JStr t),
                             (''validityType'', JStr (venue_validity (tif od))),
                             (''stopCondition'', JStr []), (''stopSymbol'', JStr (symbol od)),
                             (''stopPrice'', JStr (format_f sp))])))"

definition lib_to_place_payload :: "NormalizedOrder \<Rightarrow> exn + json" where
  "lib_to_place_payload od =
     (if market od = SET then lib_to_set_payload od else lib_to_tfex_payload od)"

definition lib_to_cancel_payload :: "string \<Rightarrow> json" where
  "lib_to_cancel_payload order_no =
     JObj [(''orderNo'', JList [JStr order_no]), (''pin'', bridge_pin)]"

section \<open>Mapping, the read side\<close>

definition from_venue_side :: "string \<Rightarrow> Side option" where
  "from_venue_side raw =
     (let token = upper (strip raw)
      in if token \<in> {''B'', ''BUY'', ''LONG''} then Some BUY
         else if token \<in> {''S'', ''SELL'', ''SHORT''} then Some SELL
         else None)"

definition READ_PRICE_TYPES :: "(string \<times> OrderType) list" where
  "READ_PRICE_TYPES =
     [(''LIMIT'', LIMIT), (''MARKET'', MARKET), (''MP'', MTL), (''ATO'', ATO), (''ATC'', ATC), (''STOP'', STOP)]"

definition READ_VALIDITY :: "(string \<times> Tif) list" where
  "READ_VALIDITY = [(''DAY'', DAY), (''GTC'', GTC), (''IOC'', IOC), (''FOK'', FOK)]"

definition READ_POSITIONS :: "(string \<times> PositionEffect) list" where
  "READ_POSITIONS = [(''OPEN'', OPEN), (''CLOSE'', CLOSE)]"

definition position_text :: "string option \<Rightarrow> string" where
  "position_text p = (case p of Some t \<Rightarrow> strip t | None \<Rightarrow> [])"

definition item_market :: "VenueOrderItem \<Rightarrow> Market" where
  "item_market item = (if position_text (vi_position item) \<noteq> [] then TFEX else SET)"

definition venue_item_to_normalized :: "string \<Rightarrow> VenueOrderItem \<Rightarrow> NormalizedOrder option" where
  "venue_item_to_normalized acct item =
     (case (from_venue_side (vi_side item), map_of READ_PRICE_TYPES (upper (strip (vi_price_type item)))) of
        (Some sd, Some ot) \<Rightarrow>
          let ot = (if ot = LIMIT \<and> 0 < vi_iceberg_vol item then ICEBERG else ot);
              made = mk_NormalizedOrder
                \<lparr>client_order_id = synthetic_client_order_id ''liberator'' (vi_order_no item),
                 broker = LIBERATOR,
                 account = (if vi_account_no item \<noteq> [] then vi_account_no item else acct),
                 market = item_market item, symbol = vi_symbol item, side = sd, order_type = ot,
                 price = vi_price item,
                 stop_price = (if ot = STOP then vi_stop_price item else None),
                 quantity = vi_volume item,
                 display_qty = (if ot = ICEBERG then Some (vi_iceberg_vol item) else None),
                 tif = (case map_of READ_VALIDITY (upper (strip (vi_validity_type item))) of
                          Some t \<Rightarrow> t | None \<Rightarrow> DAY),
                 position_effect = map_of READ_POSITIONS (upper (position_text (vi_position item))),
                 metadata = []\<rparr>
          in (case made of Inl _ \<Rightarrow> None | Inr od \<Rightarrow> Some od)
      | _ \<Rightarrow> None)"

definition CANCELLED_STATUS :: "string list" where
  "CANCELLED_STATUS = [''CANCELLED'', ''CANCELED'', ''CXL'']"

definition REJECTED_STATUS :: "string list" where
  "REJECTED_STATUS = [''REJECTED'', ''REJECT'']"

definition EXPIRED_STATUS :: "string list" where
  "EXPIRED_STATUS = [''EXPIRED'', ''EXPIRE'']"

definition classify_venue_state :: "VenueOrderItem \<Rightarrow> VenueOrderState" where
  "classify_venue_state item =
     (let status = upper (strip (vi_status item));
          shown = upper (strip (vi_status_show item))
      in if strip (vi_reject_code item) \<noteq> [] then V_REJECTED
         else if status \<in> set CANCELLED_STATUS \<or> shown \<in> {''C'', ''X'', ''XC''} then V_CANCELLED
         else if status \<in> set REJECTED_STATUS \<or> shown = ''R'' then V_REJECTED
         else if shown = ''XA'' then V_CANCELLED
         else if status \<in> set EXPIRED_STATUS then V_EXPIRED
         else if 0 < vi_cancelled item \<and> vi_balance item = 0 \<and> vi_matched item < vi_volume item
         then V_CANCELLED
         else V_RESTING)"

definition venue_item_to_view :: "isoformat \<Rightarrow> VenueOrderItem \<Rightarrow> VenueOrderView" where
  "venue_item_to_view fmt item =
     \<lparr>vo_order_id = vi_order_no item, vo_market = Some (item_market item), vo_symbol = vi_symbol item,
      vo_side = from_venue_side (vi_side item), vo_quantity = vi_volume item, vo_price = vi_price item,
      matched_qty = vi_matched item, remaining_qty = vi_balance item, cancelled_qty = vi_cancelled item,
      vo_state = display_state (venue_state_value (classify_venue_state item)) (vi_volume item)
                   (vi_matched item) (vi_balance item),
      venue_status = vi_status item, venue_status_code = vi_status_show item,
      placed_at = map_option fmt (vi_entry_time item)\<rparr>"

section \<open>Transport\<close>

definition SENSITIVE_KEYS :: "string list" where
  "SENSITIVE_KEYS = [''pin'', ''accountno'', ''account_no'', ''password'', ''apitoken'', ''api_key'']"

definition redact_payload :: "(string \<times> json) list \<Rightarrow> (string \<times> json) list" where
  "redact_payload payload =
     map (\<lambda>(k, v). (k, if map lower_char k \<in> set SENSITIVE_KEYS then JStr ''***'' else v)) payload"

record 'v lib_transport =
  lt_base_url :: string
  lt_client :: "'v http_client"
  lt_schema :: lib_schema

definition lib_url :: "'v lib_transport \<Rightarrow> string \<Rightarrow> string" where
  "lib_url t path = rstrip_slash (lt_base_url t) @ ''/'' @ dropWhile (\<lambda>c. c = CHR ''/'') path"

definition parse_envelope :: "lib_schema \<Rightarrow> string \<Rightarrow> json option \<Rightarrow> exn + LiberatorEnvelope" where
  "parse_envelope schema path body =
     (case body of
        None \<Rightarrow> Inl (LiberatorTransportError (''liberator POST '' @ path @ '' returned non-JSON''))
      | Some (JObj kvs) \<Rightarrow> validate_envelope schema kvs
      | Some _ \<Rightarrow> Inl (LiberatorTransportError (''liberator POST '' @ path @ '' returned a non-object body'')))"

definition lib_post :: "'v lib_transport \<Rightarrow> string \<Rightarrow> json \<Rightarrow> ('r, 'v, LiberatorEnvelope) eng" where
  "lib_post t path payload =
     bindE (catchE is_http_error (on_venue (hc_post (lt_client t) (lib_url t path) payload))
              (\<lambda>_. raiseE (LiberatorTransportError (''liberator POST '' @ path @ '' failed''))))
       (\<lambda>(status, body).
     if 500 \<le> status
     then raiseE (LiberatorTransportError (''liberator POST '' @ path @ '' upstream error''))
     else liftE (parse_envelope (lt_schema t) path body))"

definition lib_get_json :: "'v lib_transport \<Rightarrow> string \<Rightarrow> ('r, 'v, json) eng" where
  "lib_get_json t path =
     bindE (catchE is_http_error (on_venue (hc_get (lt_client t) (lib_url t path)))
              (\<lambda>_. raiseE (LiberatorTransportError (''liberator GET '' @ path @ '' failed''))))
       (\<lambda>(status, body).
     if 500 \<le> status
     then raiseE (LiberatorTransportError (''liberator GET '' @ path @ '' upstream error''))
     else case body of
            None \<Rightarrow> raiseE (LiberatorTransportError (''liberator GET '' @ path @ '' returned non-JSON''))
          | Some v \<Rightarrow> returnE v)"

fun is_lib_transport_error :: "exn \<Rightarrow> bool" where
  "is_lib_transport_error (LiberatorTransportError _) = True"
| "is_lib_transport_error _ = False"

section \<open>The adapter\<close>

text \<open>
  What \<open>LiberatorAdapter.__init__\<close> is given, and the sleep of its token bucket. Its breaker, its
  bucket and its caches are parts of the world.
\<close>

record ('r, 'v) LiberatorAdapter =
  la_transport :: "'v lib_transport"
  la_resolve_order :: "(string \<Rightarrow> ('r, 'v, (string \<times> Market) option) eng) option"
  la_sleep :: "('r, 'v) pause"
  la_isoformat :: isoformat

definition accepted_ack :: "string option \<Rightarrow> PlaceAck" where
  "accepted_ack order_no =
     \<lparr>rejected = False, reject_reason = None, broker_order_id = order_no, ack_fills = [],
      remainder_cancelled = False\<rparr>"

definition rejected_ack :: "string \<Rightarrow> PlaceAck" where
  "rejected_ack reason =
     \<lparr>rejected = True, reject_reason = Some reason, broker_order_id = None, ack_fills = [],
      remainder_cancelled = False\<rparr>"

definition await_order_no :: "string \<Rightarrow> LiberatorSession \<Rightarrow> LiberatorSession" where
  "await_order_no cid s = s\<lparr>awaiting_order_no := insert cid (awaiting_order_no s)\<rparr>"

definition remember_order_no :: "string \<Rightarrow> string \<Rightarrow> Market \<Rightarrow> LiberatorSession \<Rightarrow> LiberatorSession" where
  "remember_order_no cid order_no m s =
     s\<lparr>order_no_cache := (order_no_cache s)(cid := Some (order_no, m)),
       awaiting_order_no := awaiting_order_no s - {cid}\<rparr>"

definition on_lib_session :: "(LiberatorSession \<Rightarrow> LiberatorSession) \<Rightarrow> ('r, 'v, unit) eng" where
  "on_lib_session f = modifyE (\<lambda>w. w\<lparr>lib_session := f (lib_session w)\<rparr>)"

definition lib_place :: "('r, 'v) LiberatorAdapter \<Rightarrow> NormalizedOrder \<Rightarrow> ('r, 'v, PlaceAck) eng" where
  "lib_place la od =
     (case lib_to_place_payload od of
        Inl (LiberatorMappingError msg) \<Rightarrow> returnE (rejected_ack msg)
      | Inl e \<Rightarrow> raiseE e
      | Inr payload \<Rightarrow>
          bindE (acquire_token (la_sleep la) LIBERATOR) (\<lambda>_.
          bindE (lib_post (la_transport la) (lib_place_path (market od)) payload) (\<lambda>envelope.
          if \<not> env_ok envelope then returnE (rejected_ack (env_reject_reason envelope))
          else case env_order_no envelope of
            None \<Rightarrow>
              bindE (on_lib_session (await_order_no (client_order_id od))) (\<lambda>_.
              returnE (accepted_ack None))
          | Some order_no \<Rightarrow>
              bindE (on_lib_session (remember_order_no (client_order_id od) order_no (market od))) (\<lambda>_.
              returnE (accepted_ack (Some order_no))))))"

definition cancel_failed :: "string \<Rightarrow> CancelAck" where
  "cancel_failed reason = \<lparr>cancel_ok = False, cancel_reason = Some reason\<rparr>"

definition exn_text :: "exn \<Rightarrow> string" where
  "exn_text e =
     (case e of
        AdapterError m \<Rightarrow> m | LiberatorTransportError m \<Rightarrow> m | LiberatorMappingError m \<Rightarrow> m
      | StreamingProTransportError m \<Rightarrow> m | StreamingProMappingError m \<Rightarrow> m | _ \<Rightarrow> [])"

definition lib_cancel :: "('r, 'v) LiberatorAdapter \<Rightarrow> string \<Rightarrow> ('r, 'v, CancelAck) eng" where
  "lib_cancel la cid =
     bindE (getsE (\<lambda>w. order_no_cache (lib_session w) cid)) (\<lambda>cached.
     bindE (case cached of
              Some ref \<Rightarrow> returnE (Some ref)
            | None \<Rightarrow> (case la_resolve_order la of Some f \<Rightarrow> f cid | None \<Rightarrow> returnE None)) (\<lambda>resolved.
     case resolved of
       None \<Rightarrow>
         bindE (getsE (\<lambda>w. cid \<in> awaiting_order_no (lib_session w))) (\<lambda>awaited.
         returnE (cancel_failed
           (if awaited then ''order is LIVE at the venue but its broker_order_id has not been reconciled yet''
            else ''no broker_order_id mapping for client_order_id'')))
     | Some (order_no, m) \<Rightarrow>
         bindE (catchE is_lib_transport_error
                  (bindE (lib_post (la_transport la) (lib_cancel_path m) (lib_to_cancel_payload order_no))
                     (\<lambda>envelope. returnE (Inr envelope)))
                  (\<lambda>e. returnE (Inl (exn_text e)))) (\<lambda>r.
         case r of
           Inl text \<Rightarrow> returnE (cancel_failed text)
         | Inr envelope \<Rightarrow>
             if \<not> env_ok envelope then returnE (cancel_failed (env_reject_reason envelope))
             else returnE \<lparr>cancel_ok = True, cancel_reason = None\<rparr>)))"

definition lib_amend :: "string \<Rightarrow> decimal option \<Rightarrow> int option \<Rightarrow> ('r, 'v, AmendAck) eng" where
  "lib_amend cid new_price new_qty =
     returnE \<lparr>amend_ok = False, amend_semantics = ''cancel_replace'',
              amend_reason = Some ''liberator has no amend route''\<rparr>"

definition lib_fetch_venue_orders ::
  "('r, 'v) LiberatorAdapter \<Rightarrow> string \<Rightarrow> ('r, 'v, VenueOrderItem list) eng" where
  "lib_fetch_venue_orders la acct =
     bindE (lib_get_json (la_transport la) (lib_orders_path acct)) (\<lambda>body.
     liftE (parse_order_items (lt_schema (la_transport la)) body))"

definition lib_get_venue_orders ::
  "('r, 'v) LiberatorAdapter \<Rightarrow> string \<Rightarrow> ('r, 'v, VenueOrderView list) eng" where
  "lib_get_venue_orders la acct =
     bindE (lib_fetch_venue_orders la acct) (\<lambda>items.
     returnE (map (venue_item_to_view (la_isoformat la)) items))"

definition lib_open_view :: "string \<Rightarrow> VenueOrderItem \<Rightarrow> NormalizedOrder option" where
  "lib_open_view acct item =
     (if classify_venue_state item \<noteq> V_RESTING then None
      else if vi_balance item \<le> 0 then None
      else venue_item_to_normalized acct item)"

definition lib_get_open_orders ::
  "('r, 'v) LiberatorAdapter \<Rightarrow> string \<Rightarrow> ('r, 'v, NormalizedOrder list) eng" where
  "lib_get_open_orders la acct =
     bindE (lib_fetch_venue_orders la acct) (\<lambda>items.
     returnE (List.map_filter (lib_open_view acct) items))"

subsection \<open>Account reads\<close>

definition venue_result :: "json \<Rightarrow> exn + (string \<times> json) list" where
  "venue_result body =
     (case (case body of JObj kvs \<Rightarrow> map_of kvs ''raw_response'' | _ \<Rightarrow> None) of
        Some (JObj raw) \<Rightarrow>
          (case map_of raw ''errMsg'' of
             Some (JStr (c # cs)) \<Rightarrow> Inl (Rejected LiberatorAccountNotFound None)
           | _ \<Rightarrow>
               (case map_of raw ''result'' of
                  Some (JObj result) \<Rightarrow> Inr result
                | _ \<Rightarrow> Inl (LiberatorTransportError ''raw_response carried no result object'')))
      | _ \<Rightarrow> Inl (LiberatorTransportError ''no raw_response in the envelope''))"

text \<open>\<open>Decimal(str(value))\<close> of a number or a text; a bool is not a number.\<close>

definition decimal_of_json :: "json \<Rightarrow> exn + pydecimal" where
  "decimal_of_json v =
     (case parse_decimal (py_str v) of
        Some d \<Rightarrow> Inr d
      | None \<Rightarrow> Inl (OtherError ''InvalidOperation''))"

definition venue_decimal :: "json option \<Rightarrow> exn + pydecimal" where
  "venue_decimal v =
     (case v of
        Some (JInt i) \<Rightarrow> decimal_of_json (JInt i)
      | Some (JFloat r) \<Rightarrow> decimal_of_json (JFloat r)
      | Some (JStr t) \<Rightarrow> decimal_of_json (JStr t)
      | _ \<Rightarrow> Inl (LiberatorTransportError ''not a number''))"

definition lib_opt_decimal :: "(string \<times> json) list \<Rightarrow> string \<Rightarrow> exn + pydecimal option" where
  "lib_opt_decimal raw key =
     (case dict_get raw key of
        None \<Rightarrow> Inr None
      | Some v \<Rightarrow> map_sum id Some (venue_decimal (Some v)))"

text \<open>A \<open>Decimal\<close> field of a contract model admits finite numbers only.\<close>

fun finite_field :: "pydecimal option \<Rightarrow> exn + decimal option" where
  "finite_field None = Inr None"
| "finite_field (Some (Finite d)) = Inr (Some d)"
| "finite_field (Some _) = Inl (ValidationError ''finite_number'')"

text \<open>The named money fields of a row: all are read before any is validated.\<close>

definition money_fields :: "(string \<times> json) list \<Rightarrow> string list \<Rightarrow> exn + decimal option list" where
  "money_fields raw keys =
     (case map_exn (lib_opt_decimal raw) keys of
        Inl e \<Rightarrow> Inl e
      | Inr ds \<Rightarrow> map_exn finite_field ds)"

definition position_market :: "string \<Rightarrow> exn + Market" where
  "position_market acct =
     (if length acct \<noteq> 8 \<or> \<not> list_all is_digit acct then Inl (Rejected LiberatorAccountNotFound None)
      else if last acct = CHR ''2'' then Inr SET
      else if last acct = CHR ''7'' then Inr TFEX
      else Inl (Rejected LiberatorAccountNotFound None))"

definition position_side :: "json option \<Rightarrow> exn + Side option" where
  "position_side v =
     (case v of
        None \<Rightarrow> Inr None
      | Some (JStr t) \<Rightarrow>
          if t = ''Long'' then Inr (Some BUY)
          else if t = ''Short'' then Inr (Some SELL)
          else if t = [] then Inr None
          else Inl (LiberatorTransportError ''unmapped sideShow'')
      | Some (JList _) \<Rightarrow> Inl (OtherError ''TypeError'')
      | Some (JObj _) \<Rightarrow> Inl (OtherError ''TypeError'')
      | Some _ \<Rightarrow> Inl (LiberatorTransportError ''unmapped sideShow''))"

text \<open>\<open>bool(v)\<close>; the \<open>repr\<close> of a float zero is \<open>0.0\<close> or \<open>-0.0\<close>.\<close>

fun py_truth :: "json \<Rightarrow> bool" where
  "py_truth JNull = False"
| "py_truth (JBool b) = b"
| "py_truth (JInt i) = (i \<noteq> 0)"
| "py_truth (JFloat r) = (r \<noteq> ''0.0'' \<and> r \<noteq> ''-0.0'')"
| "py_truth (JStr s) = (s \<noteq> [])"
| "py_truth (JList xs) = (xs \<noteq> [])"
| "py_truth (JObj kvs) = (kvs \<noteq> [])"

definition truthy :: "json option \<Rightarrow> bool" where
  "truthy v = (case v of Some x \<Rightarrow> py_truth x | None \<Rightarrow> False)"

definition position_symbol :: "(string \<times> json) list \<Rightarrow> exn + string" where
  "position_symbol raw =
     (case (if truthy (map_of raw ''symbolDisplay'') then map_of raw ''symbolDisplay'' else map_of raw ''symbol'') of
        Some (JStr (c # cs)) \<Rightarrow> Inr (c # cs)
      | _ \<Rightarrow> Inl (LiberatorTransportError ''position row carries no symbol''))"

definition lib_position :: "string \<Rightarrow> Market \<Rightarrow> (string \<times> json) list \<Rightarrow> exn + Position" where
  "lib_position acct m raw =
     (case position_symbol raw of
        Inl e \<Rightarrow> Inl e
      | Inr sy \<Rightarrow>
          (case map_of raw ''actualVol'' of
             Some (JInt qty) \<Rightarrow>
               (case position_side (dict_get raw ''sideShow'') of
                  Inl e \<Rightarrow> Inl e
                | Inr sd \<Rightarrow>
                    (case money_fields raw [''amount'', ''avg'', ''marketPrice'', ''marketVal'', ''unrealizedPL''] of
                       Inl e \<Rightarrow> Inl e
                     | Inr ds \<Rightarrow>
                         Inr \<lparr>pos_account = acct, pos_market = m, pos_symbol = sy, net_qty = qty, pos_side = sd,
                              cost_amount = ds ! 0, avg_price = ds ! 1, market_price = ds ! 2,
                              market_val = ds ! 3, unrealized_pl = ds ! 4\<rparr>))
           | _ \<Rightarrow> Inl (LiberatorTransportError ''actualVol is not an integer'')))"

definition lib_positions_of :: "string \<Rightarrow> Market \<Rightarrow> json \<Rightarrow> exn + Position list" where
  "lib_positions_of acct m body =
     (case venue_result body of
        Inl e \<Rightarrow> Inl e
      | Inr result \<Rightarrow>
          (case map_of result ''stock'' of
             Some (JList rows) \<Rightarrow>
               map_sum id (filter (\<lambda>p. net_qty p \<noteq> 0)) (map_exn (lib_position acct m) (json_objects rows))
           | _ \<Rightarrow> Inl (LiberatorTransportError ''result carried no stock array'')))"

definition lib_get_positions ::
  "('r, 'v) LiberatorAdapter \<Rightarrow> string \<Rightarrow> ('r, 'v, Position list) eng" where
  "lib_get_positions la acct =
     bindE (liftE (position_market acct)) (\<lambda>m.
     bindE (lib_get_json (la_transport la) (''portfolio/get/'' @ acct)) (\<lambda>body.
     liftE (lib_positions_of acct m body)))"

definition lib_account_type :: "(string \<times> json) list \<Rightarrow> AccountType" where
  "lib_account_type raw =
     (let t = upper (case map_of raw ''type'' of Some v \<Rightarrow> py_str v | None \<Rightarrow> [])
      in if t = ''CASH BALANCE'' then CASH else if t = ''DERIVATIVE'' then DERIVATIVE else UNKNOWN_TYPE)"

definition lib_account_info :: "string \<Rightarrow> (string \<times> json) list \<Rightarrow> exn + AccountInfo" where
  "lib_account_info acct raw =
     (let ty = lib_account_type raw
      in case (if ty = DERIVATIVE then map_exn (lib_opt_decimal raw) [''equity'', ''excessEquity'', ''totalMr'', ''totalMm'']
               else Inr [None, None, None, None]) of
           Inl e \<Rightarrow> Inl e
         | Inr margin \<Rightarrow>
             (case venue_decimal (map_of raw ''lineAvailable'') of
                Inl e \<Rightarrow> Inl e
              | Inr line \<Rightarrow>
                  (case map_exn (lib_opt_decimal raw) [''cashBalance'', ''creditLimit'', ''withdrawAvailable''] of
                     Inl e \<Rightarrow> Inl e
                   | Inr cash \<Rightarrow>
                       (case map_exn finite_field (Some line # cash @ margin) of
                          Inl e \<Rightarrow> Inl e
                        | Inr ds \<Rightarrow>
                            margin_block_belongs_to_derivatives
                              \<lparr>ai_account = acct, account_type = ty, buying_power = the (ds ! 0),
                               cash_balance = ds ! 1, credit_limit = ds ! 2, withdrawable = ds ! 3,
                               equity = ds ! 4, excess_equity = ds ! 5, initial_margin = ds ! 6,
                               maintenance_margin = ds ! 7\<rparr>))))"

definition account_row :: "string \<Rightarrow> (string \<times> json) list list \<Rightarrow> (string \<times> json) list option" where
  "account_row acct rows = find (\<lambda>raw. map_of raw ''accountNo'' = Some (JStr acct)) rows"

definition lib_account_of :: "string \<Rightarrow> json \<Rightarrow> exn + AccountInfo" where
  "lib_account_of acct body =
     (case venue_result body of
        Inl e \<Rightarrow> Inl e
      | Inr result \<Rightarrow>
          (case map_of result ''accounts'' of
             Some (JList rows) \<Rightarrow>
               (case account_row acct (json_objects rows) of
                  Some raw \<Rightarrow> lib_account_info acct raw
                | None \<Rightarrow> Inl (Rejected LiberatorAccountNotFound None))
           | _ \<Rightarrow> Inl (LiberatorTransportError ''result carried no accounts list'')))"

definition lib_get_account ::
  "('r, 'v) LiberatorAdapter \<Rightarrow> string \<Rightarrow> ('r, 'v, AccountInfo) eng" where
  "lib_get_account la acct =
     bindE (lib_get_json (la_transport la) ''profile'') (\<lambda>body. liftE (lib_account_of acct body))"

subsection \<open>Heartbeat\<close>

definition lib_heartbeat :: "('r, 'v) LiberatorAdapter \<Rightarrow> ('r, 'v, bool) eng" where
  "lib_heartbeat la =
     bindE (catchE is_lib_transport_error
              (bindE (lib_get_json (la_transport la) ''order/health/set'') (\<lambda>body. returnE (Some body)))
              (\<lambda>_. returnE None)) (\<lambda>answer.
     bindE (case answer of
              None \<Rightarrow> returnE False
            | Some (JObj kvs) \<Rightarrow>
                returnE (map_of kvs ''status'' = Some (JStr ''healthy'') \<and> truthy (map_of kvs ''auth_token_available''))
            | Some _ \<Rightarrow> raiseE (OtherError ''AttributeError'')) (\<lambda>ok.
     bindE (on_lib_session (\<lambda>s. s\<lparr>lib_heartbeat_ok := Some ok\<rparr>)) (\<lambda>_.
     returnE ok)))"

section \<open>The adapter as the router sees it\<close>

definition liberator_adapter :: "('r, 'v) LiberatorAdapter \<Rightarrow> ('r, 'v) BrokerAdapter" where
  "liberator_adapter la =
     \<lparr>ad_broker = LIBERATOR, ad_breaker = (\<lambda>w. breakers w LIBERATOR), ad_place = lib_place la,
      ad_cancel = lib_cancel la, ad_amend = lib_amend, ad_get_open_orders = lib_get_open_orders la,
      ad_get_positions = lib_get_positions la, ad_get_venue_orders = lib_get_venue_orders la,
      ad_get_account = lib_get_account la\<rparr>"

text \<open>The store's promise, kept: the resolver reads, the sleep lets other coroutines run.\<close>

definition liberator_ok :: "('r, 'v) LiberatorAdapter \<Rightarrow> bool" where
  "liberator_ok la \<longleftrightarrow>
     (\<forall>f cid. la_resolve_order la = Some f \<longrightarrow> effect same_store any (f cid)) \<and>
     (\<forall>d w. evolves w (la_sleep la d w))"

lemma lib_post_frame: "effect same_store any (lib_post t path payload)"
  unfolding lib_post_def case_prod_unfold
  by (intro frame.effect_seq frame.effect_catch frame.effect_if frame.effect_raise frame.effect_lift_any
      on_venue_frame)

lemma lib_get_json_frame: "effect same_store any (lib_get_json t path)"
  unfolding lib_get_json_def case_prod_unfold
  by (intro frame.effect_seq frame.effect_catch frame.effect_if frame.effect_raise frame.effect_option
      frame.effect_return on_venue_frame) simp

lemma on_lib_session_frame: "effect same_store any (on_lib_session f)"
  by (simp add: effect_def on_lib_session_def same_store_def)

lemma lib_cancel_frame:
  assumes "liberator_ok la"
  shows "effect same_store any (lib_cancel la cid)"
proof -
  have f: "la_resolve_order la = Some f \<Longrightarrow> effect same_store any (f cid)" for f
    using assms by (simp add: liberator_ok_def)
  have resolve: "effect same_store any (case cached of
              Some ref \<Rightarrow> returnE (Some ref)
            | None \<Rightarrow> (case la_resolve_order la of Some f \<Rightarrow> f cid | None \<Rightarrow> returnE None))" for cached
    by (cases cached; cases "la_resolve_order la") (auto intro: f frame.effect_return)
  show ?thesis
    unfolding lib_cancel_def
    by (rule frame.effect_seq [OF frame.effect_gets_any], rule frame.effect_seq [OF resolve])
      (auto intro!: frame.effect_option frame.effect_seq frame.effect_gets_any frame.effect_return
        frame.effect_catch lib_post_frame frame.effect_if split: sum.split prod.split)
qed

lemma lib_place_evolves:
  assumes "liberator_ok la"
  shows "effect evolves any (lib_place la od)"
proof -
  note sleep = acquire_token_evolves [of "la_sleep la" LIBERATOR]
  show ?thesis
    using assms unfolding lib_place_def liberator_ok_def
    by (auto intro!: store.effect_return store.effect_raise store.effect_seq sleep store.effect_if store.effect_option
        frame_evolves [OF lib_post_frame] frame_evolves [OF on_lib_session_frame] split: sum.split exn.split)
qed

lemma liberator_is_adapter:
  assumes "liberator_ok la"
  shows "broker_adapter (liberator_adapter la)"
  by unfold_locales
    (use assms in \<open>auto simp: liberator_adapter_def lib_amend_def lib_place_evolves lib_cancel_frame frame.effect_return\<close>)

section \<open>The wire carries an order there and back\<close>

text \<open>The row a venue lists for a placed order: the tokens and numbers of the request, echoed.\<close>

definition wire_text :: "(string \<times> json) list \<Rightarrow> string \<Rightarrow> string" where
  "wire_text kvs k = (case map_of kvs k of Some (JStr t) \<Rightarrow> t | _ \<Rightarrow> [])"

definition wire_int :: "(string \<times> json) list \<Rightarrow> string \<Rightarrow> int" where
  "wire_int kvs k = (case map_of kvs k of Some (JInt n) \<Rightarrow> n | _ \<Rightarrow> 0)"

definition echoed :: "string \<Rightarrow> NormalizedOrder \<Rightarrow> (string \<times> json) list \<Rightarrow> VenueOrderItem" where
  "echoed order_no od kvs =
     \<lparr>vi_order_no = order_no, vi_account_no = wire_text kvs ''accountNo'', vi_symbol = wire_text kvs ''symbol'',
      vi_side = wire_text kvs ''side'',
      vi_position = (case map_of kvs ''position'' of Some (JStr t) \<Rightarrow> Some t | _ \<Rightarrow> None),
      vi_price_type = wire_text kvs ''priceType'', vi_iceberg_vol = wire_int kvs ''icebergVol'',
      vi_volume = wire_int kvs ''volume'', vi_price = price od, vi_matched = 0, vi_balance = quantity od,
      vi_cancelled = 0, vi_amount = None, vi_status = [], vi_status_show = [], vi_reject_code = [],
      vi_can_cancel = True, vi_validity_type = wire_text kvs ''validityType'', vi_stop_price = stop_price od,
      vi_stop_symbol = None, vi_entry_time = None, vi_trade_time = None\<rparr>"

lemma side_tokens: "from_venue_side (venue_side s m) = Some s"
  by (cases s; cases m) (simp_all, code_simp+)

lemma validity_tokens: "map_of READ_VALIDITY (upper (strip (venue_validity t))) = Some t"
  by (cases t) (simp_all, code_simp+)

lemma position_tokens:
  "map_of READ_POSITIONS (upper (position_text (Some (venue_position p)))) = Some p"
  "position_text (Some (venue_position p)) \<noteq> []"
  by (cases p; simp; code_simp)+

lemma no_position: "map_of READ_POSITIONS (upper (position_text None)) = None" "position_text None = []"
  by code_simp+

lemma price_tokens:
  assumes "venue_price_type ot m = Inr t"
  shows "map_of READ_PRICE_TYPES (upper (strip t)) =
    Some (if ot = ICEBERG then LIMIT else if ot = STOP_LIMIT then STOP else ot)"
proof -
  have read: "map_of READ_PRICE_TYPES (upper (strip ''Limit'')) = Some LIMIT"
    "map_of READ_PRICE_TYPES (upper (strip ''Market'')) = Some MARKET"
    "map_of READ_PRICE_TYPES (upper (strip ''MP'')) = Some MTL"
    "map_of READ_PRICE_TYPES (upper (strip ''ATO'')) = Some ATO"
    "map_of READ_PRICE_TYPES (upper (strip ''ATC'')) = Some ATC"
    "map_of READ_PRICE_TYPES (upper (strip ''Stop'')) = Some STOP"
    by code_simp+
  have "(if m = SET then set_price_type ot else tfex_price_type ot) = Some t"
    using assms by (auto simp: venue_price_type_def split: option.splits if_splits)
  then show ?thesis using read by (cases ot; cases m) auto
qed

lemma payload_fields:
  assumes "lib_to_place_payload od = Inr (JObj kvs)" and "market od = TFEX \<longleftrightarrow> position_effect od \<noteq> None"
  shows "\<exists>t. venue_price_type (order_type od) (market od) = Inr t \<and>
    wire_text kvs ''accountNo'' = account od \<and> wire_text kvs ''symbol'' = symbol od \<and>
    wire_text kvs ''side'' = venue_side (side od) (market od) \<and> wire_text kvs ''priceType'' = t \<and>
    wire_text kvs ''validityType'' = venue_validity (tif od) \<and> wire_int kvs ''volume'' = quantity od \<and>
    wire_int kvs ''icebergVol'' = (case display_qty od of Some d \<Rightarrow> d | None \<Rightarrow> 0) \<and>
    map_of kvs ''position'' = map_option (\<lambda>p. JStr (venue_position p)) (position_effect od)"
proof (cases "market od")
  case SET
  with assms obtain p t where "position_effect od = None" and t: "venue_price_type (order_type od) SET = Inr t"
    and "kvs = [(''accountNo'', JStr (account od)), (''icebergVol'', iceberg_vol od),
       (''volume'', JInt (quantity od)), (''symbol'', JStr (symbol od)),
       (''side'', JStr (venue_side (side od) SET)), (''pin'', bridge_pin),
       (''price'', JStr p), (''priceType'', JStr t),
       (''validityType'', JStr (venue_validity (tif od))), (''nvdr'', JBool False)]"
    by (auto simp: lib_to_place_payload_def lib_to_set_payload_def split: sum.splits)
  then show ?thesis by (simp add: SET wire_text_def wire_int_def iceberg_vol_def)
next
  case TFEX
  with assms obtain pe where pe: "position_effect od = Some pe" by auto
  with TFEX assms(1) obtain t p sp where t: "venue_price_type (order_type od) TFEX = Inr t"
    and "kvs = [(''accountNo'', JStr (account od)), (''icebergVol'', iceberg_vol od),
       (''volume'', JInt (quantity od)), (''symbol'', JStr (symbol od)),
       (''side'', JStr (venue_side (side od) TFEX)),
       (''position'', JStr (venue_position pe)), (''pin'', bridge_pin),
       (''price'', JStr p), (''priceType'', JStr t),
       (''validityType'', JStr (venue_validity (tif od))),
       (''stopCondition'', JStr []), (''stopSymbol'', JStr (symbol od)), (''stopPrice'', JStr sp)]"
    by (auto simp: lib_to_place_payload_def lib_to_tfex_payload_def Let_def split: sum.splits)
  then show ?thesis by (simp add: TFEX pe wire_text_def wire_int_def iceberg_vol_def)
qed



section \<open>What a placement leaves behind\<close>

lemma env_reject_reason_nonempty: "env_reject_reason e \<noteq> []"
  by (simp add: env_reject_reason_def Let_def)

lemma mapping_error_nonempty: "lib_to_place_payload od = Inl (LiberatorMappingError msg) \<Longrightarrow> msg \<noteq> []"
  by (auto simp: lib_to_place_payload_def lib_to_set_payload_def lib_to_tfex_payload_def set_wire_price_def
      venue_price_type_def Let_def split: if_splits option.splits sum.splits)

lemma lib_place_run:
  assumes "lib_place la od w = (Inr ack, w')"
  obtains msg where "lib_to_place_payload od = Inl (LiberatorMappingError msg)" "ack = rejected_ack msg" "w' = w"
  | e where "\<not> env_ok e" "ack = rejected_ack (env_reject_reason e)"
  | w1 where "ack = accepted_ack None" "w' = w1\<lparr>lib_session := await_order_no (client_order_id od) (lib_session w1)\<rparr>"
  | w1 n where "ack = accepted_ack (Some n)"
      "w' = w1\<lparr>lib_session := remember_order_no (client_order_id od) n (market od) (lib_session w1)\<rparr>"
proof (cases "lib_to_place_payload od")
  case (Inl e)
  with assms that(1) show thesis by (auto simp: lib_place_def split: exn.splits)
next
  case (Inr payload)
  obtain x w1 where tok: "acquire_token (la_sleep la) LIBERATOR w = (x, w1)" by fastforce
  with acquire_token_ok [of "la_sleep la" LIBERATOR w] have x: "x = Inr ()" by simp
  obtain r w2 where post: "lib_post (la_transport la) (lib_place_path (market od)) payload w1 = (r, w2)" by fastforce
  from assms Inr tok x post obtain e where e: "r = Inr e"
    by (cases r) (auto simp: lib_place_def bindE_def)
  show thesis
  proof (cases "env_ok e")
    case False
    with assms Inr tok x post e that(2) show thesis by (auto simp: lib_place_def bindE_def)
  next
    case True
    with assms Inr tok x post e that(3) [of w2] that(4) [of _ w2] show thesis
      by (auto simp: lib_place_def bindE_def on_lib_session_def split: option.splits)
  qed
qed

text \<open>
  C23. What the answer of a Liberator placement commits to. An order the wire cannot express is
  refused with the reason and without a request; any refusal carries a reason; an accepted
  order is either remembered under its venue number, so that a cancel finds it without the
  store, or marked as live with its number awaited.
\<close>

theorem lib_place_outcomes:
  "(\<forall>msg. lib_to_place_payload od = Inl (LiberatorMappingError msg) \<longrightarrow>
      lib_place la od w = (Inr (rejected_ack msg), w)) \<and>
   (\<forall>ack w'. lib_place la od w = (Inr ack, w') \<longrightarrow>
      (if rejected ack then \<exists>c reason. reject_reason ack = Some (c # reason)
       else case broker_order_id ack of
              Some n \<Rightarrow>
                order_no_cache (lib_session w') (client_order_id od) = Some (n, market od) \<and>
                client_order_id od \<notin> awaiting_order_no (lib_session w')
            | None \<Rightarrow> client_order_id od \<in> awaiting_order_no (lib_session w')))"
proof (intro conjI allI impI)
  fix msg assume "lib_to_place_payload od = Inl (LiberatorMappingError msg)"
  then show "lib_place la od w = (Inr (rejected_ack msg), w)" by (simp add: lib_place_def)
next
  fix ack w' assume run: "lib_place la od w = (Inr ack, w')"
  then show "if rejected ack then \<exists>c reason. reject_reason ack = Some (c # reason)
       else case broker_order_id ack of
              Some n \<Rightarrow>
                order_no_cache (lib_session w') (client_order_id od) = Some (n, market od) \<and>
                client_order_id od \<notin> awaiting_order_no (lib_session w')
            | None \<Rightarrow> client_order_id od \<in> awaiting_order_no (lib_session w')"
  proof (cases rule: lib_place_run)
    case (1 msg)
    with mapping_error_nonempty show ?thesis by (cases msg) (auto simp: rejected_ack_def)
  next
    case (2 e)
    with env_reject_reason_nonempty [of e] show ?thesis
      by (cases "env_reject_reason e") (auto simp: rejected_ack_def)
  qed (simp_all add: accepted_ack_def await_order_no_def remember_order_no_def)
qed

text \<open>A bridge that answers every request with the given envelope, for the examples.\<close>

definition demo_venue :: "LiberatorEnvelope \<Rightarrow> ('r, 'v) LiberatorAdapter" where
  "demo_venue e =
     \<lparr>la_transport =
        \<lparr>lt_base_url = ''http://bridge'',
         lt_client = \<lparr>hc_get = (\<lambda>_ v. (Inr (200, None), v)), hc_post = (\<lambda>_ _ v. (Inr (200, Some (JObj [])), v))\<rparr>,
         lt_schema = \<lparr>validate_envelope = (\<lambda>_. Inr e), validate_item = (\<lambda>_. Inl (ValidationError []))\<rparr>\<rparr>,
      la_resolve_order = None, la_sleep = demo_pause, la_isoformat = (\<lambda>_. [])\<rparr>"

definition demo_accepted :: LiberatorEnvelope where
  "demo_accepted =
     \<lparr>env_success = True, env_message = None,
      env_data = Some \<lparr>error_code = Some 0, err_msg = Some [], data_result = Some (JObj [(''orderNo'', JStr ''V9'')])\<rparr>,
      env_detail = None\<rparr>"

theorem lib_place_outcomes_witness:
  "\<exists>ack w'. lib_place (demo_venue demo_accepted) (demo_order demo_uuid 100 (Dec 10 0)) (demo_world [] []) = (Inr ack, w') \<and>
     \<not> rejected ack \<and> broker_order_id ack = Some ''V9'' \<and> order_no_cache (lib_session w') demo_uuid = Some (''V9'', SET)"
proof -
  let ?od = "demo_order demo_uuid 100 (Dec 10 0)" and ?w = "demo_world [] []"
  have "case fst (lib_place (demo_venue demo_accepted) ?od ?w) of
      Inr ack \<Rightarrow> \<not> rejected ack \<and> broker_order_id ack = Some ''V9'' | Inl _ \<Rightarrow> False" by code_simp
  then obtain ack w' where "lib_place (demo_venue demo_accepted) ?od ?w = (Inr ack, w')"
    "\<not> rejected ack" "broker_order_id ack = Some ''V9''"
    by (cases "lib_place (demo_venue demo_accepted) ?od ?w") (auto split: sum.splits)
  with lib_place_outcomes [of ?od "demo_venue demo_accepted" ?w] show ?thesis by (auto simp: demo_order_def)
qed

end
