(* ===== verification/StreamingPro.thy ===== *)
theory StreamingPro
  imports Liberator
begin

text \<open>
  The Streaming Pro package (\<open>adapters/streaming_pro/\<close>): its wire models with the aliases of both
  markets, the pure mapping, the transport and the adapter. What the validation library makes
  of one JSON value of a declared type, and the \<open>datetime\<close> parsers, are parameters
  (\<open>sp_coercions\<close>); which keys a field is read from and what happens with the result is here.
\<close>

section \<open>Wire models\<close>

text \<open>One value coerced to the declared type, None where the library refuses it.\<close>

record sp_coercions =
  co_bool :: "json \<Rightarrow> bool option"
  co_str :: "json \<Rightarrow> string option"
  co_int :: "json \<Rightarrow> int option"
  co_decimal :: "json \<Rightarrow> decimal option"
  co_datetime :: "json \<Rightarrow> pydatetime option"
  co_strptime :: "string \<Rightarrow> timestamp option"
  co_fromisoformat :: "string \<Rightarrow> pydatetime option"

text \<open>A field with a default, read from the first of its keys that is present.\<close>

fun first_present :: "(string \<times> json) list \<Rightarrow> string list \<Rightarrow> json option" where
  "first_present kvs [] = None"
| "first_present kvs (k # ks) = (case map_of kvs k of Some v \<Rightarrow> Some v | None \<Rightarrow> first_present kvs ks)"

definition field :: "(json \<Rightarrow> 'a option) \<Rightarrow> 'a \<Rightarrow> (string \<times> json) list \<Rightarrow> string list \<Rightarrow> 'a option" where
  "field co dflt kvs keys = (case first_present kvs keys of None \<Rightarrow> Some dflt | Some v \<Rightarrow> co v)"

definition nullable :: "(json \<Rightarrow> 'a option) \<Rightarrow> json \<Rightarrow> 'a option option" where
  "nullable co v = (if v = JNull then Some None else map_option Some (co v))"

text \<open>\<open>BridgePlace\<close>; its \<open>detail\<close> is any value.\<close>

record BridgePlace =
  bp_ok :: bool
  bp_order_no :: "string option"
  bp_ext_order_no :: "string option"
  bp_status :: "string option"
  bp_reason :: "string option"
  bp_detail :: json

definition validate_place :: "sp_coercions \<Rightarrow> (string \<times> json) list \<Rightarrow> exn + BridgePlace" where
  "validate_place co kvs =
     (case (field (co_bool co) False kvs [''ok''],
            field (nullable (co_str co)) None kvs [''order_no''],
            field (nullable (co_str co)) None kvs [''ext_order_no''],
            field (nullable (co_str co)) None kvs [''status''],
            field (nullable (co_str co)) None kvs [''reject_reason'', ''reason'']) of
        (Some ok, Some no, Some ext, Some st, Some re) \<Rightarrow>
          Inr \<lparr>bp_ok = ok, bp_order_no = no, bp_ext_order_no = ext, bp_status = st, bp_reason = re,
               bp_detail = (case map_of kvs ''detail'' of Some v \<Rightarrow> v | None \<Rightarrow> JNull)\<rparr>
      | _ \<Rightarrow> Inl (ValidationError ''BridgePlace''))"

definition opt_text :: "string option \<Rightarrow> json" where
  "opt_text t = (case t of Some s \<Rightarrow> JStr s | None \<Rightarrow> JNull)"

definition bp_reject_reason :: "BridgePlace \<Rightarrow> string" where
  "bp_reject_reason p =
     (case find py_truth [opt_text (bp_reason p), bp_detail p, opt_text (bp_status p)] of
        Some part \<Rightarrow> py_str part
      | None \<Rightarrow> ''streaming_pro rejected the request'')"

text \<open>\<open>VenueOrderRow\<close>.\<close>

record VenueOrderRow =
  vr_order_no :: string
  vr_account_no :: string
  vr_ext_order_no :: string
  vr_order_no_fis :: string
  vr_symbol :: string
  vr_side :: string
  vr_position :: "string option"
  vr_price_type :: string
  vr_price :: "decimal option"
  vr_status :: string
  vr_reject_reason :: string
  vr_validity_type :: string
  vr_volume :: int
  vr_matched :: int
  vr_balance :: int
  vr_cancelled :: int
  vr_status_show :: string
  vr_entry_time :: "pydatetime option"

text \<open>
  \<open>_compose_entry_time\<close>: a time of day is joined with the date beside it and read as Bangkok
  wall clock, seven hours ahead of UTC; any other text goes to \<open>fromisoformat\<close> as it is.
\<close>

definition BANGKOK_OFFSET :: int where
  "BANGKOK_OFFSET = 7 * 3600 * 1000000"

definition entry_date :: "(string \<times> json) list \<Rightarrow> string" where
  "entry_date kvs =
     (case map_of kvs ''entryDate'' of
        Some v \<Rightarrow> if py_truth v then strip (py_str v) else []
      | None \<Rightarrow> [])"

definition compose_entry_time :: "sp_coercions \<Rightarrow> (string \<times> json) list \<Rightarrow> pydatetime option" where
  "compose_entry_time co kvs =
     (case map_of kvs ''entryTime'' of
        Some (JStr raw) \<Rightarrow>
          let text = strip raw
          in if text = [] then None
             else if length text \<le> 8 \<and> CHR '':'' \<in> set text
             then map_option (\<lambda>t. Aware (t - BANGKOK_OFFSET)) (co_strptime co (entry_date kvs @ '' '' @ text))
             else co_fromisoformat co text
      | _ \<Rightarrow> None)"

definition entry_time_field :: "sp_coercions \<Rightarrow> (string \<times> json) list \<Rightarrow> pydatetime option option" where
  "entry_time_field co kvs =
     (if map_of kvs ''entryTime'' = None then field (nullable (co_datetime co)) None kvs [''entry_time'']
      else Some (compose_entry_time co kvs))"

definition validate_row :: "sp_coercions \<Rightarrow> (string \<times> json) list \<Rightarrow> exn + VenueOrderRow" where
  "validate_row co kvs =
     (case (Option.bind (first_present kvs [''orderNo'', ''order_no'']) (co_str co),
            field (co_str co) [] kvs [''accountNo'', ''account_no''],
            field (co_str co) [] kvs [''extOrderNo'', ''ext_order_no''],
            field (co_str co) [] kvs [''orderNoFis'', ''order_no_fis''],
            field (co_str co) [] kvs [''symbol''], field (co_str co) [] kvs [''side'']) of
        (Some no, Some acct, Some ext, Some fis, Some sy, Some sd) \<Rightarrow>
          (case (field (nullable (co_str co)) None kvs [''position''],
                 field (co_str co) [] kvs [''priceType'', ''price_type''],
                 field (nullable (co_decimal co)) None kvs [''price''],
                 field (co_str co) [] kvs [''status''],
                 field (co_str co) [] kvs [''rejectReason'', ''reject_reason''],
                 field (co_str co) [] kvs [''validity'', ''validity_type'']) of
             (Some po, Some pt, Some pr, Some st, Some re, Some va) \<Rightarrow>
               (case (field (co_int co) 0 kvs [''qty'', ''vol'', ''volume''],
                      field (co_int co) 0 kvs [''matchQty'', ''matched''],
                      field (co_int co) 0 kvs [''balanceQty'', ''balance''],
                      field (co_int co) 0 kvs [''cancelQty'', ''cancelled''],
                      field (co_str co) [] kvs [''showStatus'', ''showOrderStatus'', ''status_show''],
                      entry_time_field co kvs) of
                  (Some vo, Some ma, Some ba, Some ca, Some sh, Some et) \<Rightarrow>
                    Inr \<lparr>vr_order_no = no, vr_account_no = acct, vr_ext_order_no = ext, vr_order_no_fis = fis,
                         vr_symbol = sy, vr_side = sd, vr_position = po, vr_price_type = pt, vr_price = pr,
                         vr_status = st, vr_reject_reason = re, vr_validity_type = va, vr_volume = vo,
                         vr_matched = ma, vr_balance = ba, vr_cancelled = ca, vr_status_show = sh,
                         vr_entry_time = et\<rparr>
                | _ \<Rightarrow> Inl (ValidationError ''VenueOrderRow''))
           | _ \<Rightarrow> Inl (ValidationError ''VenueOrderRow''))
      | _ \<Rightarrow> Inl (ValidationError ''VenueOrderRow''))"

definition LIST_KEYS :: "string list" where
  "LIST_KEYS = [''orders'', ''list'', ''results'', ''data'', ''portfolioList'']"

text \<open>A body that is neither a list nor an object with one under a known key has no rows.\<close>

fun first_list :: "(string \<times> json) list \<Rightarrow> string list \<Rightarrow> json list" where
  "first_list kvs [] = []"
| "first_list kvs (k # ks) = (case map_of kvs k of Some (JList xs) \<Rightarrow> xs | _ \<Rightarrow> first_list kvs ks)"

definition order_rows :: "json \<Rightarrow> (string \<times> json) list list" where
  "order_rows body =
     (case body of
        JObj kvs \<Rightarrow> json_objects (first_list kvs LIST_KEYS)
      | JList xs \<Rightarrow> json_objects xs
      | _ \<Rightarrow> [])"

definition parse_order_rows :: "sp_coercions \<Rightarrow> json \<Rightarrow> exn + VenueOrderRow list" where
  "parse_order_rows co body = map_exn (validate_row co) (order_rows body)"

section \<open>Mapping\<close>

definition quote_char :: "char \<Rightarrow> string" where
  "quote_char c =
     (let n = (of_char c :: nat)
      in if (48 \<le> n \<and> n \<le> 57) \<or> (65 \<le> n \<and> n \<le> 90) \<or> (97 \<le> n \<and> n \<le> 122) \<or> c \<in> set ''_.-~'' then [c]
         else if n = 32 then ''+''
         else CHR ''%'' # map upper_char [hex_char (n div 16), hex_char (n mod 16)])"

definition quote_plus :: "string \<Rightarrow> string" where
  "quote_plus s = concat (map quote_char s)"

definition sp_place_path :: "Market \<Rightarrow> string" where
  "sp_place_path m = (if m = SET then ''order/place/set'' else ''order/place/tfex'')"

definition sp_cancel_path :: string where
  "sp_cancel_path = ''order/cancel''"

definition sp_orders_path :: "string \<Rightarrow> Market \<Rightarrow> string" where
  "sp_orders_path acct m = ''orders?account='' @ quote_plus acct @ ''&market='' @ quote_plus (market_value m)"

definition portfolio_path :: "string \<Rightarrow> string" where
  "portfolio_path acct = ''portfolio?account='' @ quote_plus acct"

definition tfex_portfolio_path :: "string \<Rightarrow> string" where
  "tfex_portfolio_path acct = ''tfex/portfolio?account='' @ quote_plus acct"

definition account_path :: "string \<Rightarrow> string" where
  "account_path acct = ''account-info?account='' @ quote_plus acct"

definition tfex_account_path :: "string \<Rightarrow> string" where
  "tfex_account_path acct = ''tfex/account-info?account='' @ quote_plus acct"

definition wire_price :: "NormalizedOrder \<Rightarrow> string option" where
  "wire_price od = map_option format_f (case price od of Some p \<Rightarrow> Some p | None \<Rightarrow> stop_price od)"

definition with_price :: "NormalizedOrder \<Rightarrow> (string \<times> json) list \<Rightarrow> (string \<times> json) list" where
  "with_price od kvs = (case wire_price od of Some p \<Rightarrow> kvs @ [(''price'', JStr p)] | None \<Rightarrow> kvs)"

definition sp_to_set_payload :: "NormalizedOrder \<Rightarrow> json" where
  "sp_to_set_payload od =
     JObj (with_price od
       [(''symbol'', JStr (symbol od)), (''side'', JStr (side_value (side od))),
        (''volume'', JInt (quantity od)), (''account'', JStr (account od)),
        (''price_type'', JStr (order_type_value (order_type od))), (''validity'', JStr (tif_value (tif od)))])"

definition sp_to_tfex_payload :: "NormalizedOrder \<Rightarrow> exn + json" where
  "sp_to_tfex_payload od =
     (case position_effect od of
        None \<Rightarrow> Inl (StreamingProMappingError ''TFEX orders require position_effect'')
      | Some pe \<Rightarrow>
          Inr (JObj (with_price od
            [(''symbol'', JStr (symbol od)), (''side'', JStr (side_value (side od))),
             (''position'', JStr (position_effect_value pe)), (''volume'', JInt (quantity od)),
             (''account'', JStr (account od)), (''price_type'', JStr (order_type_value (order_type od))),
             (''validity'', JStr (tif_value (tif od)))])))"

definition sp_to_place_payload :: "NormalizedOrder \<Rightarrow> exn + json" where
  "sp_to_place_payload od =
     (if market od = SET then Inr (sp_to_set_payload od) else sp_to_tfex_payload od)"

definition or_empty :: "string option \<Rightarrow> string" where
  "or_empty t = (case t of Some s \<Rightarrow> s | None \<Rightarrow> [])"

definition sp_to_cancel_payload ::
  "string \<Rightarrow> Market \<Rightarrow> string \<Rightarrow> string option \<Rightarrow> string option \<Rightarrow> json" where
  "sp_to_cancel_payload order_no m acct sy ext =
     JObj ([(''order_no'', JStr order_no), (''market'', JStr (market_value m)), (''account'', JStr acct)] @
           (if m = SET then [(''ext_order_no'', JStr (or_empty ext)), (''symbol'', JStr (or_empty sy))] else []))"

subsection \<open>The read side\<close>

definition READ_SIDES :: "(string \<times> Side) list" where
  "READ_SIDES = [(''B'', BUY), (''BUY'', BUY), (''LONG'', BUY), (''S'', SELL), (''SELL'', SELL), (''SHORT'', SELL)]"

definition sp_from_venue_side :: "string \<Rightarrow> Side option" where
  "sp_from_venue_side raw = map_of READ_SIDES (upper (strip raw))"

definition SP_READ_PRICE_TYPES :: "(string \<times> OrderType) list" where
  "SP_READ_PRICE_TYPES = [(''LIMIT'', LIMIT), (''MARKET'', MARKET)]"

definition venue_row_to_normalized :: "string \<Rightarrow> Market \<Rightarrow> VenueOrderRow \<Rightarrow> NormalizedOrder option" where
  "venue_row_to_normalized acct m row =
     (case (sp_from_venue_side (vr_side row), map_of SP_READ_PRICE_TYPES (upper (strip (vr_price_type row)))) of
        (Some sd, Some ot) \<Rightarrow>
          (case mk_NormalizedOrder
                  \<lparr>client_order_id = synthetic_client_order_id ''streaming_pro'' (vr_order_no row),
                   broker = STREAMING_PRO,
                   account = (if vr_account_no row \<noteq> [] then vr_account_no row else acct),
                   market = m, symbol = vr_symbol row, side = sd, order_type = ot, price = vr_price row,
                   stop_price = None, quantity = vr_volume row, display_qty = None, tif = DAY,
                   position_effect =
                     (if m = TFEX then map_of READ_POSITIONS (upper (strip (or_empty (vr_position row)))) else None),
                   metadata = []\<rparr> of
             Inl _ \<Rightarrow> None
           | Inr od \<Rightarrow> Some od)
      | _ \<Rightarrow> None)"

text \<open>\<open>token in blob\<close>.\<close>

fun occurs_in :: "string \<Rightarrow> string \<Rightarrow> bool" where
  "occurs_in p [] = (p = [])"
| "occurs_in p (c # s) = (take (length p) (c # s) = p \<or> occurs_in p s)"

definition sp_classify_venue_state :: "VenueOrderRow \<Rightarrow> VenueOrderState" where
  "sp_classify_venue_state row =
     (let blob = upper (vr_status row @ '' '' @ vr_status_show row)
      in if strip (vr_reject_reason row) \<noteq> [] then V_REJECTED
         else if list_ex (\<lambda>t. occurs_in t blob) CANCELLED_STATUS then V_CANCELLED
         else if list_ex (\<lambda>t. occurs_in t blob) REJECTED_STATUS then V_REJECTED
         else if list_ex (\<lambda>t. occurs_in t blob) EXPIRED_STATUS then V_EXPIRED
         else if 0 < vr_cancelled row \<and> vr_balance row = 0 \<and> vr_matched row < vr_volume row then V_CANCELLED
         else V_RESTING)"

definition venue_row_to_view :: "isoformat \<Rightarrow> Market \<Rightarrow> VenueOrderRow \<Rightarrow> VenueOrderView" where
  "venue_row_to_view fmt m row =
     \<lparr>vo_order_id = vr_order_no row, vo_market = Some m, vo_symbol = vr_symbol row,
      vo_side = sp_from_venue_side (vr_side row), vo_quantity = vr_volume row, vo_price = vr_price row,
      matched_qty = vr_matched row, remaining_qty = vr_balance row, cancelled_qty = vr_cancelled row,
      vo_state = display_state (venue_state_value (sp_classify_venue_state row)) (vr_volume row)
                   (vr_matched row) (vr_balance row),
      venue_status = vr_status row, venue_status_code = vr_status_show row,
      placed_at = map_option fmt (vr_entry_time row)\<rparr>"

section \<open>Transport\<close>

definition SP_SENSITIVE_KEYS :: "string list" where
  "SP_SENSITIVE_KEYS = [''pin'', ''accountno'', ''account'', ''account_no'', ''password'', ''api_key'']"

definition sp_redact_payload :: "(string \<times> json) list \<Rightarrow> (string \<times> json) list" where
  "sp_redact_payload payload =
     map (\<lambda>(k, v). (k, if map lower_char k \<in> set SP_SENSITIVE_KEYS then JStr ''***'' else v)) payload"

record 'v sp_transport =
  st_base_url :: string
  st_client :: "'v http_client"
  st_coercions :: sp_coercions

definition sp_url :: "'v sp_transport \<Rightarrow> string \<Rightarrow> string" where
  "sp_url t path = rstrip_slash (st_base_url t) @ ''/'' @ dropWhile (\<lambda>c. c = CHR ''/'') path"

definition sp_body :: "string \<Rightarrow> http_response \<Rightarrow> exn + json" where
  "sp_body path r =
     (case r of
        (status, body) \<Rightarrow>
          if 500 \<le> status then Inl (StreamingProTransportError (''streaming_pro '' @ path @ '' upstream error''))
          else case body of
                 None \<Rightarrow> Inl (StreamingProTransportError (''streaming_pro '' @ path @ '' returned non-JSON''))
               | Some v \<Rightarrow> Inr v)"

definition sp_post :: "'v sp_transport \<Rightarrow> string \<Rightarrow> json \<Rightarrow> ('r, 'v, (string \<times> json) list) eng" where
  "sp_post t path payload =
     bindE (catchE is_http_error (on_venue (hc_post (st_client t) (sp_url t path) payload))
              (\<lambda>_. raiseE (StreamingProTransportError (''streaming_pro POST '' @ path @ '' failed'')))) (\<lambda>r.
     bindE (liftE (sp_body path r)) (\<lambda>body.
     case body of
       JObj kvs \<Rightarrow> returnE kvs
     | _ \<Rightarrow> raiseE (StreamingProTransportError (''streaming_pro POST '' @ path @ '' returned a non-object body''))))"

definition sp_get_json :: "'v sp_transport \<Rightarrow> string \<Rightarrow> ('r, 'v, json) eng" where
  "sp_get_json t path =
     bindE (catchE is_http_error (on_venue (hc_get (st_client t) (sp_url t path)))
              (\<lambda>_. raiseE (StreamingProTransportError (''streaming_pro GET '' @ path @ '' failed'')))) (\<lambda>r.
     liftE (sp_body path r))"

fun is_sp_transport_error :: "exn \<Rightarrow> bool" where
  "is_sp_transport_error (StreamingProTransportError _) = True"
| "is_sp_transport_error _ = False"

fun is_validation_error :: "exn \<Rightarrow> bool" where
  "is_validation_error (ValidationError _) = True"
| "is_validation_error _ = False"

section \<open>The adapter\<close>

type_synonym order_ref = "string \<times> Market \<times> string \<times> string"

record ('r, 'v) StreamingProAdapter =
  sa_transport :: "'v sp_transport"
  sa_resolve_order :: "(string \<Rightarrow> ('r, 'v, order_ref option) eng) option"
  sa_sleep :: "('r, 'v) pause"
  sa_isoformat :: isoformat

definition on_sp_session :: "(StreamingProSession \<Rightarrow> StreamingProSession) \<Rightarrow> ('r, 'v, unit) eng" where
  "on_sp_session f = modifyE (\<lambda>w. w\<lparr>sp_session := f (sp_session w)\<rparr>)"

definition remember_ref :: "string \<Rightarrow> order_ref \<Rightarrow> StreamingProSession \<Rightarrow> StreamingProSession" where
  "remember_ref cid ref s = s\<lparr>order_ref_cache := (order_ref_cache s)(cid := Some ref)\<rparr>"

definition sp_place :: "('r, 'v) StreamingProAdapter \<Rightarrow> NormalizedOrder \<Rightarrow> ('r, 'v, PlaceAck) eng" where
  "sp_place sa od =
     (case sp_to_place_payload od of
        Inl e \<Rightarrow> returnE (rejected_ack (exn_text e))
      | Inr payload \<Rightarrow>
          bindE (acquire_token (sa_sleep sa) STREAMING_PRO) (\<lambda>_.
          bindE (sp_post (sa_transport sa) (sp_place_path (market od)) payload) (\<lambda>body.
          bindE (liftE (validate_place (st_coercions (sa_transport sa)) body)) (\<lambda>p.
          case (bp_ok p, bp_order_no p) of
            (True, Some order_no) \<Rightarrow>
              bindE (on_sp_session (remember_ref (client_order_id od)
                       (order_no, market od, account od, symbol od))) (\<lambda>_.
              returnE (accepted_ack (Some order_no)))
          | _ \<Rightarrow> returnE (rejected_ack (bp_reject_reason p))))))"

definition sp_fetch_venue_orders ::
  "('r, 'v) StreamingProAdapter \<Rightarrow> string \<Rightarrow> Market \<Rightarrow> ('r, 'v, VenueOrderRow list) eng" where
  "sp_fetch_venue_orders sa acct m =
     bindE (sp_get_json (sa_transport sa) (sp_orders_path acct m)) (\<lambda>body.
     liftE (parse_order_rows (st_coercions (sa_transport sa)) body))"

definition ext_order_no_of :: "VenueOrderRow \<Rightarrow> string option" where
  "ext_order_no_of row =
     (if vr_ext_order_no row \<noteq> [] then Some (vr_ext_order_no row)
      else if vr_order_no_fis row \<noteq> [] then Some (vr_order_no_fis row)
      else None)"

definition lookup_ext_order_no ::
  "('r, 'v) StreamingProAdapter \<Rightarrow> string \<Rightarrow> Market \<Rightarrow> string \<Rightarrow> ('r, 'v, string option) eng" where
  "lookup_ext_order_no sa acct m order_no =
     catchE (\<lambda>e. is_sp_transport_error e \<or> is_validation_error e)
       (bindE (sp_fetch_venue_orders sa acct m) (\<lambda>rows.
        returnE (Option.bind (find (\<lambda>r. vr_order_no r = order_no) rows) ext_order_no_of)))
       (\<lambda>_. returnE None)"

definition sp_send_cancel ::
  "('r, 'v) StreamingProAdapter \<Rightarrow> json \<Rightarrow> ('r, 'v, CancelAck) eng" where
  "sp_send_cancel sa payload =
     bindE (catchE is_sp_transport_error
              (bindE (sp_post (sa_transport sa) sp_cancel_path payload) (\<lambda>body. returnE (Inr body)))
              (\<lambda>e. returnE (Inl (exn_text e)))) (\<lambda>r.
     case r of
       Inl text \<Rightarrow> returnE (cancel_failed text)
     | Inr body \<Rightarrow>
         if map_of body ''ok'' \<noteq> Some (JBool True)
         then bindE (liftE (validate_place (st_coercions (sa_transport sa)) body)) (\<lambda>p.
              returnE (cancel_failed (bp_reject_reason p)))
         else returnE \<lparr>cancel_ok = True, cancel_reason = None\<rparr>)"

definition sp_cancel :: "('r, 'v) StreamingProAdapter \<Rightarrow> string \<Rightarrow> ('r, 'v, CancelAck) eng" where
  "sp_cancel sa cid =
     bindE (getsE (\<lambda>w. order_ref_cache (sp_session w) cid)) (\<lambda>cached.
     bindE (case cached of
              Some ref \<Rightarrow> returnE (Some ref)
            | None \<Rightarrow> (case sa_resolve_order sa of Some f \<Rightarrow> f cid | None \<Rightarrow> returnE None)) (\<lambda>resolved.
     case resolved of
       None \<Rightarrow> returnE (cancel_failed ''no broker_order_id mapping for client_order_id'')
     | Some (order_no, m, acct, sy) \<Rightarrow>
         if m = SET then
           bindE (lookup_ext_order_no sa acct m order_no) (\<lambda>ext.
           if or_empty ext = []
           then returnE (cancel_failed ''SET cancel requires extOrderNo (= orderNoFis) and the venue order read returned neither for this order. Refusing to substitute a guessed identifier.'')
           else sp_send_cancel sa (sp_to_cancel_payload order_no m acct (Some sy) ext))
         else sp_send_cancel sa (sp_to_cancel_payload order_no m acct (Some sy) None)))"

definition sp_amend :: "string \<Rightarrow> decimal option \<Rightarrow> int option \<Rightarrow> ('r, 'v, AmendAck) eng" where
  "sp_amend cid new_price new_qty =
     returnE \<lparr>amend_ok = False, amend_semantics = ''cancel_replace'',
              amend_reason = Some ''streaming_pro native amend not yet captured; use the router cancel+replace orchestration with a new client_order_id''\<rparr>"

text \<open>Both fronts, SET first.\<close>

definition both_fronts :: "(Market \<Rightarrow> ('r, 'v, 'a list) eng) \<Rightarrow> ('r, 'v, 'a list) eng" where
  "both_fronts f = bindE (f SET) (\<lambda>xs. bindE (f TFEX) (\<lambda>ys. returnE (xs @ ys)))"

definition sp_get_venue_orders ::
  "('r, 'v) StreamingProAdapter \<Rightarrow> string \<Rightarrow> ('r, 'v, VenueOrderView list) eng" where
  "sp_get_venue_orders sa acct =
     both_fronts (\<lambda>m. bindE (sp_fetch_venue_orders sa acct m) (\<lambda>rows.
       returnE (map (venue_row_to_view (sa_isoformat sa) m) rows)))"

definition sp_open_view :: "string \<Rightarrow> Market \<Rightarrow> VenueOrderRow \<Rightarrow> NormalizedOrder option" where
  "sp_open_view acct m row =
     (if sp_classify_venue_state row \<noteq> V_RESTING then None
      else if vr_balance row \<le> 0 then None
      else venue_row_to_normalized acct m row)"

definition sp_get_open_orders ::
  "('r, 'v) StreamingProAdapter \<Rightarrow> string \<Rightarrow> ('r, 'v, NormalizedOrder list) eng" where
  "sp_get_open_orders sa acct =
     both_fronts (\<lambda>m. bindE (sp_fetch_venue_orders sa acct m) (\<lambda>rows.
       returnE (List.map_filter (sp_open_view acct m) rows)))"

subsection \<open>Account reads\<close>

definition sp_opt_decimal :: "(string \<times> json) list \<Rightarrow> string \<Rightarrow> exn + pydecimal option" where
  "sp_opt_decimal raw key =
     (case map_of raw key of
        Some (JInt i) \<Rightarrow> map_sum id Some (decimal_of_json (JInt i))
      | Some (JFloat r) \<Rightarrow> map_sum id Some (decimal_of_json (JFloat r))
      | Some (JStr t) \<Rightarrow> map_sum id Some (decimal_of_json (JStr t))
      | _ \<Rightarrow> Inr None)"

text \<open>
  \<open>int(float(text))\<close>: the double nearest to the number, half to even, cut off at the point. A
  value that is not a number is None, an infinite one raises \<open>OverflowError\<close>.
\<close>

fun bit_len :: "nat \<Rightarrow> nat" where
  "bit_len n = (if n = 0 then 0 else Suc (bit_len (n div 2)))"

declare bit_len.simps [simp del]

definition trunc_double :: "nat \<Rightarrow> nat \<Rightarrow> nat" where
  "trunc_double a b =
     (let m = bit_len (a div b)
      in if m \<le> 53 then div_half_even (a * 2 ^ (53 - m)) b div 2 ^ (53 - m)
         else div_half_even a (b * 2 ^ (m - 53)) * 2 ^ (m - 53))"

definition int_of_float :: "string \<Rightarrow> exn + int option" where
  "int_of_float text =
     (case parse_decimal text of
        Some (Finite d) \<Rightarrow>
          let a = nat \<bar>dcoeff d\<bar>;
              n = (if 0 \<le> dexp d then trunc_double (a * 10 ^ nat (dexp d)) 1 else trunc_double a (10 ^ nat (- dexp d)))
          in if 2 ^ 1024 \<le> n then Inl (OtherError ''OverflowError'')
             else Inr (Some (sgn (dcoeff d) * int n))
      | Some (Infinity _) \<Rightarrow> Inl (OtherError ''OverflowError'')
      | _ \<Rightarrow> Inr None)"

definition coerce_int :: "json option \<Rightarrow> exn + int option" where
  "coerce_int v =
     (case v of
        Some (JInt i) \<Rightarrow> Inr (Some i)
      | Some (JStr t) \<Rightarrow> int_of_float t
      | Some (JFloat r) \<Rightarrow> int_of_float r
      | _ \<Rightarrow> Inr None)"

definition sp_money :: "(string \<times> json) list \<Rightarrow> string list \<Rightarrow> exn + decimal option list" where
  "sp_money raw keys =
     (case map_exn (sp_opt_decimal raw) keys of
        Inl e \<Rightarrow> Inl e
      | Inr ds \<Rightarrow> map_exn finite_field ds)"

definition sp_position :: "string \<Rightarrow> (string \<times> json) list \<Rightarrow> exn + Position option" where
  "sp_position acct raw =
     (case coerce_int (case map_of raw ''currentVolume'' of Some v \<Rightarrow> Some v | None \<Rightarrow> map_of raw ''actualVolume'') of
        Inl e \<Rightarrow> Inl e
      | Inr q \<Rightarrow>
          (case (map_of raw ''symbol'', q) of
             (Some (JStr sy), Some qty) \<Rightarrow>
               if qty = 0 then Inr None
               else map_sum id
                 (\<lambda>ds. Some \<lparr>pos_account = acct, pos_market = SET, pos_symbol = sy, net_qty = qty, pos_side = None,
                             cost_amount = ds ! 0, avg_price = ds ! 1, market_price = ds ! 2,
                             market_val = ds ! 3, unrealized_pl = None\<rparr>)
                 (sp_money raw [''amount'', ''averagePrice'', ''marketPrice'', ''marketValue''])
           | _ \<Rightarrow> Inr None))"

definition sp_set_positions :: "string \<Rightarrow> json \<Rightarrow> exn + Position list" where
  "sp_set_positions acct body =
     (case (case body of JObj kvs \<Rightarrow> map_of kvs ''positions'' | _ \<Rightarrow> None) of
        Some (JList rows) \<Rightarrow>
          map_sum id (List.map_filter id) (map_exn (sp_position acct) (json_objects rows))
      | _ \<Rightarrow> Inl (StreamingProTransportError ''streaming_pro portfolio: response carried no positions array''))"

text \<open>The derivatives front decides: None where it refused the account and the SET front is asked.\<close>

definition sp_tfex_positions :: "json \<Rightarrow> (exn + Position list) option" where
  "sp_tfex_positions body =
     (case (case body of JObj kvs \<Rightarrow> map_of kvs ''raw'' | _ \<Rightarrow> None) of
        Some (JObj raw) \<Rightarrow>
          if map_of raw ''code'' \<noteq> None then None
          else Some (case map_of raw ''portfolioList'' of
                 Some (JList []) \<Rightarrow> Inr []
               | Some (JList _) \<Rightarrow> Inl (Rejected StreamingProPositionsUncaptured None)
               | _ \<Rightarrow> Inl (StreamingProTransportError ''streaming_pro tfex/portfolio: raw carried no portfolioList array''))
      | _ \<Rightarrow> None)"

definition sp_get_positions ::
  "('r, 'v) StreamingProAdapter \<Rightarrow> string \<Rightarrow> ('r, 'v, Position list) eng" where
  "sp_get_positions sa acct =
     bindE (sp_get_json (sa_transport sa) (tfex_portfolio_path acct)) (\<lambda>tfex_body.
     case sp_tfex_positions tfex_body of
       Some answer \<Rightarrow> liftE answer
     | None \<Rightarrow>
         bindE (sp_get_json (sa_transport sa) (portfolio_path acct)) (\<lambda>body.
         liftE (sp_set_positions acct body)))"

definition sp_set_account :: "string \<Rightarrow> (string \<times> json) list \<Rightarrow> exn + AccountInfo" where
  "sp_set_account acct kvs =
     (case sp_money kvs [''lineAvailable'', ''cashBalance'', ''creditLimit''] of
        Inl e \<Rightarrow> Inl e
      | Inr ds \<Rightarrow>
          margin_block_belongs_to_derivatives
            \<lparr>ai_account = acct, account_type = CASH, buying_power = the (ds ! 0), cash_balance = ds ! 1,
             credit_limit = ds ! 2, withdrawable = None, equity = None, excess_equity = None,
             initial_margin = None, maintenance_margin = None\<rparr>)"

definition sp_tfex_account :: "string \<Rightarrow> (string \<times> json) list \<Rightarrow> exn + AccountInfo" where
  "sp_tfex_account acct kvs =
     (case sp_money kvs [''excessEquity'', ''cashBalance'', ''creditLine'', ''equity'', ''totalMR'', ''totalMM''] of
        Inl e \<Rightarrow> Inl e
      | Inr ds \<Rightarrow>
          margin_block_belongs_to_derivatives
            \<lparr>ai_account = acct, account_type = DERIVATIVE, buying_power = the (ds ! 0), cash_balance = ds ! 1,
             credit_limit = ds ! 2, withdrawable = None, equity = ds ! 3, excess_equity = ds ! 0,
             initial_margin = ds ! 4, maintenance_margin = ds ! 5\<rparr>)"

definition sp_front :: "json \<Rightarrow> string \<Rightarrow> exn + (string \<times> json) list option" where
  "sp_front body key =
     (case body of
        JObj kvs \<Rightarrow> map_sum id (\<lambda>d. if d = None then None else Some kvs) (sp_opt_decimal kvs key)
      | _ \<Rightarrow> Inr None)"

definition sp_get_account ::
  "('r, 'v) StreamingProAdapter \<Rightarrow> string \<Rightarrow> ('r, 'v, AccountInfo) eng" where
  "sp_get_account sa acct =
     bindE (sp_get_json (sa_transport sa) (account_path acct)) (\<lambda>set_body.
     bindE (liftE (sp_front set_body ''lineAvailable'')) (\<lambda>set_front.
     case set_front of
       Some kvs \<Rightarrow> liftE (sp_set_account acct kvs)
     | None \<Rightarrow>
         bindE (sp_get_json (sa_transport sa) (tfex_account_path acct)) (\<lambda>tfex_body.
         bindE (liftE (sp_front tfex_body ''excessEquity'')) (\<lambda>tfex_front.
         case tfex_front of
           Some kvs \<Rightarrow> liftE (sp_tfex_account acct kvs)
         | None \<Rightarrow> raiseE (Rejected StreamingProAccountUnavailable None)))))"

subsection \<open>Heartbeat\<close>

definition sp_alive :: "json \<Rightarrow> bool" where
  "sp_alive body =
     (case body of
        JObj kvs \<Rightarrow> truthy (map_of kvs ''alive'') \<or> map_of kvs ''status'' = Some (JStr ''alive'')
      | _ \<Rightarrow> False)"

definition sp_heartbeat :: "('r, 'v) StreamingProAdapter \<Rightarrow> ('r, 'v, bool) eng" where
  "sp_heartbeat sa =
     bindE (catchE is_sp_transport_error
              (bindE (sp_get_json (sa_transport sa) ''session/status'') (\<lambda>body. returnE (sp_alive body)))
              (\<lambda>_. returnE False)) (\<lambda>ok.
     bindE (on_sp_session (\<lambda>s. s\<lparr>sp_heartbeat_ok := Some ok\<rparr>)) (\<lambda>_.
     returnE ok))"

section \<open>The adapter as the router sees it\<close>

definition streaming_pro_adapter :: "('r, 'v) StreamingProAdapter \<Rightarrow> ('r, 'v) BrokerAdapter" where
  "streaming_pro_adapter sa =
     \<lparr>ad_broker = STREAMING_PRO, ad_breaker = (\<lambda>w. breakers w STREAMING_PRO), ad_place = sp_place sa,
      ad_cancel = sp_cancel sa, ad_amend = sp_amend, ad_get_open_orders = sp_get_open_orders sa,
      ad_get_positions = sp_get_positions sa, ad_get_venue_orders = sp_get_venue_orders sa,
      ad_get_account = sp_get_account sa\<rparr>"

definition streaming_pro_ok :: "('r, 'v) StreamingProAdapter \<Rightarrow> bool" where
  "streaming_pro_ok sa \<longleftrightarrow>
     (\<forall>f cid. sa_resolve_order sa = Some f \<longrightarrow> effect same_store any (f cid)) \<and>
     (\<forall>d w. evolves w (sa_sleep sa d w))"

lemma sp_post_frame: "effect same_store any (sp_post t path payload)"
  unfolding sp_post_def
  by (auto intro!: frame.effect_seq frame.effect_catch frame.effect_raise frame.effect_lift_any frame.effect_return
      on_venue_frame split: json.split)

lemma sp_get_json_frame: "effect same_store any (sp_get_json t path)"
  unfolding sp_get_json_def
  by (intro frame.effect_seq frame.effect_catch frame.effect_raise frame.effect_lift_any on_venue_frame)

lemma sp_fetch_frame: "effect same_store any (sp_fetch_venue_orders sa acct m)"
  unfolding sp_fetch_venue_orders_def
  by (intro frame.effect_seq sp_get_json_frame frame.effect_lift_any)

lemma on_sp_session_frame: "effect same_store any (on_sp_session f)"
  by (simp add: effect_def on_sp_session_def same_store_def)

lemma sp_send_cancel_frame: "effect same_store any (sp_send_cancel sa payload)"
  unfolding sp_send_cancel_def
  by (auto intro!: frame.effect_seq frame.effect_catch frame.effect_return frame.effect_if frame.effect_lift_any
      sp_post_frame split: sum.split)

lemma lookup_frame: "effect same_store any (lookup_ext_order_no sa acct m order_no)"
  unfolding lookup_ext_order_no_def
  by (intro frame.effect_seq frame.effect_catch frame.effect_return sp_fetch_frame) simp_all

lemma sp_cancel_frame:
  assumes "streaming_pro_ok sa"
  shows "effect same_store any (sp_cancel sa cid)"
proof -
  have f: "sa_resolve_order sa = Some f \<Longrightarrow> effect same_store any (f cid)" for f
    using assms by (simp add: streaming_pro_ok_def)
  have resolve: "effect same_store any (case cached of
              Some ref \<Rightarrow> returnE (Some ref)
            | None \<Rightarrow> (case sa_resolve_order sa of Some f \<Rightarrow> f cid | None \<Rightarrow> returnE None))" for cached
    by (cases cached; cases "sa_resolve_order sa") (auto intro: f frame.effect_return)
  show ?thesis
    unfolding sp_cancel_def
    by (rule frame.effect_seq [OF frame.effect_gets_any], rule frame.effect_seq [OF resolve])
      (auto intro!: frame.effect_option frame.effect_seq frame.effect_return frame.effect_if
        lookup_frame sp_send_cancel_frame split: prod.split)
qed

lemma sp_place_evolves:
  assumes "streaming_pro_ok sa"
  shows "effect evolves any (sp_place sa od)"
proof -
  note sleep = acquire_token_evolves [of "sa_sleep sa" STREAMING_PRO]
  show ?thesis
    using assms unfolding sp_place_def streaming_pro_ok_def
    by (auto intro!: store.effect_return store.effect_seq sleep store.effect_lift_any
        frame_evolves [OF sp_post_frame] frame_evolves [OF on_sp_session_frame] split: sum.split bool.split option.split)
qed

lemma streaming_pro_is_adapter:
  assumes "streaming_pro_ok sa"
  shows "broker_adapter (streaming_pro_adapter sa)"
  by unfold_locales
    (use assms in \<open>auto simp: streaming_pro_adapter_def sp_amend_def sp_place_evolves sp_cancel_frame frame.effect_return\<close>)

section \<open>Cancelling a SET order\<close>

text \<open>
  C24. A SET cancel never carries a guessed identifier. When the cached reference is a SET
  order, a request is sent only after the venue's own list has been read, and only with the
  non-empty external number that list gives for this very order number; in every other case the
  answer is a refusal, or the exception of the read, and the venue has seen nothing but the read.
\<close>

theorem sp_set_cancel_identified:
  assumes "order_ref_cache (sp_session w) cid = Some (order_no, SET, acct, sy)"
    and "sp_fetch_venue_orders sa acct SET w = (got, w1)"
  shows "(\<exists>rows row ext. got = Inr rows \<and> row \<in> set rows \<and> vr_order_no row = order_no \<and>
      ext_order_no_of row = Some ext \<and> ext \<noteq> [] \<and>
      sp_cancel sa cid w = sp_send_cancel sa (sp_to_cancel_payload order_no SET acct (Some sy) (Some ext)) w1) \<or>
    (\<exists>reason. sp_cancel sa cid w = (Inr (cancel_failed reason), w1)) \<or>
    (\<exists>e. got = Inl e \<and> sp_cancel sa cid w = (Inl e, w1))"
proof (cases got)
  case (Inl e)
  with assms show ?thesis
    by (cases "is_sp_transport_error e \<or> is_validation_error e")
      (auto simp: sp_cancel_def lookup_ext_order_no_def bindE_def catchE_def or_empty_def)
next
  case (Inr rows)
  let ?ext = "Option.bind (find (\<lambda>r. vr_order_no r = order_no) rows) ext_order_no_of"
  have run: "sp_cancel sa cid w =
      (if or_empty ?ext = []
       then (Inr (cancel_failed ''SET cancel requires extOrderNo (= orderNoFis) and the venue order read returned neither for this order. Refusing to substitute a guessed identifier.''), w1)
       else sp_send_cancel sa (sp_to_cancel_payload order_no SET acct (Some sy) ?ext) w1)"
    using assms Inr by (simp add: sp_cancel_def lookup_ext_order_no_def bindE_def catchE_def)
  show ?thesis
  proof (cases "or_empty ?ext = []")
    case True
    with run show ?thesis by auto
  next
    case False
    then obtain row ext where "find (\<lambda>r. vr_order_no r = order_no) rows = Some row" "ext_order_no_of row = Some ext"
      "ext \<noteq> []" "?ext = Some ext"
      by (auto simp: or_empty_def bind_eq_Some_conv split: option.splits)
    moreover from this(1) have "row \<in> set rows" "vr_order_no row = order_no" by (auto simp: find_Some_iff)
    ultimately show ?thesis using run False Inr by metis
  qed
qed

text \<open>A bridge with one answer for every read and one for every request, for the examples.\<close>

definition demo_coercions :: sp_coercions where
  "demo_coercions =
     \<lparr>co_bool = (\<lambda>v. case v of JBool b \<Rightarrow> Some b | _ \<Rightarrow> None),
      co_str = (\<lambda>v. case v of JStr t \<Rightarrow> Some t | _ \<Rightarrow> None),
      co_int = (\<lambda>v. case v of JInt i \<Rightarrow> Some i | _ \<Rightarrow> None),
      co_decimal = (\<lambda>v. case parse_decimal (py_str v) of Some (Finite d) \<Rightarrow> Some d | _ \<Rightarrow> None),
      co_datetime = (\<lambda>_. None), co_strptime = (\<lambda>_. None),
      co_fromisoformat = (\<lambda>t. if t = ''2026-06-16T14:24:30'' then Some (Naive 1781619870000000) else None)\<rparr>"

definition demo_sp :: "http_response \<Rightarrow> http_response \<Rightarrow> ('r, 'v) StreamingProAdapter" where
  "demo_sp read answer =
     \<lparr>sa_transport =
        \<lparr>st_base_url = ''http://bridge'',
         st_client = \<lparr>hc_get = (\<lambda>_ v. (Inr read, v)), hc_post = (\<lambda>_ _ v. (Inr answer, v))\<rparr>,
         st_coercions = demo_coercions\<rparr>,
      sa_resolve_order = None, sa_sleep = demo_pause, sa_isoformat = (\<lambda>_. [])\<rparr>"

lemma demo_sp_fetch:
  "sp_fetch_venue_orders (demo_sp (200, Some body) answer) acct m w = (parse_order_rows demo_coercions body, w)"
  by (simp add: sp_fetch_venue_orders_def sp_get_json_def demo_sp_def on_venue_def bindE_def catchE_def liftE_def
      sp_body_def)

definition demo_set_book :: json where
  "demo_set_book = JObj [(''orders'', JList [JObj [(''orderNo'', JStr ''N1''), (''orderNoFis'', JStr ''F1'')]])]"

definition demo_set_row :: VenueOrderRow where
  "demo_set_row =
     \<lparr>vr_order_no = ''N1'', vr_account_no = [], vr_ext_order_no = [], vr_order_no_fis = ''F1'', vr_symbol = [],
      vr_side = [], vr_position = None, vr_price_type = [], vr_price = None, vr_status = [], vr_reject_reason = [],
      vr_validity_type = [], vr_volume = 0, vr_matched = 0, vr_balance = 0, vr_cancelled = 0, vr_status_show = [],
      vr_entry_time = None\<rparr>"

definition demo_sp_world :: "(unit, unit) world" where
  "demo_sp_world =
     (demo_world [] [])\<lparr>sp_session := remember_ref ''c'' (''N1'', SET, ''A'', ''PTT'') new_streaming_pro_session\<rparr>"

theorem sp_set_cancel_identified_witness:
  "sp_cancel (demo_sp (200, Some demo_set_book) (200, Some (JObj [(''ok'', JBool True)]))) ''c'' demo_sp_world =
     sp_send_cancel (demo_sp (200, Some demo_set_book) (200, Some (JObj [(''ok'', JBool True)])))
       (sp_to_cancel_payload ''N1'' SET ''A'' (Some ''PTT'') (Some ''F1'')) demo_sp_world"
proof -
  let ?sa = "demo_sp (200, Some demo_set_book) (200, Some (JObj [(''ok'', JBool True)]))"
  have ref: "order_ref_cache (sp_session demo_sp_world) ''c'' = Some (''N1'', SET, ''A'', ''PTT'')"
    by (simp add: remember_ref_def demo_sp_world_def)
  have "parse_order_rows demo_coercions demo_set_book = Inr [demo_set_row]" by code_simp
  then have got: "sp_fetch_venue_orders ?sa ''A'' SET demo_sp_world = (Inr [demo_set_row], demo_sp_world)"
    by (simp add: demo_sp_fetch)
  have "fst (sp_cancel ?sa ''c'' demo_sp_world) = Inr \<lparr>cancel_ok = True, cancel_reason = None\<rparr>" by code_simp
  then have "sp_cancel ?sa ''c'' demo_sp_world \<noteq> (Inr (cancel_failed reason), demo_sp_world)" for reason
    by (auto simp: cancel_failed_def)
  then show ?thesis
    using sp_set_cancel_identified [OF ref got] by (auto simp: demo_set_row_def ext_order_no_of_def)
qed

section \<open>Where the code falls short of its comments\<close>

text \<open>
  An accepted order whose answer carries no number is reported as refused, with the venue's
  status word as the reason: the router then writes a terminal rejection for an order the venue
  has taken.
\<close>

lemma accepted_without_number_is_refused:
  "fst (sp_place (demo_sp (200, None) (200, Some (JObj [(''ok'', JBool True), (''status'', JStr ''Pending'')])))
          (demo_order demo_uuid 100 (Dec 10 0)) (demo_world [] [])) = Inr (rejected_ack ''Pending'')"
  by code_simp

text \<open>
  Any object without a list in it is an empty book, the body of a refused read included: the
  transport hands a 401 or 403 through as an object with a \<open>detail\<close>.
\<close>

lemma refused_read_is_an_empty_book:
  "fst (sp_fetch_venue_orders (demo_sp (401, Some (JObj [(''detail'', JStr ''invalid API key'')])) (200, None))
          ''A'' SET (demo_world [] [])) = Inr []"
  by code_simp

text \<open>A local ISO time is left without an offset.\<close>

lemma iso_time_stays_naive:
  "compose_entry_time demo_coercions [(''entryTime'', JStr ''2026-06-16T14:24:30'')] = Some (Naive 1781619870000000)"
  by code_simp

end
