(* ===== verification/Reconcile.thy ===== *)
theory Reconcile
  imports VenueWire OrderStanding
begin

text \<open>
  What the reconcilers of the two broker packages have in common, line for line: the actions
  and their execution through the repository functions, the lost-ack match, and the plan for
  an order whose venue row was found. The venue's row enters through the fields the code
  reads.
\<close>

section \<open>Actions\<close>

text \<open>\<open>ReconcileAction\<close>, its \<open>kind\<close> as the constructor with the fields that kind sets.\<close>

datatype ReconcileAction =
    Ack string string
  | Fill string int decimal string int
  | Cancel_two_step string
  | Cancel_confirm string
  | Expire string
  | Reject string string
  | Post_ack_reject string string

definition or_default :: "string \<Rightarrow> string" where
  "or_default reason = (if reason = [] then ''rejected at venue'' else reason)"

fun execute :: "db_env \<Rightarrow> ReconcileAction \<Rightarrow> ('r, 'v, unit) eng" where
  "execute db (Ack cid order_no) = ack_order db cid order_no"
| "execute db (Fill cid qty p fid tot) =
     bindE (getsE clock) (\<lambda>now.
     bindE (apply_fill db cid fid p qty now tot) (\<lambda>_. returnE ()))"
| "execute db (Cancel_two_step cid) =
     bindE (update_status db cid PENDING_CANCEL) (\<lambda>_. update_status db cid CANCELLED)"
| "execute db (Cancel_confirm cid) = update_status db cid CANCELLED"
| "execute db (Expire cid) = update_status db cid EXPIRED"
| "execute db (Reject cid reason) =
     bindE (update_status db cid REJECTED) (\<lambda>_. set_reject_reason db cid (or_default reason))"
| "execute db (Post_ack_reject cid reason) =
     bindE (set_reject_reason db cid (or_default reason)) (\<lambda>_.
     bindE (update_status db cid PENDING_CANCEL) (\<lambda>_. update_status db cid CANCELLED))"

text \<open>Every action is tried, one that raises is logged and not counted.\<close>

fun execute_all :: "db_env \<Rightarrow> ReconcileAction list \<Rightarrow> ('r, 'v, nat) eng" where
  "execute_all db [] = returnE 0"
| "execute_all db (a # rest) =
     bindE (catchE (\<lambda>_. True) (bindE (execute db a) (\<lambda>_. returnE (1 :: nat))) (\<lambda>_. returnE 0)) (\<lambda>n.
     bindE (execute_all db rest) (\<lambda>m.
     returnE (n + m)))"

section \<open>The lost-ack match\<close>

definition has_price :: "decimal option \<Rightarrow> bool" where
  "has_price v = (case v of Some p \<Rightarrow> dec_pos p | None \<Rightarrow> False)"

definition price_differs :: "decimal option \<Rightarrow> decimal option \<Rightarrow> bool" where
  "price_differs a b =
     (case (a, b) of (Some p, Some q) \<Rightarrow> \<not> dec_eq p q | _ \<Rightarrow> a \<noteq> b)"

definition FUZZY_WINDOW :: int where
  "FUZZY_WINDOW = 5000000"

definition STUCK_PENDING :: int where
  "STUCK_PENDING = 5000000"

definition ACK_LOST_TIMEOUT :: int where
  "ACK_LOST_TIMEOUT = 60000000"

text \<open>What a venue row is compared by.\<close>

record venue_key =
  vk_order_no :: string
  vk_symbol :: string
  vk_volume :: int
  vk_side :: "Side option"
  vk_price :: "decimal option"
  vk_entry_time :: "pydatetime option"

text \<open>The body of the loop for one venue row: is it a candidate for the local order?\<close>

definition resembles :: "OrderRow \<Rightarrow> string set \<Rightarrow> venue_key \<Rightarrow> exn + bool" where
  "resembles row claimed k =
     (if vk_order_no k \<in> claimed then Inr False
      else if vk_symbol k \<noteq> r_symbol row \<or> vk_volume k \<noteq> r_quantity row then Inr False
      else if vk_side k \<noteq> Some (r_side row) then Inr False
      else if has_price (vk_price k) \<and> has_price (r_price row) \<and> price_differs (vk_price k) (r_price row)
      then Inr False
      else case vk_entry_time k of
        None \<Rightarrow> Inr False
      | Some t \<Rightarrow> map_sum id (\<lambda>skew. \<bar>skew\<bar> \<le> FUZZY_WINDOW) (minus_aware t (r_created_at row)))"

fun candidates :: "('i \<Rightarrow> exn + bool) \<Rightarrow> 'i list \<Rightarrow> exn + 'i list" where
  "candidates p [] = Inr []"
| "candidates p (x # xs) =
     (case p x of
        Inl e \<Rightarrow> Inl e
      | Inr b \<Rightarrow> map_sum id (\<lambda>ys. if b then x # ys else ys) (candidates p xs))"

record 'i MatchOutcome =
  mo_item :: "'i option"
  candidate_count :: nat

definition ambiguous :: "'i MatchOutcome \<Rightarrow> bool" where
  "ambiguous m \<longleftrightarrow> mo_item m = None \<and> 1 < candidate_count m"

definition fuzzy_match ::
  "('i \<Rightarrow> venue_key) \<Rightarrow> OrderRow \<Rightarrow> 'i list \<Rightarrow> string set \<Rightarrow> exn + 'i MatchOutcome" where
  "fuzzy_match key row items claimed =
     (case candidates (\<lambda>i. resembles row claimed (key i)) items of
        Inl e \<Rightarrow> Inl e
      | Inr cs \<Rightarrow>
          Inr (case cs of
                 [i] \<Rightarrow> \<lparr>mo_item = Some i, candidate_count = 1\<rparr>
               | _ \<Rightarrow> \<lparr>mo_item = None, candidate_count = length cs\<rparr>))"

section \<open>The plan for an order whose venue row is known\<close>

definition terminal_actions :: "OrderRow \<Rightarrow> VenueOrderState \<Rightarrow> string \<Rightarrow> ReconcileAction list" where
  "terminal_actions row st reason =
     (let cid = r_client_order_id row
      in case st of
           V_CANCELLED \<Rightarrow> [Cancel_two_step cid]
         | V_EXPIRED \<Rightarrow> [Expire cid]
         | V_REJECTED \<Rightarrow>
             if r_status row = PENDING_NEW then [Reject cid reason] else [Post_ack_reject cid reason]
         | V_RESTING \<Rightarrow> [])"

fun first_is_reject :: "ReconcileAction list \<Rightarrow> bool" where
  "first_is_reject (Reject _ _ # _) = True"
| "first_is_reject _ = False"

definition venue_fill_id :: "string \<Rightarrow> int \<Rightarrow> string" where
  "venue_fill_id order_no matched = order_no @ '':'' @ int_str matched"

text \<open>
  \<open>order_no\<close>, \<open>matched\<close>, \<open>st\<close> and \<open>reason\<close> are read from the venue row; \<open>pr\<close> is what
  \<open>fill_price_for\<close> yields or raises, asked for when there is a fill to record.
\<close>

definition plan_present ::
  "OrderRow \<Rightarrow> int \<Rightarrow> string \<Rightarrow> int \<Rightarrow> VenueOrderState \<Rightarrow> string \<Rightarrow> exn + decimal option \<Rightarrow>
   exn + ReconcileAction list" where
  "plan_present row filled order_no matched st reason pr =
     (let cid = r_client_order_id row; terminal = terminal_actions row st reason
      in if r_status row = PENDING_NEW \<and> first_is_reject terminal then Inr terminal
         else if r_status row = PENDING_CANCEL
         then Inr (if st \<in> {V_CANCELLED, V_EXPIRED} then [Cancel_confirm cid] else [])
         else
           let acks = (if r_status row = PENDING_NEW then [Ack cid order_no] else []);
               delta = matched - filled;
               closing = (if matched < r_quantity row then terminal else [])
           in if 0 < delta
              then map_sum id
                     (\<lambda>p. case p of
                        None \<Rightarrow> acks @ closing
                      | Some d \<Rightarrow>
                          acks @ Fill cid delta d (venue_fill_id order_no matched) (r_quantity row) # closing) pr
              else Inr (acks @ closing))"

section \<open>One row against one snapshot of the venue\<close>

text \<open>
  \<open>plan\<close> is the package's \<open>plan_actions\<close>: the local row, what is recorded as filled, the venue
  row where there is one, the time, and whether the match was ambiguous.
\<close>

type_synonym 'i planner = "OrderRow \<Rightarrow> int \<Rightarrow> 'i option \<Rightarrow> timestamp \<Rightarrow> bool \<Rightarrow> exn + ReconcileAction list"

text \<open>\<open>{item.order_no: item for item in items}.get(order_no)\<close>: the last of several wins.\<close>

definition index_get :: "('i \<Rightarrow> venue_key) \<Rightarrow> 'i list \<Rightarrow> string \<Rightarrow> 'i option" where
  "index_get key items order_no = find (\<lambda>i. vk_order_no (key i) = order_no) (rev items)"

definition by_handle :: "('i \<Rightarrow> venue_key) \<Rightarrow> 'i list \<Rightarrow> OrderRow \<Rightarrow> 'i option" where
  "by_handle key items row =
     (case r_broker_order_id row of
        Some h \<Rightarrow> if h = [] then None else index_get key items h
      | None \<Rightarrow> None)"

text \<open>The venue row, whether the match was ambiguous, and the venue orders taken so far.\<close>

definition match_row ::
  "('i \<Rightarrow> venue_key) \<Rightarrow> OrderRow \<Rightarrow> 'i list \<Rightarrow> string set \<Rightarrow> timestamp \<Rightarrow> bool \<Rightarrow>
   exn + 'i option \<times> bool \<times> string set" where
  "match_row key row items claimed now require_stuck =
     (case by_handle key items row of
        Some i \<Rightarrow> Inr (Some i, False, claimed)
      | None \<Rightarrow>
          if r_status row = PENDING_NEW \<and> (STUCK_PENDING < now - r_created_at row \<or> \<not> require_stuck)
          then (case fuzzy_match key row items claimed of
                  Inl e \<Rightarrow> Inl e
                | Inr m \<Rightarrow>
                    Inr (mo_item m, ambiguous m,
                         case mo_item m of Some i \<Rightarrow> insert (vk_order_no (key i)) claimed | None \<Rightarrow> claimed))
          else Inr (None, False, claimed))"

definition apply_row ::
  "db_env \<Rightarrow> ('i \<Rightarrow> venue_key) \<Rightarrow> 'i planner \<Rightarrow> OrderRow \<Rightarrow> 'i list \<Rightarrow> string set \<Rightarrow> timestamp \<Rightarrow> bool \<Rightarrow>
   ('r, 'v, nat \<times> string set) eng" where
  "apply_row db key plan row items claimed now require_stuck =
     bindE (liftE (match_row key row items claimed now require_stuck)) (\<lambda>(item, amb, claimed').
     bindE (fetch_order_result (r_client_order_id row)) (\<lambda>result.
     bindE (liftE (plan row (case result of Some r \<Rightarrow> filled_qty r | None \<Rightarrow> 0) item now amb)) (\<lambda>actions.
     bindE (execute_all db actions) (\<lambda>n.
     returnE (n, claimed')))))"

fun apply_rows ::
  "db_env \<Rightarrow> ('i \<Rightarrow> venue_key) \<Rightarrow> 'i planner \<Rightarrow> OrderRow list \<Rightarrow> 'i list \<Rightarrow> string set \<Rightarrow> timestamp \<Rightarrow>
   ('r, 'v, nat) eng" where
  "apply_rows db key plan [] items claimed now = returnE 0"
| "apply_rows db key plan (row # rows) items claimed now =
     bindE (apply_row db key plan row items claimed now True) (\<lambda>(n, claimed').
     bindE (apply_rows db key plan rows items claimed' now) (\<lambda>m.
     returnE (n + m)))"

section \<open>A pass\<close>

text \<open>The keys in the order a \<open>dict\<close> first sees them, each with its rows in order.\<close>

fun first_seen :: "'k list \<Rightarrow> 'k list" where
  "first_seen [] = []"
| "first_seen (k # ks) = k # filter (\<lambda>j. j \<noteq> k) (first_seen ks)"

definition group_rows :: "(OrderRow \<Rightarrow> 'k) \<Rightarrow> OrderRow list \<Rightarrow> ('k \<times> OrderRow list) list" where
  "group_rows k rows = map (\<lambda>g. (g, filter (\<lambda>r. k r = g) rows)) (first_seen (map k rows))"

definition handles :: "OrderRow list \<Rightarrow> string set" where
  "handles rows = set (List.map_filter r_broker_order_id rows)"

text \<open>
  The groups one after the other. A group whose venue list cannot be read (\<open>skip\<close> is the
  package's transport error) is passed over; any other exception ends the pass.
\<close>

fun reconcile_groups ::
  "db_env \<Rightarrow> ('i \<Rightarrow> venue_key) \<Rightarrow> 'i planner \<Rightarrow> (exn \<Rightarrow> bool) \<Rightarrow> ('k \<Rightarrow> ('r, 'v, 'i list) eng) \<Rightarrow>
   timestamp \<Rightarrow> ('k \<times> OrderRow list) list \<Rightarrow> ('r, 'v, nat) eng" where
  "reconcile_groups db key plan skip fetch now [] = returnE 0"
| "reconcile_groups db key plan skip fetch now ((g, rows) # groups) =
     bindE (catchE skip (bindE (fetch g) (\<lambda>items. returnE (Some items))) (\<lambda>_. returnE None)) (\<lambda>got.
     bindE (case got of
              None \<Rightarrow> returnE 0
            | Some items \<Rightarrow> apply_rows db key plan rows items (handles rows) now) (\<lambda>n.
     bindE (reconcile_groups db key plan skip fetch now groups) (\<lambda>m.
     returnE (n + m))))"

section \<open>The heartbeat\<close>

text \<open>
  \<open>heartbeat_pass\<close>: one probe feeds the breaker of the broker, and the step into the open
  state fires the hook, whose failure is swallowed.
\<close>

definition feed_breaker :: "Broker \<Rightarrow> (SessionCircuitBreaker \<Rightarrow> SessionCircuitBreaker) \<Rightarrow> ('r, 'v, unit) eng" where
  "feed_breaker b f = modifyE (\<lambda>w. w\<lparr>breakers := (breakers w)(b := f (breakers w b))\<rparr>)"

definition heartbeat_pass :: "Broker \<Rightarrow> ('r, 'v, bool) eng \<Rightarrow> ('r, 'v, unit) eng \<Rightarrow> ('r, 'v, bool) eng" where
  "heartbeat_pass b probe on_trip =
     bindE (getsE (\<lambda>w. breaker_state (breakers w b) = Open)) (\<lambda>was_open.
     bindE probe (\<lambda>ok.
     if ok then bindE (feed_breaker b record_success) (\<lambda>_. returnE True)
     else
       bindE (feed_breaker b record_failure) (\<lambda>_.
       bindE (getsE (\<lambda>w. breaker_state (breakers w b) = Open)) (\<lambda>is_open.
       bindE (if is_open \<and> \<not> was_open then catchE (\<lambda>_. True) on_trip (\<lambda>_. returnE ()) else returnE ()) (\<lambda>_.
       returnE False)))))"

section \<open>Effects\<close>

lemma execute_evolves: "guard_frozen db \<Longrightarrow> effect evolves any (execute db a)"
  by (cases a)
    (auto intro!: store.effect_seq store.effect_gets_any store.effect_return evolves_apply_fill store_effects)

lemma execute_all_evolves: "guard_frozen db \<Longrightarrow> effect evolves any (execute_all db actions)"
proof (induction actions)
  case Nil
  show ?case unfolding execute_all.simps by (rule store.effect_return) simp
next
  case (Cons a rest)
  then show ?case unfolding execute_all.simps
    by (intro store.effect_seq store.effect_catch store.effect_return execute_evolves) simp_all
qed

lemma apply_row_evolves:
  assumes "guard_frozen db"
  shows "effect evolves any (apply_row db key plan row items claimed now stuck)"
  unfolding apply_row_def fetch_order_result_def case_prod_unfold
  by (intro store.effect_seq store.effect_lift_any store.effect_gets_any store.effect_return
      execute_all_evolves assms) simp

lemma apply_rows_evolves:
  assumes "guard_frozen db"
  shows "effect evolves any (apply_rows db key plan rows items claimed now)"
proof (induction rows arbitrary: claimed)
  case Nil
  show ?case unfolding apply_rows.simps by (rule store.effect_return) simp
next
  case (Cons row rows)
  show ?case unfolding apply_rows.simps case_prod_unfold
    by (intro store.effect_seq apply_row_evolves store.effect_return Cons assms) simp
qed

lemma reconcile_groups_evolves:
  assumes db: "guard_frozen db" and fetch: "\<And>g. effect evolves any (fetch g)"
  shows "effect evolves any (reconcile_groups db key plan skip fetch now groups)"
proof (induction groups)
  case Nil
  show ?case unfolding reconcile_groups.simps by (rule store.effect_return) simp
next
  case (Cons g groups)
  obtain k rows where g: "g = (k, rows)" by fastforce
  show ?case unfolding g reconcile_groups.simps
    by (intro store.effect_seq store.effect_catch store.effect_option store.effect_return apply_rows_evolves
        fetch db Cons) simp_all
qed

text \<open>Execution reports, it never raises.\<close>

lemma execute_all_ok: "\<exists>n w'. execute_all db actions w = (Inr n, w') \<and> n \<le> length actions"
proof (induction actions arbitrary: w)
  case (Cons a rest)
  obtain x w1 where "execute db a w = (x, w1)" by fastforce
  with Cons [of w1] show ?case by (cases x) (auto simp: bindE_def catchE_def)
qed simp

lemma execute_all_Cons:
  assumes "execute db a w = (Inr (), w1)" and "execute_all db rest w1 = (Inr n, w2)"
  shows "execute_all db (a # rest) w = (Inr (Suc n), w2)"
  using assms by (simp add: bindE_def catchE_def)

section \<open>A plan brings the order where the venue says it is\<close>

lemma execute_all_append:
  assumes "execute_all db xs w = (Inr n, w1)" and "execute_all db ys w1 = (Inr m, w2)"
  shows "execute_all db (xs @ ys) w = (Inr (n + m), w2)"
  using assms
proof (induction xs arbitrary: w n)
  case (Cons a rest)
  obtain x u where a: "execute db a w = (x, u)" by fastforce
  obtain k w' where rest: "execute_all db rest u = (Inr k, w')" using execute_all_ok by blast
  with a Cons.prems(1) have "w' = w1" by (cases x) (auto simp: bindE_def catchE_def)
  with Cons.IH rest Cons.prems(2) have "execute_all db (rest @ ys) u = (Inr (k + m), w2)" by blast
  with a rest Cons.prems(1) show ?case by (cases x) (auto simp: bindE_def catchE_def)
qed simp

text \<open>
  The specification: where an order of status \<open>s\<close> with \<open>filled\<close> of \<open>q\<close> recorded belongs when the
  venue reports \<open>matched\<close> and the state \<open>v\<close>, and the fills that makes.
\<close>

definition venue_target :: "OrderState \<Rightarrow> int \<Rightarrow> int \<Rightarrow> int \<Rightarrow> VenueOrderState \<Rightarrow> OrderState" where
  "venue_target s q filled matched v =
     (if s = PENDING_NEW \<and> v = V_REJECTED then REJECTED
      else
        let base = (if filled < matched then fill_status matched q else if s = PENDING_NEW then NEW else s)
        in if matched < q
           then (case v of V_RESTING \<Rightarrow> base | V_EXPIRED \<Rightarrow> EXPIRED | _ \<Rightarrow> CANCELLED)
           else base)"

definition venue_fills :: "OrderState \<Rightarrow> int list \<Rightarrow> int \<Rightarrow> VenueOrderState \<Rightarrow> int list" where
  "venue_fills s qs matched v =
     (if s = PENDING_NEW \<and> v = V_REJECTED then qs
      else if sum_list qs < matched then qs @ [matched - sum_list qs]
      else qs)"

lemma cancel_two_step_at:
  assumes "open_schema db" and "order_at cid b tm qs ids w" and "b \<in> {NEW, PARTIALLY_FILLED}"
  shows "\<exists>w'. execute db (Cancel_two_step cid) w = (Inr (), w') \<and> order_at cid CANCELLED tm qs ids w'"
proof -
  have "edge b PENDING_CANCEL" using assms(3) by auto
  from update_status_at [OF assms(1,2) this] obtain w1 where
    w1: "update_status db cid PENDING_CANCEL w = (Inr (), w1)" "order_at cid PENDING_CANCEL tm qs ids w1" by blast
  from update_status_at [OF assms(1) w1(2), of CANCELLED] w1(1) show ?thesis by (auto simp: bindE_Inr)
qed

lemma post_ack_reject_at:
  assumes "open_schema db" and "order_at cid b tm qs ids w" and "b \<in> {NEW, PARTIALLY_FILLED}"
  shows "\<exists>w'. execute db (Post_ack_reject cid reason) w = (Inr (), w') \<and> order_at cid CANCELLED tm qs ids w'"
proof -
  from set_reject_reason_at [OF assms(1,2)] obtain w1 where
    w1: "set_reject_reason db cid (or_default reason) w = (Inr (), w1)" "order_at cid b tm qs ids w1" by blast
  from cancel_two_step_at [OF assms(1) w1(2) assms(3)] w1(1) show ?thesis by (auto simp: bindE_Inr)
qed

lemma reject_at:
  assumes "open_schema db" and "order_at cid PENDING_NEW tm qs ids w"
  shows "\<exists>w'. execute db (Reject cid reason) w = (Inr (), w') \<and> order_at cid REJECTED tm qs ids w'"
proof -
  from update_status_at [OF assms, of REJECTED] obtain w1 where
    w1: "update_status db cid REJECTED w = (Inr (), w1)" "order_at cid REJECTED tm qs ids w1" by auto
  from set_reject_reason_at [OF assms(1) w1(2)] w1(1) show ?thesis by (auto simp: bindE_Inr)
qed

lemma execute_one: "execute db a w = (Inr (), w') \<Longrightarrow> execute_all db [a] w = (Inr 1, w')"
  by (simp add: bindE_def catchE_def)

lemma closing_at:
  assumes schema: "open_schema db" and at: "order_at (r_client_order_id r) b tm qs ids w"
    and working: "b \<in> {NEW, PARTIALLY_FILLED}" and no_reject: "\<not> (r_status r = PENDING_NEW \<and> v = V_REJECTED)"
  shows "\<exists>w'. execute_all db (terminal_actions r v reason) w = (Inr (length (terminal_actions r v reason)), w') \<and>
    order_at (r_client_order_id r) (case v of V_RESTING \<Rightarrow> b | V_EXPIRED \<Rightarrow> EXPIRED | _ \<Rightarrow> CANCELLED) tm qs ids w'"
proof (cases v)
  case V_RESTING
  then show ?thesis using at by (simp add: terminal_actions_def)
next
  case V_CANCELLED
  obtain w' where w': "execute db (Cancel_two_step (r_client_order_id r)) w = (Inr (), w')"
    "order_at (r_client_order_id r) CANCELLED tm qs ids w'" using cancel_two_step_at [OF schema at working] by blast
  show ?thesis using execute_one [OF w'(1)] w'(2) V_CANCELLED by (simp add: terminal_actions_def Let_def)
next
  case V_REJECTED
  obtain w' where w': "execute db (Post_ack_reject (r_client_order_id r) reason) w = (Inr (), w')"
    "order_at (r_client_order_id r) CANCELLED tm qs ids w'" using post_ack_reject_at [OF schema at working] by blast
  show ?thesis using execute_one [OF w'(1)] w'(2) V_REJECTED no_reject by (simp add: terminal_actions_def Let_def)
next
  case V_EXPIRED
  have "edge b EXPIRED" using working by auto
  from update_status_at [OF schema at this] obtain w' where
    w': "execute db (Expire (r_client_order_id r)) w = (Inr (), w')"
    "order_at (r_client_order_id r) EXPIRED tm qs ids w'" by auto
  show ?thesis using execute_one [OF w'(1)] w'(2) V_EXPIRED by (simp add: terminal_actions_def Let_def)
qed

lemma acks_at:
  assumes "open_schema db" and "order_at cid s tm qs ids w" and "s \<in> {PENDING_NEW, NEW, PARTIALLY_FILLED}"
    and "acks = (if s = PENDING_NEW then [Ack cid order_no] else [])"
  shows "\<exists>w'. execute_all db acks w = (Inr (length acks), w') \<and>
    order_at cid (if s = PENDING_NEW then NEW else s) tm qs ids w'"
proof (cases "s = PENDING_NEW")
  case True
  with assms(2) have "order_at cid PENDING_NEW tm qs ids w" by simp
  from ack_order_at [OF assms(1) this] obtain w' where
    w': "execute db (Ack cid order_no) w = (Inr (), w')" "order_at cid NEW tm qs ids w'"
    unfolding execute.simps by blast
  show ?thesis using execute_one [OF w'(1)] w'(2) True assms(4) by simp
qed (use assms in simp)

lemma fill_at:
  assumes schema: "open_schema db" and at: "order_at cid b tm qs ids w" and working: "b \<in> {NEW, PARTIALLY_FILLED}"
    and fresh: "fid \<notin> set ids" and cum: "sum_list qs + qty = matched"
  shows "\<exists>w'. execute db (Fill cid qty d fid tot) w = (Inr (), w') \<and>
    order_at cid (fill_status matched tot) tm (qs @ [qty]) (ids @ [fid]) w'"
  using apply_fill_at [OF schema at working fresh, of d qty "clock w" tot] cum by (auto simp: bindE_Inr)

text \<open>
  The plan for an order that is not being cancelled executes without a failure and brings it
  to the state the specification calls for.
\<close>

lemma plan_present_executes:
  assumes schema: "open_schema db"
    and at: "order_at (r_client_order_id r) (r_status r) tm qs ids w"
    and status: "r_status r \<in> {PENDING_NEW, NEW, PARTIALLY_FILLED}"
    and priced: "sum_list qs < matched \<Longrightarrow> pr = Inr (Some d)"
    and fresh: "sum_list qs < matched \<Longrightarrow> venue_fill_id order_no matched \<notin> set ids"
  obtains acts w' ids' where "plan_present r (sum_list qs) order_no matched v reason pr = Inr acts"
    and "execute_all db acts w = (Inr (length acts), w')"
    and "order_at (r_client_order_id r) (venue_target (r_status r) (r_quantity r) (sum_list qs) matched v) tm
           (venue_fills (r_status r) qs matched v) ids' w'"
    and "set ids' \<subseteq> insert (venue_fill_id order_no matched) (set ids)"
proof (cases "r_status r = PENDING_NEW \<and> v = V_REJECTED")
  case True
  with at have "order_at (r_client_order_id r) PENDING_NEW tm qs ids w" by simp
  from reject_at [OF schema this] obtain w' where
    w': "execute db (Reject (r_client_order_id r) reason) w = (Inr (), w')"
    "order_at (r_client_order_id r) REJECTED tm qs ids w'" by blast
  show thesis
    by (rule that [of "[Reject (r_client_order_id r) reason]" w' ids])
      (use True execute_one [OF w'(1)] w'(2) in
        \<open>auto simp: plan_present_def terminal_actions_def venue_target_def venue_fills_def Let_def\<close>)
next
  case False
  let ?cid = "r_client_order_id r" and ?q = "r_quantity r"
  let ?fid = "venue_fill_id order_no matched" and ?delta = "matched - sum_list qs"
  define acks where "acks = (if r_status r = PENDING_NEW then [Ack ?cid order_no] else [])"
  define fs where "fs = (if sum_list qs < matched then [Fill ?cid ?delta d ?fid ?q] else [])"
  define closing where "closing = (if matched < ?q then terminal_actions r v reason else [])"
  define b where "b = (if sum_list qs < matched then fill_status matched ?q
                       else if r_status r = PENDING_NEW then NEW else r_status r)"
  define qs' where "qs' = (if sum_list qs < matched then qs @ [?delta] else qs)"
  define ids' where "ids' = (if sum_list qs < matched then ids @ [?fid] else ids)"
  have nr: "\<not> (r_status r = PENDING_NEW \<and> first_is_reject (terminal_actions r v reason))"
    using False by (auto simp: terminal_actions_def Let_def split: VenueOrderState.splits)
  have plan: "plan_present r (sum_list qs) order_no matched v reason pr = Inr (acks @ fs @ closing)"
    using nr status priced by (auto simp: plan_present_def Let_def acks_def fs_def closing_def)
  from acks_at [OF schema at status acks_def] obtain w1 where
    w1: "execute_all db acks w = (Inr (length acks), w1)"
    "order_at ?cid (if r_status r = PENDING_NEW then NEW else r_status r) tm qs ids w1" by blast
  have "\<exists>w2. execute_all db fs w1 = (Inr (length fs), w2) \<and> order_at ?cid b tm qs' ids' w2"
  proof (cases "sum_list qs < matched")
    case True
    obtain w2 where w2: "execute db (Fill ?cid ?delta d ?fid ?q) w1 = (Inr (), w2)"
        "order_at ?cid (fill_status matched ?q) tm (qs @ [?delta]) (ids @ [?fid]) w2"
      using fill_at [OF schema w1(2) _ fresh [OF True], of ?delta matched d ?q] status by auto
    show ?thesis
      using True execute_one [OF w2(1)] w2(2) unfolding fs_def b_def qs'_def ids'_def by auto
  next
    case False
    then show ?thesis using w1(2) by (auto simp: fs_def b_def qs'_def ids'_def)
  qed
  then obtain w2 where w2: "execute_all db fs w1 = (Inr (length fs), w2)" "order_at ?cid b tm qs' ids' w2" by blast
  let ?target = "venue_target (r_status r) ?q (sum_list qs) matched v"
  have "\<exists>w3. execute_all db closing w2 = (Inr (length closing), w3) \<and> order_at ?cid ?target tm qs' ids' w3"
  proof (cases "matched < ?q")
    case True
    have "b \<in> {NEW, PARTIALLY_FILLED}" using True status by (auto simp: b_def fill_status_def)
    moreover have "?target = (case v of V_RESTING \<Rightarrow> b | V_EXPIRED \<Rightarrow> EXPIRED | _ \<Rightarrow> CANCELLED)"
      using True False by (cases v) (auto simp: venue_target_def b_def Let_def)
    ultimately show ?thesis
      using closing_at [OF schema w2(2) _ False, of reason] True by (simp add: closing_def)
  next
    case no: False
    then show ?thesis using w2(2) False by (auto simp: closing_def venue_target_def b_def Let_def)
  qed
  then obtain w3 where w3: "execute_all db closing w2 = (Inr (length closing), w3)" "order_at ?cid ?target tm qs' ids' w3"
    by blast
  have run: "execute_all db (acks @ fs @ closing) w = (Inr (length (acks @ fs @ closing)), w3)"
    using execute_all_append [OF w1(1) execute_all_append [OF w2(1) w3(1)]] by simp
  show thesis
  proof (rule that [OF plan run])
    have "venue_fills (r_status r) qs matched v = qs'" using False by (auto simp: venue_fills_def qs'_def)
    then show "order_at ?cid ?target tm (venue_fills (r_status r) qs matched v) ids' w3" using w3(2) by simp
    show "set ids' \<subseteq> insert ?fid (set ids)" by (auto simp: ids'_def)
  qed
qed

section \<open>What a match means\<close>

lemma candidates_filter:
  assumes "candidates p xs = Inr cs"
  shows "cs = filter (\<lambda>x. p x = Inr True) xs" and "\<forall>x \<in> set xs. \<exists>b. p x = Inr b"
proof -
  have "cs = filter (\<lambda>x. p x = Inr True) xs \<and> (\<forall>x \<in> set xs. \<exists>b. p x = Inr b)"
    using assms
  proof (induction xs arbitrary: cs)
    case (Cons x xs)
    from Cons.prems obtain b ys where p: "p x = Inr b" and ys: "candidates p xs = Inr ys"
      by (auto split: sum.splits simp: map_sum_def)
    with Cons.IH [OF ys] Cons.prems show ?case by (cases b) auto
  qed simp
  then show "cs = filter (\<lambda>x. p x = Inr True) xs" and "\<forall>x \<in> set xs. \<exists>b. p x = Inr b" by blast+
qed

lemma fuzzy_match_cases:
  assumes "fuzzy_match key row items claimed = Inr m"
  shows "candidate_count m = length (filter (\<lambda>i. resembles row claimed (key i) = Inr True) items)"
    and "mo_item m = Some i \<longleftrightarrow> filter (\<lambda>i. resembles row claimed (key i) = Inr True) items = [i]"
proof -
  from assms obtain cs where cs: "candidates (\<lambda>i. resembles row claimed (key i)) items = Inr cs"
    by (auto simp: fuzzy_match_def split: sum.splits)
  have m: "m = (case cs of [i] \<Rightarrow> \<lparr>mo_item = Some i, candidate_count = 1\<rparr>
                         | _ \<Rightarrow> \<lparr>mo_item = None, candidate_count = length cs\<rparr>)"
    using assms by (simp add: fuzzy_match_def cs)
  note eq = candidates_filter(1) [OF cs, symmetric]
  show "candidate_count m = length (filter (\<lambda>i. resembles row claimed (key i) = Inr True) items)"
    unfolding eq m by (simp split: list.splits)
  show "mo_item m = Some i \<longleftrightarrow> filter (\<lambda>i. resembles row claimed (key i) = Inr True) items = [i]"
    unfolding eq m by (auto split: list.splits)
qed

lemma resembles_unclaimed: "resembles row claimed k = Inr True \<Longrightarrow> vk_order_no k \<notin> claimed"
  by (auto simp: resembles_def)

lemma fuzzy_match_item:
  assumes "fuzzy_match key row items claimed = Inr m" and "mo_item m = Some i"
  shows "i \<in> set items" and "vk_order_no (key i) \<notin> claimed" and "candidate_count m = 1"
proof -
  have cs: "filter (\<lambda>i. resembles row claimed (key i) = Inr True) items = [i]"
    using fuzzy_match_cases(2) [OF assms(1), of i] assms(2) by simp
  then have "i \<in> set (filter (\<lambda>i. resembles row claimed (key i) = Inr True) items)" by simp
  then show "i \<in> set items" and "vk_order_no (key i) \<notin> claimed" by (auto dest: resembles_unclaimed)
  show "candidate_count m = 1" using fuzzy_match_cases(1) [OF assms(1)] cs by simp
qed

lemma plan_present_sources:
  assumes "plan_present row filled order_no matched st reason pr = Inr acts" and "a \<in> set acts"
  shows "a \<in> set (terminal_actions row st reason) \<or> (\<exists>cid. a = Cancel_confirm cid) \<or>
    (\<exists>cid. a = Ack cid order_no) \<or> (\<exists>cid qty d tot. a = Fill cid qty d (venue_fill_id order_no matched) tot)"
proof (cases "0 < matched - filled")
  case True
  with assms show ?thesis
    by (cases pr) (auto simp: plan_present_def Let_def split: if_splits option.splits)
qed (use assms in \<open>auto simp: plan_present_def Let_def split: if_splits\<close>)

section \<open>When the trip hook runs\<close>

definition same_breakers :: "('r, 'v) world \<Rightarrow> ('r, 'v) world \<Rightarrow> bool" where
  "same_breakers w w' \<longleftrightarrow> breakers w' = breakers w"

interpretation session: effect_order same_breakers
  by unfold_locales (simp_all add: same_breakers_def)

lemma heartbeat_pass_fires:
  assumes "breakers w b = feed hs (new_breaker n)" and "1 \<le> n" and "probe w = (Inr ok, w1)" and "same_breakers w w1"
    and "fed = w1\<lparr>breakers := (breakers w1)(b := feed (hs @ [ok]) (new_breaker n))\<rparr>"
  shows "heartbeat_pass b probe on_trip w =
    (Inr ok, if int (trailing_failures (hs @ [ok])) = n then after on_trip fed else fed)"
proof -
  have w1: "breakers w1 b = feed hs (new_breaker n)" using assms(1,4) by (simp add: same_breakers_def)
  have fields: "breaker_state (feed hs (new_breaker n)) = Open \<longleftrightarrow>
      trailing_failures hs > 0 \<and> n \<le> int (trailing_failures hs)"
    "breaker_state (feed (hs @ [ok]) (new_breaker n)) = Open \<longleftrightarrow>
      trailing_failures (hs @ [ok]) > 0 \<and> n \<le> int (trailing_failures (hs @ [ok]))"
    using feed_fields [of hs n] feed_fields [of "hs @ [ok]" n] by simp_all
  obtain x w2 where trip: "on_trip fed = (x, w2)" by fastforce
  show ?thesis
  proof (cases ok)
    case True
    then show ?thesis using assms w1 by (simp add: heartbeat_pass_def feed_breaker_def bindE_def)
  next
    case False
    then have fires: "breaker_state (feed (hs @ [ok]) (new_breaker n)) = Open \<and>
        breaker_state (feed hs (new_breaker n)) \<noteq> Open \<longleftrightarrow> int (trailing_failures (hs @ [ok])) = n"
      using fields assms(2) by auto
    from False assms(1,3,5) w1 trip fires show ?thesis
      by (cases x) (auto simp: heartbeat_pass_def feed_breaker_def bindE_def catchE_def)
  qed
qed

section \<open>What both reconcilers promise\<close>

text \<open>
  The contract of a package's planner: a row with a venue counterpart is planned from the
  fields of that counterpart, and a lost submit is given up on only when nothing was
  ambiguous and the time is over.
\<close>

locale reconciler =
  fixes key :: "'i \<Rightarrow> venue_key"
    and plan :: "'i planner"
    and matched_of :: "'i \<Rightarrow> int"
    and state_of :: "'i \<Rightarrow> VenueOrderState"
    and reason_of :: "'i \<Rightarrow> string"
    and price_for :: "OrderRow \<Rightarrow> 'i \<Rightarrow> exn + decimal option"
  assumes plan_Some: "plan row filled (Some i) now amb =
      plan_present row filled (vk_order_no (key i)) (matched_of i) (state_of i) (reason_of i) (price_for row i)"
    and plan_None: "r_status row = PENDING_NEW \<Longrightarrow> plan row filled None now amb =
      Inr (if \<not> amb \<and> ACK_LOST_TIMEOUT < now - r_created_at row
           then [Reject (r_client_order_id row) ''ack_lost_unmatched''] else [])"
    and reason_not_lost: "reason_of i \<noteq> ''ack_lost_unmatched''"
begin

text \<open>One application of a row brings the order where the venue says it is.\<close>

lemma row_converges:
  assumes schema: "open_schema db"
    and row: "find_order (r_client_order_id r) w = Some r"
    and fills: "map f_quantity (fills_of (r_client_order_id r) (fills w)) = qs"
    and m: "match_row key r items claimed now stuck = Inr (Some i, amb, claimed')"
    and status: "r_status r \<in> {PENDING_NEW, NEW, PARTIALLY_FILLED}"
    and priced: "sum_list qs < matched_of i \<Longrightarrow> price_for r i = Inr (Some d)"
    and fresh: "sum_list qs < matched_of i \<Longrightarrow>
      venue_fill_id (vk_order_no (key i)) (matched_of i) \<notin>
        set (map f_broker_fill_id (fills_of (r_client_order_id r) (fills w)))"
  obtains n w' ids' where "apply_row db key plan r items claimed now stuck w = (Inr (n, claimed'), w')"
    and "order_at (r_client_order_id r)
           (venue_target (r_status r) (r_quantity r) (sum_list qs) (matched_of i) (state_of i))
           (r_price r, r_quantity r) (venue_fills (r_status r) qs (matched_of i) (state_of i)) ids' w'"
proof -
  let ?ids = "map f_broker_fill_id (fills_of (r_client_order_id r) (fills w))"
  have at: "order_at (r_client_order_id r) (r_status r) (r_price r, r_quantity r) qs ?ids w"
    using row fills by (simp add: order_at_def)
  obtain acts w' ids' where run: "execute_all db acts w = (Inr (length acts), w')"
    and plan: "plan_present r (sum_list qs) (vk_order_no (key i)) (matched_of i) (state_of i) (reason_of i)
        (price_for r i) = Inr acts"
    and at': "order_at (r_client_order_id r)
        (venue_target (r_status r) (r_quantity r) (sum_list qs) (matched_of i) (state_of i))
        (r_price r, r_quantity r) (venue_fills (r_status r) qs (matched_of i) (state_of i)) ids' w'"
    by (rule plan_present_executes [OF schema at status priced fresh])
  have "filled_qty (order_result r (fills w)) = sum_list qs"
    using fills by (auto simp: order_result_def sum_quantity_def)
  then have "apply_row db key plan r items claimed now stuck w = (Inr (length acts, claimed'), w')"
    using m row run plan by (simp add: apply_row_def plan_Some fetch_order_result_def bindE_def getsE_def liftE_def)
  then show thesis using at' by (rule that)
qed

text \<open>Read again, the same venue row calls for nothing.\<close>

lemma replan_quiet:
  assumes "r_status r' = venue_target s (r_quantity r') (sum_list qs) (matched_of i) (state_of i)"
    and "r_status r' \<in> {NEW, PARTIALLY_FILLED}" and "s \<in> {PENDING_NEW, NEW, PARTIALLY_FILLED}"
  shows "plan r' (sum_list (venue_fills s qs (matched_of i) (state_of i))) (Some i) now amb = Inr []"
proof -
  have "\<not> (s = PENDING_NEW \<and> state_of i = V_REJECTED)" using assms by (auto simp: venue_target_def)
  then have "\<not> sum_list (venue_fills s qs (matched_of i) (state_of i)) < matched_of i"
    by (auto simp: venue_fills_def)
  moreover have "matched_of i < r_quantity r' \<Longrightarrow> state_of i = V_RESTING"
    using assms \<open>\<not> (s = PENDING_NEW \<and> state_of i = V_REJECTED)\<close>
    by (auto simp: venue_target_def Let_def split: VenueOrderState.splits)
  ultimately show ?thesis
    using assms(2) by (auto simp: plan_Some plan_present_def terminal_actions_def Let_def)
qed

text \<open>An order is given up as lost only when no unclaimed venue row resembles it.\<close>

lemma plan_present_not_lost:
  assumes "plan row filled (Some i) now amb = Inr acts"
  shows "Reject cid ''ack_lost_unmatched'' \<notin> set acts"
proof -
  have "Reject cid ''ack_lost_unmatched'' \<notin> set (terminal_actions row (state_of i) (reason_of i))"
    using reason_not_lost [of i] by (cases "state_of i") (auto simp: terminal_actions_def Let_def)
  with plan_present_sources [OF assms [unfolded plan_Some], of "Reject cid ''ack_lost_unmatched''"] show ?thesis by blast
qed

lemma lost_only_when_absent:
  assumes m: "match_row key row items claimed now stuck = Inr (item, amb, claimed')"
    and p: "plan row filled item now amb = Inr acts" and status: "r_status row = PENDING_NEW"
    and lost: "Reject cid ''ack_lost_unmatched'' \<in> set acts"
  shows "ACK_LOST_TIMEOUT < now - r_created_at row \<and>
    (\<forall>i \<in> set items. resembles row claimed (key i) = Inr False)"
proof (cases item)
  case None
  with p lost status have late: "\<not> amb" "ACK_LOST_TIMEOUT < now - r_created_at row"
    by (auto simp: plan_None split: if_splits)
  then have "STUCK_PENDING < now - r_created_at row" by (simp add: ACK_LOST_TIMEOUT_def STUCK_PENDING_def)
  with m None status obtain mo where mo: "fuzzy_match key row items claimed = Inr mo" "mo_item mo = None" "\<not> ambiguous mo"
    using late(1) by (auto simp: match_row_def split: option.splits sum.splits if_splits)
  from mo(1) obtain cs where cs: "candidates (\<lambda>i. resembles row claimed (key i)) items = Inr cs"
    by (auto simp: fuzzy_match_def split: sum.splits)
  have "filter (\<lambda>i. resembles row claimed (key i) = Inr True) items = []"
  proof (rule ccontr)
    assume "filter (\<lambda>i. resembles row claimed (key i) = Inr True) items \<noteq> []"
    then obtain x xs where xs: "filter (\<lambda>i. resembles row claimed (key i) = Inr True) items = x # xs"
      by (cases "filter (\<lambda>i. resembles row claimed (key i) = Inr True) items") auto
    show False
      using fuzzy_match_cases(1) [OF mo(1)] fuzzy_match_cases(2) [OF mo(1), of x] mo(2,3) xs
      by (cases xs) (auto simp: ambiguous_def)
  qed
  with candidates_filter(2) [OF cs] late(2) show ?thesis by (fastforce simp: filter_empty_conv)
qed (use plan_present_not_lost p lost in blast)

end

end
