(* ===== verification/LiberatorReconciler.thy ===== *)
theory LiberatorReconciler
  imports Liberator Reconcile RouterSafety
begin

text \<open>
  Liberator's reconciler, heartbeat and runtime (\<open>adapters/liberator/reconciler.py\<close>,
  \<open>heartbeat.py\<close>, \<open>runtime.py\<close>): the planner over its wire model, one pass over the accounts,
  the single-order resolver the submit path borrows, and the router the API builds around the
  adapter.
\<close>

section \<open>Planning\<close>

definition lib_fill_price_for :: "OrderRow \<Rightarrow> VenueOrderItem \<Rightarrow> exn + decimal option" where
  "lib_fill_price_for row item =
     (if has_price (vi_price item) then Inr (vi_price item)
      else case vi_amount item of
        Some a \<Rightarrow>
          if dec_pos a \<and> 0 < vi_matched item
          then (case dec_quantize (dec_div a (dec_of_int (vi_matched item))) (-6) of
                  Some p \<Rightarrow> Inr (Some p)
                | None \<Rightarrow> Inl (OtherError ''InvalidOperation''))
          else Inr (case r_price row of Some p \<Rightarrow> Some p | None \<Rightarrow> r_stop_price row)
      | None \<Rightarrow> Inr (case r_price row of Some p \<Rightarrow> Some p | None \<Rightarrow> r_stop_price row))"

definition lib_key :: "VenueOrderItem \<Rightarrow> venue_key" where
  "lib_key item =
     \<lparr>vk_order_no = vi_order_no item, vk_symbol = vi_symbol item, vk_volume = vi_volume item,
      vk_side = from_venue_side (vi_side item), vk_price = vi_price item, vk_entry_time = vi_entry_time item\<rparr>"

definition lib_fuzzy_match ::
  "OrderRow \<Rightarrow> VenueOrderItem list \<Rightarrow> string set \<Rightarrow> exn + VenueOrderItem MatchOutcome" where
  "lib_fuzzy_match row items claimed = fuzzy_match lib_key row items claimed"

definition lib_reject_text :: "VenueOrderItem \<Rightarrow> string" where
  "lib_reject_text item =
     strip (''liberator reject '' @
            (if vi_reject_code item \<noteq> [] then vi_reject_code item
             else if vi_status_show item \<noteq> [] then vi_status_show item
             else vi_status item))"

text \<open>The Bangkok calendar day of an instant: seven hours ahead of UTC, all year.\<close>

definition venue_day :: "timestamp \<Rightarrow> int" where
  "venue_day t = (t + 7 * 3600 * 1000000) div (24 * 3600 * 1000000)"

definition absence_is_informative :: "OrderRow \<Rightarrow> timestamp \<Rightarrow> bool" where
  "absence_is_informative row now \<longleftrightarrow> venue_day (r_created_at row) = venue_day now"

definition lib_plan_absent :: "OrderRow \<Rightarrow> timestamp \<Rightarrow> bool \<Rightarrow> ReconcileAction list" where
  "lib_plan_absent row now amb =
     (let cid = r_client_order_id row; age = now - r_created_at row
      in if r_status row = PENDING_NEW
         then (if amb then []
               else if ACK_LOST_TIMEOUT < age then [Reject cid ''ack_lost_unmatched''] else [])
         else if r_status row = PENDING_CANCEL
         then (if \<not> absence_is_informative row now then [] else [Cancel_confirm cid])
         else [])"

definition lib_plan_actions :: "VenueOrderItem planner" where
  "lib_plan_actions row filled item now amb =
     (case item of
        None \<Rightarrow> Inr (lib_plan_absent row now amb)
      | Some i \<Rightarrow>
          plan_present row filled (vi_order_no i) (vi_matched i) (classify_venue_state i)
            (lib_reject_text i) (lib_fill_price_for row i))"

section \<open>The reconciler\<close>

definition is_resolved :: "OrderRow \<Rightarrow> bool" where
  "is_resolved row \<longleftrightarrow> r_broker_order_id row \<noteq> None \<or> is_terminal (r_status row)"

definition lib_apply_row ::
  "db_env \<Rightarrow> OrderRow \<Rightarrow> VenueOrderItem list \<Rightarrow> string set \<Rightarrow> timestamp \<Rightarrow> bool \<Rightarrow>
   ('r, 'v, nat \<times> string set) eng" where
  "lib_apply_row db row items claimed now require_stuck =
     apply_row db lib_key lib_plan_actions row items claimed now require_stuck"

definition lib_reconcile_once :: "('r, 'v) LiberatorAdapter \<Rightarrow> db_env \<Rightarrow> ('r, 'v, nat) eng" where
  "lib_reconcile_once la db =
     bindE (fetch_orders_for_reconcile LIBERATOR False) (\<lambda>rows.
     if rows = [] then returnE 0
     else
       bindE (getsE clock) (\<lambda>now.
       reconcile_groups db lib_key lib_plan_actions is_lib_transport_error (lib_fetch_venue_orders la) now
         (group_rows r_account rows)))"

definition lib_resolve_order_now :: "('r, 'v) LiberatorAdapter \<Rightarrow> db_env \<Rightarrow> ('r, 'v) resolver" where
  "lib_resolve_order_now la db cid =
     bindE (fetch_order cid) (\<lambda>found.
     case found of
       None \<Rightarrow> returnE True
     | Some row \<Rightarrow>
         if is_resolved row then returnE True
         else
           bindE (fetch_orders_for_reconcile LIBERATOR False) (\<lambda>working.
           let claimed = handles (filter (\<lambda>r. r_account r = r_account row \<and> r_client_order_id r \<noteq> cid) working)
           in bindE (lib_fetch_venue_orders la (r_account row)) (\<lambda>items.
              bindE (getsE clock) (\<lambda>now.
              bindE (lib_apply_row db row items claimed now False) (\<lambda>_.
              bindE (fetch_order cid) (\<lambda>after_row.
              returnE (case after_row of Some r \<Rightarrow> is_resolved r | None \<Rightarrow> False)))))))"

definition lib_heartbeat_pass ::
  "('r, 'v) LiberatorAdapter \<Rightarrow> ('r, 'v, unit) eng \<Rightarrow> ('r, 'v, bool) eng" where
  "lib_heartbeat_pass la on_trip = heartbeat_pass LIBERATOR (lib_heartbeat la) on_trip"

section \<open>Runtime\<close>

definition BROKER_STAGES :: "Stage list" where
  "BROKER_STAGES = [Stage_PAPER, Stage_MICRO_LIVE, Stage_LIVE]"

definition RECONCILE_STAGES :: "Stage list" where
  "RECONCILE_STAGES = [Stage_MICRO_LIVE, Stage_LIVE]"

definition lib_resolve_order_from_store :: "string \<Rightarrow> ('r, 'v, (string \<times> Market) option) eng" where
  "lib_resolve_order_from_store cid =
     bindE (fetch_order cid) (\<lambda>found.
     returnE (case found of
                None \<Rightarrow> None
              | Some row \<Rightarrow> map_option (\<lambda>boid. (boid, r_market row)) (r_broker_order_id row)))"

definition liberator_enabled :: "Settings \<Rightarrow> bool" where
  "liberator_enabled s \<longleftrightarrow>
     stage s \<in> set BROKER_STAGES \<and> \<not> public_mode s \<and> liberator_api_key s \<noteq> None"

text \<open>
  The module's singletons: the adapter, whether a reconciler runs, and the names of the
  background tasks. What the process gives a new adapter (the HTTP client, the wire models'
  validation, \<open>isoformat\<close> and the sleep of its bucket) is a parameter.
\<close>

record ('r, 'v) LiberatorRuntime =
  lr_adapter :: "('r, 'v) LiberatorAdapter option"
  lr_reconciler :: bool
  lr_tasks :: "string list"

record ('r, 'v) platform =
  pl_client :: "'v http_client"
  pl_lib_schema :: lib_schema
  pl_isoformat :: isoformat
  pl_sleep :: "('r, 'v) pause"

definition new_liberator_adapter :: "('r, 'v) platform \<Rightarrow> Settings \<Rightarrow> ('r, 'v) LiberatorAdapter" where
  "new_liberator_adapter pl s =
     \<lparr>la_transport = \<lparr>lt_base_url = liberator_base_url s, lt_client = pl_client pl, lt_schema = pl_lib_schema pl\<rparr>,
      la_resolve_order = Some lib_resolve_order_from_store, la_sleep = pl_sleep pl, la_isoformat = pl_isoformat pl\<rparr>"

definition create_liberator_runtime ::
  "('r, 'v) platform \<Rightarrow> Settings \<Rightarrow> ('r, 'v) LiberatorRuntime \<Rightarrow> ('r, 'v) world \<Rightarrow>
   ('r, 'v) LiberatorRuntime \<times> ('r, 'v) world" where
  "create_liberator_runtime pl s lr w =
     (if lr_adapter lr \<noteq> None \<or> \<not> liberator_enabled s then (lr, w)
      else
        (lr\<lparr>lr_adapter := Some (new_liberator_adapter pl s)\<rparr>,
         w\<lparr>breakers := (breakers w)(LIBERATOR := new_breaker (liberator_circuit_breaker_threshold s)),
           buckets := (buckets w)(LIBERATOR := new_bucket (of_int (liberator_post_rate_limit s)) (seconds (clock w))),
           lib_session := new_liberator_session\<rparr>))"

definition start_liberator_workers :: "Settings \<Rightarrow> ('r, 'v) LiberatorRuntime \<Rightarrow> ('r, 'v) LiberatorRuntime" where
  "start_liberator_workers s lr =
     (if lr_adapter lr = None then lr
      else
        let lr = lr\<lparr>lr_tasks := lr_tasks lr @ [''liberator-heartbeat'']\<rparr>
        in if stage s \<in> set RECONCILE_STAGES
           then lr\<lparr>lr_reconciler := True, lr_tasks := lr_tasks lr @ [''liberator-reconciler'']\<rparr>
           else lr)"

definition close_liberator_runtime :: "('r, 'v) LiberatorRuntime \<Rightarrow> ('r, 'v) LiberatorRuntime" where
  "close_liberator_runtime lr = lr\<lparr>lr_adapter := None, lr_reconciler := False, lr_tasks := []\<rparr>"

definition get_liberator_handle_resolver ::
  "db_env \<Rightarrow> ('r, 'v) LiberatorRuntime \<Rightarrow> ('r, 'v) resolver option" where
  "get_liberator_handle_resolver db lr =
     (case lr_adapter lr of
        Some la \<Rightarrow> if lr_reconciler lr then Some (lib_resolve_order_now la db) else None
      | None \<Rightarrow> None)"

text \<open>The hook of a trip: the sweep of a router that knows this adapter only.\<close>

definition lib_on_trip :: "('r, 'v) OrderRouter \<Rightarrow> ('r, 'v) LiberatorAdapter \<Rightarrow> ('r, 'v, unit) eng" where
  "lib_on_trip rt la =
     bindE (mass_cancel (rt\<lparr>liberator := Some (liberator_adapter la), streaming_pro := None,
                            sim_price_source := None, handle_resolver := None\<rparr>)) (\<lambda>_.
     returnE ())"

section \<open>The contract\<close>

lemma strip_prefix:
  assumes "\<not> is_space c"
  shows "\<exists>t. strip (c # s) = c # t"
proof -
  have "dropWhile is_space (rev s @ [c]) = dropWhile is_space (rev s) @ [c]"
    using assms by (induction "rev s" rule: rev_induct) (auto simp: dropWhile_append dropWhile_eq_Nil_conv)
  then show ?thesis using assms by (simp add: strip_def strip_by_def)
qed

interpretation lib: reconciler lib_key lib_plan_actions vi_matched classify_venue_state lib_reject_text lib_fill_price_for
proof unfold_locales
  fix i
  obtain t where "lib_reject_text i = CHR ''l'' # t"
    using strip_prefix [of "CHR ''l''"] by (fastforce simp: lib_reject_text_def is_space_def)
  then show "lib_reject_text i \<noteq> ''ack_lost_unmatched''" by simp
qed (simp_all add: lib_plan_actions_def lib_key_def lib_plan_absent_def Let_def)

lemma lib_fetch_frame: "effect same_store any (lib_fetch_venue_orders la acct)"
  unfolding lib_fetch_venue_orders_def
  by (intro frame.effect_seq lib_get_json_frame frame.effect_lift_any)

lemmas lib_fetch_evolves = lib_fetch_frame [THEN frame_evolves]

lemma lib_reconcile_once_evolves:
  assumes "guard_frozen db"
  shows "effect evolves any (lib_reconcile_once la db)"
  unfolding lib_reconcile_once_def fetch_orders_for_reconcile_def
  by (intro store.effect_seq store.effect_gets_any store.effect_if store.effect_return reconcile_groups_evolves
      lib_fetch_evolves assms) simp

lemma lib_resolve_order_now_evolves:
  assumes "guard_frozen db"
  shows "effect evolves any (lib_resolve_order_now la db cid)"
  unfolding lib_resolve_order_now_def fetch_orders_for_reconcile_def fetch_order_def lib_apply_row_def Let_def
  by (intro store.effect_seq store.effect_gets_any store.effect_option store.effect_if store.effect_return
      lib_fetch_evolves apply_row_evolves assms) simp_all

lemma lib_resolve_from_store_frame: "effect same_store any (lib_resolve_order_from_store cid)"
  unfolding lib_resolve_order_from_store_def fetch_order_def
  by (intro frame.effect_seq frame.effect_gets_any frame.effect_return) simp

lemma new_liberator_adapter_ok:
  assumes "\<And>d w. evolves w (pl_sleep pl d w)"
  shows "liberator_ok (new_liberator_adapter pl s)"
  using assms lib_resolve_from_store_frame by (auto simp: liberator_ok_def new_liberator_adapter_def)

section \<open>An order ends up where the venue has it\<close>

text \<open>A venue row of the bridge, for the examples.\<close>

definition demo_item :: "string \<Rightarrow> int \<Rightarrow> string \<Rightarrow> timestamp \<Rightarrow> VenueOrderItem" where
  "demo_item order_no matched shown entered =
     \<lparr>vi_order_no = order_no, vi_account_no = ''A'', vi_symbol = ''PTT'', vi_side = ''Buy'', vi_position = None,
      vi_price_type = ''Limit'', vi_iceberg_vol = 0, vi_volume = 100, vi_price = Some (Dec 100 (-1)),
      vi_matched = matched, vi_balance = 100 - matched, vi_cancelled = 0, vi_amount = None, vi_status = [],
      vi_status_show = shown, vi_reject_code = [], vi_can_cancel = True, vi_validity_type = ''Day'',
      vi_stop_price = None, vi_stop_symbol = None, vi_entry_time = Some (Aware entered), vi_trade_time = None\<rparr>"

definition demo_lib_row :: "string \<Rightarrow> OrderState \<Rightarrow> OrderRow" where
  "demo_lib_row cid st = (demo_row cid st)\<lparr>r_broker := LIBERATOR\<rparr>"

lemma demo_item_fields [simp]:
  "vi_order_no (demo_item n m s t) = n" "vi_matched (demo_item n m s t) = m" "vi_volume (demo_item n m s t) = 100"
  "vi_price (demo_item n m s t) = Some (Dec 100 (-1))"
  by (simp_all add: demo_item_def)

lemma demo_item_resting: "classify_venue_state (demo_item n m [] t) = V_RESTING"
  by (simp add: classify_venue_state_def demo_item_def strip_def strip_by_def upper_def CANCELLED_STATUS_def
      REJECTED_STATUS_def EXPIRED_STATUS_def)

lemma demo_side: "from_venue_side ''Buy'' = Some BUY"
  by code_simp

lemma demo_price: "dec_eq (Dec 100 (-1)) (Dec 10 0)" "has_price (Some (Dec 100 (-1)))" "has_price (Some (Dec 10 0))"
  by code_simp+



section \<open>What absence is taken to mean\<close>

text \<open>
  C9. An order is never declared dead on thin evidence. The planner gives a submit up as lost
  only when the order is still unacknowledged, more than a minute old, and no venue row that
  is not somebody else's resembles it; it confirms a cancel on absence only for an order being
  cancelled and only within the venue's own calendar day; on absence it does nothing else.
\<close>

theorem lib_absence_inferences:
  assumes m: "match_row lib_key row items claimed now stuck = Inr (item, amb, claimed')"
    and p: "lib_plan_actions row filled item now amb = Inr acts"
  shows "(Reject cid ''ack_lost_unmatched'' \<in> set acts \<longrightarrow>
      r_status row = PENDING_NEW \<and> 60000000 < now - r_created_at row \<and>
      (\<forall>i \<in> set items. resembles row claimed (lib_key i) = Inr False)) \<and>
    (item = None \<and> Cancel_confirm cid \<in> set acts \<longrightarrow>
      r_status row = PENDING_CANCEL \<and> venue_day (r_created_at row) = venue_day now) \<and>
    (item = None \<longrightarrow> set acts \<subseteq>
      {Reject (r_client_order_id row) ''ack_lost_unmatched'', Cancel_confirm (r_client_order_id row)})"
proof (intro conjI impI)
  assume lost: "Reject cid ''ack_lost_unmatched'' \<in> set acts"
  then have "item = None" using lib.plan_present_not_lost [of row filled _ now amb acts cid] p by (cases item) auto
  then show status: "r_status row = PENDING_NEW"
    using p lost by (auto simp: lib_plan_actions_def lib_plan_absent_def Let_def split: if_splits)
  show "60000000 < now - r_created_at row" "\<forall>i \<in> set items. resembles row claimed (lib_key i) = Inr False"
    using lib.lost_only_when_absent [OF m p status lost] by (simp_all add: ACK_LOST_TIMEOUT_def)
qed (use p in \<open>auto simp: lib_plan_actions_def lib_plan_absent_def absence_is_informative_def Let_def split: if_splits\<close>)

theorem lib_absence_inferences_witness:
  "match_row lib_key (demo_lib_row ''c'' PENDING_NEW) [demo_item ''V1'' 0 [] 9000000] {} 61000000 True = Inr (None, False, {}) \<and>
   lib_plan_actions (demo_lib_row ''c'' PENDING_NEW) 0 None 61000000 False = Inr [Reject ''c'' ''ack_lost_unmatched''] \<and>
   resembles (demo_lib_row ''c'' PENDING_NEW) {} (lib_key (demo_item ''V1'' 0 [] 9000000)) = Inr False"
proof -
  let ?r = "demo_lib_row ''c'' PENDING_NEW" and ?i = "demo_item ''V1'' 0 [] 9000000"
  have m: "match_row lib_key ?r [?i] {} 61000000 True = Inr (None, False, {})"
    by (simp add: match_row_def by_handle_def demo_lib_row_def demo_row_def STUCK_PENDING_def fuzzy_match_def resembles_def lib_key_def
        demo_item_def demo_side demo_price price_differs_def FUZZY_WINDOW_def ambiguous_def)
  have p: "lib_plan_actions ?r 0 None 61000000 False = Inr [Reject ''c'' ''ack_lost_unmatched'']"
    by (simp add: lib_plan_actions_def lib_plan_absent_def demo_lib_row_def demo_row_def ACK_LOST_TIMEOUT_def Let_def)
  show ?thesis using m p lib_absence_inferences [OF m p, of "''c''"] by simp
qed

section \<open>The resolver of the submit path\<close>

text \<open>The row's own step, as one case distinction: it raises before anything is written, or it runs.\<close>

lemma apply_row_cases:
  obtains e where "apply_row db key plan row items claimed now stuck w = (Inl e, w)"
  | n claimed' w' where "apply_row db key plan row items claimed now stuck w = (Inr (n, claimed'), w')"
proof (cases "match_row key row items claimed now stuck")
  case (Inl e)
  then show thesis using that(1) [of e] by (simp add: apply_row_def bindE_def liftE_def)
next
  case (Inr b)
  obtain item amb claimed' where b: "b = (item, amb, claimed')" by (cases b) auto
  obtain f where f: "fetch_order_result (r_client_order_id row) w = (Inr f, w)"
    by (simp add: fetch_order_result_def)
  show thesis
  proof (cases "plan row (case f of Some r \<Rightarrow> filled_qty r | None \<Rightarrow> 0) item now amb")
    case (Inl e)
    then show thesis using that(1) [of e] f Inr b by (simp add: apply_row_def bindE_def liftE_def)
  next
    case acts: (Inr acts)
    obtain n w' where "execute_all db acts w = (Inr n, w')" using execute_all_ok by blast
    then show thesis using that(2) [of n claimed' w'] f Inr b acts by (simp add: apply_row_def bindE_def liftE_def)
  qed
qed

text \<open>
  C10. The single-order resolver keeps its three answers apart. True says the order is not in
  the store, or carries a venue handle or a terminal state by now. False says the venue was
  read and the order has neither. An exception, whatever it is, says nothing was learnt: the
  tables are as they were.
\<close>

theorem lib_resolver_honest:
  assumes "lib_resolve_order_now la db cid w = (x, w')"
  shows "case x of
     Inl e \<Rightarrow> same_store w w'
   | Inr True \<Rightarrow> find_order cid w = None \<or> (\<exists>r. find_order cid w' = Some r \<and> is_resolved r)
   | Inr False \<Rightarrow>
       (\<exists>r items. find_order cid w = Some r \<and> \<not> is_resolved r \<and>
          outcome (lib_fetch_venue_orders la (r_account r)) w = Inr items) \<and>
       (\<forall>r. find_order cid w' = Some r \<longrightarrow> \<not> is_resolved r)"
proof (cases "find_order cid w")
  case None
  then show ?thesis using assms by (auto simp: lib_resolve_order_now_def fetch_order_def bindE_def)
next
  case (Some r)
  show ?thesis
  proof (cases "is_resolved r")
    case True
    then show ?thesis using assms Some by (auto simp: lib_resolve_order_now_def fetch_order_def bindE_def)
  next
    case False
    obtain got w1 where got: "lib_fetch_venue_orders la (r_account r) w = (got, w1)" by fastforce
    have frame: "same_store w w1" using effectD [OF lib_fetch_frame [of la "r_account r"], of w] got by simp
    show ?thesis
    proof (cases got)
      case (Inl e)
      then show ?thesis using assms Some False got frame
        by (auto simp: lib_resolve_order_now_def fetch_order_def fetch_orders_for_reconcile_def bindE_def)
    next
      case (Inr items)
      let ?claimed = "handles (filter (\<lambda>q. r_account q = r_account r \<and> r_client_order_id q \<noteq> cid)
        (sort_key r_created_at (filter (\<lambda>q. r_broker q = LIBERATOR \<and> r_status q \<in> set RECONCILE_STATES) (orders w))))"
      show ?thesis
      proof (cases rule: apply_row_cases [of db lib_key lib_plan_actions r items ?claimed "clock w1" False w1])
        case (1 e)
        then show ?thesis using assms Some False got frame Inr
          by (auto simp: lib_resolve_order_now_def fetch_order_def fetch_orders_for_reconcile_def lib_apply_row_def bindE_def)
      next
        case (2 n claimed' w2)
        then show ?thesis using assms Some False got Inr
          by (auto simp: lib_resolve_order_now_def fetch_order_def fetch_orders_for_reconcile_def lib_apply_row_def bindE_def
              split: bool.split option.splits)
      qed
    qed
  qed
qed

text \<open>A bridge that lists the given rows, for the examples.\<close>

definition demo_bridge :: "VenueOrderItem list \<Rightarrow> ('r, 'v) LiberatorAdapter" where
  "demo_bridge items =
     \<lparr>la_transport =
        \<lparr>lt_base_url = ''http://bridge'',
         lt_client =
           \<lparr>hc_get = (\<lambda>_ v. (Inr (200, Some (JObj [(''raw_response'', JObj [(''result'',
              JObj [(''list'', JList (map (\<lambda>n. JObj [(''row'', JInt (int n))]) [0..<length items]))])])])), v)),
            hc_post = (\<lambda>_ _ v. (Inr (200, None), v))\<rparr>,
         lt_schema =
           \<lparr>validate_envelope = (\<lambda>_. Inl (ValidationError [])),
            validate_item = (\<lambda>kvs. case kvs of
               [(_, JInt n)] \<Rightarrow> Inr (items ! nat n) | _ \<Rightarrow> Inl (ValidationError []))\<rparr>\<rparr>,
      la_resolve_order = Some lib_resolve_order_from_store, la_sleep = demo_pause, la_isoformat = (\<lambda>_. [])\<rparr>"

lemma demo_bridge_lists: "lib_fetch_venue_orders (demo_bridge [i]) acct w = (Inr [i], w)"
  by (simp add: lib_fetch_venue_orders_def lib_get_json_def demo_bridge_def on_venue_def bindE_def catchE_def
      liftE_def parse_order_items_def venue_order_rows_def envelope_result_def)

theorem lib_resolver_honest_witness:
  "\<exists>w' r. lib_resolve_order_now (demo_bridge [demo_item ''V1'' 0 [] 2000000]) frozen_db ''c''
       (demo_world [demo_lib_row ''c'' PENDING_NEW] []) = (Inr True, w') \<and>
     find_order ''c'' w' = Some r \<and> is_resolved r"
proof -
  let ?r = "demo_lib_row ''c'' PENDING_NEW" and ?i = "demo_item ''V1'' 0 [] 2000000"
  let ?w = "demo_world [?r] []"
  have m: "match_row lib_key ?r [?i] {} 0 False = Inr (Some ?i, False, {''V1''})"
    by (simp add: match_row_def by_handle_def demo_lib_row_def demo_row_def fuzzy_match_def resembles_def lib_key_def
        demo_item_def demo_side demo_price price_differs_def FUZZY_WINDOW_def ambiguous_def)
  have p: "lib_plan_actions ?r 0 (Some ?i) 0 False = Inr [Ack ''c'' ''V1'']"
    by (simp add: lib_plan_actions_def plan_present_def terminal_actions_def demo_item_resting demo_lib_row_def demo_row_def Let_def)
  obtain w' where "ack_order frozen_db ''c'' ''V1'' ?w = (Inr (), w')"
    "\<exists>r. find_order ''c'' w' = Some r \<and> r_broker_order_id r = Some ''V1''"
    by (simp add: ack_order_def db_update_def tbl_update_def demo_lib_row_def demo_defs bindE_def hub_publish_def is_legal_edge Let_def)
  then have "lib_resolve_order_now (demo_bridge [?i]) frozen_db ''c'' ?w = (Inr True, w')"
    using m p
    by (auto simp: lib_resolve_order_now_def fetch_order_def fetch_orders_for_reconcile_def demo_bridge_lists
        lib_apply_row_def apply_row_def fetch_order_result_def bindE_def catchE_def liftE_def handles_def
        is_resolved_def is_terminal_def TERMINAL_STATES_def demo_lib_row_def demo_row_def demo_world_def order_result_def sum_quantity_def fills_of_def)
  from lib_resolver_honest [OF this] this show ?thesis by (auto simp: demo_lib_row_def demo_defs)
qed

section \<open>Where the code falls short of its comments\<close>

text \<open>
  Only working rows claim their venue orders. An order that is already filled does not, so an
  equal order placed within five seconds of it, whose own acknowledgement was lost, is bound to
  the first order's venue row and records the first order's trade as its own: two hundred
  units filled where the venue traded one hundred.
\<close>

definition twin_world :: "(unit, unit) world" where
  "twin_world =
     demo_world [(demo_lib_row ''c1'' FILLED)\<lparr>r_broker_order_id := Some ''V1''\<rparr>, demo_lib_row ''c2'' PENDING_NEW]
       [demo_fill ''c1'' ''V1:100'' 100]"

lemma terminal_rows_claim_nothing:
  "(let w' = snd (lib_resolve_order_now (demo_bridge [demo_item ''V1'' 100 [] 2000000]) frozen_db ''c2'' twin_world)
    in map (\<lambda>f. (f_client_order_id f, f_broker_fill_id f, f_quantity f)) (fills w') =
         [(''c1'', ''V1:100'', 100), (''c2'', ''V1:100'', 100)] \<and>
       map (\<lambda>r. (r_broker_order_id r, r_status r)) (orders w') =
         [(Some ''V1'', FILLED), (Some ''V1'', FILLED)])"
  by code_simp

text \<open>
  A trade the venue reports together with the cancel of an order that is being cancelled is
  never recorded: the plan only confirms the cancel, and the order leaves the working set.
\<close>

lemma late_fill_is_dropped:
  "lib_plan_actions (demo_lib_row ''c'' PENDING_CANCEL) 0 (Some (demo_item ''V1'' 40 ''X'' 0)) 0 False =
     Inr [Cancel_confirm ''c'']"
  by code_simp

text \<open>
  One venue row without an offset in its time ends the pass: the exception is raised while
  matching, outside the handler that guards single actions, and the orders behind it wait.
\<close>

lemma naive_time_ends_the_pass:
  "fst (lib_reconcile_once
          (demo_bridge [(demo_item ''V1'' 0 [] 0)\<lparr>vi_entry_time := Some (Naive 0)\<rparr>]) frozen_db
          ((demo_world [demo_lib_row ''c1'' PENDING_NEW, (demo_lib_row ''c2'' PENDING_CANCEL)\<lparr>r_account := ''B''\<rparr>] [])
             \<lparr>clock := 6000000\<rparr>)) = Inl (OtherError ''TypeError'')"
  by code_simp

text \<open>
  A health body that is JSON but not an object raises out of the probe, so the breaker is not
  fed: any number of such heartbeats leaves it closed.
\<close>

lemma odd_health_body_feeds_nothing:
  "lib_heartbeat_pass ((demo_bridge [])\<lparr>la_transport :=
       (la_transport (demo_bridge []))\<lparr>lt_client :=
          \<lparr>hc_get = (\<lambda>_ v. (Inr (200, Some (JStr ''down'')), v)), hc_post = (\<lambda>_ _ v. (Inr (200, None), v))\<rparr>\<rparr>\<rparr>)
     (returnE ()) w = (Inl (OtherError ''AttributeError''), w)"
  by (simp add: lib_heartbeat_pass_def heartbeat_pass_def lib_heartbeat_def lib_get_json_def demo_bridge_def
      on_venue_def bindE_def catchE_def)

section \<open>The breaker of the session\<close>

lemma lib_heartbeat_frame: "effect same_breakers any (lib_heartbeat la)"
proof -
  have venue: "effect same_breakers any (on_venue m)" for m
    by (simp add: effect_def on_venue_def same_breakers_def split: prod.splits)
  have sess: "effect same_breakers any (on_lib_session f)" for f
    by (simp add: effect_def on_lib_session_def same_breakers_def)
  show ?thesis
    unfolding lib_heartbeat_def lib_get_json_def case_prod_unfold
    by (auto intro!: session.effect_seq session.effect_catch session.effect_if session.effect_raise
        session.effect_option session.effect_return venue sess split: option.split json.split)
qed

text \<open>
  Whatever the heartbeats have been, one more pass feeds the breaker its outcome, and the
  trip hook runs exactly when this is the failure that completes a run of as many as the
  threshold: not before, not on the failures after it, and a hook that raises changes nothing
  of the answer.
\<close>

theorem lib_trip_fires_once:
  assumes "breakers w LIBERATOR = feed hs (new_breaker n)" and "1 \<le> n" and "lib_heartbeat la w = (Inr ok, w1)"
    and "fed = w1\<lparr>breakers := (breakers w1)(LIBERATOR := feed (hs @ [ok]) (new_breaker n))\<rparr>"
  shows "lib_heartbeat_pass la on_trip w =
    (Inr ok, if int (trailing_failures (hs @ [ok])) = n then after on_trip fed else fed)"
proof -
  have "same_breakers w w1" using effectD [OF lib_heartbeat_frame [of la], of w] assms(3) by simp
  then show ?thesis
    unfolding lib_heartbeat_pass_def using assms by (intro heartbeat_pass_fires [where hs = hs]) simp_all
qed

theorem lib_trip_fires_once_witness:
  "\<exists>w' :: (unit, unit) world. lib_heartbeat_pass (demo_bridge []) (\<lambda>w. (Inl AssertionError, w\<lparr>clock := 7\<rparr>))
       ((demo_world [] [])\<lparr>breakers := (\<lambda>_. feed [False, False] (new_breaker 3))\<rparr>) = (Inr False, w') \<and> clock w' = 7"
proof -
  let ?w = "(demo_world [] [])\<lparr>breakers := (\<lambda>_. feed [False, False] (new_breaker 3))\<rparr>"
  have "lib_heartbeat (demo_bridge []) ?w = (Inr False, ?w\<lparr>lib_session := (lib_session ?w)\<lparr>lib_heartbeat_ok := Some False\<rparr>\<rparr>)"
    by (simp add: lib_heartbeat_def lib_get_json_def demo_bridge_def on_venue_def bindE_def catchE_def on_lib_session_def)
  from lib_trip_fires_once [OF _ _ this refl, of "[False, False]" 3 "\<lambda>w. (Inl AssertionError, w\<lparr>clock := 7\<rparr>)"]
  show ?thesis by (simp add: trailing_failures_def)
qed

end
