(* ===== verification/StreamingProReconciler.thy ===== *)
theory StreamingProReconciler
  imports StreamingPro LiberatorReconciler
begin

text \<open>
  Streaming Pro's reconciler, heartbeat and runtime (\<open>adapters/streaming_pro/reconciler.py\<close>,
  \<open>heartbeat.py\<close>, \<open>runtime.py\<close>), over the steps both packages share.
\<close>

section \<open>Planning\<close>

definition sp_fill_price_for :: "OrderRow \<Rightarrow> VenueOrderRow \<Rightarrow> exn + decimal option" where
  "sp_fill_price_for row item =
     (if has_price (vr_price item) then Inr (vr_price item)
      else Inr (case r_price row of Some p \<Rightarrow> Some p | None \<Rightarrow> r_stop_price row))"

definition sp_key :: "VenueOrderRow \<Rightarrow> venue_key" where
  "sp_key item =
     \<lparr>vk_order_no = vr_order_no item, vk_symbol = vr_symbol item, vk_volume = vr_volume item,
      vk_side = sp_from_venue_side (vr_side item), vk_price = vr_price item, vk_entry_time = vr_entry_time item\<rparr>"

definition sp_fuzzy_match ::
  "OrderRow \<Rightarrow> VenueOrderRow list \<Rightarrow> string set \<Rightarrow> exn + VenueOrderRow MatchOutcome" where
  "sp_fuzzy_match row items claimed = fuzzy_match sp_key row items claimed"

definition sp_reject_text :: "VenueOrderRow \<Rightarrow> string" where
  "sp_reject_text item =
     strip (''streaming_pro reject '' @
            (if vr_reject_reason item \<noteq> [] then vr_reject_reason item
             else if vr_status_show item \<noteq> [] then vr_status_show item
             else vr_status item))"

definition sp_plan_absent :: "OrderRow \<Rightarrow> timestamp \<Rightarrow> bool \<Rightarrow> ReconcileAction list" where
  "sp_plan_absent row now amb =
     (let cid = r_client_order_id row; age = now - r_created_at row
      in if r_status row = PENDING_NEW
         then (if amb then []
               else if ACK_LOST_TIMEOUT < age then [Reject cid ''ack_lost_unmatched''] else [])
         else if r_status row = PENDING_CANCEL then [Cancel_confirm cid]
         else [])"

definition sp_plan_actions :: "VenueOrderRow planner" where
  "sp_plan_actions row filled item now amb =
     (case item of
        None \<Rightarrow> Inr (sp_plan_absent row now amb)
      | Some i \<Rightarrow>
          plan_present row filled (vr_order_no i) (vr_matched i) (sp_classify_venue_state i)
            (sp_reject_text i) (sp_fill_price_for row i))"

section \<open>The reconciler\<close>

definition sp_reconcile_once :: "('r, 'v) StreamingProAdapter \<Rightarrow> db_env \<Rightarrow> ('r, 'v, nat) eng" where
  "sp_reconcile_once sa db =
     bindE (fetch_orders_for_reconcile STREAMING_PRO False) (\<lambda>rows.
     if rows = [] then returnE 0
     else
       bindE (getsE clock) (\<lambda>now.
       reconcile_groups db sp_key sp_plan_actions is_sp_transport_error
         (\<lambda>(acct, m). sp_fetch_venue_orders sa acct m) now
         (group_rows (\<lambda>r. (r_account r, r_market r)) rows)))"

definition sp_heartbeat_pass ::
  "('r, 'v) StreamingProAdapter \<Rightarrow> ('r, 'v, unit) eng \<Rightarrow> ('r, 'v, bool) eng" where
  "sp_heartbeat_pass sa on_trip = heartbeat_pass STREAMING_PRO (sp_heartbeat sa) on_trip"

section \<open>Runtime\<close>

definition sp_resolve_order_from_store :: "string \<Rightarrow> ('r, 'v, order_ref option) eng" where
  "sp_resolve_order_from_store cid =
     bindE (fetch_order cid) (\<lambda>found.
     returnE (case found of
                None \<Rightarrow> None
              | Some row \<Rightarrow>
                  map_option (\<lambda>boid. (boid, r_market row, r_account row, r_symbol row)) (r_broker_order_id row)))"

definition streaming_pro_enabled :: "Settings \<Rightarrow> bool" where
  "streaming_pro_enabled s \<longleftrightarrow>
     stage s \<in> set BROKER_STAGES \<and> \<not> public_mode s \<and> streaming_pro_api_key s \<noteq> None"

record ('r, 'v) StreamingProRuntime =
  sr_adapter :: "('r, 'v) StreamingProAdapter option"
  sr_tasks :: "string list"

definition new_streaming_pro_adapter ::
  "sp_coercions \<Rightarrow> ('r, 'v) platform \<Rightarrow> Settings \<Rightarrow> ('r, 'v) StreamingProAdapter" where
  "new_streaming_pro_adapter co pl s =
     \<lparr>sa_transport = \<lparr>st_base_url = streaming_pro_base_url s, st_client = pl_client pl, st_coercions = co\<rparr>,
      sa_resolve_order = Some sp_resolve_order_from_store, sa_sleep = pl_sleep pl, sa_isoformat = pl_isoformat pl\<rparr>"

definition create_streaming_pro_runtime ::
  "sp_coercions \<Rightarrow> ('r, 'v) platform \<Rightarrow> Settings \<Rightarrow> ('r, 'v) StreamingProRuntime \<Rightarrow> ('r, 'v) world \<Rightarrow>
   ('r, 'v) StreamingProRuntime \<times> ('r, 'v) world" where
  "create_streaming_pro_runtime co pl s sr w =
     (if sr_adapter sr \<noteq> None \<or> \<not> streaming_pro_enabled s then (sr, w)
      else
        (sr\<lparr>sr_adapter := Some (new_streaming_pro_adapter co pl s)\<rparr>,
         w\<lparr>breakers := (breakers w)(STREAMING_PRO := new_breaker (streaming_pro_circuit_breaker_threshold s)),
           buckets := (buckets w)(STREAMING_PRO :=
             new_bucket (of_int (streaming_pro_post_rate_limit s)) (seconds (clock w))),
           sp_session := new_streaming_pro_session\<rparr>))"

definition start_streaming_pro_workers ::
  "Settings \<Rightarrow> ('r, 'v) StreamingProRuntime \<Rightarrow> ('r, 'v) StreamingProRuntime" where
  "start_streaming_pro_workers s sr =
     (if sr_adapter sr = None then sr
      else sr\<lparr>sr_tasks := sr_tasks sr @ [''streaming_pro-heartbeat''] @
               (if stage s \<in> set RECONCILE_STAGES then [''streaming_pro-reconciler''] else [])\<rparr>)"

definition close_streaming_pro_runtime :: "('r, 'v) StreamingProRuntime \<Rightarrow> ('r, 'v) StreamingProRuntime" where
  "close_streaming_pro_runtime sr = sr\<lparr>sr_adapter := None, sr_tasks := []\<rparr>"

definition sp_on_trip :: "('r, 'v) OrderRouter \<Rightarrow> ('r, 'v) StreamingProAdapter \<Rightarrow> ('r, 'v, unit) eng" where
  "sp_on_trip rt sa =
     bindE (mass_cancel (rt\<lparr>liberator := None, streaming_pro := Some (streaming_pro_adapter sa),
                            sim_price_source := None, handle_resolver := None\<rparr>)) (\<lambda>_.
     returnE ())"

section \<open>The contracts\<close>

interpretation sp: reconciler sp_key sp_plan_actions vr_matched sp_classify_venue_state sp_reject_text sp_fill_price_for
proof unfold_locales
  fix i
  obtain t where "sp_reject_text i = CHR ''s'' # t"
    using strip_prefix [of "CHR ''s''"] by (fastforce simp: sp_reject_text_def is_space_def)
  then show "sp_reject_text i \<noteq> ''ack_lost_unmatched''" by simp
qed (simp_all add: sp_plan_actions_def sp_key_def sp_plan_absent_def Let_def)

lemma sp_reconcile_once_evolves:
  assumes "guard_frozen db"
  shows "effect evolves any (sp_reconcile_once sa db)"
  unfolding sp_reconcile_once_def fetch_orders_for_reconcile_def
  by (intro store.effect_seq store.effect_gets_any store.effect_if store.effect_return reconcile_groups_evolves assms)
    (auto intro: frame_evolves [OF sp_fetch_frame])

lemma sp_resolve_from_store_frame: "effect same_store any (sp_resolve_order_from_store cid)"
  unfolding sp_resolve_order_from_store_def fetch_order_def
  by (intro frame.effect_seq frame.effect_gets_any frame.effect_return) simp

lemma new_streaming_pro_adapter_ok:
  assumes "\<And>d w. evolves w (pl_sleep pl d w)"
  shows "streaming_pro_ok (new_streaming_pro_adapter co pl s)"
  using assms sp_resolve_from_store_frame by (auto simp: streaming_pro_ok_def new_streaming_pro_adapter_def)

lemma sp_heartbeat_frames:
  "effect same_breakers any (sp_heartbeat sa)" "effect same_store any (sp_heartbeat sa)"
proof -
  have venue: "effect same_breakers any (on_venue m)" for m
    by (simp add: effect_def on_venue_def same_breakers_def split: prod.splits)
  have sess: "effect same_breakers any (on_sp_session f)" for f
    by (simp add: effect_def on_sp_session_def same_breakers_def)
  show "effect same_breakers any (sp_heartbeat sa)"
    unfolding sp_heartbeat_def sp_get_json_def
    by (intro session.effect_seq session.effect_catch session.effect_raise session.effect_lift_any
        session.effect_return venue sess) simp_all
  show "effect same_store any (sp_heartbeat sa)"
    unfolding sp_heartbeat_def
    by (intro frame.effect_seq frame.effect_catch frame.effect_return sp_get_json_frame on_sp_session_frame) simp_all
qed

text \<open>
  The book of a refused read is empty, so a bridge that answers 401 makes the reconciler confirm
  a cancel nobody has confirmed and give up an order that may be resting at the venue.
\<close>

definition demo_sp_row :: "string \<Rightarrow> OrderState \<Rightarrow> OrderRow" where
  "demo_sp_row cid st = (demo_row cid st)\<lparr>r_broker := STREAMING_PRO\<rparr>"

lemma refused_read_closes_orders:
  "map (\<lambda>r. (r_status r, r_reject_reason r)) (orders (snd (sp_reconcile_once
      (demo_sp (401, Some (JObj [(''detail'', JStr ''invalid API key'')])) (200, None)) frozen_db
      ((demo_world [demo_sp_row ''c1'' PENDING_NEW, demo_sp_row ''c2'' PENDING_CANCEL] [])\<lparr>clock := 61000000\<rparr>)))) =
     [(REJECTED, Some ''ack_lost_unmatched''), (CANCELLED, None)]"
  by code_simp

end
