(* ===== verification/Engine.thy ===== *)
theory Engine
  imports StreamingProReconciler
begin

text \<open>
  The process as a whole: the start-up of \<open>api/main.py\<close>, the router of a request
  (\<open>api/deps.py\<close>) over the two broker runtimes, and the requests, reconciler passes and
  heartbeats that follow each other on the one event loop, in any order.
\<close>

section \<open>The router of a request\<close>

text \<open>
  \<open>get_router_dep\<close>: the adapters of the two runtimes, the pricer and the market-data client of
  the process, and Liberator's resolver where its reconciler runs.
\<close>

record ('r, 'v) process =
  pr_settings :: Settings
  pr_pool :: db_env
  pr_redis :: "'r redis_client option"
  pr_liberator :: "('r, 'v) LiberatorRuntime"
  pr_streaming_pro :: "('r, 'v) StreamingProRuntime"
  pr_sim_pricer :: "'v MarketDataClient option"
  pr_market_data :: "'v MarketDataClient"
  pr_pause :: "('r, 'v) pause"
  pr_token :: "('r, 'v) world \<Rightarrow> string"
  pr_fuel :: nat

definition get_router_dep :: "('r, 'v) process \<Rightarrow> ('r, 'v) OrderRouter" where
  "get_router_dep p =
     \<lparr>settings = pr_settings p, pool = pr_pool p, client = pr_redis p,
      liberator = map_option liberator_adapter (lr_adapter (pr_liberator p)),
      streaming_pro = map_option streaming_pro_adapter (sr_adapter (pr_streaming_pro p)),
      sim_price_source = pr_sim_pricer p, market_data = pr_market_data p,
      handle_resolver = get_liberator_handle_resolver (pr_pool p) (pr_liberator p),
      pause = pr_pause p, fresh_token = pr_token p, fuel = pr_fuel p\<rparr>"

section \<open>Start-up and shut-down\<close>

text \<open>
  The part of the lifespan that decides about real routing: the declaration is checked before
  anything else, then the runtimes are created and their workers started.
\<close>

definition start_brokers ::
  "sp_coercions \<Rightarrow> ('r, 'v) platform \<Rightarrow> ('r, 'v) process \<Rightarrow> ('r, 'v) world \<Rightarrow> ('r, 'v) process \<times> ('r, 'v) world" where
  "start_brokers co pl p w =
     (case create_liberator_runtime pl (pr_settings p) (pr_liberator p) w of
        (lr, w1) \<Rightarrow>
          (case create_streaming_pro_runtime co pl (pr_settings p) (pr_streaming_pro p) w1 of
             (sr, w2) \<Rightarrow>
               (p\<lparr>pr_liberator := start_liberator_workers (pr_settings p) lr,
                  pr_streaming_pro := start_streaming_pro_workers (pr_settings p) sr\<rparr>, w2)))"

definition lifespan ::
  "sp_coercions \<Rightarrow> ('r, 'v) platform \<Rightarrow> ('r, 'v) process \<Rightarrow> ('r, 'v) world \<Rightarrow>
   exn + ('r, 'v) process \<times> ('r, 'v) world" where
  "lifespan co pl p w =
     (case assert_startup_declaration (pr_settings p) of
        Inl e \<Rightarrow> Inl e
      | Inr _ \<Rightarrow> Inr (start_brokers co pl p w))"

definition close_brokers :: "('r, 'v) process \<Rightarrow> ('r, 'v) process" where
  "close_brokers p =
     p\<lparr>pr_liberator := close_liberator_runtime (pr_liberator p),
       pr_streaming_pro := close_streaming_pro_runtime (pr_streaming_pro p)\<rparr>"

section \<open>The event loop\<close>

text \<open>
  A coroutine that was resumed runs to its next wait; what happens inside the waits of a request
  is \<open>pr_pause\<close>. Between requests the workers run whole passes, whose exceptions their loops
  swallow.
\<close>

datatype engine_event = Request request | Lib_pass | Sp_pass | Lib_beat | Sp_beat

definition on_liberator :: "('r, 'v) process \<Rightarrow> (('r, 'v) LiberatorAdapter \<Rightarrow> ('r, 'v, 'a) eng) \<Rightarrow>
  ('r, 'v) world \<Rightarrow> ('r, 'v) world" where
  "on_liberator p m w = (case lr_adapter (pr_liberator p) of Some la \<Rightarrow> after (m la) w | None \<Rightarrow> w)"

definition on_streaming_pro :: "('r, 'v) process \<Rightarrow> (('r, 'v) StreamingProAdapter \<Rightarrow> ('r, 'v, 'a) eng) \<Rightarrow>
  ('r, 'v) world \<Rightarrow> ('r, 'v) world" where
  "on_streaming_pro p m w = (case sr_adapter (pr_streaming_pro p) of Some sa \<Rightarrow> after (m sa) w | None \<Rightarrow> w)"

definition engine_step :: "('r, 'v) process \<Rightarrow> engine_event \<Rightarrow> ('r, 'v) world \<Rightarrow> ('r, 'v) world" where
  "engine_step p ev w =
     (case ev of
        Request req \<Rightarrow> serve_one (get_router_dep p) req w
      | Lib_pass \<Rightarrow>
          if ''liberator-reconciler'' \<in> set (lr_tasks (pr_liberator p))
          then on_liberator p (\<lambda>la. lib_reconcile_once la (pr_pool p)) w else w
      | Sp_pass \<Rightarrow>
          if ''streaming_pro-reconciler'' \<in> set (sr_tasks (pr_streaming_pro p))
          then on_streaming_pro p (\<lambda>sa. sp_reconcile_once sa (pr_pool p)) w else w
      | Lib_beat \<Rightarrow>
          if ''liberator-heartbeat'' \<in> set (lr_tasks (pr_liberator p))
          then on_liberator p (\<lambda>la. lib_heartbeat_pass la (lib_on_trip (get_router_dep p) la)) w else w
      | Sp_beat \<Rightarrow>
          if ''streaming_pro-heartbeat'' \<in> set (sr_tasks (pr_streaming_pro p))
          then on_streaming_pro p (\<lambda>sa. sp_heartbeat_pass sa (sp_on_trip (get_router_dep p) sa)) w else w)"

definition run :: "('r, 'v) process \<Rightarrow> engine_event list \<Rightarrow> ('r, 'v) world \<Rightarrow> ('r, 'v) world" where
  "run p evs w = foldl (\<lambda>u ev. engine_step p ev u) w evs"

section \<open>The process keeps the store's promise\<close>

definition process_ok :: "('r, 'v) process \<Rightarrow> bool" where
  "process_ok p \<longleftrightarrow>
     guard_frozen (pr_pool p) \<and>
     (\<forall>la. lr_adapter (pr_liberator p) = Some la \<longrightarrow> liberator_ok la) \<and>
     (\<forall>sa. sr_adapter (pr_streaming_pro p) = Some sa \<longrightarrow> streaming_pro_ok sa) \<and>
     (\<forall>d w. evolves w (pr_pause p d w))"

lemma router_dep_ok:
  assumes "process_ok p"
  shows "router_ok (get_router_dep p)"
  using assms liberator_is_adapter streaming_pro_is_adapter lib_resolve_order_now_evolves
  by (auto simp: router_ok_def get_router_dep_def process_ok_def get_liberator_handle_resolver_def
      split: option.splits if_splits)

lemma mass_cancel_evolves:
  assumes "router_ok rt"
  shows "effect evolves any (mass_cancel rt)"
proof -
  have "order_router rt" by (rule order_router.intro [OF assms])
  from order_router.sweeps_evolve [OF this] show ?thesis .
qed

lemma trip_evolves:
  assumes "process_ok p"
  shows "lr_adapter (pr_liberator p) = Some la \<Longrightarrow> effect evolves any (lib_on_trip (get_router_dep p) la)"
    and "sr_adapter (pr_streaming_pro p) = Some sa \<Longrightarrow> effect evolves any (sp_on_trip (get_router_dep p) sa)"
proof -
  have ok: "router_ok (get_router_dep p)" by (rule router_dep_ok [OF assms])
  show "effect evolves any (lib_on_trip (get_router_dep p) la)" if la: "lr_adapter (pr_liberator p) = Some la"
    unfolding lib_on_trip_def
    by (intro store.effect_seq mass_cancel_evolves store.effect_return)
      (use la ok assms liberator_is_adapter in \<open>auto simp: router_ok_def process_ok_def\<close>)
  show "effect evolves any (sp_on_trip (get_router_dep p) sa)" if sa: "sr_adapter (pr_streaming_pro p) = Some sa"
    unfolding sp_on_trip_def
    by (intro store.effect_seq mass_cancel_evolves store.effect_return)
      (use sa ok assms streaming_pro_is_adapter in \<open>auto simp: router_ok_def process_ok_def\<close>)
qed

lemma feed_breaker_evolves: "effect evolves any (feed_breaker b f)"
  by (rule frame_evolves) (simp add: effect_def feed_breaker_def same_store_def)

lemma heartbeat_pass_evolves:
  assumes "effect evolves any probe" and "effect evolves any on_trip"
  shows "effect evolves any (heartbeat_pass b probe on_trip)"
  unfolding heartbeat_pass_def
  by (intro store.effect_seq store.effect_gets_any store.effect_if store.effect_return store.effect_catch
      feed_breaker_evolves assms) simp_all

lemma lib_heartbeat_evolves: "effect evolves any (lib_heartbeat la)"
  by (rule frame_evolves, unfold lib_heartbeat_def)
    (auto intro!: frame.effect_seq frame.effect_catch frame.effect_return frame.effect_raise frame.effect_option
      lib_get_json_frame on_lib_session_frame split: option.split json.split)

lemma engine_step_evolves:
  assumes "process_ok p"
  shows "evolves w (engine_step p ev w)"
proof (cases ev)
  case (Request req)
  have "evolves w (serve (get_router_dep p) [req] w)"
    by (rule order_router.serve_evolves [OF order_router.intro [OF router_dep_ok [OF assms]]])
  then show ?thesis by (simp add: Request engine_step_def serve_def)
next
  case Lib_pass
  have "guard_frozen (pr_pool p)" using assms by (simp add: process_ok_def)
  from effectD [OF lib_reconcile_once_evolves [OF this]] show ?thesis
    by (auto simp: Lib_pass engine_step_def on_liberator_def evolves_refl split: option.split)
next
  case Sp_pass
  have "guard_frozen (pr_pool p)" using assms by (simp add: process_ok_def)
  from effectD [OF sp_reconcile_once_evolves [OF this]] show ?thesis
    by (auto simp: Sp_pass engine_step_def on_streaming_pro_def evolves_refl split: option.split)
next
  case Lib_beat
  have "effect evolves any (lib_heartbeat_pass la (lib_on_trip (get_router_dep p) la))"
    if "lr_adapter (pr_liberator p) = Some la" for la
    unfolding lib_heartbeat_pass_def
    by (intro heartbeat_pass_evolves lib_heartbeat_evolves trip_evolves [OF assms] that)
  then show ?thesis
    by (auto simp: Lib_beat engine_step_def on_liberator_def evolves_refl dest: effectD split: option.split)
next
  case Sp_beat
  have "effect evolves any (sp_heartbeat_pass sa (sp_on_trip (get_router_dep p) sa))"
    if "sr_adapter (pr_streaming_pro p) = Some sa" for sa
    unfolding sp_heartbeat_pass_def
    by (intro heartbeat_pass_evolves frame_evolves [OF sp_heartbeat_frames(2)] trip_evolves [OF assms] that)
  then show ?thesis
    by (auto simp: Sp_beat engine_step_def on_streaming_pro_def evolves_refl dest: effectD split: option.split)
qed

lemma run_evolves:
  assumes "process_ok p"
  shows "evolves w (run p evs w)"
proof (induction evs arbitrary: w)
  case (Cons ev evs)
  show ?case
    using evolves_trans [OF engine_step_evolves [OF assms, of w ev] Cons.IH] by (simp add: run_def)
qed (simp add: run_def evolves_refl)

text \<open>
  The process right after start-up over a platform whose sleeps only pass time. Its router is
  an order router: what was proved of one holds of the engine with its real adapters.
\<close>

definition idle_process ::
  "Settings \<Rightarrow> 'r redis_client option \<Rightarrow> 'v MarketDataClient option \<Rightarrow> 'v MarketDataClient \<Rightarrow> ('r, 'v) process" where
  "idle_process s c src md =
     \<lparr>pr_settings = s, pr_pool = frozen_db, pr_redis = c,
      pr_liberator = \<lparr>lr_adapter = None, lr_reconciler = False, lr_tasks = []\<rparr>,
      pr_streaming_pro = \<lparr>sr_adapter = None, sr_tasks = []\<rparr>,
      pr_sim_pricer = src, pr_market_data = md, pr_pause = demo_pause, pr_token = (\<lambda>_. ''token''), pr_fuel = 400\<rparr>"

lemma demo_pause_evolves: "evolves w (demo_pause d w)"
  by (rule same_store_evolves) (simp add: same_store_def demo_pause_def)

lemma start_brokers_ok:
  assumes "process_ok p" and "\<And>d w. evolves w (pl_sleep pl d w)"
  shows "process_ok (fst (start_brokers co pl p w))"
  using assms new_liberator_adapter_ok [OF assms(2), of "pr_settings p"]
    new_streaming_pro_adapter_ok [OF assms(2), of co "pr_settings p"]
  by (auto simp: process_ok_def start_brokers_def create_liberator_runtime_def create_streaming_pro_runtime_def
      start_liberator_workers_def start_streaming_pro_workers_def Let_def split: if_splits)

lemma idle_process_ok: "process_ok (idle_process s c src md)"
  by (simp add: process_ok_def idle_process_def demo_pause_evolves)

interpretation booted: order_router
  "get_router_dep (fst (start_brokers co (pl\<lparr>pl_sleep := demo_pause\<rparr>) (idle_process s c src md) w))"
  by unfold_locales (auto intro!: router_dep_ok start_brokers_ok idle_process_ok demo_pause_evolves)

text \<open>
  C1. The history of every order under the whole engine: any interleaving of requests with
  reconciler passes and heartbeats of both brokers, sweeps of a tripped breaker included. An
  order keeps its identity, its status moves along the frozen edges only, a terminal order
  stays as it is, no recorded fill is lost, and the keys of both tables stay unique.
\<close>

theorem engine_with_workers:
  assumes "process_ok p"
  shows "(\<forall>cid r. find_order cid w = Some r \<longrightarrow>
            (\<exists>r'. find_order cid (run p evs w) = Some r' \<and> same_identity r r' \<and>
                  legal_path (r_status r) (r_status r') \<and>
                  (is_terminal (r_status r) \<longrightarrow> r_status r' = r_status r))) \<and>
         prefix (fills w) (fills (run p evs w)) \<and>
         (store_wf w \<longrightarrow> store_wf (run p evs w))"
proof (intro conjI allI impI)
  note step = run_evolves [OF assms, of w evs]
  fix cid r
  assume row: "find_order cid w = Some r"
  from evolves_row [OF step row] obtain r' where "find_order cid (run p evs w) = Some r'"
    "same_identity r r'" "legal_path (r_status r) (r_status r')" by blast
  then show "\<exists>r'. find_order cid (run p evs w) = Some r' \<and> same_identity r r' \<and>
      legal_path (r_status r) (r_status r') \<and> (is_terminal (r_status r) \<longrightarrow> r_status r' = r_status r)"
    by (auto dest: legal_path_terminal)
qed (use run_evolves [OF assms, of w evs] in \<open>auto simp: evolves_def\<close>)

text \<open>A deployment at micro_live with both keys, its bridges answering reads with empty books.\<close>

definition demo_settings :: Settings where
  "demo_settings =
     default_settings\<lparr>public_mode := False, stage := Stage_MICRO_LIVE, liberator_api_key := Some ''k1'',
       streaming_pro_api_key := Some ''k2'', real_routing_accounts := [''A'']\<rparr>"

definition demo_platform :: "(unit, unit) platform" where
  "demo_platform =
     \<lparr>pl_client = \<lparr>hc_get = (\<lambda>_ v. (Inr (200, Some (JObj [(''data'', JObj [(''result'', JObj [])])])), v)),
                   hc_post = (\<lambda>_ _ v. (Inr (200, None), v))\<rparr>,
      pl_lib_schema = \<lparr>validate_envelope = (\<lambda>_. Inl (ValidationError [])), validate_item = (\<lambda>_. Inl (ValidationError []))\<rparr>,
      pl_isoformat = (\<lambda>_. []), pl_sleep = demo_pause\<rparr>"

definition demo_process :: "(unit, unit) process" where
  "demo_process =
     fst (start_brokers demo_coercions demo_platform
            (idle_process demo_settings None None (new_market_data_client None (\<lambda>_ _ _. Inr JNull))) (demo_world [] []))"

lemma demo_process_ok: "process_ok demo_process"
  unfolding demo_process_def
  by (rule start_brokers_ok [OF idle_process_ok]) (simp add: demo_platform_def demo_pause_evolves)

theorem engine_with_workers_witness:
  "\<exists>r'. find_order ''c'' (run demo_process [Lib_pass, Request MassCancel, Sp_pass, Lib_beat, Sp_beat]
            (demo_world [demo_lib_row ''c'' FILLED] [])) = Some r' \<and> r_status r' = FILLED"
proof -
  let ?w = "demo_world [demo_lib_row ''c'' FILLED] []"
  have row: "find_order ''c'' ?w = Some (demo_lib_row ''c'' FILLED)" by (simp add: demo_defs demo_lib_row_def)
  have st: "r_status (demo_lib_row ''c'' FILLED) = FILLED" "is_terminal FILLED"
    by (simp_all add: demo_lib_row_def demo_row_def is_terminal_def TERMINAL_STATES_def)
  from engine_with_workers [OF demo_process_ok, of ?w "[Lib_pass, Request MassCancel, Sp_pass, Lib_beat, Sp_beat]"] row
  obtain r' where "find_order ''c'' (run demo_process [Lib_pass, Request MassCancel, Sp_pass, Lib_beat, Sp_beat] ?w) = Some r'"
    and "is_terminal (r_status (demo_lib_row ''c'' FILLED)) \<longrightarrow> r_status r' = r_status (demo_lib_row ''c'' FILLED)"
    by blast
  then show ?thesis unfolding st by (simp add: st(2))
qed

section \<open>Which stages run what\<close>

text \<open>
  What a start-up brings up. A deployment that could route real orders without declared
  accounts and a broker key does not start. Otherwise each broker has an adapter exactly when
  the stage is beyond sim, the deployment is in owner mode and that broker's key is set; with
  an adapter its heartbeat runs, and its reconciler runs exactly at micro_live and live, which
  is also when the router is given Liberator's resolver. Shutting down leaves neither adapter,
  worker nor resolver.
\<close>

theorem startup_matrix:
  assumes "p = idle_process s c src md" and "lifespan co pl p w = Inr (q, w')"
  shows "(stage s \<in> {Stage_MICRO_LIVE, Stage_LIVE} \<longrightarrow>
      (\<exists>a \<in> set (real_routing_accounts s). strip a \<noteq> []) \<and>
      (liberator_api_key s \<noteq> None \<or> streaming_pro_api_key s \<noteq> None)) \<and>
    (lr_adapter (pr_liberator q) \<noteq> None \<longleftrightarrow>
      stage s \<noteq> Stage_SIM \<and> \<not> public_mode s \<and> liberator_api_key s \<noteq> None) \<and>
    (sr_adapter (pr_streaming_pro q) \<noteq> None \<longleftrightarrow>
      stage s \<noteq> Stage_SIM \<and> \<not> public_mode s \<and> streaming_pro_api_key s \<noteq> None) \<and>
    (''liberator-heartbeat'' \<in> set (lr_tasks (pr_liberator q)) \<longleftrightarrow> lr_adapter (pr_liberator q) \<noteq> None) \<and>
    (''liberator-reconciler'' \<in> set (lr_tasks (pr_liberator q)) \<longleftrightarrow>
      lr_adapter (pr_liberator q) \<noteq> None \<and> stage s \<in> {Stage_MICRO_LIVE, Stage_LIVE}) \<and>
    (handle_resolver (get_router_dep q) \<noteq> None \<longleftrightarrow>
      ''liberator-reconciler'' \<in> set (lr_tasks (pr_liberator q))) \<and>
    (''streaming_pro-reconciler'' \<in> set (sr_tasks (pr_streaming_pro q)) \<longleftrightarrow>
      sr_adapter (pr_streaming_pro q) \<noteq> None \<and> stage s \<in> {Stage_MICRO_LIVE, Stage_LIVE}) \<and>
    liberator (get_router_dep (close_brokers q)) = None \<and> streaming_pro (get_router_dep (close_brokers q)) = None \<and>
    handle_resolver (get_router_dep (close_brokers q)) = None"
proof -
  have stages: "stage s \<in> set BROKER_STAGES \<longleftrightarrow> stage s \<noteq> Stage_SIM"
    "stage s \<in> set RECONCILE_STAGES \<longleftrightarrow> stage s \<in> {Stage_MICRO_LIVE, Stage_LIVE}"
    "stage s \<in> set REAL_ROUTING_STAGES \<longleftrightarrow> stage s \<in> {Stage_MICRO_LIVE, Stage_LIVE}"
    by (cases "stage s"; simp add: BROKER_STAGES_def RECONCILE_STAGES_def REAL_ROUTING_STAGES_def)+
  have ps: "pr_settings p = s" "lr_adapter (pr_liberator p) = None" "lr_tasks (pr_liberator p) = []"
    "\<not> lr_reconciler (pr_liberator p)" "sr_adapter (pr_streaming_pro p) = None" "sr_tasks (pr_streaming_pro p) = []"
    using assms(1) by (simp_all add: idle_process_def)
  have declared: "assert_startup_declaration s = Inr ()" and q: "(q, w') = start_brokers co pl p w"
    using assms(2) ps(1) by (auto simp: lifespan_def split: sum.splits)
  have "authorized_accounts s \<noteq> [] \<longleftrightarrow> (\<exists>a \<in> set (real_routing_accounts s). strip a \<noteq> [])"
    by (auto simp: authorized_accounts_def filter_empty_conv)
  then have d: "stage s \<in> {Stage_MICRO_LIVE, Stage_LIVE} \<longrightarrow>
      (\<exists>a \<in> set (real_routing_accounts s). strip a \<noteq> []) \<and> (liberator_api_key s \<noteq> None \<or> streaming_pro_api_key s \<noteq> None)"
    using declared by (auto simp: assert_startup_declaration_def stages split: if_splits)
  have qq: "q = fst (start_brokers co pl p w)" using q by (metis fst_conv)
  let ?live = "stage s \<in> {Stage_MICRO_LIVE, Stage_LIVE}"
  have lib: "lr_adapter (pr_liberator q) = (if liberator_enabled s then Some (new_liberator_adapter pl s) else None)"
    "lr_tasks (pr_liberator q) =
       (if liberator_enabled s then ''liberator-heartbeat'' # (if ?live then [''liberator-reconciler''] else []) else [])"
    "lr_reconciler (pr_liberator q) \<longleftrightarrow> liberator_enabled s \<and> ?live"
    unfolding qq
    by (simp_all add: start_brokers_def create_liberator_runtime_def start_liberator_workers_def ps stages(2) Let_def
        split: prod.split)
  have sp: "sr_adapter (pr_streaming_pro q) = (if streaming_pro_enabled s then Some (new_streaming_pro_adapter co pl s) else None)"
    "sr_tasks (pr_streaming_pro q) =
       (if streaming_pro_enabled s then ''streaming_pro-heartbeat'' # (if ?live then [''streaming_pro-reconciler''] else []) else [])"
    unfolding qq
    by (simp_all add: start_brokers_def create_streaming_pro_runtime_def start_streaming_pro_workers_def ps stages(2)
        split: prod.split)
  have enabled: "liberator_enabled s \<longleftrightarrow> stage s \<noteq> Stage_SIM \<and> \<not> public_mode s \<and> liberator_api_key s \<noteq> None"
    "streaming_pro_enabled s \<longleftrightarrow> stage s \<noteq> Stage_SIM \<and> \<not> public_mode s \<and> streaming_pro_api_key s \<noteq> None"
    by (simp_all add: liberator_enabled_def streaming_pro_enabled_def stages(1))
  have "handle_resolver (get_router_dep q) \<noteq> None \<longleftrightarrow> liberator_enabled s \<and> ?live"
    by (simp add: get_router_dep_def get_liberator_handle_resolver_def lib)
  moreover have "liberator (get_router_dep (close_brokers q)) = None" "streaming_pro (get_router_dep (close_brokers q)) = None"
    "handle_resolver (get_router_dep (close_brokers q)) = None"
    by (simp_all add: get_router_dep_def get_liberator_handle_resolver_def close_brokers_def close_liberator_runtime_def
        close_streaming_pro_runtime_def)
  ultimately show ?thesis using d unfolding lib sp enabled by simp
qed

theorem startup_matrix_witness:
  "handle_resolver (get_router_dep demo_process) \<noteq> None \<and>
   ''streaming_pro-reconciler'' \<in> set (sr_tasks (pr_streaming_pro demo_process))"
proof -
  let ?p = "idle_process demo_settings None None (new_market_data_client None (\<lambda>_ _ _. Inr JNull))"
  have "assert_startup_declaration demo_settings = Inr ()" by code_simp
  then have "lifespan demo_coercions demo_platform ?p (demo_world [] []) =
      Inr (demo_process, snd (start_brokers demo_coercions demo_platform ?p (demo_world [] [])))"
    by (simp add: lifespan_def demo_process_def idle_process_def)
  from startup_matrix [OF refl this] show ?thesis by (simp add: demo_settings_def default_settings_def)
qed

end
