(* ===== verification/ApiGuards.thy ===== *)
theory ApiGuards
  imports Router
begin

text \<open>
  What stands around every route: the headers and dependencies of \<open>api/deps.py\<close> and the mapping
  of the typed rejections onto status codes (\<open>api/error_handlers.py\<close>).
\<close>

section \<open>Requests and errors\<close>

text \<open>The headers the guards read.\<close>

record api_request =
  x_api_key :: "string option"
  x_strategy_id :: "string option"
  x_operator_id :: "string option"

text \<open>A handler ends with an \<open>HTTPException\<close> of its own, or with what the engine raised.\<close>

datatype api_error = HTTPException int | Raised exn

type_synonym ('r, 'v, 'a) api = "(('r, 'v) world, api_error, 'a) prog"

definition on_engine :: "('r, 'v, 'a) eng \<Rightarrow> ('r, 'v, 'a) api" where
  "on_engine m = (\<lambda>w. case m w of (x, w') \<Rightarrow> (map_sum Raised id x, w'))"

section \<open>Guards\<close>

definition STRATEGY_ID_MAX_LEN :: nat where
  "STRATEGY_ID_MAX_LEN = 64"

definition slug_char :: "char \<Rightarrow> bool" where
  "slug_char c =
     (let n = (of_char c :: nat)
      in (65 \<le> n \<and> n \<le> 90) \<or> (97 \<le> n \<and> n \<le> 122) \<or> (48 \<le> n \<and> n \<le> 57) \<or> c \<in> set ''._-'')"

definition get_strategy_id :: "api_request \<Rightarrow> api_error + string option" where
  "get_strategy_id rq =
     (case x_strategy_id rq of
        None \<Rightarrow> Inr None
      | Some raw \<Rightarrow>
          let value = strip raw
          in if value = [] then Inr None
             else if STRATEGY_ID_MAX_LEN < length value \<or> \<not> list_all slug_char value
             then Inl (HTTPException 422)
             else Inr (Some value))"

definition get_operator_id :: "api_request \<Rightarrow> string" where
  "get_operator_id rq =
     (case x_operator_id rq of
        None \<Rightarrow> ''anonymous''
      | Some raw \<Rightarrow> if strip raw = [] then ''anonymous'' else strip raw)"

text \<open>\<open>hmac.compare_digest\<close> of two texts: a text with a character beyond ASCII is a \<open>TypeError\<close>.\<close>

definition ascii :: "string \<Rightarrow> bool" where
  "ascii s = list_all (\<lambda>c. (of_char c :: nat) < 128) s"

definition compare_digest :: "string \<Rightarrow> string \<Rightarrow> api_error + bool" where
  "compare_digest a b =
     (if ascii a \<and> ascii b then Inr (a = b) else Inl (Raised (OtherError ''TypeError'')))"

definition provided_key :: "api_request \<Rightarrow> string" where
  "provided_key rq = (case x_api_key rq of Some k \<Rightarrow> k | None \<Rightarrow> [])"

definition is_read_key :: "string \<Rightarrow> Settings \<Rightarrow> api_error + bool" where
  "is_read_key provided s =
     (case read_api_key s of
        None \<Rightarrow> Inr False
      | Some rk \<Rightarrow>
          if rk = [] then Inr False
          else case (case api_key s of Some k \<Rightarrow> compare_digest rk k | None \<Rightarrow> Inr False) of
                 Inl e \<Rightarrow> Inl e
               | Inr True \<Rightarrow> Inr False
               | Inr False \<Rightarrow> compare_digest provided rk)"

definition require_api_key :: "Settings \<Rightarrow> api_request \<Rightarrow> api_error + unit" where
  "require_api_key s rq =
     (case api_key s of
        None \<Rightarrow> Inl (HTTPException 503)
      | Some k \<Rightarrow>
          (case compare_digest (provided_key rq) k of
             Inl e \<Rightarrow> Inl e
           | Inr True \<Rightarrow> Inr ()
           | Inr False \<Rightarrow>
               (case is_read_key (provided_key rq) s of
                  Inl e \<Rightarrow> Inl e
                | Inr True \<Rightarrow> Inl (Raised (Rejected ReadKeyForbidden None))
                | Inr False \<Rightarrow> Inl (HTTPException 401))))"

definition require_read_or_full_key :: "Settings \<Rightarrow> api_request \<Rightarrow> api_error + unit" where
  "require_read_or_full_key s rq =
     (case api_key s of
        None \<Rightarrow> Inl (HTTPException 503)
      | Some k \<Rightarrow>
          (case compare_digest (provided_key rq) k of
             Inl e \<Rightarrow> Inl e
           | Inr True \<Rightarrow> Inr ()
           | Inr False \<Rightarrow>
               (case is_read_key (provided_key rq) s of
                  Inl e \<Rightarrow> Inl e
                | Inr True \<Rightarrow> Inr ()
                | Inr False \<Rightarrow> Inl (HTTPException 401))))"

definition require_owner_mode :: "Settings \<Rightarrow> api_error + unit" where
  "require_owner_mode s =
     (if public_mode s then Inl (Raised (Rejected PublicModeRejected None)) else Inr ())"

definition READ_KEY_ROUTES :: "(string \<times> string) list" where
  "READ_KEY_ROUTES =
     [(''GET'', ''/accounts/{account}''), (''GET'', ''/accounts/{account}/positions''),
      (''GET'', ''/accounts/{account}/open-orders''), (''GET'', ''/accounts/{account}/orders''),
      (''GET'', ''/accounts/{account}/venue-orders'')]"

section \<open>Status codes\<close>

definition STATUS_BY_CODE :: "(string \<times> int) list" where
  "STATUS_BY_CODE =
     [(''public_mode'', 403), (''read_key_forbidden'', 403), (''venue_orders_unavailable'', 501),
      (''kill_switch_engaged'', 503), (''kill_switch_env_pinned'', 409), (''kill_switch_not_engaged'', 409),
      (''stage_rejected'', 403), (''real_routing_not_authorized'', 409), (''capability_unsupported'', 422),
      (''risk_rejected'', 422), (''price_band_exceeded'', 422), (''duplicate_burst_detected'', 409),
      (''order_not_found'', 404), (''order_book_unavailable'', 404), (''liberator_account_not_found'', 404),
      (''streaming_pro_account_unavailable'', 404), (''liberator_positions_uncaptured'', 501),
      (''streaming_pro_positions_uncaptured'', 501), (''order_stream_unavailable'', 503),
      (''illegal_transition'', 409), (''store_constraint_violated'', 422), (''submit_in_flight'', 409),
      (''amend_rejected'', 409), (''broker_circuit_open'', 503)]"

definition THROTTLE_CAPS :: "string list" where
  "THROTTLE_CAPS = [''rate_limit'']"

definition status_for :: "rejection \<Rightarrow> int" where
  "status_for r =
     (if (case r of RiskRejected cap \<Rightarrow> cap \<in> set THROTTLE_CAPS | _ \<Rightarrow> False) then 429
      else case map_of STATUS_BY_CODE (code r) of Some n \<Rightarrow> n | None \<Rightarrow> 400)"

text \<open>The status of an answer; an exception without a handler is a 500.\<close>

definition error_status :: "api_error \<Rightarrow> int" where
  "error_status e =
     (case e of
        HTTPException n \<Rightarrow> n
      | Raised (Rejected r _) \<Rightarrow> status_for r
      | Raised _ \<Rightarrow> 500)"

section \<open>What the guards admit\<close>

lemma compare_digest_True: "compare_digest a b = Inr True \<Longrightarrow> a = b"
  by (auto simp: compare_digest_def split: if_splits)

lemma is_read_key_True:
  assumes "is_read_key k s = Inr True"
  shows "read_api_key s = Some k \<and> k \<noteq> [] \<and> api_key s \<noteq> Some k"
  using assms
  by (auto simp: is_read_key_def compare_digest_def split: option.splits if_splits sum.splits bool.splits)

lemma require_api_key_ok: "require_api_key s rq = Inr () \<Longrightarrow> api_key s = Some (provided_key rq)"
  by (auto simp: require_api_key_def dest: compare_digest_True split: option.splits sum.splits bool.splits)

lemma require_read_or_full_key_ok:
  assumes "require_read_or_full_key s rq = Inr ()"
  shows "api_key s = Some (provided_key rq) \<or>
    (api_key s \<noteq> None \<and> read_api_key s = Some (provided_key rq) \<and> provided_key rq \<noteq> [] \<and>
     api_key s \<noteq> Some (provided_key rq))"
  using assms
  by (auto simp: require_read_or_full_key_def dest: compare_digest_True is_read_key_True
      split: option.splits sum.splits bool.splits)

section \<open>Where the code falls short of its comments\<close>

text \<open>
  A key that is configured as the empty text, which is what a variable set to nothing gives,
  counts as configured and is matched by a request without the header.
\<close>

lemma empty_key_admits_everyone:
  "api_key s = Some [] \<Longrightarrow> x_api_key rq = None \<Longrightarrow> require_api_key s rq = Inr ()"
  by (simp add: require_api_key_def compare_digest_def provided_key_def ascii_def)

text \<open>A key with a character beyond ASCII is not refused with 401: the comparison raises.\<close>

lemma non_ascii_key_is_a_500:
  assumes "api_key s = Some k" and "x_api_key rq = Some v" and "\<not> ascii v"
  shows "\<exists>e. require_api_key s rq = Inl e \<and> error_status e = 500"
  using assms by (simp add: require_api_key_def compare_digest_def provided_key_def error_status_def)

text \<open>Every typed rejection has its status: the fallback of 400 is never used.\<close>

lemma rejections_have_status: "\<exists>n. map_of STATUS_BY_CODE (code r) = Some n"
  by (cases r) (simp_all add: STATUS_BY_CODE_def)

lemma rejection_statuses: "status_for r \<in> {403, 404, 409, 422, 429, 501, 503}"
  by (cases r) (simp_all add: status_for_def STATUS_BY_CODE_def THROTTLE_CAPS_def)

end
