(* ===== verification/History.thy ===== *)
theory History
  imports ApiGuards VenueWire RouterSafety OrderStanding "HOL-Library.Product_Lexorder"
begin

text \<open>
  The reads of what happened: the account-history page (\<open>db/repositories.py\<close>, \<open>core/router.py\<close>,
  \<open>api/routes.py\<close>) with its opaque cursor, and the audit trail of one order (\<open>api/audit.py\<close>).
\<close>

section \<open>Text the page depends on\<close>

text \<open>
  What the page takes from outside: the database's collation as the sort key it gives a text,
  compared byte by byte, and the two \<open>datetime\<close> conversions.
\<close>

record history_env =
  collate :: "string \<Rightarrow> nat list"
  iso_text :: "timestamp \<Rightarrow> string"
  from_iso :: "string \<Rightarrow> pydatetime option"

text \<open>
  What the page relies on: the collation tells different texts apart, and \<open>fromisoformat\<close> undoes
  \<open>isoformat\<close> on the timestamp of a stored row, whose id is a text of the contract.
\<close>

definition collation_ok :: "history_env \<Rightarrow> bool" where
  "collation_ok co \<longleftrightarrow> inj (collate co)"

definition row_ok :: "history_env \<Rightarrow> timestamp \<Rightarrow> string \<Rightarrow> bool" where
  "row_ok co t cid \<longleftrightarrow>
     from_iso co (iso_text co t) = Some (Aware t) \<and> ascii (iso_text co t) \<and> CHR ''|'' \<notin> set (iso_text co t) \<and>
     ascii cid \<and> cid \<noteq> []"

subsection \<open>\<open>base64.urlsafe_b64encode\<close> and its decoder\<close>

definition B64_ALPHABET :: string where
  "B64_ALPHABET = ''ABCDEFGHIJKLMNOPQRSTUVWXYZabcdefghijklmnopqrstuvwxyz0123456789-_''"

fun sextets :: "nat list \<Rightarrow> nat list" where
  "sextets [] = []"
| "sextets [a] = [a div 4, (a mod 4) * 16]"
| "sextets [a, b] = [a div 4, (a mod 4) * 16 + b div 16, (b mod 16) * 4]"
| "sextets (a # b # c # rest) =
     a div 4 # ((a mod 4) * 16 + b div 16) # ((b mod 16) * 4 + c div 64) # (c mod 64) # sextets rest"

definition urlsafe_b64encode :: "nat list \<Rightarrow> string" where
  "urlsafe_b64encode bs =
     map (\<lambda>n. B64_ALPHABET ! n) (sextets bs) @ replicate ((3 - length bs mod 3) mod 3) (CHR ''='')"

definition rstrip_pad :: "string \<Rightarrow> string" where
  "rstrip_pad s = rev (dropWhile (\<lambda>c. c = CHR ''='') (rev s))"

text \<open>
  The decoder maps the two URL-safe characters onto the standard ones, so it accepts both; a
  character outside the alphabet is skipped.
\<close>

definition b64_val :: "char \<Rightarrow> nat option" where
  "b64_val c =
     (let n = (of_char c :: nat)
      in if 65 \<le> n \<and> n \<le> 90 then Some (n - 65)
         else if 97 \<le> n \<and> n \<le> 122 then Some (n - 71)
         else if 48 \<le> n \<and> n \<le> 57 then Some (n + 4)
         else if c \<in> {CHR ''-'', CHR ''+''} then Some 62
         else if c \<in> {CHR ''_'', CHR ''/''} then Some 63
         else None)"

text \<open>
  \<open>binascii.a2b_base64\<close>, not strict: the state is the number of pads in a row, the position in
  the group of four and the bits left over. Enough padding ends the input, an incomplete group
  at the end is an error.
\<close>

fun a2b :: "nat \<Rightarrow> nat \<Rightarrow> nat \<Rightarrow> string \<Rightarrow> nat list option" where
  "a2b pads quad left [] = (if quad = 0 then Some [] else None)"
| "a2b pads quad left (c # cs) =
     (if c = CHR ''='' then
        (if 2 \<le> quad \<and> 4 \<le> quad + (pads + 1) then Some []
         else a2b (if 2 \<le> quad then pads + 1 else pads) quad left cs)
      else
        (case b64_val c of
           None \<Rightarrow> a2b pads quad left cs
         | Some v \<Rightarrow>
             if quad = 0 then a2b 0 1 v cs
             else if quad = 1 then map_option (Cons (left * 4 + v div 16)) (a2b 0 2 (v mod 16) cs)
             else if quad = 2 then map_option (Cons (left * 16 + v div 4)) (a2b 0 3 (v mod 4) cs)
             else map_option (Cons (left * 64 + v)) (a2b 0 0 0 cs)))"

definition continuation :: "nat \<Rightarrow> bool" where
  "continuation b \<longleftrightarrow> 128 \<le> b \<and> b < 192"

text \<open>\<open>bytes.decode()\<close> succeeds on well-formed UTF-8.\<close>

fun utf8_ok :: "nat list \<Rightarrow> bool" where
  "utf8_ok [] = True"
| "utf8_ok (a # bs) =
     (if a < 128 then utf8_ok bs
      else if 194 \<le> a \<and> a < 224 then (case bs of b # cs \<Rightarrow> continuation b \<and> utf8_ok cs | [] \<Rightarrow> False)
      else if 224 \<le> a \<and> a < 240 then
        (case bs of
           b # c # ds \<Rightarrow> continuation b \<and> continuation c \<and> (a = 224 \<longrightarrow> 160 \<le> b) \<and> (a = 237 \<longrightarrow> b < 160) \<and> utf8_ok ds
         | _ \<Rightarrow> False)
      else if 240 \<le> a \<and> a < 245 then
        (case bs of
           b # c # d # es \<Rightarrow>
             continuation b \<and> continuation c \<and> continuation d \<and> (a = 240 \<longrightarrow> 144 \<le> b) \<and> (a = 244 \<longrightarrow> b < 144) \<and> utf8_ok es
         | _ \<Rightarrow> False)
      else False)"

section \<open>The cursor\<close>

definition encode_cursor :: "history_env \<Rightarrow> timestamp \<Rightarrow> string \<Rightarrow> string" where
  "encode_cursor co created_at cid =
     rstrip_pad (urlsafe_b64encode (map of_char (iso_text co created_at @ CHR ''|'' # cid)))"

text \<open>The text of a cursor, None where \<open>urlsafe_b64decode\<close> or \<open>decode\<close> raises.\<close>

definition cursor_text :: "string \<Rightarrow> string option" where
  "cursor_text cur =
     (if \<not> ascii cur then None
      else case a2b 0 0 0 (cur @ replicate ((4 - length cur mod 4) mod 4) (CHR ''='')) of
             None \<Rightarrow> None
           | Some bs \<Rightarrow> if utf8_ok bs then Some (map char_of bs) else None)"

definition parse_cursor :: "history_env \<Rightarrow> string option \<Rightarrow> api_error + (timestamp \<times> string) option" where
  "parse_cursor co cursor =
     (case cursor of
        None \<Rightarrow> Inr None
      | Some cur \<Rightarrow>
          if cur = [] then Inr None
          else
            case cursor_text cur of
              None \<Rightarrow> Inl (HTTPException 422)
            | Some raw \<Rightarrow>
                let before = takeWhile (\<lambda>c. c \<noteq> CHR ''|'') raw; cid = drop 1 (dropWhile (\<lambda>c. c \<noteq> CHR ''|'') raw)
                in (case from_iso co before of
                      Some (Aware t) \<Rightarrow> if cid = [] then Inl (HTTPException 422) else Inr (Some (t, cid))
                    | _ \<Rightarrow> Inl (HTTPException 422)))"

subsection \<open>A cursor handed back unchanged is read back\<close>

lemma b64_values: "map b64_val B64_ALPHABET = map Some [0 ..< 64]"
  by (simp add: B64_ALPHABET_def b64_val_def upt_rec)

lemma b64_length: "length B64_ALPHABET = 64"
  by (simp add: B64_ALPHABET_def)

lemma b64_alphabet: "n < 64 \<Longrightarrow> b64_val (B64_ALPHABET ! n) = Some n \<and> B64_ALPHABET ! n \<noteq> CHR ''=''"
proof -
  assume n: "n < 64"
  then have "b64_val (B64_ALPHABET ! n) = map b64_val B64_ALPHABET ! n" by (simp add: b64_length)
  then have "b64_val (B64_ALPHABET ! n) = Some n" unfolding b64_values using n by simp
  moreover have "b64_val (CHR ''='') = None" by (simp add: b64_val_def)
  ultimately show ?thesis by auto
qed

lemma b64_alphabet_ascii: "n < 64 \<Longrightarrow> (of_char (B64_ALPHABET ! n) :: nat) < 128"
proof -
  have "\<forall>c \<in> set B64_ALPHABET. (of_char c :: nat) < 128" by (simp add: B64_ALPHABET_def)
  then show "n < 64 \<Longrightarrow> ?thesis" using nth_mem [of n B64_ALPHABET] by (simp add: b64_length)
qed

lemma sextets_bound: "\<forall>b \<in> set bs. b < 256 \<Longrightarrow> \<forall>n \<in> set (sextets bs). n < 64"
  by (induction bs rule: sextets.induct) (auto simp: div_less_iff_less_mult)

lemma length_sextets: "length (sextets bs) mod 4 = (if length bs mod 3 = 0 then 0 else length bs mod 3 + 1)"
  by (induction bs rule: sextets.induct) (auto simp: mod_simps mod_Suc)

lemma pad_length: "(4 - length (sextets bs) mod 4) mod 4 = (3 - length bs mod 3) mod 3"
proof -
  have "length bs mod 3 \<in> {0, 1, 2}" by auto
  then show ?thesis by (auto simp: length_sextets)
qed

lemma a2b_digit:
  assumes "n < 64"
  shows "a2b p 0 l (B64_ALPHABET ! n # cs) = a2b 0 1 n cs"
    and "a2b p 1 l (B64_ALPHABET ! n # cs) = map_option (Cons (l * 4 + n div 16)) (a2b 0 2 (n mod 16) cs)"
    and "a2b p 2 l (B64_ALPHABET ! n # cs) = map_option (Cons (l * 16 + n div 4)) (a2b 0 3 (n mod 4) cs)"
    and "a2b p 3 l (B64_ALPHABET ! n # cs) = map_option (Cons (l * 64 + n)) (a2b 0 0 0 cs)"
  using b64_alphabet [OF assms] by simp_all

lemma a2b_pad:
  "a2b p q l (CHR ''='' # cs) =
     (if 2 \<le> q \<and> 4 \<le> q + (p + 1) then Some [] else a2b (if 2 \<le> q then p + 1 else p) q l cs)"
  by simp

lemma replicate_few: "replicate 1 x = [x]" "replicate 2 x = [x, x]"
  by (simp_all add: numeral_2_eq_2)

lemmas a2b_step = a2b_digit a2b_pad replicate_few

declare a2b.simps(2) [simp del]

lemma a2b_sextets:
  "\<forall>b \<in> set bs. b < 256 \<Longrightarrow>
   a2b 0 0 0 (map (\<lambda>n. B64_ALPHABET ! n) (sextets bs) @ replicate ((3 - length bs mod 3) mod 3) (CHR ''='')) = Some bs"
proof (induction bs rule: sextets.induct)
  case (2 a)
  then have "a div 4 < 64" "a mod 4 * 16 < 64" by auto
  then show ?case by (simp add: a2b_step del: One_nat_def)
next
  case (3 a b)
  then have "a div 4 < 64" "a mod 4 * 16 + b div 16 < 64" "b mod 16 * 4 < 64" by auto
  moreover have "(a mod 4 * 16 + b div 16) div 16 = a mod 4" "(a mod 4 * 16 + b div 16) mod 16 = b div 16"
    using 3 by auto
  ultimately show ?case by (simp add: a2b_step del: One_nat_def)
next
  case (4 a b c rest)
  then have "a div 4 < 64" "a mod 4 * 16 + b div 16 < 64" "b mod 16 * 4 + c div 64 < 64" "c mod 64 < 64" by auto
  moreover have "(a mod 4 * 16 + b div 16) div 16 = a mod 4" "(a mod 4 * 16 + b div 16) mod 16 = b div 16"
    "(b mod 16 * 4 + c div 64) div 4 = b mod 16" "(b mod 16 * 4 + c div 64) mod 4 = c div 64"
    using 4 by auto
  ultimately show ?case using 4 by (simp add: a2b_step mod_simps del: One_nat_def)
qed simp

lemma rstrip_encoded:
  assumes "\<forall>b \<in> set bs. b < 256"
  shows "rstrip_pad (urlsafe_b64encode bs) = map (\<lambda>n. B64_ALPHABET ! n) (sextets bs)"
proof -
  have no_pad: "\<forall>c \<in> set (map (\<lambda>n. B64_ALPHABET ! n) (sextets bs)). c \<noteq> CHR ''=''"
    using sextets_bound [OF assms] b64_alphabet by auto
  have "dropWhile (\<lambda>c. c = CHR ''='') (replicate k (CHR ''='') @ rev xs) = rev xs"
    if "\<forall>c \<in> set xs. c \<noteq> CHR ''=''" for k xs
  proof (induction k)
    case 0
    have "takeWhile (\<lambda>c. c = CHR ''='') (rev xs) = []" using that by (cases "rev xs") (auto simp: rev_eq_Cons_iff)
    then show ?case by (metis append_Nil replicate_0 takeWhile_dropWhile_id)
  qed simp
  from this [OF no_pad] show ?thesis by (simp add: rstrip_pad_def urlsafe_b64encode_def)
qed

lemma utf8_ok_ascii: "\<forall>b \<in> set bs. b < 128 \<Longrightarrow> utf8_ok bs"
  by (induction bs) auto

lemma parse_encode_cursor:
  assumes "row_ok co t cid"
  shows "parse_cursor co (Some (encode_cursor co t cid)) = Inr (Some (t, cid))"
proof -
  let ?raw = "iso_text co t @ CHR ''|'' # cid"
  let ?bs = "map of_char ?raw :: nat list" and ?cur = "encode_cursor co t cid"
  have iso: "from_iso co (iso_text co t) = Some (Aware t)" "ascii (iso_text co t)" "CHR ''|'' \<notin> set (iso_text co t)"
    using assms by (auto simp: row_ok_def)
  have cid: "ascii cid" "cid \<noteq> []" using assms by (auto simp: row_ok_def)
  have small: "\<forall>b \<in> set ?bs. b < 128" using iso(2) cid(1) by (auto simp: ascii_def list_all_iff)
  then have byte: "\<forall>b \<in> set ?bs. b < 256" by fastforce
  have cur: "?cur = map (\<lambda>n. B64_ALPHABET ! n) (sextets ?bs)"
    unfolding encode_cursor_def by (rule rstrip_encoded [OF byte])
  have "ascii ?cur" using sextets_bound [OF byte] b64_alphabet_ascii by (auto simp: cur ascii_def list_all_iff)
  moreover have "a2b 0 0 0 (?cur @ replicate ((4 - length ?cur mod 4) mod 4) (CHR ''='')) = Some ?bs"
    using a2b_sextets [OF byte] unfolding cur length_map pad_length .
  moreover have "map char_of ?bs = ?raw" unfolding map_map comp_def char_of_char by (rule list.map_ident)
  ultimately have "cursor_text ?cur = Some ?raw" using utf8_ok_ascii [OF small] by (simp add: cursor_text_def)
  moreover have "?cur \<noteq> []" unfolding cur by (cases ?bs rule: sextets.cases) auto
  moreover have "takeWhile (\<lambda>c. c \<noteq> CHR ''|'') ?raw = iso_text co t" "dropWhile (\<lambda>c. c \<noteq> CHR ''|'') ?raw = CHR ''|'' # cid"
    using iso(3) by (induction "iso_text co t") (auto simp: takeWhile_append dropWhile_append)
  ultimately show ?thesis using iso(1) cid(2) by (simp add: parse_cursor_def Let_def)
qed

section \<open>The repository and router reads\<close>

definition page_key :: "history_env \<Rightarrow> timestamp \<Rightarrow> string \<Rightarrow> int \<times> nat list" where
  "page_key co t cid = (t, collate co cid)"

definition row_key :: "history_env \<Rightarrow> OrderRow \<Rightarrow> int \<times> nat list" where
  "row_key co r = page_key co (r_created_at r) (r_client_order_id r)"

text \<open>\<open>_SELECT_ACCOUNT_ORDERS\<close>: the rows of the window below the cursor, newest first.\<close>

definition in_window :: "string \<Rightarrow> Broker \<Rightarrow> timestamp \<Rightarrow> timestamp \<Rightarrow> OrderRow \<Rightarrow> bool" where
  "in_window acct b since until r \<longleftrightarrow>
     r_account r = acct \<and> r_broker r = b \<and> since \<le> r_created_at r \<and> r_created_at r < until"

definition fetch_account_orders ::
  "history_env \<Rightarrow> string \<Rightarrow> Broker \<Rightarrow> timestamp \<Rightarrow> timestamp \<Rightarrow> (timestamp \<times> string) option \<Rightarrow> nat \<Rightarrow>
   ('r, 'v, OrderResultRow list) eng" where
  "fetch_account_orders co acct b since until before limit =
     getsE (\<lambda>w. map (\<lambda>r. order_result r (fills w))
       (take limit (rev (sort_key (row_key co)
          (filter (\<lambda>r. in_window acct b since until r \<and>
                       (case before of None \<Rightarrow> True | Some (t, cid) \<Rightarrow> row_key co r < page_key co t cid)) (orders w))))))"

definition fetch_fills_for_orders :: "string list \<Rightarrow> ('r, 'v, (string \<times> FillRow list) list) eng" where
  "fetch_fills_for_orders cids =
     getsE (\<lambda>w. map (\<lambda>cid. (cid, sort_key (\<lambda>f. (f_exec_ts f, f_fill_id f)) (fills_of cid (fills w)))) cids)"

definition fetch_first_order_at :: "('r, 'v, timestamp option) eng" where
  "fetch_first_order_at =
     getsE (\<lambda>w. if orders w = [] then None else Some (Min (set (map r_created_at (orders w)))))"

definition get_order_history ::
  "history_env \<Rightarrow> ('r, 'v) OrderRouter \<Rightarrow> Broker \<Rightarrow> string \<Rightarrow> timestamp \<Rightarrow> timestamp \<Rightarrow>
   (timestamp \<times> string) option \<Rightarrow> nat \<Rightarrow>
   ('r, 'v, OrderResultRow list \<times> (string \<times> FillRow list) list \<times> timestamp option) eng" where
  "get_order_history co rt b acct since until before limit =
     bindE (liftE (resolve rt b acct READ)) (\<lambda>_.
     bindE (fetch_account_orders co acct b since until before limit) (\<lambda>rows.
     bindE (fetch_fills_for_orders (map (\<lambda>r. r_client_order_id (result_row r)) rows)) (\<lambda>fs.
     bindE fetch_first_order_at (\<lambda>first_at.
     returnE (rows, fs, first_at)))))"

section \<open>The history route\<close>

definition aware :: "pydatetime option \<Rightarrow> timestamp \<Rightarrow> api_error + timestamp" where
  "aware value dflt =
     (case value of
        None \<Rightarrow> Inr dflt
      | Some (Naive _) \<Rightarrow> Inl (HTTPException 422)
      | Some (Aware t) \<Rightarrow> Inr t)"

record history_query =
  hq_account :: string
  hq_broker :: Broker
  hq_since :: "pydatetime option"
  hq_until :: "pydatetime option"
  hq_limit :: int
  hq_cursor :: "string option"

record history_entry =
  he_row :: OrderResultRow
  he_public_status :: PublicOrderStatus
  he_fills :: "FillRow list"

record history_reply =
  hp_complete_since :: "timestamp option"
  hp_window :: "timestamp \<times> timestamp"
  hp_orders :: "history_entry list"
  hp_next_cursor :: "string option"

definition history_entry_of :: "(string \<times> FillRow list) list \<Rightarrow> OrderResultRow \<Rightarrow> history_entry" where
  "history_entry_of fs row =
     \<lparr>he_row = row, he_public_status = to_public_status (r_status (result_row row)) (filled_qty row),
      he_fills = (case map_of fs (r_client_order_id (result_row row)) of Some l \<Rightarrow> l | None \<Rightarrow> [])\<rparr>"

definition get_order_history_route ::
  "history_env \<Rightarrow> ('r, 'v) OrderRouter \<Rightarrow> history_query \<Rightarrow> (('r, 'v) world, api_error, history_reply) prog" where
  "get_order_history_route co rt hq =
     (if hq_limit hq < 1 \<or> 500 < hq_limit hq then raiseE (HTTPException 422)
      else
        bindE (liftE (aware (hq_since hq) 0)) (\<lambda>lo.
        bindE (getsE clock) (\<lambda>now.
        bindE (liftE (aware (hq_until hq) now)) (\<lambda>hi.
        bindE (liftE (parse_cursor co (hq_cursor hq))) (\<lambda>before.
        bindE (on_engine (get_order_history co rt (hq_broker hq) (hq_account hq) lo hi before
                 (nat (hq_limit hq) + 1))) (\<lambda>(rows, fs, first_at).
        let limit = nat (hq_limit hq);
            page = take limit rows;
            more = limit < length rows;
            last_row = (if more \<and> page \<noteq> [] then Some (result_row (last page)) else None)
        in returnE
             \<lparr>hp_complete_since = first_at, hp_window = (lo, hi), hp_orders = map (history_entry_of fs) page,
              hp_next_cursor =
                map_option (\<lambda>r. encode_cursor co (r_created_at r) (r_client_order_id r)) last_row\<rparr>))))))"

section \<open>Pages add up to the whole history\<close>

text \<open>A client that follows \<open>next_cursor\<close> until there is none, at most so many pages.\<close>

fun walk_history ::
  "nat \<Rightarrow> history_env \<Rightarrow> ('r, 'v) OrderRouter \<Rightarrow> history_query \<Rightarrow> ('r, 'v) world \<Rightarrow> history_entry list option" where
  "walk_history 0 co rt hq w = None"
| "walk_history (Suc n) co rt hq w =
     (case get_order_history_route co rt hq w of
        (Inl _, _) \<Rightarrow> None
      | (Inr rep, _) \<Rightarrow>
          (case hp_next_cursor rep of
             None \<Rightarrow> Some (hp_orders rep)
           | Some cur \<Rightarrow>
               map_option (append (hp_orders rep)) (walk_history n co rt (hq\<lparr>hq_cursor := Some cur\<rparr>) w)))"

text \<open>The history as the store has it: the rows of the window, newest first, each with its fills.\<close>

definition account_history :: "history_env \<Rightarrow> string \<Rightarrow> Broker \<Rightarrow> timestamp \<Rightarrow> timestamp \<Rightarrow> OrderRow list \<Rightarrow> OrderRow list" where
  "account_history co acct b lo hi rows = rev (sort_key (row_key co) (filter (in_window acct b lo hi) rows))"

definition stored_entry :: "('r, 'v) world \<Rightarrow> OrderRow \<Rightarrow> history_entry" where
  "stored_entry w r =
     (let row = order_result r (fills w)
      in \<lparr>he_row = row, he_public_status = to_public_status (r_status r) (filled_qty row),
          he_fills = sort_key (\<lambda>f. (f_exec_ts f, f_fill_id f)) (fills_of (r_client_order_id r) (fills w))\<rparr>)"

lemma descending:
  assumes "collation_ok co" and "distinct (map r_client_order_id rows)"
  shows "sorted_wrt (\<lambda>x y. row_key co y < row_key co x) (account_history co acct b lo hi rows)"
proof -
  let ?fs = "filter (in_window acct b lo hi) rows" and ?S = "sort_key (row_key co) (filter (in_window acct b lo hi) rows)"
  have "inj_on (row_key co) (set ?fs)"
    using assms by (auto simp: inj_on_def row_key_def page_key_def collation_ok_def distinct_map dest: injD)
  moreover have "distinct ?fs" using assms(2) by (simp add: distinct_map)
  ultimately have "distinct (map (row_key co) ?S)" by (simp add: distinct_map)
  then have "sorted_wrt (<) (map (row_key co) ?S)"
    using sorted_sort_key [of "row_key co" ?fs] by (simp add: strict_sorted_iff)
  then show ?thesis by (simp add: account_history_def sorted_wrt_rev sorted_wrt_map)
qed

lemma below_nth:
  assumes "sorted_wrt (\<lambda>x y. f y < (f x :: 'k :: linorder)) xs" and "k < length xs"
  shows "filter (\<lambda>r. f r < f (xs ! k)) xs = drop (Suc k) xs"
proof -
  have "f (xs ! k) \<le> f (xs ! i)" if "i < Suc k" for i
    using sorted_wrt_nth_less [OF assms(1), of i k] that assms(2) by (cases "i = k") auto
  then have "filter (\<lambda>r. f r < f (xs ! k)) (take (Suc k) xs) = []"
    by (auto simp: filter_empty_conv in_set_conv_nth not_less)
  moreover have "filter (\<lambda>r. f r < f (xs ! k)) (drop (Suc k) xs) = drop (Suc k) xs"
    using assms sorted_wrt_nth_less [OF assms(1)] by (auto simp: filter_id_conv in_set_conv_nth)
  ultimately show ?thesis
    by (metis append_Nil append_take_drop_id filter_append)
qed

text \<open>The page below a cursor is the head of what is left of the history.\<close>

definition cursor_at :: "OrderRow list \<Rightarrow> nat \<Rightarrow> (timestamp \<times> string) option" where
  "cursor_at xs k =
     (if k = 0 then None else Some (r_created_at (xs ! (k - 1)), r_client_order_id (xs ! (k - 1))))"

lemma fetch_account_orders_page:
  assumes "collation_ok co" and "store_wf w" and "k \<le> length (account_history co acct b lo hi (orders w))"
  shows "fetch_account_orders co acct b lo hi (cursor_at (account_history co acct b lo hi (orders w)) k) n w =
    (Inr (map (\<lambda>r. order_result r (fills w)) (take n (drop k (account_history co acct b lo hi (orders w))))), w)"
proof -
  let ?H = "account_history co acct b lo hi (orders w)"
  have desc: "sorted_wrt (\<lambda>x y. row_key co y < row_key co x) ?H"
    using assms(1,2) by (intro descending) (simp_all add: store_wf_def tbl_wf_def)
  have "rev (sort_key (row_key co) (filter (\<lambda>r. in_window acct b lo hi r \<and>
      (case cursor_at ?H k of None \<Rightarrow> True | Some (t, cid) \<Rightarrow> row_key co r < page_key co t cid)) (orders w))) = drop k ?H"
  proof (cases k)
    case 0
    then show ?thesis by (simp add: cursor_at_def account_history_def)
  next
    case (Suc j)
    have "rev (sort_key (row_key co) (filter (\<lambda>r. in_window acct b lo hi r \<and> row_key co r < row_key co (?H ! j)) (orders w)))
        = filter (\<lambda>r. row_key co r < row_key co (?H ! j)) ?H"
      by (simp add: account_history_def rev_filter [symmetric] filter_sort conj_commute del: rev_filter)
    also have "\<dots> = drop (Suc j) ?H" using assms(3) Suc by (intro below_nth [OF desc]) simp
    finally show ?thesis using Suc by (simp add: cursor_at_def row_key_def)
  qed
  then show ?thesis by (simp add: fetch_account_orders_def)
qed

lemma history_page:
  assumes env: "collation_ok co" and wf: "store_wf w" and ids: "\<forall>r \<in> set (orders w). row_ok co (r_created_at r) (r_client_order_id r)"
    and ad: "resolve rt (hq_broker hq) (hq_account hq) READ = Inr ad"
    and lim: "1 \<le> hq_limit hq" "hq_limit hq \<le> 500"
    and win: "aware (hq_since hq) 0 = Inr lo" "aware (hq_until hq) (clock w) = Inr hi"
    and H: "H = account_history co (hq_account hq) (hq_broker hq) lo hi (orders w)" and k: "k \<le> length H"
    and cur: "parse_cursor co (hq_cursor hq) = Inr (cursor_at H k)"
  defines "L \<equiv> nat (hq_limit hq)"
  shows "\<exists>rep. get_order_history_route co rt hq w = (Inr rep, w) \<and>
    hp_orders rep = map (stored_entry w) (take L (drop k H)) \<and>
    (if k + L < length H
     then \<exists>cur'. hp_next_cursor rep = Some cur' \<and> parse_cursor co (Some cur') = Inr (cursor_at H (k + L))
     else hp_next_cursor rep = None)"
proof -
  let ?rows = "take (L + 1) (drop k H)" and ?res = "\<lambda>r. order_result r (fills w)"
  define fs where "fs = map (\<lambda>cid. (cid, sort_key (\<lambda>f. (f_exec_ts f, f_fill_id f)) (fills_of cid (fills w))))
      (map r_client_order_id ?rows)"
  have L: "0 < L" using lim by (simp add: L_def)
  have sub: "set H \<subseteq> set (orders w)" by (auto simp: H account_history_def)
  have entry: "history_entry_of fs (?res r) = stored_entry w r" if "r \<in> set (take L (drop k H))" for r
  proof -
    have "r \<in> set ?rows" using that set_take_subset_set_take [of L "L + 1" "drop k H"] by auto
    then have "map_of fs (r_client_order_id r) =
        Some (sort_key (\<lambda>f. (f_exec_ts f, f_fill_id f)) (fills_of (r_client_order_id r) (fills w)))"
      by (simp add: fs_def map_of_map_restrict del: map_map)
    then show ?thesis by (simp add: history_entry_of_def stored_entry_def order_result_def Let_def)
  qed
  have page: "take L (map ?res ?rows) = map ?res (take L (drop k H))" by (simp add: take_map min_def)
  have ents: "map (history_entry_of fs) (map ?res (take L (drop k H))) = map (stored_entry w) (take L (drop k H))"
    using entry by simp
  have last: "last (map ?res (take L (drop k H))) = ?res (H ! (k + L - 1))" if "k + L < length H"
    using that L by (simp add: last_conv_nth nth_append)
  have id: "row_ok co (r_created_at (H ! (k + L - 1))) (r_client_order_id (H ! (k + L - 1)))"
    if "k + L < length H"
  proof -
    have "H ! (k + L - 1) \<in> set (orders w)" using that sub nth_mem [of "k + L - 1" H] by auto
    then show ?thesis using ids by blast
  qed
  have nxt: "parse_cursor co (Some (encode_cursor co (r_created_at (H ! (k + L - 1))) (r_client_order_id (H ! (k + L - 1))))) =
      Inr (cursor_at H (k + L))" if "k + L < length H"
    using parse_encode_cursor [OF id [OF that]] L by (simp add: cursor_at_def)
  have more: "L < length (map ?res ?rows) \<longleftrightarrow> k + L < length H" by auto
  have run: "get_order_history co rt (hq_broker hq) (hq_account hq) lo hi (cursor_at H k) (L + 1) w =
      (Inr (map ?res ?rows, fs, if orders w = [] then None else Some (Min (set (map r_created_at (orders w))))), w)"
    using fetch_account_orders_page [OF env wf k [unfolded H], of "L + 1"] ad
    by (simp add: get_order_history_def bindE_def liftE_def fetch_fills_for_orders_def fetch_first_order_at_def
        H fs_def order_result_def comp_def)
  show ?thesis
    using lim win cur run more page ents last nxt L
    by (auto simp: get_order_history_route_def bindE_def liftE_def on_engine_def Let_def L_def [symmetric] order_result_def)
qed

lemma walk_history_from:
  assumes env: "collation_ok co" and wf: "store_wf w"
    and ids: "\<forall>r \<in> set (orders w). row_ok co (r_created_at r) (r_client_order_id r)"
    and ad: "resolve rt (hq_broker hq) (hq_account hq) READ = Inr ad"
    and lim: "1 \<le> hq_limit hq" "hq_limit hq \<le> 500"
    and win: "aware (hq_since hq) 0 = Inr lo" "aware (hq_until hq) (clock w) = Inr hi"
    and H: "H = account_history co (hq_account hq) (hq_broker hq) lo hi (orders w)"
  shows "k \<le> length H \<Longrightarrow> length H - k < n \<Longrightarrow> parse_cursor co cur = Inr (cursor_at H k) \<Longrightarrow>
    walk_history n co rt (hq\<lparr>hq_cursor := cur\<rparr>) w = Some (map (stored_entry w) (drop k H))"
proof (induction n arbitrary: k cur)
  case (Suc n)
  let ?L = "nat (hq_limit hq)" and ?q = "hq\<lparr>hq_cursor := cur\<rparr>"
  have "0 < ?L" using lim by simp
  obtain rep where rep: "get_order_history_route co rt ?q w = (Inr rep, w)"
    "hp_orders rep = map (stored_entry w) (take ?L (drop k H))"
    "if k + ?L < length H
     then \<exists>cur'. hp_next_cursor rep = Some cur' \<and> parse_cursor co (Some cur') = Inr (cursor_at H (k + ?L))
     else hp_next_cursor rep = None"
  proof -
    have "hq_limit ?q = hq_limit hq" "parse_cursor co (hq_cursor ?q) = Inr (cursor_at H k)"
      using Suc.prems by simp_all
    moreover have "resolve rt (hq_broker ?q) (hq_account ?q) READ = Inr ad" "aware (hq_since ?q) 0 = Inr lo"
      "aware (hq_until ?q) (clock w) = Inr hi"
      "H = account_history co (hq_account ?q) (hq_broker ?q) lo hi (orders w)" using ad win H by simp_all
    ultimately show thesis
      using history_page [OF env wf ids, of rt ?q ad lo hi H k] lim Suc.prems(1) that by metis
  qed
  show ?case
  proof (cases "k + ?L < length H")
    case True
    with rep(3) obtain cur' where nxt: "hp_next_cursor rep = Some cur'"
      "parse_cursor co (Some cur') = Inr (cursor_at H (k + ?L))" by auto
    have "walk_history n co rt (hq\<lparr>hq_cursor := Some cur'\<rparr>) w = Some (map (stored_entry w) (drop (k + ?L) H))"
      using Suc.prems True \<open>0 < ?L\<close> by (intro Suc.IH nxt(2)) auto
    then show ?thesis using rep nxt(1) by (simp flip: map_append) (metis append_take_drop_id drop_drop add.commute)
  next
    case False
    then show ?thesis using rep by simp
  qed
qed simp

text \<open>
  C34. The history pages add up. A client that asks for an account's orders of a window, with any
  page size the route accepts, and follows the cursor of each page, gets every order of the
  window exactly once, newest first, each with its fills in execution order, and comes to the
  end: no page boundary skips or repeats an order, also where two share a timestamp.
\<close>

theorem history_pages_complete:
  assumes "collation_ok co" and "store_wf w"
    and "\<forall>r \<in> set (orders w). row_ok co (r_created_at r) (r_client_order_id r)"
    and "resolve rt (hq_broker hq) (hq_account hq) READ = Inr ad"
    and "1 \<le> hq_limit hq" and "hq_limit hq \<le> 500" and "hq_cursor hq = None"
    and "aware (hq_since hq) 0 = Inr lo" and "aware (hq_until hq) (clock w) = Inr hi"
    and "length (orders w) < n"
  defines "H \<equiv> account_history co (hq_account hq) (hq_broker hq) lo hi (orders w)"
  shows "walk_history n co rt hq w = Some (map (stored_entry w) H) \<and>
    set H = {r \<in> set (orders w). in_window (hq_account hq) (hq_broker hq) lo hi r} \<and> distinct H \<and>
    sorted_wrt (\<lambda>x y. row_key co y < row_key co x) H"
proof -
  have "length H \<le> length (orders w)" by (simp add: H_def account_history_def)
  moreover have "parse_cursor co None = Inr (cursor_at H 0)" by (simp add: parse_cursor_def cursor_at_def)
  moreover have "hq\<lparr>hq_cursor := None\<rparr> = hq" using assms(7) by simp
  ultimately have "walk_history n co rt hq w = Some (map (stored_entry w) H)"
    using walk_history_from [OF assms(1-6,8,9) H_def [THEN meta_eq_to_obj_eq], of 0 n None] assms(10) by simp
  moreover have "distinct (map r_client_order_id (orders w))" using assms(2) by (simp add: store_wf_def tbl_wf_def)
  then have "sorted_wrt (\<lambda>x y. row_key co y < row_key co x) H" "distinct H"
    using descending [OF assms(1)] by (simp_all add: H_def account_history_def distinct_map)
  ultimately show ?thesis by (auto simp: H_def account_history_def)
qed

definition demo_history_env :: history_env where
  "demo_history_env =
     \<lparr>collate = map of_char, iso_text = (\<lambda>t. if t = 0 then ''1970-01-01T00:00:00+00:00'' else ''later''),
      from_iso = (\<lambda>s. if s = ''1970-01-01T00:00:00+00:00'' then Some (Aware 0) else None)\<rparr>"

text \<open>Two orders of the same microsecond, read one per page.\<close>

theorem history_pages_complete_witness:
  "\<exists>es. walk_history 3 demo_history_env demo_router_sim
      \<lparr>hq_account = ''A'', hq_broker = SIM, hq_since = None, hq_until = Some (Aware 1), hq_limit = 1, hq_cursor = None\<rparr>
      (demo_world [demo_row ''a'' NEW, demo_row ''b'' NEW] []) = Some es \<and>
    map (\<lambda>e. r_client_order_id (result_row (he_row e))) es = [''b'', ''a'']"
proof -
  let ?w = "demo_world [demo_row ''a'' NEW, demo_row ''b'' NEW] []"
  let ?q = "\<lparr>hq_account = ''A'', hq_broker = SIM, hq_since = None, hq_until = Some (Aware 1), hq_limit = 1,
      hq_cursor = None\<rparr>"
  have "resolve_ref demo_router_sim SIM ''A'' READ = Inr Sim_ref"
    by (simp add: resolve_ref_def demo_router_sim_def standalone_router_def default_settings_def resolve_adapter_def
        assert_may_route_real_def)
  then obtain ad where ad: "resolve demo_router_sim SIM ''A'' READ = Inr ad" by (simp add: resolve_def)
  have "collation_ok demo_history_env"
    by (auto simp: collation_ok_def demo_history_env_def inj_on_def intro: injI dest: map_injective)
  moreover have "store_wf ?w" by (simp add: store_wf_def tbl_wf_def demo_world_def demo_row_def)
  moreover have "\<forall>r \<in> set (orders ?w). row_ok demo_history_env (r_created_at r) (r_client_order_id r)"
    by (simp add: demo_world_def demo_row_def row_ok_def demo_history_env_def ascii_def)
  ultimately have "walk_history 3 demo_history_env demo_router_sim ?q ?w =
      Some (map (stored_entry ?w) (account_history demo_history_env ''A'' SIM 0 1 (orders ?w)))"
    using history_pages_complete [of demo_history_env ?w demo_router_sim ?q ad 0 1 3] ad
    by (simp add: aware_def demo_world_def)
  moreover have "map r_client_order_id (account_history demo_history_env ''A'' SIM 0 1 (orders ?w)) = [''b'', ''a'']"
    by (simp add: account_history_def in_window_def demo_world_def demo_row_def row_key_def page_key_def
        demo_history_env_def sort_key_def less_eq_prod_def)
  ultimately show ?thesis by (simp add: stored_entry_def order_result_def Let_def comp_def)
qed

section \<open>The audit trail\<close>

text \<open>
  \<open>execution.order_events\<close> is written by the database trigger alone and never by the engine: the
  rows of an order, in the order of their ids, are a parameter of the reads.
\<close>

record OrderEventRow =
  oe_event_id :: nat
  oe_client_order_id :: string
  oe_from_status :: "OrderState option"
  oe_to_status :: OrderState
  oe_event :: "(string \<times> json) list option"
  oe_created_at :: timestamp

type_synonym order_events = "OrderEventRow list"

definition event_type_for :: "OrderState option \<Rightarrow> OrderState \<Rightarrow> string" where
  "event_type_for from_status to_status =
     (case from_status of
        None \<Rightarrow> ''create''
      | Some src \<Rightarrow>
          if to_status = NEW then (if src = PENDING_REPLACE then ''replace'' else ''ack'')
          else if to_status \<in> {PARTIALLY_FILLED, FILLED} then ''fill''
          else if to_status = PENDING_CANCEL then ''cancel_request''
          else if to_status = CANCELLED then ''cancel''
          else if to_status = PENDING_REPLACE then ''replace_request''
          else if to_status = REJECTED then ''reject''
          else if to_status = EXPIRED then ''expire''
          else if to_status = PENDING_NEW then ''create''
          else ''transition'')"

record audit_event =
  au_seq :: nat
  au_from_status :: "OrderState option"
  au_to_status :: OrderState
  au_broker_order_id :: "json option"
  au_event_type :: string
  au_occurred_at :: string
  au_metadata :: "(string \<times> json) list"

definition synthesize_event :: "history_env \<Rightarrow> nat \<Rightarrow> OrderEventRow \<Rightarrow> audit_event" where
  "synthesize_event co n row =
     (let metadata = (case oe_event row of Some kvs \<Rightarrow> kvs | None \<Rightarrow> [])
      in \<lparr>au_seq = n, au_from_status = oe_from_status row, au_to_status = oe_to_status row,
          au_broker_order_id = dict_get metadata ''broker_order_id'',
          au_event_type = event_type_for (oe_from_status row) (oe_to_status row),
          au_occurred_at = iso_text co (oe_created_at row), au_metadata = metadata\<rparr>)"

definition fetch_order_events :: "order_events \<Rightarrow> string \<Rightarrow> OrderEventRow list" where
  "fetch_order_events evs cid = sort_key oe_event_id (filter (\<lambda>e. oe_client_order_id e = cid) evs)"

definition order_audit ::
  "history_env \<Rightarrow> order_events \<Rightarrow> string \<Rightarrow> ('r, 'v, Broker \<times> string \<times> audit_event list) eng" where
  "order_audit co evs cid =
     bindE (fetch_order cid) (\<lambda>header.
     case header of
       None \<Rightarrow> raiseE (Rejected OrderNotFound (Some cid))
     | Some r \<Rightarrow>
         let rows = fetch_order_events evs cid
         in returnE (r_broker r, r_symbol r,
              map (\<lambda>(i, row). synthesize_event co i row) (zip [1 ..< length rows + 1] rows)))"

text \<open>\<open>stream_order_events\<close> over \<open>_export_query\<close>: the joined rows within the optional bounds.\<close>

definition export_query ::
  "timestamp option \<Rightarrow> timestamp option \<Rightarrow> string option \<Rightarrow> OrderEventRow \<times> string option \<Rightarrow> bool" where
  "export_query from_ts to_ts sid = (\<lambda>(e, s).
     (case from_ts of Some t \<Rightarrow> t \<le> oe_created_at e | None \<Rightarrow> True) \<and>
     (case to_ts of Some t \<Rightarrow> oe_created_at e < t | None \<Rightarrow> True) \<and>
     (case sid of Some v \<Rightarrow> s = Some v | None \<Rightarrow> True))"

definition stream_order_events ::
  "order_events \<Rightarrow> timestamp option \<Rightarrow> timestamp option \<Rightarrow> string option \<Rightarrow>
   ('r, 'v, (OrderEventRow \<times> string option) list) eng" where
  "stream_order_events evs from_ts to_ts sid =
     getsE (\<lambda>w. filter (export_query from_ts to_ts sid)
       (concat (map (\<lambda>e. case find_order (oe_client_order_id e) w of
                            None \<Rightarrow> [] | Some r \<Rightarrow> [(e, r_strategy_id r)]) (sort_key oe_event_id evs))))"

text \<open>
  On the frozen edges the label never falls back, and it tells the destination apart except
  that a partial and a full fill carry the same one.
\<close>

lemma event_type_total: "edge s t \<Longrightarrow> event_type_for (Some s) t \<notin> {''transition'', ''create''}"
  by (auto simp: event_type_for_def elim: edge.cases)

lemma event_type_destination:
  assumes "edge s t" and "edge s' t'" and "event_type_for (Some s) t = event_type_for (Some s') t'"
  shows "t = t' \<or> {t, t'} = {PARTIALLY_FILLED, FILLED}"
  using assms by (cases t; cases t') (auto simp: event_type_for_def split: if_splits)

text \<open>
  The label of a row that a native amend of a partly filled order leaves behind: the amend goes
  back over NEW to PARTIALLY_FILLED, and that last step is reported as a fill although no fill
  was recorded.
\<close>

lemma amend_is_audited_as_a_fill:
  assumes "open_schema (pool rt)" and "order_at cid NEW q qs ids w" and "0 < filled"
  shows "event_type_for (Some NEW) PARTIALLY_FILLED = ''fill'' \<and>
    (\<exists>w'. restore_partial rt cid filled w = (Inr (), w') \<and> order_at cid PARTIALLY_FILLED q qs ids w')"
  using update_status_at [OF assms(1,2), of PARTIALLY_FILLED] assms(3)
  by (auto simp: restore_partial_def event_type_for_def intro: edge.intros)

end
