(* ===== verification/OrderStream.thy ===== *)
theory OrderStream
  imports ApiGuards
begin

text \<open>
  The streaming reads of \<open>api/streams.py\<close>: the order-book snapshot and the order-update stream.
  The stream's generator subscribes to the hub, replays what the ring still holds after the
  client's cursor and then follows its queue. Between two resumptions of the generator the rest
  of the process publishes; a run of the stream is any interleaving of the two.
\<close>

section \<open>The order-book snapshot\<close>

definition PROBE_MARKETS :: "Market list" where
  "PROBE_MARKETS = [SET, TFEX]"

definition require_service :: "OrderBookService option \<Rightarrow> exn + OrderBookService" where
  "require_service sv = (case sv of None \<Rightarrow> Inl (Rejected OrderBookUnavailable None) | Some s \<Rightarrow> Inr s)"

text \<open>The first market of the list with a fresh book; reading a book makes it the most recently used.\<close>

fun probe :: "timestamp \<Rightarrow> string \<Rightarrow> Market list \<Rightarrow> OrderBookService \<Rightarrow> (exn + OrderBook) \<times> OrderBookService" where
  "probe now sy [] sv = (Inl (Rejected OrderBookUnavailable None), sv)"
| "probe now sy (m # ms) sv =
     (case get_book now sy m sv of
        (Some b, sv') \<Rightarrow> (Inr b, sv')
      | (None, sv') \<Rightarrow> probe now sy ms sv')"

definition snapshot ::
  "timestamp \<Rightarrow> OrderBookService \<Rightarrow> string \<Rightarrow> Market option \<Rightarrow> (exn + OrderBook) \<times> OrderBookService" where
  "snapshot now sv sy mk = probe now sy (case mk of Some m \<Rightarrow> [m] | None \<Rightarrow> PROBE_MARKETS) sv"

definition order_book_snapshot :: "string \<Rightarrow> Market option \<Rightarrow> ('r, 'v, OrderBook) eng" where
  "order_book_snapshot sy mk w =
     (case require_service (books w) of
        Inl e \<Rightarrow> (Inl e, w)
      | Inr sv \<Rightarrow> (case snapshot (clock w) sv sy mk of (x, sv') \<Rightarrow> (x, w\<lparr>books := Some sv'\<rparr>)))"

section \<open>The order-update stream\<close>

text \<open>\<open>int(text)\<close>: surrounding blanks, a sign, and digits with single underscores between them.\<close>

fun int10_run :: "nat \<Rightarrow> bool \<Rightarrow> string \<Rightarrow> nat option" where
  "int10_run acc digit [] = (if digit then Some acc else None)"
| "int10_run acc digit (c # cs) =
     (if c = CHR ''_'' then (if digit then int10_run acc False cs else None)
      else if is_digit c then int10_run (10 * acc + (of_char c - 48)) True cs
      else None)"

definition int10 :: "string \<Rightarrow> int option" where
  "int10 s =
     (case strip s of
        c # rest \<Rightarrow>
          if c = CHR ''-'' then map_option (\<lambda>n. - int n) (int10_run 0 False rest)
          else if c = CHR ''+'' then map_option int (int10_run 0 False rest)
          else map_option int (int10_run 0 False (c # rest))
      | [] \<Rightarrow> None)"

text \<open>\<open>_parse_cursor\<close>: the header wins over the query parameter, and a bad header is refused.\<close>

definition parse_stream_cursor :: "string option \<Rightarrow> int option \<Rightarrow> api_error + int" where
  "parse_stream_cursor header last_event_id =
     (case header of
        None \<Rightarrow> Inr (case last_event_id of Some n \<Rightarrow> n | None \<Rightarrow> 0)
      | Some raw \<Rightarrow> (case int10 raw of Some n \<Rightarrow> Inr n | None \<Rightarrow> Inl (HTTPException 422)))"

definition require_hub :: "EventHub option \<Rightarrow> exn + EventHub" where
  "require_hub h = (case h of None \<Rightarrow> Inl (Rejected OrderStreamUnavailable None) | Some h \<Rightarrow> Inr h)"

record stream_filter =
  flt_strategy :: "string option"
  flt_order :: "string option"

text \<open>\<open>_matches\<close>, with the seeded set it may extend.\<close>

definition matches :: "stream_filter \<Rightarrow> OrderUpdateEvent \<Rightarrow> string set \<Rightarrow> bool \<times> string set" where
  "matches flt e seeded =
     (if (case flt_order flt of Some c \<Rightarrow> ev_client_order_id e \<noteq> c | None \<Rightarrow> False) then (False, seeded)
      else case flt_strategy flt of
             None \<Rightarrow> (True, seeded)
           | Some s \<Rightarrow>
               if ev_strategy_id e = Some s \<or> ev_client_order_id e \<in> seeded
               then (True, insert (ev_client_order_id e) seeded)
               else (False, seeded))"

datatype stream_frame =
    Event_frame OrderUpdateEvent
  | Resync_frame int
  | Gap_frame nat
  | Keep_alive

text \<open>
  The generator between two resumptions: its subscription, what is left of the replay loop,
  the highest number replayed and the seeded orders.
\<close>

record order_stream =
  os_id :: nat
  os_replay :: "OrderUpdateEvent list"
  os_max :: nat
  os_seeded :: "string set"

text \<open>Up to the replay loop: subscribe, then read the ring, without a pause between the two.\<close>

definition open_stream ::
  "int \<Rightarrow> string set \<Rightarrow> EventHub \<Rightarrow> stream_frame list \<times> order_stream \<times> EventHub" where
  "open_stream after_seq seeded h =
     (case subscribe h of
        (i, h1) \<Rightarrow>
          (case replay after_seq h1 of
             (evs, gap) \<Rightarrow>
               (if gap then [Resync_frame after_seq] else [],
                \<lparr>os_id = i, os_replay = evs, os_max = 0, os_seeded = seeded\<rparr>, h1)))"

definition emit :: "stream_filter \<Rightarrow> OrderUpdateEvent \<Rightarrow> order_stream \<Rightarrow> stream_frame list \<times> order_stream" where
  "emit flt e s =
     (case matches flt e (os_seeded s) of
        (yes, seeded) \<Rightarrow> (if yes then [Event_frame e] else [], s\<lparr>os_seeded := seeded\<rparr>))"

definition set_subscription :: "nat \<Rightarrow> Subscription \<Rightarrow> EventHub \<Rightarrow> EventHub" where
  "set_subscription i sub h =
     h\<lparr>subscriptions := map (\<lambda>(j, t). (j, if j = i then sub else t)) (subscriptions h)\<rparr>"

text \<open>
  One turn of the replay loop or of the endless loop after it; None where the generator waits
  for its queue.
\<close>

definition resume ::
  "stream_filter \<Rightarrow> order_stream \<Rightarrow> EventHub \<Rightarrow> (stream_frame list \<times> order_stream \<times> EventHub) option" where
  "resume flt s h =
     (case os_replay s of
        e # rest \<Rightarrow>
          (case emit flt e (s\<lparr>os_replay := rest, os_max := max (os_max s) (seq e)\<rparr>) of
             (fs, s') \<Rightarrow> Some (fs, s', h))
      | [] \<Rightarrow>
          (case map_of (subscriptions h) (os_id s) of
             None \<Rightarrow> None
           | Some sub \<Rightarrow>
               (case read_one sub of
                  None \<Rightarrow> None
                | Some (Gap n, sub') \<Rightarrow> Some ([Gap_frame n], s, set_subscription (os_id s) sub' h)
                | Some (Deliver e, sub') \<Rightarrow>
                    (if seq e \<le> os_max s then Some ([], s, set_subscription (os_id s) sub' h)
                     else case emit flt e s of
                            (fs, s') \<Rightarrow> Some (fs, s', set_subscription (os_id s) sub' h)))))"

text \<open>The route: the hub, the cursor and the orders the store knows of the strategy.\<close>

definition order_stream_route ::
  "string option \<Rightarrow> int option \<Rightarrow> stream_filter \<Rightarrow> (('r, 'v) world, api_error, stream_frame list \<times> order_stream) prog" where
  "order_stream_route header last_event_id flt =
     bindE (getsE hub) (\<lambda>hb.
     bindE (liftE (map_sum Raised id (require_hub hb))) (\<lambda>_.
     bindE (liftE (parse_stream_cursor header last_event_id)) (\<lambda>after_seq.
     bindE (case flt_strategy flt of
              None \<Rightarrow> returnE {}
            | Some sid \<Rightarrow> on_engine (fetch_client_order_ids_for_strategy sid)) (\<lambda>seeded.
     (\<lambda>w. case hub w of
            None \<Rightarrow> (Inl (Raised (Rejected OrderStreamUnavailable None)), w)
          | Some h \<Rightarrow> (case open_stream after_seq seeded h of
                         (fs, s, h') \<Rightarrow> (Inr (fs, s), w\<lparr>hub := Some h'\<rparr>)))))))"

section \<open>Runs of a stream\<close>

text \<open>The event a publication stamps.\<close>

definition stamped ::
  "timestamp \<Rightarrow> string \<Rightarrow> OrderState \<Rightarrow> string option \<Rightarrow> string option \<Rightarrow> decimal option \<Rightarrow>
   int option \<Rightarrow> FillEvent option \<Rightarrow> EventHub \<Rightarrow> OrderUpdateEvent" where
  "stamped now cid st sid boid pr qty fl h =
     \<lparr>seq = next_seq h, ev_client_order_id = cid, ev_strategy_id = resolve_strategy h cid sid,
      engine_state = st, ev_status = derive_status st, ev_broker_order_id = boid,
      ev_price = pr, ev_quantity = qty, ev_fill = fl, ts = now\<rparr>"

text \<open>
  What may happen while a stream opened on the hub \<open>h0\<close> is followed: publications, whatever the
  other parts of the process do to the hub without touching this subscription, a resumption of
  the generator, and a keep-alive while it waits. The lists are the frames sent so far and the
  events published since the stream was opened.
\<close>

inductive stream_run ::
  "stream_filter \<Rightarrow> int \<Rightarrow> string set \<Rightarrow> EventHub \<Rightarrow> EventHub \<Rightarrow> order_stream \<Rightarrow> stream_frame list \<Rightarrow>
   OrderUpdateEvent list \<Rightarrow> bool"
  for flt after_seq seeded h0 where
  opened: "open_stream after_seq seeded h0 = (fs, s, h) \<Longrightarrow> stream_run flt after_seq seeded h0 h s fs []"
| published: "stream_run flt after_seq seeded h0 h s out es \<Longrightarrow>
    stream_run flt after_seq seeded h0 (publish now cid st sid boid pr qty fl h) s out
      (es @ [stamped now cid st sid boid pr qty fl h])"
| elsewhere: "stream_run flt after_seq seeded h0 h s out es \<Longrightarrow>
    map_of (subscriptions h') (os_id s) = map_of (subscriptions h) (os_id s) \<Longrightarrow> next_seq h' = next_seq h \<Longrightarrow>
    stream_run flt after_seq seeded h0 h' s out es"
| resumed: "stream_run flt after_seq seeded h0 h s out es \<Longrightarrow> resume flt s h = Some (fs, s', h') \<Longrightarrow>
    stream_run flt after_seq seeded h0 h' s' (out @ fs) es"
| idle: "stream_run flt after_seq seeded h0 h s out es \<Longrightarrow> resume flt s h = None \<Longrightarrow>
    stream_run flt after_seq seeded h0 h s (out @ [Keep_alive]) es"

fun delivered_events :: "stream_frame list \<Rightarrow> OrderUpdateEvent list" where
  "delivered_events [] = []"
| "delivered_events (Event_frame e # fs) = e # delivered_events fs"
| "delivered_events (_ # fs) = delivered_events fs"

lemma delivered_events_append [simp]: "delivered_events (xs @ ys) = delivered_events xs @ delivered_events ys"
  by (induction xs rule: delivered_events.induct) auto

definition advisory :: "stream_frame \<Rightarrow> bool" where
  "advisory f = (case f of Resync_frame _ \<Rightarrow> True | Gap_frame _ \<Rightarrow> True | _ \<Rightarrow> False)"

lemma advisory_simps [simp]:
  "\<not> advisory (Event_frame e)" "advisory (Resync_frame k)" "advisory (Gap_frame n)" "\<not> advisory Keep_alive"
  by (simp_all add: advisory_def)

text \<open>
  The specification of the filter: what it lets through of a log of events, and the orders
  seeded afterwards.
\<close>

fun select :: "stream_filter \<Rightarrow> string set \<Rightarrow> OrderUpdateEvent list \<Rightarrow> OrderUpdateEvent list \<times> string set" where
  "select flt seeded [] = ([], seeded)"
| "select flt seeded (e # es) =
     (case matches flt e seeded of
        (yes, seeded') \<Rightarrow> (case select flt seeded' es of
                            (out, seeded'') \<Rightarrow> (if yes then e # out else out, seeded'')))"

lemma select_append:
  "select flt seeded (xs @ ys) =
     (case select flt seeded xs of
        (out, s1) \<Rightarrow> (case select flt s1 ys of (out', s2) \<Rightarrow> (out @ out', s2)))"
  by (induction xs arbitrary: seeded) (auto split: prod.splits)

lemma select_subseq: "subseq (fst (select flt seeded es)) es"
proof (induction es arbitrary: seeded)
  case (Cons e es)
  obtain yes s1 where m: "matches flt e seeded = (yes, s1)" by fastforce
  from Cons.IH [of s1] show ?case by (auto simp: m split: prod.splits)
qed simp

text \<open>The log a stream with this cursor is owed: the events after it, then the live ones.\<close>

definition owed :: "int \<Rightarrow> OrderUpdateEvent list \<Rightarrow> OrderUpdateEvent list \<Rightarrow> OrderUpdateEvent list" where
  "owed after_seq before es = (if after_seq \<le> 0 then [] else drop (nat after_seq) before) @ es"

lemma sub_publish:
  "map_of (subscriptions (publish now cid st sid boid pr qty fl h)) i =
     map_option (offer (stamped now cid st sid boid pr qty fl h)) (map_of (subscriptions h) i)"
proof -
  have "subscriptions (publish now cid st sid boid pr qty fl h) =
      map (\<lambda>(j, s). (j, offer (stamped now cid st sid boid pr qty fl h) s)) (subscriptions h)"
    by (simp add: publish_def stamped_def Let_def)
  then show ?thesis by (simp add: map_of_map)
qed

lemma sub_set_subscription:
  "map_of (subscriptions (set_subscription i sub h)) j =
     (if j = i then map_option (\<lambda>_. sub) (map_of (subscriptions h) i) else map_of (subscriptions h) j)"
proof -
  have "map_of (map (\<lambda>(k, t). (k, if k = i then sub else t)) xs) j =
      (if j = i then map_option (\<lambda>_. sub) (map_of xs i) else map_of xs j)" for xs :: "(nat \<times> Subscription) list"
    by (induction xs) auto
  then show ?thesis by (simp add: set_subscription_def)
qed

lemma next_seq_publish [simp]: "next_seq (publish now cid st sid boid pr qty fl h) = next_seq h + 1"
  by (simp add: publish_def Let_def)

lemma seq_stamped [simp]: "seq (stamped now cid st sid boid pr qty fl h) = next_seq h"
  by (simp add: stamped_def)

lemma next_seq_set_subscription [simp]: "next_seq (set_subscription i sub h) = next_seq h"
  by (simp add: set_subscription_def)

text \<open>An offer loses events only together with a pending gap.\<close>

lemma offer_events:
  assumes "sub_wf sub"
  shows "subseq (events_of (queue (offer e sub))) (events_of (queue sub) @ [e])"
    and "\<not> gap_pending (offer e sub) \<Longrightarrow>
      \<not> gap_pending sub \<and> events_of (queue (offer e sub)) = events_of (queue sub) @ [e]"
proof -
  show "subseq (events_of (queue (offer e sub))) (events_of (queue sub) @ [e])"
    by (cases rule: offer_cases [OF assms, of e])
      (auto intro: list_emb_prefix)
  show "\<not> gap_pending (offer e sub) \<Longrightarrow>
      \<not> gap_pending sub \<and> events_of (queue (offer e sub)) = events_of (queue sub) @ [e]"
    by (cases rule: offer_cases [OF assms, of e]) auto
qed

lemma resume_cases:
  assumes "resume flt s h = Some (fs, s', h')"
  obtains (replaying) e rest where "os_replay s = e # rest" and "h' = h"
      and "emit flt e (s\<lparr>os_replay := rest, os_max := max (os_max s) (seq e)\<rparr>) = (fs, s')"
  | (gap) sub n sub' where "os_replay s = []" and "map_of (subscriptions h) (os_id s) = Some sub"
      and "read_one sub = Some (Gap n, sub')" and "fs = [Gap_frame n]" and "s' = s"
      and "h' = set_subscription (os_id s) sub' h"
  | (live) sub e sub' where "os_replay s = []" and "map_of (subscriptions h) (os_id s) = Some sub"
      and "read_one sub = Some (Deliver e, sub')" and "h' = set_subscription (os_id s) sub' h"
      and "seq e \<le> os_max s \<Longrightarrow> fs = [] \<and> s' = s"
      and "os_max s < seq e \<Longrightarrow> emit flt e s = (fs, s')"
proof (cases "os_replay s")
  case (Cons e rest)
  with assms show thesis using replaying by (auto simp: resume_def split: prod.splits)
next
  case Nil
  with assms obtain sub fr sub' where sub: "map_of (subscriptions h) (os_id s) = Some sub"
    and rd: "read_one sub = Some (fr, sub')"
    by (auto simp: resume_def split: option.splits)
  show thesis
  proof (cases fr)
    case (Gap n)
    then show thesis using gap [OF Nil sub, of n sub'] Nil sub rd assms by (auto simp: resume_def)
  next
    case (Deliver e)
    have step: "resume flt s h =
        (if seq e \<le> os_max s then Some ([], s, set_subscription (os_id s) sub' h)
         else case emit flt e s of (fs, s') \<Rightarrow> Some (fs, s', set_subscription (os_id s) sub' h))"
      using Nil sub rd Deliver by (simp add: resume_def)
    show thesis
    proof (rule live [OF Nil sub, of e sub'])
      show "read_one sub = Some (Deliver e, sub')" using rd Deliver by simp
      show "h' = set_subscription (os_id s) sub' h"
        using assms step by (auto split: if_splits prod.splits)
    qed (use assms step in \<open>auto split: if_splits prod.splits\<close>)
  qed
qed

lemma emit_select:
  assumes "emit flt e s = (fs, s')" and "select flt seeded seen = (out, os_seeded s)"
  shows "select flt seeded (seen @ [e]) = (out @ delivered_events fs, os_seeded s')" and "\<forall>f \<in> set fs. \<not> advisory f"
    and "os_id s' = os_id s" and "os_replay s' = os_replay s" and "os_max s' = os_max s"
  using assms by (auto simp: emit_def select_append split: prod.splits if_splits)

lemma read_one_cases:
  assumes "sub_wf sub" and "read_one sub = Some (fr, sub')"
  shows "sub_wf sub'" and "(\<exists>e. fr = Deliver e \<and> gap_pending sub' = gap_pending sub \<and>
            events_of (queue sub) = e # events_of (queue sub')) \<or>
          (\<exists>n. fr = Gap n \<and> events_of (queue sub') = events_of (queue sub))"
proof -
  show "sub_wf sub'" by (rule read_one_wf [OF assms])
  show "(\<exists>e. fr = Deliver e \<and> gap_pending sub' = gap_pending sub \<and>
            events_of (queue sub) = e # events_of (queue sub')) \<or>
          (\<exists>n. fr = Gap n \<and> events_of (queue sub') = events_of (queue sub))"
    using assms by (auto simp: read_one_def take_dropped_def split: list.splits item.splits)
qed

text \<open>
  The invariant of a run: the events handed to the filter so far, the rest of the replay and the
  queued events are a subsequence of the ring's answer followed by what was published since,
  all of it as long as no gap is pending or was announced.
\<close>

definition stream_inv ::
  "stream_filter \<Rightarrow> string set \<Rightarrow> OrderUpdateEvent list \<Rightarrow> nat \<Rightarrow> EventHub \<Rightarrow> order_stream \<Rightarrow>
   stream_frame list \<Rightarrow> OrderUpdateEvent list \<Rightarrow> bool" where
  "stream_inv flt seeded ring0 n0 h s out es \<longleftrightarrow>
     (\<exists>sub seen. map_of (subscriptions h) (os_id s) = Some sub \<and> sub_wf sub \<and>
        subseq (seen @ os_replay s @ events_of (queue sub)) (ring0 @ es) \<and>
        ((\<forall>n. Gap_frame n \<notin> set out) \<and> \<not> gap_pending sub \<longrightarrow>
           seen @ os_replay s @ events_of (queue sub) = ring0 @ es) \<and>
        select flt seeded seen = (delivered_events out, os_seeded s) \<and>
        os_max s < n0 \<and> (\<forall>e \<in> set (os_replay s). seq e < n0) \<and>
        (\<forall>e \<in> set (events_of (queue sub)). n0 \<le> seq e) \<and> n0 \<le> next_seq h)"

lemma stream_inv_published:
  assumes "stream_inv flt seeded ring0 n0 h s out es"
  shows "stream_inv flt seeded ring0 n0 (publish now cid st sid boid pr qty fl h) s out
    (es @ [stamped now cid st sid boid pr qty fl h])"
proof -
  let ?e = "stamped now cid st sid boid pr qty fl h"
  from assms obtain sub seen where i: "map_of (subscriptions h) (os_id s) = Some sub" "sub_wf sub"
    "subseq (seen @ os_replay s @ events_of (queue sub)) (ring0 @ es)"
    "(\<forall>n. Gap_frame n \<notin> set out) \<and> \<not> gap_pending sub \<longrightarrow>
       seen @ os_replay s @ events_of (queue sub) = ring0 @ es"
    "select flt seeded seen = (delivered_events out, os_seeded s)"
    "os_max s < n0" "\<forall>e \<in> set (os_replay s). seq e < n0"
    "\<forall>e \<in> set (events_of (queue sub)). n0 \<le> seq e" "n0 \<le> next_seq h"
    by (auto simp: stream_inv_def)
  let ?q = "events_of (queue (offer ?e sub))"
  have sub': "subseq ?q (events_of (queue sub) @ [?e])" by (rule offer_events(1) [OF i(2)])
  have "subseq (seen @ os_replay s @ ?q) (seen @ os_replay s @ events_of (queue sub) @ [?e])"
    using sub' by (simp add: subseq_append')
  also have "subseq \<dots> (ring0 @ es @ [?e])" using list_emb_append_mono [OF i(3), of "[?e]" "[?e]"] by simp
  finally have s1: "subseq (seen @ os_replay s @ ?q) (ring0 @ es @ [?e])" .
  have "set ?q \<subseteq> insert ?e (set (events_of (queue sub)))" using sub' by (auto elim: list_emb_set)
  then have "\<forall>e \<in> set ?q. n0 \<le> seq e" using i(8,9) by auto
  then show ?thesis unfolding stream_inv_def
    using i s1 offer_wf [OF i(2)] offer_events(2) [OF i(2), of ?e]
    by (intro exI [of _ "offer ?e sub"] exI [of _ seen]) (auto simp: sub_publish)
qed

lemma stream_inv_resumed:
  assumes "stream_inv flt seeded ring0 n0 h s out es" and r: "resume flt s h = Some (fs, s', h')"
  shows "stream_inv flt seeded ring0 n0 h' s' (out @ fs) es"
proof -
  from assms obtain sub seen where i: "map_of (subscriptions h) (os_id s) = Some sub" "sub_wf sub"
    "subseq (seen @ os_replay s @ events_of (queue sub)) (ring0 @ es)"
    "(\<forall>n. Gap_frame n \<notin> set out) \<and> \<not> gap_pending sub \<longrightarrow>
       seen @ os_replay s @ events_of (queue sub) = ring0 @ es"
    "select flt seeded seen = (delivered_events out, os_seeded s)"
    "os_max s < n0" "\<forall>e \<in> set (os_replay s). seq e < n0"
    "\<forall>e \<in> set (events_of (queue sub)). n0 \<le> seq e" "n0 \<le> next_seq h"
    by (auto simp: stream_inv_def)
  from r show ?thesis
  proof (cases rule: resume_cases)
    case (replaying e rest)
    have sel: "select flt seeded seen =
        (delivered_events out, os_seeded (s\<lparr>os_replay := rest, os_max := max (os_max s) (seq e)\<rparr>))"
      using i(5) by simp
    note em = emit_select [OF replaying(3) sel]
    show ?thesis unfolding stream_inv_def using i em replaying
      by (intro exI [of _ sub] exI [of _ "seen @ [e]"]) auto
  next
    case (gap sub1 n sub')
    then have "sub1 = sub" using i(1) by simp
    with gap have rd: "read_one sub = Some (Gap n, sub')" by simp
    show ?thesis unfolding stream_inv_def
      using i gap \<open>sub1 = sub\<close> read_one_cases [OF i(2) rd]
      by (intro exI [of _ sub'] exI [of _ seen]) (auto simp: sub_set_subscription)
  next
    case (live sub1 e sub')
    then have "sub1 = sub" using i(1) by simp
    with live have rd: "read_one sub = Some (Deliver e, sub')" by simp
    note rc = read_one_cases [OF i(2) rd]
    then have q: "events_of (queue sub) = e # events_of (queue sub')" "gap_pending sub' = gap_pending sub" by auto
    then have "os_max s < seq e" using i(6,8) by auto
    then have em: "emit flt e s = (fs, s')" by (rule live(6))
    note es = emit_select [OF em i(5)]
    show ?thesis unfolding stream_inv_def
      using i live(1,4) es rc(1) q
      by (intro exI [of _ sub'] exI [of _ "seen @ [e]"]) (auto simp: sub_set_subscription)
  qed
qed

lemma stream_run_inv:
  assumes "stream_run flt after_seq seeded h0 h s out es" and "hub_wf h0"
  shows "stream_inv flt seeded (fst (replay after_seq h0)) (next_seq h0) h s out es"
  using assms(1)
proof (induction rule: stream_run.induct)
  case (opened fs s h)
  let ?new = "new_subscription (EventHub.subscriber_queue_size h0)"
  have "next_sub h0 \<notin> fst ` set (subscriptions h0)" using assms(2) by (auto simp: hub_wf_def)
  then have sub: "map_of (subscriptions (snd (subscribe h0))) (next_sub h0) = Some ?new"
    by (simp add: subscribe_def map_add_def map_of_eq_None_iff [symmetric] del: map_of_eq_None_iff split: option.split)
  have rep: "replay after_seq (snd (subscribe h0)) = replay after_seq h0"
    by (simp add: replay_def subscribe_def)
  have "seq ` set (ring h0) = set [next_seq h0 - length (ring h0) ..< next_seq h0]"
    using assms(2) by (metis hub_wf_def list.set_map)
  then have old: "\<forall>e \<in> set (fst (replay after_seq h0)). seq e < next_seq h0"
    by (auto simp: replay_def)
  have "0 < next_seq h0" using assms(2) by (simp add: hub_wf_def)
  moreover have "fst (subscribe h0) = next_sub h0" "next_seq (snd (subscribe h0)) = next_seq h0"
    by (simp_all add: subscribe_def)
  moreover have "h = snd (subscribe h0)" and "s = \<lparr>os_id = fst (subscribe h0),
      os_replay = fst (replay after_seq h0), os_max = 0, os_seeded = seeded\<rparr>"
    and "fs = (if snd (replay after_seq h0) then [Resync_frame after_seq] else [])"
    using opened rep by (auto simp: open_stream_def split_def)
  moreover have "queue ?new = []" by (simp add: new_subscription_def)
  ultimately show ?case unfolding stream_inv_def using sub old sub_wf_new
    by (intro exI [of _ ?new] exI [of _ "[]"]) simp
next
  case (published h s out es now cid st sid boid pr qty fl)
  then show ?case by (simp add: stream_inv_published)
next
  case (elsewhere h s out es h')
  then show ?case by (simp add: stream_inv_def)
next
  case (resumed h s out es fs s' h')
  then show ?case by (simp add: stream_inv_resumed)
next
  case (idle h s out es)
  then show ?case by (simp add: stream_inv_def)
qed

lemma sorted_wrt_subseq: "subseq xs ys \<Longrightarrow> sorted_wrt P ys \<Longrightarrow> sorted_wrt P xs"
  by (induction rule: list_emb.induct) (auto elim: list_emb_set)

lemma stream_run_log:
  assumes "stream_run flt after_seq seeded h0 h s out es"
  shows "next_seq h = next_seq h0 + length es" and "map seq es = [next_seq h0 ..< next_seq h0 + length es]"
proof -
  have "next_seq h = next_seq h0 + length es \<and> map seq es = [next_seq h0 ..< next_seq h0 + length es]"
    using assms
  proof (induction rule: stream_run.induct)
    case (opened fs s h)
    then show ?case by (auto simp: open_stream_def subscribe_def split: prod.splits)
  next
    case (resumed h s out es fs s' h')
    from resumed.hyps(2) have "next_seq h' = next_seq h" by (cases rule: resume_cases) simp_all
    then show ?case using resumed.IH by simp
  qed simp_all
  then show "next_seq h = next_seq h0 + length es" "map seq es = [next_seq h0 ..< next_seq h0 + length es]" by auto
qed

lemma stream_run_resync:
  assumes "stream_run flt after_seq seeded h0 h s out es" and "\<forall>f \<in> set out. \<not> advisory f"
  shows "\<not> snd (replay after_seq h0)"
proof -
  have rep: "replay after_seq (snd (subscribe h0)) = replay after_seq h0" by (simp add: replay_def subscribe_def)
  have "snd (replay after_seq h0) \<longrightarrow> Resync_frame after_seq \<in> set out"
    using assms(1) by (induction rule: stream_run.induct) (auto simp: open_stream_def split_def rep)
  then show ?thesis using assms(2) by (metis advisory_simps(2))
qed

text \<open>
  C25. A client of the order-update stream, under every interleaving with publications and with
  other clients. It receives events in strictly increasing order of their numbers, none twice,
  each one published and let through by its filters. And nothing goes missing silently: when
  the stream has nothing left to send and has announced neither a resync nor a gap, the client
  has received exactly what its filters let through of the events after its cursor.
\<close>

theorem order_stream_faithful:
  assumes hub: "hub_run r q h0 before" "0 < r"
    and run: "stream_run flt after_seq seeded h0 h s out es"
  shows "sorted_wrt (<) (map seq (delivered_events out)) \<and>
    subseq (delivered_events out) (before @ es) \<and>
    (\<exists>seen. subseq seen (before @ es) \<and> fst (select flt seeded seen) = delivered_events out) \<and>
    ((\<forall>f \<in> set out. \<not> advisory f) \<and> os_replay s = [] \<and>
       (\<exists>sub. map_of (subscriptions h) (os_id s) = Some sub \<and> queue sub = []) \<longrightarrow>
     delivered_events out = fst (select flt seeded (owed after_seq before es)))"
proof -
  let ?R = "fst (replay after_seq h0)"
  have wf: "hub_wf h0" and ring: "ring h0 = drop (length before - r) before"
    and n0: "next_seq h0 = length before + 1" and seqs: "map seq before = [1 ..< length before + 1]"
    using hub_run_wf [OF hub(1)] hub_run_ring [OF hub(1)] by auto
  from stream_run_inv [OF run wf] obtain sub seen where i: "map_of (subscriptions h) (os_id s) = Some sub"
    "sub_wf sub" "subseq (seen @ os_replay s @ events_of (queue sub)) (?R @ es)"
    "(\<forall>n. Gap_frame n \<notin> set out) \<and> \<not> gap_pending sub \<longrightarrow>
       seen @ os_replay s @ events_of (queue sub) = ?R @ es"
    "select flt seeded seen = (delivered_events out, os_seeded s)"
    unfolding stream_inv_def by blast
  have "subseq ?R before"
    by (auto simp: replay_def ring intro: subseq_order.order_trans [OF subseq_filter_left] suffix_imp_subseq suffix_drop)
  then have "subseq (?R @ es) (before @ es)" by (simp add: list_emb_append_mono)
  moreover have "subseq seen (?R @ es)"
    using i(3) subseq_order.order_trans [OF list_emb_prefix [OF subseq_order.order_refl]] by blast
  ultimately have seen: "subseq seen (before @ es)" by (rule subseq_order.order_trans [rotated])
  have "subseq (delivered_events out) seen" using select_subseq [of flt seeded seen] i(5) by simp
  then have del: "subseq (delivered_events out) (before @ es)" using seen by (rule subseq_order.order_trans)
  have "map seq (before @ es) = [1 ..< next_seq h0 + length es]"
    using seqs stream_run_log(2) [OF run] upt_add_eq_append [of 1 "next_seq h0" "length es"] n0
    by (simp del: upt_Suc)
  then have "sorted_wrt (<) (map seq (before @ es))" by (simp only: sorted_wrt_upt)
  then have sorted: "sorted_wrt (<) (map seq (delivered_events out))"
    using sorted_wrt_subseq [OF subseq_map [OF del]] by blast
  have "delivered_events out = fst (select flt seeded (owed after_seq before es))"
    if quiet: "\<forall>f \<in> set out. \<not> advisory f" and caught: "os_replay s = []" "queue sub = []"
  proof -
    have "?R @ es = owed after_seq before es"
      using replay_exact [OF hub, of after_seq] stream_run_resync [OF run quiet]
      by (cases "after_seq \<le> 0") (simp_all add: owed_def replay_def)
    moreover have "\<not> gap_pending sub" using i(2) caught(2) by (auto simp: sub_wf_def split: if_splits)
    moreover have "\<forall>n. Gap_frame n \<notin> set out" using quiet by force
    ultimately have "seen = owed after_seq before es" using i(4) caught by simp
    then show ?thesis using i(5) by simp
  qed
  then show ?thesis using sorted del seen i(1,5) by auto
qed

text \<open>A client that reconnects after event 1 while events 2 and 3 are published around it.\<close>

theorem order_stream_faithful_witness:
  "\<exists>h0 before h s out es. hub_run 4 8 h0 before \<and> length before = 2 \<and>
     stream_run \<lparr>flt_strategy = None, flt_order = None\<rparr> 1 {} h0 h s out es \<and> length es = 1 \<and>
     delivered_events out = fst (select \<lparr>flt_strategy = None, flt_order = None\<rparr> {} (owed 1 before es)) \<and>
     map seq (delivered_events out) = [2, 3]"
proof -
  let ?pub = "publish 5 ''c'' NEW None None None None None"
  let ?st = "stamped 5 ''c'' NEW None None None None None"
  let ?f = "\<lparr>flt_strategy = None, flt_order = None\<rparr>"
  let ?h0 = "?pub (?pub (new_hub 4 8))" and ?b = "[?st (new_hub 4 8), ?st (?pub (new_hub 4 8))]"
  have hub: "hub_run 4 8 ?h0 ?b"
    using hub_run.published [OF hub_run.published [OF hub_run.created refl refl] refl refl,
        of 4 8 5 "''c''" NEW None None None None None 5 "''c''" NEW None None None None None]
    by (simp add: stamped_def)
  obtain fs s h where o: "open_stream 1 {} ?h0 = (fs, s, h)" by (metis prod_cases3)
  have o': "fs = []" "s = \<lparr>os_id = 0, os_replay = [?st (?pub (new_hub 4 8))], os_max = 0, os_seeded = {}\<rparr>"
    "h = snd (subscribe ?h0)"
    using o by (simp_all add: open_stream_def subscribe_def replay_def publish_def new_hub_def ring_append_def
        stamped_def Let_def resolve_strategy_def)
  have r0: "stream_run ?f 1 {} ?h0 (?pub h) s [] [?st h]"
    using stream_run.published [OF stream_run.opened [OF o]] o'(1) by simp
  let ?s1 = "s\<lparr>os_replay := [], os_max := 2\<rparr>"
  have "resume ?f s (?pub h) = Some ([Event_frame (?st (?pub (new_hub 4 8)))], ?s1, ?pub h)"
    by (simp add: o' resume_def emit_def matches_def stamped_def publish_def new_hub_def Let_def)
  from stream_run.resumed [OF r0 this]
  have r1: "stream_run ?f 1 {} ?h0 (?pub h) ?s1 [Event_frame (?st (?pub (new_hub 4 8)))] [?st h]" by simp
  let ?sub = "new_subscription 8"
  have "map_of (subscriptions h) 0 = Some ?sub"
    by (simp add: o'(3) subscribe_def publish_def new_hub_def Let_def)
  then have sub: "map_of (subscriptions (?pub h)) 0 = Some (?sub\<lparr>queue := [Event (?st h)]\<rparr>)"
    by (simp add: sub_publish offer_def put_nowait_def full_def new_subscription_def)
  have "seq (?st h) = 3" by (simp add: o'(3) subscribe_def publish_def new_hub_def Let_def)
  then have "resume ?f ?s1 (?pub h) =
      Some ([Event_frame (?st h)], ?s1, set_subscription 0 ?sub (?pub h))"
    using sub by (simp add: o'(2) resume_def emit_def matches_def read_one_def new_subscription_def)
  from stream_run.resumed [OF r1 this]
  have r2: "stream_run ?f 1 {} ?h0 (set_subscription 0 ?sub (?pub h)) ?s1
      [Event_frame (?st (?pub (new_hub 4 8))), Event_frame (?st h)] [?st h]" by simp
  have left: "\<exists>sub. map_of (subscriptions (set_subscription 0 ?sub (?pub h))) (os_id ?s1) = Some sub \<and> queue sub = []"
    using sub by (simp add: o'(2) sub_set_subscription new_subscription_def)
  have seqs: "map seq [?st (?pub (new_hub 4 8)), ?st h] = [2, 3]"
    using \<open>seq (?st h) = 3\<close> by (simp add: publish_def new_hub_def Let_def)
  have "0 < (4 :: nat)" by simp
  note faithful = order_stream_faithful [OF hub this r2]
  have "delivered_events [Event_frame (?st (?pub (new_hub 4 8))), Event_frame (?st h)] =
      fst (select ?f {} (owed 1 ?b [?st h]))"
    using faithful left by simp
  then show ?thesis using hub r2 seqs by (intro exI [of _ ?h0] exI [of _ ?b] exI) auto
qed

section \<open>Where the code falls short of its comments\<close>

text \<open>
  A cursor from before a restart is larger than every number of the new hub: the events between
  are gone, and the client is told neither by a replay nor by a resync frame.
\<close>

lemma cursor_of_an_earlier_process_is_silent:
  assumes "hub_wf h" and "int (next_seq h) \<le> after_seq"
  shows "fst (open_stream after_seq seeded h) = []"
proof -
  have "seq ` set (ring h) = set [next_seq h - length (ring h) ..< next_seq h]"
    using assms(1) by (metis hub_wf_def list.set_map)
  then have "seq e < next_seq h" if "e \<in> set (ring h)" for e
    using that imageI [of e "set (ring h)" seq] by simp
  then have "\<forall>e \<in> set (ring h). int (seq e) < after_seq" using assms(2) by fastforce
  then have "\<not> snd (replay after_seq (snd (subscribe h)))"
    by (auto simp: replay_def subscribe_def split: list.splits)
  then show ?thesis by (simp add: open_stream_def split_def)
qed

end
