(* ===== verification/BookStream.thy ===== *)
theory BookStream
  imports OrderStream
begin

text \<open>
  The book stream of \<open>api/streams.py\<close> on \<open>OrderBookService.subscription\<close>: a generator that takes a
  queue of the service, sends the cached book and then follows its queue, and gives the queue back
  when its client leaves. Any number of generators run beside the feed; a run is any interleaving
  of their resumptions with publications, snapshot reads and provider errors.
\<close>

section \<open>The generator\<close>

datatype book_frame = Book_frame OrderBook | Book_keep_alive

text \<open>
  Where the generator is suspended: in the wait for the router, which only the first subscriber of
  a symbol has, or at a frame or the wait for its queue.
\<close>

datatype book_phase = Subscribing | Following

record book_stream =
  bs_key :: book_key
  bs_id :: nat
  bs_phase :: book_phase

text \<open>The route only looks for the service; the generator starts when its response is sent.\<close>

definition order_book_stream :: "string \<Rightarrow> Market \<Rightarrow> ('r, 'v, book_key) eng" where
  "order_book_stream sy mk w =
     (case require_service (books w) of Inl e \<Rightarrow> (Inl e, w) | Inr _ \<Rightarrow> (Inr (sy, mk), w))"

definition first_snapshot ::
  "timestamp \<Rightarrow> book_stream \<Rightarrow> OrderBookService \<Rightarrow> book_frame list \<times> book_stream \<times> OrderBookService" where
  "first_snapshot now s sv =
     (case get_book now (fst (bs_key s)) (snd (bs_key s)) sv of
        (bo, sv') \<Rightarrow> (case bo of Some b \<Rightarrow> [Book_frame b] | None \<Rightarrow> [], s\<lparr>bs_phase := Following\<rparr>, sv'))"

text \<open>Up to the first suspension. The number names the queue object the generator has made.\<close>

definition start_book_stream ::
  "timestamp \<Rightarrow> book_key \<Rightarrow> nat \<Rightarrow> OrderBookService \<Rightarrow> book_frame list \<times> book_stream \<times> OrderBookService" where
  "start_book_stream now key i sv =
     (let s = \<lparr>bs_key = key, bs_id = i, bs_phase = Subscribing\<rparr>; sv' = acquire_book key i sv
      in if map_of (refcounts sv') key = Some 1 then ([], s, sv') else first_snapshot now s sv')"

text \<open>\<open>queue.get()\<close> of a queue with a book; None where it waits.\<close>

definition put_queue :: "book_key \<Rightarrow> nat \<Rightarrow> OrderBook list \<Rightarrow> OrderBookService \<Rightarrow> OrderBookService" where
  "put_queue key i bs sv =
     sv\<lparr>subscribers := od_set key (map (\<lambda>q. if q_id q = i then q\<lparr>q_books := bs\<rparr> else q) (listeners sv key)) (subscribers sv)\<rparr>"

definition take_book :: "book_key \<Rightarrow> nat \<Rightarrow> OrderBookService \<Rightarrow> (OrderBook \<times> OrderBookService) option" where
  "take_book key i sv =
     (case find (\<lambda>q. q_id q = i) (listeners sv key) of
        None \<Rightarrow> None
      | Some q \<Rightarrow>
          (case q_books q of [] \<Rightarrow> None | b # rest \<Rightarrow> Some (b, put_queue key i rest sv)))"

definition resume_book_stream ::
  "timestamp \<Rightarrow> book_stream \<Rightarrow> OrderBookService \<Rightarrow> (book_frame list \<times> book_stream \<times> OrderBookService) option" where
  "resume_book_stream now s sv =
     (case bs_phase s of
        Subscribing \<Rightarrow> Some (first_snapshot now s sv)
      | Following \<Rightarrow> map_option (\<lambda>(b, sv'). ([Book_frame b], s, sv')) (take_book (bs_key s) (bs_id s) sv))"

text \<open>
  The client leaves. The acquisition stands before the \<open>try\<close> of \<open>subscription\<close>: a generator
  cancelled in it never reaches the release.
\<close>

definition close_book_stream :: "book_stream \<Rightarrow> OrderBookService \<Rightarrow> OrderBookService" where
  "close_book_stream s sv =
     (case bs_phase s of Subscribing \<Rightarrow> sv | Following \<Rightarrow> release_book (bs_key s) (bs_id s) sv)"

section \<open>Runs of the service\<close>

text \<open>
  A client with its generator, the frames it was sent and the books published for its symbol since
  it came.
\<close>

record book_client =
  bc_stream :: book_stream
  bc_out :: "book_frame list"
  bc_heard :: "OrderBook list"

abbreviation bc_key :: "book_client \<Rightarrow> book_key" where
  "bc_key c \<equiv> bs_key (bc_stream c)"

definition hear :: "OrderBook \<Rightarrow> book_client \<Rightarrow> book_client" where
  "hear b c = (if book_key b = bc_key c then c\<lparr>bc_heard := bc_heard c @ [b]\<rparr> else c)"

text \<open>
  The service, the number of queues made so far, the clients by their queue, and the queues whose
  client left while its generator was waiting for the router.
\<close>

inductive site :: "OrderBookService \<Rightarrow> nat \<Rightarrow> (nat \<Rightarrow> book_client option) \<Rightarrow> (nat \<times> book_key) set \<Rightarrow> bool" where
  up: "routed rt = [] \<Longrightarrow> site (new_service rt n age qsize) 0 Map.empty {}"
| connected: "site sv k cs lost \<Longrightarrow> start_book_stream now key k sv = (fs, s, sv') \<Longrightarrow>
    site sv' (Suc k) (cs(k \<mapsto> \<lparr>bc_stream = s, bc_out = fs, bc_heard = []\<rparr>)) lost"
| resumed: "site sv k cs lost \<Longrightarrow> cs i = Some c \<Longrightarrow> resume_book_stream now (bc_stream c) sv = Some (fs, s, sv') \<Longrightarrow>
    site sv' k (cs(i \<mapsto> c\<lparr>bc_stream := s, bc_out := bc_out c @ fs\<rparr>)) lost"
| idle: "site sv k cs lost \<Longrightarrow> cs i = Some c \<Longrightarrow> resume_book_stream now (bc_stream c) sv = None \<Longrightarrow>
    site sv k (cs(i \<mapsto> c\<lparr>bc_out := bc_out c @ [Book_keep_alive]\<rparr>)) lost"
| left: "site sv k cs lost \<Longrightarrow> cs i = Some c \<Longrightarrow>
    site (close_book_stream (bc_stream c) sv) k (cs(i := None))
      (if bs_phase (bc_stream c) = Subscribing then insert (i, bc_key c) lost else lost)"
| published: "site sv k cs lost \<Longrightarrow> site (publish_book b sv) k (\<lambda>i. map_option (hear b) (cs i)) lost"
| looked_up: "site sv k cs lost \<Longrightarrow> site (snd (get_book now sy mk sv)) k cs lost"
| provider_failed: "site sv k cs lost \<Longrightarrow>
    site (sv\<lparr>book_router := on_error now src (book_router sv)\<rparr>) k cs lost"

fun books_of :: "book_frame list \<Rightarrow> OrderBook list" where
  "books_of [] = []"
| "books_of (Book_frame b # fs) = b # books_of fs"
| "books_of (Book_keep_alive # fs) = books_of fs"

lemma books_of_append [simp]: "books_of (xs @ ys) = books_of xs @ books_of ys"
  by (induction xs rule: books_of.induct) auto

definition queue_of :: "OrderBookService \<Rightarrow> book_key \<Rightarrow> nat \<Rightarrow> OrderBook list option" where
  "queue_of sv key i = map_option q_books (find (\<lambda>q. q_id q = i) (listeners sv key))"

subsection \<open>What the operations do to the queues\<close>

lemma find_map_id:
  assumes "\<And>q. q_id (f q) = q_id q"
  shows "find (\<lambda>q. q_id q = i) (map f qs) = map_option f (find (\<lambda>q. q_id q = i) qs)"
  using assms by (induction qs) auto

lemma find_filter_id: "i \<noteq> j \<Longrightarrow> find (\<lambda>q. q_id q = i) (filter (\<lambda>q. q_id q \<noteq> j) qs) = find (\<lambda>q. q_id q = i) qs"
  by (induction qs) auto

lemma find_snoc_id: "q_id q \<noteq> i \<Longrightarrow> find (\<lambda>q. q_id q = i) (qs @ [q]) = find (\<lambda>q. q_id q = i) qs"
  by (induction qs) auto

lemma queue_of_iff: "queue_of sv key i \<noteq> None \<longleftrightarrow> i \<in> q_id ` set (listeners sv key)"
  by (auto simp: queue_of_def find_None_iff)

text \<open>Offering a book to a full bounded queue drops its oldest.\<close>

definition queued :: "int \<Rightarrow> OrderBook \<Rightarrow> OrderBook list \<Rightarrow> OrderBook list" where
  "queued qsize b bs = (if 0 < qsize \<and> qsize \<le> int (length bs) then tl bs @ [b] else bs @ [b])"

lemma queue_of_publish:
  "queue_of (publish_book b sv) key i =
     (if key = book_key b then map_option (queued (subscriber_queue_size sv) b) (queue_of sv key i) else queue_of sv key i)"
proof -
  have "q_id (offer_book n b q) = q_id q" "q_books (offer_book n b q) = queued n b (q_books q)" for n q
    by (simp_all add: offer_book_def queued_def)
  then show ?thesis by (simp add: queue_of_def publish_listeners find_map_id option.map_comp o_def)
qed

lemma listeners_acquire:
  "listeners (acquire_book j k sv) key =
     (if key = j then listeners sv key @ [\<lparr>q_id = k, q_books = []\<rparr>] else listeners sv key)"
  by (simp add: acquire_book_def listeners_def Let_def map_of_od_set split: option.splits)

lemma queue_of_acquire:
  "i \<noteq> k \<Longrightarrow> queue_of (acquire_book j k sv) key i = queue_of sv key i"
  "k \<notin> q_id ` set (listeners sv j) \<Longrightarrow> queue_of (acquire_book j k sv) j k = Some []"
proof -
  show "i \<noteq> k \<Longrightarrow> queue_of (acquire_book j k sv) key i = queue_of sv key i"
    by (simp add: queue_of_def listeners_acquire find_snoc_id)
  have "k \<notin> q_id ` set qs \<Longrightarrow> find (\<lambda>q. q_id q = k) (qs @ [\<lparr>q_id = k, q_books = []\<rparr>]) = Some \<lparr>q_id = k, q_books = []\<rparr>"
    for qs by (induction qs) auto
  then show "k \<notin> q_id ` set (listeners sv j) \<Longrightarrow> queue_of (acquire_book j k sv) j k = Some []"
    by (simp add: queue_of_def listeners_acquire)
qed

lemma acquire_service [simp]:
  "subscriber_queue_size (acquire_book j k sv) = subscriber_queue_size sv" "cache (acquire_book j k sv) = cache sv"
  by (simp_all add: acquire_book_def Let_def)

lemma listeners_release:
  assumes "stream_ok sv k j" and "i \<in> q_id ` set (listeners sv j)"
  shows "listeners (release_book j i sv) key =
    (if key = j then filter (\<lambda>q. q_id q \<noteq> i) (listeners sv j) else listeners sv key)"
proof -
  let ?qs = "listeners sv j" and ?rest = "filter (\<lambda>q. q_id q \<noteq> i) (listeners sv j)"
  have ne: "?qs \<noteq> []" using assms(2) by auto
  then have sub: "map_of (subscribers sv) j = Some ?qs" by (auto simp: listeners_def split: option.splits)
  obtain q where q: "q \<in> set ?qs" "q_id q = i" using assms(2) by auto
  have rc: "map_of (refcounts sv) j = Some (int (length ?qs))" and dist: "distinct (map q_id ?qs)"
    using assms(1) ne by (auto simp: stream_ok_def)
  have len: "int (length ?qs) - 1 = int (length ?rest)" using length_filter_one [OF dist q(1)] q(2) by simp
  have "release_book j i sv = (if ?rest = []
      then sv\<lparr>refcounts := od_pop j (refcounts sv), subscribers := od_pop j (od_set j ?rest (subscribers sv)),
              book_router := router_unsubscribe j (book_router sv)\<rparr>
      else sv\<lparr>subscribers := od_set j ?rest (subscribers sv), refcounts := od_set j (int (length ?rest)) (refcounts sv)\<rparr>)"
    using sub rc len by (simp add: release_book_def Let_def)
  moreover have "listeners (u\<lparr>refcounts := x, subscribers := y, book_router := z\<rparr>) key =
      (case map_of y key of Some l \<Rightarrow> l | None \<Rightarrow> [])"
    "listeners (u\<lparr>subscribers := y, refcounts := x\<rparr>) key = (case map_of y key of Some l \<Rightarrow> l | None \<Rightarrow> [])" for u x y z key
    by (simp_all add: listeners_def)
  ultimately have "key \<noteq> j \<Longrightarrow> listeners (release_book j i sv) key = (case map_of (subscribers sv) key of Some l \<Rightarrow> l | None \<Rightarrow> [])"
    "listeners (release_book j i sv) j = ?rest"
    by (simp_all add: map_of_od_set map_of_od_pop)
  then show ?thesis by (simp add: listeners_def)
qed

lemma queue_of_release:
  assumes "stream_ok sv k j" and "i \<in> q_id ` set (listeners sv j)" and "m \<noteq> i"
  shows "queue_of (release_book j i sv) key m = queue_of sv key m"
  using assms(3) by (simp add: queue_of_def listeners_release [OF assms(1,2)] find_filter_id)

lemma release_service [simp]: "subscriber_queue_size (release_book j k sv) = subscriber_queue_size sv"
  by (simp add: release_book_def Let_def split: option.splits)

lemma get_book_service:
  "listeners (snd (get_book now sy mk sv)) key = listeners sv key"
  "stream_ok (snd (get_book now sy mk sv)) k key = stream_ok sv k key"
  "subscriber_queue_size (snd (get_book now sy mk sv)) = subscriber_queue_size sv"
  by (simp_all add: get_book_def listeners_def stream_ok_def split: option.splits)

lemma take_book_eq:
  "take_book key i sv = (case queue_of sv key i of Some (b # rest) \<Rightarrow> Some (b, put_queue key i rest sv) | _ \<Rightarrow> None)"
  by (simp add: take_book_def queue_of_def split: option.splits list.splits)

lemma listeners_put:
  "listeners (put_queue key i bs sv) k =
     (if k = key then map (\<lambda>q. if q_id q = i then q\<lparr>q_books := bs\<rparr> else q) (listeners sv key) else listeners sv k)"
proof -
  have "listeners (put_queue key i bs sv) k = (case map_of (subscribers (put_queue key i bs sv)) k of Some l \<Rightarrow> l | None \<Rightarrow> [])"
    by (rule listeners_def)
  then show ?thesis by (simp add: put_queue_def map_of_od_set) (simp add: listeners_def)
qed

lemma queue_of_put:
  assumes "queue_of sv key i \<noteq> None"
  shows "queue_of (put_queue key i bs sv) k m = (if k = key \<and> m = i then Some bs else queue_of sv k m)"
proof (cases "find (\<lambda>q. q_id q = m) (listeners sv key)")
  case None
  then show ?thesis using assms by (auto simp: queue_of_def listeners_put find_map_id)
next
  case (Some p)
  then have "q_id p = m" by (auto simp: find_Some_iff)
  then show ?thesis using Some by (auto simp: queue_of_def listeners_put find_map_id)
qed

lemma put_queue_service:
  assumes "queue_of sv key i \<noteq> None"
  shows "stream_ok (put_queue key i bs sv) k j = stream_ok sv k j"
    and "q_id ` set (listeners (put_queue key i bs sv) j) = q_id ` set (listeners sv j)"
    and "subscriber_queue_size (put_queue key i bs sv) = subscriber_queue_size sv"
    and "cache (put_queue key i bs sv) = cache sv"
proof -
  let ?sv' = "put_queue key i bs sv"
  have there: "map_of (subscribers sv) key \<noteq> None" using assms by (auto simp: queue_of_def listeners_def split: option.splits)
  have ids: "map q_id (listeners ?sv' j) = map q_id (listeners sv j)" by (simp add: listeners_put)
  then show im: "q_id ` set (listeners ?sv' j) = q_id ` set (listeners sv j)" by (metis set_map)
  have all: "(\<forall>q \<in> set (listeners ?sv' j). q_id q < k) \<longleftrightarrow> (\<forall>n \<in> q_id ` set (listeners sv j). n < k)"
    unfolding im [symmetric] by simp
  have len: "length (listeners ?sv' j) = length (listeners sv j)" using ids by (metis length_map)
  have nil: "listeners ?sv' j = [] \<longleftrightarrow> listeners sv j = []" by (simp add: listeners_put)
  have sub: "map_of (subscribers ?sv') j = None \<longleftrightarrow> map_of (subscribers sv) j = None"
    using there by (auto simp: put_queue_def map_of_od_set)
  have rest: "refcounts ?sv' = refcounts sv" "book_router ?sv' = book_router sv" by (simp_all add: put_queue_def)
  show "stream_ok ?sv' k j = stream_ok sv k j" unfolding stream_ok_def by (simp only: all len nil sub rest ids) simp
  show "subscriber_queue_size ?sv' = subscriber_queue_size sv" "cache ?sv' = cache sv" by (simp_all add: put_queue_def)
qed

subsection \<open>What a client has been sent\<close>

declare split_paired_All [simp del] split_paired_Ex [simp del]

text \<open>
  Of the books heard since it came, a client has the ones in \<open>rest\<close> and will have the ones in its
  queue: in their order, up to the newest, and all of them unless more came than the queue holds.
\<close>

definition log_ok :: "int \<Rightarrow> OrderBook list \<Rightarrow> OrderBook list \<Rightarrow> OrderBook list \<Rightarrow> bool" where
  "log_ok qsize heard rest pending \<longleftrightarrow>
     subseq (rest @ pending) heard \<and>
     (heard \<noteq> [] \<longrightarrow> rest @ pending \<noteq> [] \<and> last (rest @ pending) = last heard) \<and>
     (qsize \<le> 0 \<or> int (length heard) \<le> qsize \<longrightarrow> rest @ pending = heard)"

lemma log_ok_offered:
  assumes "log_ok n heard rest pending"
  shows "log_ok n (heard @ [b]) rest (queued n b pending)"
proof (cases "0 < n \<and> n \<le> int (length pending)")
  case True
  have "rest @ pending \<noteq> heard \<or> \<not> int (length (heard @ [b])) \<le> n"
  proof (rule disjCI)
    assume "\<not> \<not> int (length (heard @ [b])) \<le> n"
    then have "length heard < length (rest @ pending)" using True by auto
    then show "rest @ pending \<noteq> heard" by auto
  qed
  moreover have "subseq (rest @ tl pending) heard"
    using assms subseq_order.trans [of "rest @ tl pending" "rest @ pending" heard]
    by (cases pending) (auto simp: log_ok_def subseq_append')
  ultimately show ?thesis
    using assms True by (auto simp: log_ok_def queued_def simp flip: append_assoc)
next
  case False
  then show ?thesis using assms by (auto simp: log_ok_def queued_def simp flip: append_assoc)
qed

lemma log_ok_take: "log_ok n heard rest (b # pending) \<Longrightarrow> log_ok n heard (rest @ [b]) pending"
  by (simp add: log_ok_def)

definition client_ok :: "int \<Rightarrow> OrderBook list option \<Rightarrow> book_client \<Rightarrow> bool" where
  "client_ok qsize q c \<longleftrightarrow>
     (\<exists>pending early rest. q = Some pending \<and> books_of (bc_out c) = early @ rest \<and> length early \<le> 1 \<and>
        (bs_phase (bc_stream c) = Subscribing \<longrightarrow> early = [] \<and> rest = []) \<and> log_ok qsize (bc_heard c) rest pending)"

definition holders :: "(nat \<Rightarrow> book_client option) \<Rightarrow> (nat \<times> book_key) set \<Rightarrow> book_key \<Rightarrow> nat set" where
  "holders cs lost key = {i. (\<exists>c. cs i = Some c \<and> bc_key c = key) \<or> (i, key) \<in> lost}"

definition site_ok :: "OrderBookService \<Rightarrow> nat \<Rightarrow> (nat \<Rightarrow> book_client option) \<Rightarrow> (nat \<times> book_key) set \<Rightarrow> bool" where
  "site_ok sv k cs lost \<longleftrightarrow>
     (\<forall>key. stream_ok sv k key \<and> q_id ` set (listeners sv key) = holders cs lost key) \<and>
     (\<forall>i c. cs i = Some c \<longrightarrow> i < k \<and> bs_id (bc_stream c) = i \<and> (\<forall>key. (i, key) \<notin> lost) \<and>
        client_ok (subscriber_queue_size sv) (queue_of sv (bc_key c) i) c) \<and>
     (\<forall>i key. (i, key) \<in> lost \<longrightarrow> i < k)"

lemma site_okD:
  assumes "site_ok sv k cs lost"
  shows "stream_ok sv k key" "q_id ` set (listeners sv key) = holders cs lost key"
    "cs i = Some c \<Longrightarrow> i < k \<and> bs_id (bc_stream c) = i \<and> (i, key) \<notin> lost \<and> i \<in> q_id ` set (listeners sv (bc_key c)) \<and>
       client_ok (subscriber_queue_size sv) (queue_of sv (bc_key c) i) c"
    "(i, key) \<in> lost \<Longrightarrow> i < k"
  using assms unfolding site_ok_def by (blast, blast, simp add: holders_def, blast)

text \<open>The first snapshot changes nothing but the cache.\<close>

lemma first_snapshot_cases:
  assumes "first_snapshot now s sv = (fs, s', sv')"
  shows "s' = s\<lparr>bs_phase := Following\<rparr>" "length (books_of fs) \<le> 1" "sv' = snd (get_book now (fst (bs_key s)) (snd (bs_key s)) sv)"
  using assms by (auto simp: first_snapshot_def split: prod.splits option.splits)

lemma site_ok_same_queues:
  assumes "site_ok sv k cs lost" and "\<And>key. stream_ok sv' k key = stream_ok sv k key"
    and "\<And>key. listeners sv' key = listeners sv key" and "subscriber_queue_size sv' = subscriber_queue_size sv"
  shows "site_ok sv' k cs lost"
proof -
  have "queue_of sv' key i = queue_of sv key i" for key i by (simp add: queue_of_def assms(3))
  with assms show ?thesis by (simp add: site_ok_def)
qed

lemmas site_ok_looked_up = site_ok_same_queues [OF _ get_book_service(2,1,3)]

text \<open>One client goes on; its queue and the others' stay.\<close>

lemma site_ok_update:
  assumes "site_ok sv k cs lost" and "cs i = Some c" and "bc_stream c' = (bc_stream c)\<lparr>bs_phase := ph\<rparr>"
    and "client_ok (subscriber_queue_size sv) (queue_of sv (bc_key c) i) c'"
  shows "site_ok sv k (cs(i \<mapsto> c')) lost"
proof -
  have "holders (cs(i \<mapsto> c')) lost = holders cs lost" using assms(2,3) by (auto simp: holders_def fun_eq_iff)
  then show ?thesis using assms by (auto simp: site_ok_def)
qed

lemma site_ok_started:
  assumes ok: "site_ok sv k cs lost" and start: "start_book_stream now key k sv = (fs, s, sv')"
  shows "site_ok sv' (Suc k) (cs(k \<mapsto> \<lparr>bc_stream = s, bc_out = fs, bc_heard = []\<rparr>)) lost"
proof -
  let ?sv = "acquire_book key k sv" and ?s = "\<lparr>bs_key = key, bs_id = k, bs_phase = Subscribing\<rparr>"
  let ?c = "\<lparr>bc_stream = ?s, bc_out = [], bc_heard = []\<rparr>" and ?cs = "cs(k \<mapsto> \<lparr>bc_stream = ?s, bc_out = [], bc_heard = []\<rparr>)"
  have fresh: "cs k = None" "(k, j) \<notin> lost" for j using site_okD(3,4) [OF ok] by (cases "cs k", blast+)
  then have new: "k \<notin> q_id ` set (listeners sv j)" for j by (simp add: site_okD(2) [OF ok] holders_def)
  have "client_ok n (Some []) ?c" for n by (simp add: client_ok_def log_ok_def)
  then have "client_ok (subscriber_queue_size ?sv) (queue_of ?sv (bc_key d) i) d" if "?cs i = Some d" for i d
    using that site_okD(3) [OF ok, of i d] queue_of_acquire(2) [OF new [of key]]
    by (cases "i = k") (auto simp: queue_of_acquire(1))
  moreover have "q_id ` set (listeners ?sv j) = holders ?cs lost j" for j
    using site_okD(2) [OF ok, of j] fresh(1) fresh(2) [of j] by (auto simp: listeners_acquire holders_def)
  ultimately have opened: "site_ok ?sv (Suc k) ?cs lost"
    using ok fresh stream_ok_acquire [of sv k] by (auto simp: site_ok_def less_Suc_eq split: if_splits)
  show ?thesis
  proof (cases "map_of (refcounts ?sv) key = Some 1")
    case True
    then show ?thesis using start opened by (simp add: start_book_stream_def Let_def)
  next
    case False
    then have snap: "first_snapshot now ?s ?sv = (fs, s, sv')" using start by (simp add: start_book_stream_def Let_def)
    note f = first_snapshot_cases [OF snap]
    have "client_ok n (Some []) \<lparr>bc_stream = s, bc_out = fs, bc_heard = []\<rparr>" for n
      using f(1,2) by (auto simp: client_ok_def log_ok_def)
    then have "site_ok ?sv (Suc k) (?cs(k \<mapsto> \<lparr>bc_stream = s, bc_out = fs, bc_heard = []\<rparr>)) lost"
      using f(1) queue_of_acquire(2) [OF new [of key]] by (intro site_ok_update [OF opened, where ph = Following]) auto
    from site_ok_looked_up [OF this] show ?thesis using f(3) by simp
  qed
qed

lemma site_ok_resumed:
  assumes ok: "site_ok sv k cs lost" and c: "cs i = Some c" and res: "resume_book_stream now (bc_stream c) sv = Some (fs, s, sv')"
  shows "site_ok sv' k (cs(i \<mapsto> c\<lparr>bc_stream := s, bc_out := bc_out c @ fs\<rparr>)) lost"
proof -
  let ?c = "c\<lparr>bc_stream := s, bc_out := bc_out c @ fs\<rparr>" and ?n = "subscriber_queue_size sv"
  note here = site_okD(3) [OF ok c]
  then obtain pending early rest where q: "queue_of sv (bc_key c) i = Some pending"
    and out: "books_of (bc_out c) = early @ rest" "length early \<le> 1"
      "bs_phase (bc_stream c) = Subscribing \<longrightarrow> early = [] \<and> rest = []"
    and log: "log_ok ?n (bc_heard c) rest pending" unfolding client_ok_def by blast
  show ?thesis
  proof (cases "bs_phase (bc_stream c)")
    case Subscribing
    then have snap: "first_snapshot now (bc_stream c) sv = (fs, s, sv')" using res by (simp add: resume_book_stream_def)
    note f = first_snapshot_cases [OF snap]
    have "client_ok ?n (Some pending) ?c" using Subscribing out log f(1,2) by (simp add: client_ok_def) blast
    then have "site_ok sv k (cs(i \<mapsto> ?c)) lost" using f(1) q by (intro site_ok_update [OF ok c, where ph = Following]) simp_all
    from site_ok_looked_up [OF this] show ?thesis using f(3) by simp
  next
    case Following
    then obtain b rest' where s: "s = bc_stream c" "fs = [Book_frame b]" and pend: "pending = b # rest'"
      and sv': "sv' = put_queue (bc_key c) i rest' sv"
      using res q here by (auto simp: resume_book_stream_def take_book_eq split: list.splits)
    have there: "queue_of sv (bc_key c) i \<noteq> None" using q by simp
    note put = put_queue_service [OF there, of rest', folded sv'] and qput = queue_of_put [OF there, of rest', folded sv']
    have new: "client_ok ?n (Some rest') ?c"
      using out Following log_ok_take [OF log [unfolded pend]] s
      unfolding client_ok_def by (intro exI [of _ rest'] exI [of _ early] exI [of _ "rest @ [b]"]) simp
    have "holders (cs(i \<mapsto> ?c)) lost = holders cs lost" using c s by (auto simp: holders_def fun_eq_iff)
    then show ?thesis
      using ok c s new here unfolding site_ok_def by (simp add: put qput)
  qed
qed

lemma site_ok_left:
  assumes ok: "site_ok sv k cs lost" and c: "cs i = Some c"
  shows "site_ok (close_book_stream (bc_stream c) sv) k (cs(i := None))
      (if bs_phase (bc_stream c) = Subscribing then insert (i, bc_key c) lost else lost)"
proof -
  note here = site_okD(3) [OF ok c]
  show ?thesis
  proof (cases "bs_phase (bc_stream c)")
    case Subscribing
    have "holders (cs(i := None)) (insert (i, bc_key c) lost) = holders cs lost"
      using c here by (auto simp: holders_def fun_eq_iff)
    then show ?thesis using ok here Subscribing by (auto simp: site_ok_def close_book_stream_def)
  next
    case Following
    let ?sv' = "release_book (bc_key c) i sv"
    have held: "i \<in> q_id ` set (listeners sv (bc_key c))" using here by blast
    then obtain q where q: "q \<in> set (listeners sv (bc_key c))" "q_id q = i" by blast
    then have sub: "map_of (subscribers sv) (bc_key c) = Some (listeners sv (bc_key c))"
      by (cases "map_of (subscribers sv) (bc_key c)") (auto simp: listeners_def)
    have st: "stream_ok ?sv' k key" for key
      using stream_ok_release [OF site_okD(1) [OF ok] sub q(1)] q(2) by simp
    have "q_id ` set (listeners ?sv' key) = holders (cs(i := None)) lost key" for key
    proof -
      have "q_id ` set (listeners ?sv' key) = q_id ` set (listeners sv key) - (if key = bc_key c then {i} else {})"
        by (auto simp: listeners_release [OF site_okD(1) [OF ok] held])
      also have "\<dots> = holders (cs(i := None)) lost key"
        using site_okD(2) [OF ok, of key] site_okD(3) [OF ok c, of key] c by (auto simp: holders_def)
      finally show ?thesis .
    qed
    then show ?thesis
      using ok st Following here queue_of_release [OF site_okD(1) [OF ok] held]
      by (simp add: site_ok_def close_book_stream_def)
  qed
qed

lemma bc_key_hear [simp]: "bc_key (hear b c) = bc_key c" "bc_stream (hear b c) = bc_stream c" "bc_out (hear b c) = bc_out c"
  by (simp_all add: hear_def)

lemma site_ok_published:
  assumes ok: "site_ok sv k cs lost"
  shows "site_ok (publish_book b sv) k (\<lambda>i. map_option (hear b) (cs i)) lost"
proof -
  let ?sv' = "publish_book b sv" and ?cs = "\<lambda>i. map_option (hear b) (cs i)"
  have n: "subscriber_queue_size ?sv' = subscriber_queue_size sv" by (simp add: publish_book_def Let_def split: option.splits)
  have "q_id (offer_book m b q) = q_id q" for m q by (simp add: offer_book_def)
  then have "q_id ` set (listeners ?sv' key) = q_id ` set (listeners sv key)" for key
    by (auto simp: publish_listeners image_image)
  moreover have "holders ?cs lost = holders cs lost" by (auto simp: holders_def fun_eq_iff)
  moreover have "client_ok (subscriber_queue_size sv) (queue_of ?sv' (bc_key c) i) (hear b c)" if "cs i = Some c" for i c
  proof -
    from site_okD(3) [OF ok that] obtain pending early rest where q: "queue_of sv (bc_key c) i = Some pending"
      and out: "books_of (bc_out c) = early @ rest" "length early \<le> 1"
        "bs_phase (bc_stream c) = Subscribing \<longrightarrow> early = [] \<and> rest = []"
      and log: "log_ok (subscriber_queue_size sv) (bc_heard c) rest pending" unfolding client_ok_def by blast
    show ?thesis
    proof (cases "bc_key c = book_key b")
      case True
      let ?new = "queued (subscriber_queue_size sv) b pending"
      have "queue_of ?sv' (bc_key c) i = Some ?new" using q True by (simp add: queue_of_publish)
      then show ?thesis
        using out log_ok_offered [OF log, of b] True unfolding client_ok_def
        by (intro exI [of _ ?new] exI [of _ early] exI [of _ rest]) (simp add: hear_def)
    next
      case False
      then show ?thesis
        using q out log unfolding client_ok_def
        by (intro exI [of _ pending] exI [of _ early] exI [of _ rest]) (simp add: hear_def queue_of_publish)
    qed
  qed
  ultimately show ?thesis
    using ok stream_ok_publish [of sv k _ b] unfolding site_ok_def by (auto simp: n)
qed

lemma site_ok_site: "site sv k cs lost \<Longrightarrow> site_ok sv k cs lost"
proof (induction rule: site.induct)
  case (up rt n age qsize)
  then show ?case
    by (simp add: site_ok_def stream_ok_def listeners_def new_service_def serves_def holders_def)
next
  case (connected sv k cs lost now key fs s sv')
  then show ?case by (intro site_ok_started)
next
  case (resumed sv k cs lost i c now fs s sv')
  then show ?case by (intro site_ok_resumed)
next
  case (idle sv k cs lost i c now)
  have "client_ok n q (c\<lparr>bc_out := bc_out c @ [Book_keep_alive]\<rparr>) = client_ok n q c" for n q by (simp add: client_ok_def)
  then show ?case
    using idle site_okD(3) [OF idle.IH idle.hyps(2)]
    by (intro site_ok_update [where ph = "bs_phase (bc_stream c)"]) auto
next
  case (left sv k cs lost i c)
  then show ?case by (intro site_ok_left)
next
  case (published sv k cs lost b)
  then show ?case by (intro site_ok_published)
next
  case (looked_up sv k cs lost now sy mk)
  then show ?case by (intro site_ok_looked_up)
next
  case (provider_failed sv k cs lost now src)
  then show ?case
    by (elim site_ok_same_queues) (simp_all add: stream_ok_def listeners_def on_error_serves)
qed

section \<open>What a client receives, and how long the feed serves it\<close>



subsection \<open>A client that comes first\<close>

text \<open>
  The generator of the first client of a symbol waits for the router while two books arrive. The
  cached book it then sends is the second; the queue still holds both.
\<close>

definition demo_stream :: "book_phase \<Rightarrow> book_stream" where
  "demo_stream ph = \<lparr>bs_key = (''A'', SET), bs_id = 0, bs_phase = ph\<rparr>"

definition demo_waiting :: OrderBookService where
  "demo_waiting = publish_book (demo_book ''A'' 2) (publish_book (demo_book ''A'' 1) (acquire_book (''A'', SET) 0 demo_service))"

lemma demo_start: "start_book_stream 0 (''A'', SET) 0 demo_service = ([], demo_stream Subscribing, acquire_book (''A'', SET) 0 demo_service)"
  by (simp add: start_book_stream_def Let_def demo_stream_def acquire_book_def demo_service_def new_service_def map_of_od_set)

lemma demo_site_up: "site demo_service 0 Map.empty {}"
  unfolding demo_service_def by (rule site.up) simp

lemma demo_site_waiting:
  "site demo_waiting 1 [0 \<mapsto> \<lparr>bc_stream = demo_stream Subscribing, bc_out = [], bc_heard = [demo_book ''A'' 1, demo_book ''A'' 2]\<rparr>] {}"
proof -
  have hear: "(\<lambda>i. map_option (hear b) (([0 \<mapsto> c] :: nat \<Rightarrow> book_client option) i)) = [0 \<mapsto> hear b c]" for b c
    by (simp add: fun_eq_iff)
  have one: "site (publish_book b sv) 1 [0 \<mapsto> hear b c] {}" if "site sv 1 [0 \<mapsto> c] {}" for b sv c
    using site.published [OF that, of b] by (simp only: hear)
  show ?thesis
    using one [OF one [OF site.connected [OF demo_site_up demo_start, unfolded One_nat_def [symmetric]]],
        of "demo_book ''A'' 2" "demo_book ''A'' 1"]
    by (simp add: demo_waiting_def hear_def demo_stream_def book_key_def demo_book_def)
qed

lemma only_client_resumed:
  assumes "site sv 1 [0 \<mapsto> c] {}" and "resume_book_stream now (bc_stream c) sv = Some (fs, s, sv')"
  shows "site sv' 1 [0 \<mapsto> c\<lparr>bc_stream := s, bc_out := bc_out c @ fs\<rparr>] {}"
  using site.resumed [OF assms(1) _ assms(2), of 0] by simp

definition demo_following :: OrderBookService where
  "demo_following = snd (get_book 0 ''A'' SET demo_waiting)"

lemma demo_site_following:
  "site demo_following 1 [0 \<mapsto> \<lparr>bc_stream = demo_stream Following, bc_out = [Book_frame (demo_book ''A'' 2)],
      bc_heard = [demo_book ''A'' 1, demo_book ''A'' 2]\<rparr>] {}"
proof -
  have "resume_book_stream 0 (demo_stream Subscribing) demo_waiting =
      Some ([Book_frame (demo_book ''A'' 2)], demo_stream Following, demo_following)"
    by code_simp
  then show ?thesis using only_client_resumed [OF demo_site_waiting] by simp
qed

lemma demo_queue: "queue_of demo_following (''A'', SET) 0 = Some [demo_book ''A'' 1, demo_book ''A'' 2]"
  by code_simp


lemma snapshot_overtakes_queue:
  "\<exists>sv cs. site sv 1 cs {} \<and>
     map_option (\<lambda>c. books_of (bc_out c)) (cs 0) = Some [demo_book ''A'' 2, demo_book ''A'' 1, demo_book ''A'' 2]"
proof -
  have "resume_book_stream 0 (demo_stream Following) demo_following =
      Some ([Book_frame (demo_book ''A'' 1)], demo_stream Following, put_queue (''A'', SET) 0 [demo_book ''A'' 2] demo_following)"
    "resume_book_stream 0 (demo_stream Following) (put_queue (''A'', SET) 0 [demo_book ''A'' 2] demo_following) =
      Some ([Book_frame (demo_book ''A'' 2)], demo_stream Following,
        put_queue (''A'', SET) 0 [] (put_queue (''A'', SET) 0 [demo_book ''A'' 2] demo_following))"
    using demo_queue by (simp_all add: resume_book_stream_def demo_stream_def take_book_eq queue_of_put)
  with only_client_resumed [OF only_client_resumed [OF demo_site_following]] show ?thesis by fastforce
qed


end
