(* ===== verification/Api.thy ===== *)
theory Api
  imports Engine ApiGuards History BookStream
begin

text \<open>
  The HTTP surface: the route handlers of \<open>api/routes.py\<close>, \<open>api/streams.py\<close> and \<open>api/audit.py\<close> with
  the dependencies each declares, and the amend body of \<open>api/schemas.py\<close>.
\<close>

section \<open>The amend body\<close>

record AmendOrderRequest =
  new_price :: "decimal option"
  new_qty :: "int option"
  new_client_order_id :: "string option"

definition mk_AmendOrderRequest :: "AmendOrderRequest \<Rightarrow> api_error + AmendOrderRequest" where
  "mk_AmendOrderRequest b =
     (if (case new_qty b of Some q \<Rightarrow> q \<le> 0 | None \<Rightarrow> False) then Inl (HTTPException 422)
      else if (case new_price b of Some p \<Rightarrow> \<not> dec_pos p | None \<Rightarrow> False) then Inl (HTTPException 422)
      else if (case new_client_order_id b of Some v \<Rightarrow> \<not> is_uuid4 v | None \<Rightarrow> False) then Inl (HTTPException 422)
      else if new_price b = None \<and> new_qty b = None then Inl (HTTPException 422)
      else Inr b)"

section \<open>Routes\<close>

text \<open>The runtime state of a broker, as the capability matrix and the liveness probe report it.\<close>

record BrokerRuntimeHealth =
  bh_breaker_state :: string
  bh_session_healthy :: "bool option"

record OrderBookHealth =
  active_provider :: string
  provider_names :: "string list"
  cached_symbols :: nat
  live_subscribers :: nat

record HealthResponse =
  hr_stage :: Stage
  hr_public_mode :: bool
  hr_brokers :: "(string \<times> BrokerRuntimeHealth) list option"
  hr_order_book :: "OrderBookHealth option"

fun breaker_value :: "BreakerState \<Rightarrow> string" where
  "breaker_value Closed = ''closed''"
| "breaker_value Open = ''open''"
| "breaker_value Half_open = ''half_open''"

text \<open>A call is a route with its parameters; a reply is the body of a success.\<close>

datatype api_call =
    SubmitOrder NormalizedOrder
  | GetOrder string
  | GetAccount string Broker
  | GetPositions string Broker
  | GetOpenOrders string Broker
  | GetVenueOrders string Broker
  | CancelOrder string
  | AmendOrder string AmendOrderRequest
  | KillSwitchState
  | KillSwitchEngage
  | KillSwitchDisengage
  | Capabilities
  | GetOrderHistory history_query
  | OrderBookSnapshot string "Market option"
  | OrderBookStreamOpen string Market
  | OrderStreamOpen "string option" "int option" stream_filter
  | OrderAudit string
  | AuditExport "timestamp option" "timestamp option" "string option"

datatype api_reply =
    OrderReply NormalizedOrderResult
  | SubmitReply NormalizedOrderResult HandleResolution
  | AccountReply AccountInfo
  | PositionsReply "Position list"
  | OpenOrdersReply "NormalizedOrder list"
  | VenueOrdersReply "VenueOrderView list"
  | KillSwitchReply bool "string option"
  | EngageReply bool "string list" "string list"
  | CapabilitiesReply Stage "CapabilitySet list" "(string \<times> BrokerRuntimeHealth) list option"
  | HistoryReply history_reply
  | BookReply OrderBook
  | BookStreamReply book_key
  | StreamReply "stream_frame list" order_stream
  | AuditReply Broker string "audit_event list"
  | ExportReply "(OrderEventRow \<times> string option) list"

text \<open>What the reads take from outside: the texts of the history page and the trigger's table.\<close>

record api_env =
  ae_history :: history_env
  ae_events :: order_events

fun route :: "api_call \<Rightarrow> string \<times> string" where
  "route (SubmitOrder _) = (''POST'', ''/orders'')"
| "route (GetOrder _) = (''GET'', ''/orders/{client_order_id}'')"
| "route (GetAccount _ _) = (''GET'', ''/accounts/{account}'')"
| "route (GetPositions _ _) = (''GET'', ''/accounts/{account}/positions'')"
| "route (GetOpenOrders _ _) = (''GET'', ''/accounts/{account}/open-orders'')"
| "route (GetVenueOrders _ _) = (''GET'', ''/accounts/{account}/venue-orders'')"
| "route (CancelOrder _) = (''DELETE'', ''/orders/{client_order_id}'')"
| "route (AmendOrder _ _) = (''PATCH'', ''/orders/{client_order_id}'')"
| "route KillSwitchState = (''GET'', ''/admin/kill-switch'')"
| "route KillSwitchEngage = (''POST'', ''/admin/kill-switch/engage'')"
| "route KillSwitchDisengage = (''POST'', ''/admin/kill-switch/disengage'')"
| "route Capabilities = (''GET'', ''/capabilities'')"
| "route (GetOrderHistory _) = (''GET'', ''/accounts/{account}/orders'')"
| "route (OrderBookSnapshot _ _) = (''GET'', ''/order-book/{symbol}'')"
| "route (OrderBookStreamOpen _ _) = (''GET'', ''/order-book/{symbol}/stream'')"
| "route (OrderStreamOpen _ _ _) = (''GET'', ''/orders/stream'')"
| "route (OrderAudit _) = (''GET'', ''/admin/orders/{client_order_id}/audit'')"
| "route (AuditExport _ _ _) = (''GET'', ''/admin/audit/export'')"

text \<open>The dependencies of each route, run in order before its body is looked at.\<close>

datatype key_guard = Full_key | Read_or_full_key

fun key_guard_of :: "api_call \<Rightarrow> key_guard" where
  "key_guard_of (GetAccount _ _) = Read_or_full_key"
| "key_guard_of (GetPositions _ _) = Read_or_full_key"
| "key_guard_of (GetOpenOrders _ _) = Read_or_full_key"
| "key_guard_of (GetVenueOrders _ _) = Read_or_full_key"
| "key_guard_of (GetOrderHistory _) = Read_or_full_key"
| "key_guard_of _ = Full_key"

fun owner_only :: "api_call \<Rightarrow> bool" where
  "owner_only (GetOrder _) = False"
| "owner_only Capabilities = False"
| "owner_only (OrderBookSnapshot _ _) = False"
| "owner_only (OrderBookStreamOpen _ _) = False"
| "owner_only (OrderStreamOpen _ _ _) = False"
| "owner_only _ = True"

definition check_guards :: "Settings \<Rightarrow> api_request \<Rightarrow> api_call \<Rightarrow> api_error + unit" where
  "check_guards s rq call =
     (case (case key_guard_of call of
              Full_key \<Rightarrow> require_api_key s rq
            | Read_or_full_key \<Rightarrow> require_read_or_full_key s rq) of
        Inl e \<Rightarrow> Inl e
      | Inr _ \<Rightarrow> if owner_only call then require_owner_mode s else Inr ())"

definition routable_now :: "('r, 'v) process \<Rightarrow> Broker \<Rightarrow> bool" where
  "routable_now p b =
     (case b of
        SIM \<Rightarrow> True
      | LIBERATOR \<Rightarrow> lr_adapter (pr_liberator p) \<noteq> None
      | STREAMING_PRO \<Rightarrow> sr_adapter (pr_streaming_pro p) \<noteq> None)"

definition broker_runtime_health ::
  "('r, 'v) process \<Rightarrow> ('r, 'v) world \<Rightarrow> (string \<times> BrokerRuntimeHealth) list option" where
  "broker_runtime_health p w =
     (let lib = (if lr_adapter (pr_liberator p) \<noteq> None
                 then [(''liberator'', \<lparr>bh_breaker_state = breaker_value (breaker_state (breakers w LIBERATOR)),
                                        bh_session_healthy = lib_heartbeat_ok (lib_session w)\<rparr>)] else []);
          sp = (if sr_adapter (pr_streaming_pro p) \<noteq> None
                then [(''streaming_pro'', \<lparr>bh_breaker_state = breaker_value (breaker_state (breakers w STREAMING_PRO)),
                                          bh_session_healthy = sp_heartbeat_ok (sp_session w)\<rparr>)] else [])
      in if lib @ sp = [] then None else Some (lib @ sp))"

fun source_value :: "OrderBookSource \<Rightarrow> string" where
  "source_value Source_LIBERATOR = ''liberator''"

definition order_book_health :: "OrderBookService option \<Rightarrow> OrderBookHealth option" where
  "order_book_health service =
     map_option (\<lambda>sv. \<lparr>active_provider = source_value (active (book_router sv)),
        provider_names = map source_value (providers (book_router sv)),
        cached_symbols = cached_symbol_count sv, live_subscribers = book_subscriber_count sv\<rparr>) service"

text \<open>The only route without a guard.\<close>

definition health :: "('r, 'v) process \<Rightarrow> ('r, 'v) world \<Rightarrow> HealthResponse" where
  "health p w =
     \<lparr>hr_stage = stage (pr_settings p), hr_public_mode = public_mode (pr_settings p),
      hr_brokers = broker_runtime_health p w, hr_order_book = order_book_health (books w)\<rparr>"

definition capabilities :: "('r, 'v) process \<Rightarrow> CapabilitySet list" where
  "capabilities p = map (\<lambda>row. row\<lparr>adapter_installed := routable_now p (cap_broker row)\<rparr>) CAPABILITY_MATRIX"

definition submit_order ::
  "('r, 'v) process \<Rightarrow> api_request \<Rightarrow> NormalizedOrder \<Rightarrow> ('r, 'v, int \<times> api_reply) api" where
  "submit_order p rq od =
     bindE (liftE (get_strategy_id rq)) (\<lambda>strategy_id.
     bindE (liftE (case mk_NormalizedOrder od of Inl _ \<Rightarrow> Inl (HTTPException 422) | Inr v \<Rightarrow> Inr v)) (\<lambda>order.
     bindE (on_engine (submit (get_router_dep p) order strategy_id)) (\<lambda>oc.
     returnE (if so_duplicate oc then 200 else 201, SubmitReply (so_result oc) (so_resolution oc)))))"

definition amend_order ::
  "('r, 'v) process \<Rightarrow> string \<Rightarrow> AmendOrderRequest \<Rightarrow> ('r, 'v, int \<times> api_reply) api" where
  "amend_order p cid body =
     bindE (liftE (mk_AmendOrderRequest body)) (\<lambda>b.
     bindE (on_engine (amend (get_router_dep p) cid (new_client_order_id b) (new_price b) (new_qty b))) (\<lambda>oc.
     returnE (200, OrderReply (so_result oc))))"

definition switch_status :: "('r, 'v) process \<Rightarrow> ('r, 'v, bool \<times> string option) api" where
  "switch_status p = on_engine (kill_switch_status (pr_settings p) (pr_redis p))"

definition kill_switch_engage :: "('r, 'v) process \<Rightarrow> ('r, 'v, int \<times> api_reply) api" where
  "kill_switch_engage p =
     bindE (switch_status p) (\<lambda>(engaged, source).
     if engaged then returnE (200, EngageReply True [] [])
     else
       bindE (catchE (\<lambda>e. e = Raised CacheError) (on_engine (engage (pr_redis p)))
                (\<lambda>_. raiseE (HTTPException 503))) (\<lambda>_.
       bindE (on_engine (mass_cancel (get_router_dep p))) (\<lambda>(cancelled, failed).
       returnE (200, EngageReply False cancelled failed))))"

definition kill_switch_disengage :: "('r, 'v) process \<Rightarrow> ('r, 'v, int \<times> api_reply) api" where
  "kill_switch_disengage p =
     bindE (switch_status p) (\<lambda>(engaged, source).
     if \<not> engaged then raiseE (Raised (Rejected KillSwitchNotEngagedError None))
     else
       bindE (on_engine (disengage (pr_settings p) (pr_redis p))) (\<lambda>_.
       bindE (switch_status p) (\<lambda>(engaged', source').
       returnE (200, KillSwitchReply engaged' source'))))"

definition get_order_route :: "string \<Rightarrow> ('r, 'v, int \<times> api_reply) api" where
  "get_order_route cid = bindE (on_engine (get_order cid)) (\<lambda>r. returnE (200, OrderReply r))"

definition get_account_route :: "('r, 'v) process \<Rightarrow> string \<Rightarrow> Broker \<Rightarrow> ('r, 'v, int \<times> api_reply) api" where
  "get_account_route p acct b =
     bindE (on_engine (get_account (get_router_dep p) b acct)) (\<lambda>info. returnE (200, AccountReply info))"

definition get_positions_route :: "('r, 'v) process \<Rightarrow> string \<Rightarrow> Broker \<Rightarrow> ('r, 'v, int \<times> api_reply) api" where
  "get_positions_route p acct b =
     bindE (on_engine (get_positions (get_router_dep p) b acct)) (\<lambda>ps. returnE (200, PositionsReply ps))"

definition get_open_orders_route :: "('r, 'v) process \<Rightarrow> string \<Rightarrow> Broker \<Rightarrow> ('r, 'v, int \<times> api_reply) api" where
  "get_open_orders_route p acct b =
     bindE (on_engine (get_open_orders (get_router_dep p) b acct)) (\<lambda>os. returnE (200, OpenOrdersReply os))"

definition get_venue_orders_route :: "('r, 'v) process \<Rightarrow> string \<Rightarrow> Broker \<Rightarrow> ('r, 'v, int \<times> api_reply) api" where
  "get_venue_orders_route p acct b =
     bindE (on_engine (get_venue_orders (get_router_dep p) b acct)) (\<lambda>vs. returnE (200, VenueOrdersReply vs))"

definition cancel_order :: "('r, 'v) process \<Rightarrow> string \<Rightarrow> ('r, 'v, int \<times> api_reply) api" where
  "cancel_order p cid = bindE (on_engine (cancel (get_router_dep p) cid)) (\<lambda>r. returnE (200, OrderReply r))"

definition kill_switch_state :: "('r, 'v) process \<Rightarrow> ('r, 'v, int \<times> api_reply) api" where
  "kill_switch_state p =
     bindE (switch_status p) (\<lambda>(engaged, source). returnE (200, KillSwitchReply engaged source))"

definition capabilities_route :: "('r, 'v) process \<Rightarrow> ('r, 'v, int \<times> api_reply) api" where
  "capabilities_route p =
     (\<lambda>w. (Inr (200, CapabilitiesReply (stage (pr_settings p)) (capabilities p) (broker_runtime_health p w)), w))"

text \<open>The dispatch of the application: one handler per route.\<close>

fun handle :: "api_env \<Rightarrow> ('r, 'v) process \<Rightarrow> api_request \<Rightarrow> api_call \<Rightarrow> ('r, 'v, int \<times> api_reply) api" where
  "handle ae p rq (SubmitOrder od) = submit_order p rq od"
| "handle ae p rq (GetOrder cid) = get_order_route cid"
| "handle ae p rq (GetAccount acct b) = get_account_route p acct b"
| "handle ae p rq (GetPositions acct b) = get_positions_route p acct b"
| "handle ae p rq (GetOpenOrders acct b) = get_open_orders_route p acct b"
| "handle ae p rq (GetVenueOrders acct b) = get_venue_orders_route p acct b"
| "handle ae p rq (CancelOrder cid) = cancel_order p cid"
| "handle ae p rq (AmendOrder cid body) = amend_order p cid body"
| "handle ae p rq KillSwitchState = kill_switch_state p"
| "handle ae p rq KillSwitchEngage = kill_switch_engage p"
| "handle ae p rq KillSwitchDisengage = kill_switch_disengage p"
| "handle ae p rq Capabilities = capabilities_route p"
| "handle ae p rq (GetOrderHistory hq) =
     bindE (get_order_history_route (ae_history ae) (get_router_dep p) hq) (\<lambda>rep. returnE (200, HistoryReply rep))"
| "handle ae p rq (OrderBookSnapshot sy mk) =
     bindE (on_engine (order_book_snapshot sy mk)) (\<lambda>b. returnE (200, BookReply b))"
| "handle ae p rq (OrderBookStreamOpen sy mk) =
     bindE (on_engine (order_book_stream sy mk)) (\<lambda>key. returnE (200, BookStreamReply key))"
| "handle ae p rq (OrderStreamOpen header last_event_id flt) =
     bindE (order_stream_route header last_event_id flt) (\<lambda>(fs, s). returnE (200, StreamReply fs s))"
| "handle ae p rq (OrderAudit cid) =
     bindE (on_engine (order_audit (ae_history ae) (ae_events ae) cid)) (\<lambda>(b, sy, evs). returnE (200, AuditReply b sy evs))"
| "handle ae p rq (AuditExport from_ts to_ts sid) =
     bindE (on_engine (stream_order_events (ae_events ae) from_ts to_ts sid)) (\<lambda>rows. returnE (200, ExportReply rows))"

definition api :: "api_env \<Rightarrow> ('r, 'v) process \<Rightarrow> api_request \<Rightarrow> api_call \<Rightarrow> ('r, 'v, int \<times> api_reply) api" where
  "api ae p rq call = bindE (liftE (check_guards (pr_settings p) rq call)) (\<lambda>_. handle ae p rq call)"

section \<open>Who may call what\<close>


definition demo_owner :: "(unit, unit) process" where
  "demo_owner = demo_process\<lparr>pr_settings := demo_settings\<lparr>api_key := Some ''full'', read_api_key := Some ''read''\<rparr>\<rparr>"

definition demo_api_env :: api_env where
  "demo_api_env = \<lparr>ae_history = demo_history_env, ae_events = []\<rparr>"


end
