(* ===== verification/BookFeed.thy ===== *)
theory BookFeed
  imports MarketData
begin

text \<open>
  The venue's book feed: the Engine.IO framing (\<open>order_book/providers/_engineio.py\<close>), the
  BidOfferV2 provider (\<open>order_book/providers/liberator.py\<close>) behind the interface of
  \<open>order_book/providers/base.py\<close>, and the runtime that ties it to the book service
  (\<open>order_book/runtime.py\<close>). The network is a parameter: the answers of the bridge to the
  requests so far, whether a packet can be sent, the frames of a session. A coroutine of the
  provider runs from one of these to the next; the log lines are left out.
\<close>

section \<open>Frames\<close>

definition DEFAULT_NAMESPACES :: "string list" where
  "DEFAULT_NAMESPACES = [''MarketStatusV2'', ''TFEXDashboardV2'', ''MarketIndexV2'', ''StockV2'', ''TickerV2'']"

definition BID_OFFER_NS :: string where
  "BID_OFFER_NS = ''BidOfferV2''"

datatype FrameKind = OPEN_FRAME | PING_FRAME | EVENT_FRAME | OTHER_FRAME

record EventFrame =
  ev_namespace :: string
  ev_name :: string
  ev_arg :: "json option"

definition connect_default_packet :: string where
  "connect_default_packet = ''40''"

definition connect_namespace_packet :: "string \<Rightarrow> string" where
  "connect_namespace_packet ns = ''40/'' @ ns @ '',''"

definition pong_packet :: string where
  "pong_packet = ''3''"

text \<open>\<open>json.dumps([name, inner])\<close> of two texts without quotes and escapes.\<close>

definition dumps_pair :: "string \<Rightarrow> string \<Rightarrow> string" where
  "dumps_pair a b = ''['' @ [CHR 34] @ a @ [CHR 34] @ '', '' @ [CHR 34] @ b @ [CHR 34] @ '']''"

definition join_rooms_packet :: "int list \<Rightarrow> string" where
  "join_rooms_packet ids =
     ''42/'' @ BID_OFFER_NS @ '','' @ dumps_pair ''join'' (''['' @ join '','' (map int_str ids) @ '']'')"

definition leave_room_packet :: "int \<Rightarrow> string" where
  "leave_room_packet rid = ''42/'' @ BID_OFFER_NS @ '','' @ dumps_pair ''leave'' (''['' @ int_str rid @ '']'')"

definition classify :: "string \<Rightarrow> FrameKind" where
  "classify raw =
     (if raw = ''2'' then PING_FRAME
      else if prefix ''0'' raw \<and> \<not> prefix ''40'' raw then OPEN_FRAME
      else if prefix ''42'' raw then EVENT_FRAME
      else OTHER_FRAME)"

text \<open>\<open>json.loads\<close> is a parameter, None where it raises; a JSON null is a value of it.\<close>

definition decode_event :: "(string \<Rightarrow> json option) \<Rightarrow> string \<Rightarrow> EventFrame option" where
  "decode_event json_loads raw =
     (if \<not> prefix ''42'' raw then None
      else
        let body = drop 2 raw;
            comma = takeWhile (\<lambda>c. c \<noteq> CHR '','') body;
            split = (if prefix ''/'' body
                     then (if CHR '','' \<notin> set body then None
                           else Some (tl comma, drop (length comma + 1) body))
                     else Some (''/'', body))
        in case split of
             None \<Rightarrow> None
           | Some (ns, text) \<Rightarrow>
               (case json_loads text of
                  Some (JList (JStr name # rest)) \<Rightarrow>
                    Some \<lparr>ev_namespace = ns, ev_name = name,
                          ev_arg = (case rest of [] \<Rightarrow> None | v # _ \<Rightarrow> Some v)\<rparr>
                | _ \<Rightarrow> None))"

section \<open>The payload of an update\<close>

text \<open>
  \<open>int(v)\<close> of a decoded JSON value: \<open>trunc\<close> is the integer part of a finite float, given by its
  \<open>repr\<close>. An infinity raises \<open>OverflowError\<close>, which is not a \<open>ValueError\<close>.
\<close>

definition py_int :: "(string \<Rightarrow> int) \<Rightarrow> json \<Rightarrow> exn + int" where
  "py_int trunc v =
     (case v of
        JInt i \<Rightarrow> Inr i
      | JBool b \<Rightarrow> Inr (if b then 1 else 0)
      | JFloat r \<Rightarrow>
          if r = ''nan'' then Inl (OtherError ''ValueError'')
          else if r \<in> {''inf'', ''-inf''} then Inl (OtherError ''OverflowError'')
          else Inr (trunc r)
      | JStr s \<Rightarrow> (case int10 s of Some i \<Rightarrow> Inr i | None \<Rightarrow> Inl (OtherError ''ValueError''))
      | _ \<Rightarrow> Inl (OtherError ''TypeError''))"

definition is_value_error :: "exn \<Rightarrow> bool" where
  "is_value_error e \<longleftrightarrow> e = OtherError ''ValueError'' \<or> e = OtherError ''TypeError''"

text \<open>\<open>try: int(v)  except (TypeError, ValueError): default\<close>.\<close>

definition int_or :: "(string \<Rightarrow> int) \<Rightarrow> json \<Rightarrow> 'a \<Rightarrow> (int \<Rightarrow> 'a) \<Rightarrow> exn + 'a" where
  "int_or trunc v dflt f =
     (case py_int trunc v of
        Inr i \<Rightarrow> Inr (f i)
      | Inl e \<Rightarrow> if is_value_error e then Inr dflt else Inl e)"

text \<open>
  The levels of one side. The comparison of a NaN with zero raises, and so does the model of a
  level with an infinite price; neither is inside a \<open>try\<close>.
\<close>

fun levels_of :: "(string \<Rightarrow> int) \<Rightarrow> (json \<times> json) list \<Rightarrow> exn + OrderBookLevel list" where
  "levels_of trunc [] = Inr []"
| "levels_of trunc ((raw_price, raw_volume) # rest) =
     (case parse_decimal (py_str raw_price) of
        None \<Rightarrow> levels_of trunc rest
      | Some NaN \<Rightarrow> Inl (OtherError ''InvalidOperation'')
      | Some (Infinity neg) \<Rightarrow>
          if neg then levels_of trunc rest
          else (case int_or trunc raw_volume 0 id of Inl e \<Rightarrow> Inl e | Inr _ \<Rightarrow> Inl (ValidationError ''price''))
      | Some (Finite d) \<Rightarrow>
          if \<not> dec_pos d then levels_of trunc rest
          else
            (case int_or trunc raw_volume 0 id of
               Inl e \<Rightarrow> Inl e
             | Inr v \<Rightarrow>
                 (case levels_of trunc rest of
                    Inl e \<Rightarrow> Inl e
                  | Inr ls \<Rightarrow> Inr (\<lparr>lv_price = d, lv_volume = max v 0\<rparr> # ls))))"

definition price_volume_levels :: "(string \<Rightarrow> int) \<Rightarrow> json option \<Rightarrow> json option \<Rightarrow> exn + OrderBookLevel list" where
  "price_volume_levels trunc prices volumes =
     (case (prices, volumes) of
        (Some (JList ps), Some (JList vs)) \<Rightarrow> levels_of trunc (zip ps vs)
      | _ \<Rightarrow> Inr [])"

type_synonym parsed_book = "int \<times> int \<times> OrderBookLevel list \<times> OrderBookLevel list"

definition parse_bid_offer_payload ::
  "(string \<Rightarrow> int) \<Rightarrow> (string \<times> json) list \<Rightarrow> exn + parsed_book option" where
  "parse_bid_offer_payload trunc payload =
     (case dict_get payload ''room'' of
        None \<Rightarrow> Inr None
      | Some room_raw \<Rightarrow>
          (case int_or trunc room_raw None Some of
             Inl e \<Rightarrow> Inl e
           | Inr None \<Rightarrow> Inr None
           | Inr (Some room) \<Rightarrow>
               (case int_or trunc (case map_of payload ''vs'' of Some v \<Rightarrow> v | None \<Rightarrow> JInt 0) 0 id of
                  Inl e \<Rightarrow> Inl e
                | Inr sequence \<Rightarrow>
                    (case price_volume_levels trunc (dict_get payload ''bp'') (dict_get payload ''bv'') of
                       Inl e \<Rightarrow> Inl e
                     | Inr bids \<Rightarrow>
                         (case price_volume_levels trunc (dict_get payload ''op'') (dict_get payload ''ov'') of
                            Inl e \<Rightarrow> Inl e
                          | Inr asks \<Rightarrow> Inr (Some (room, sequence, bids, asks)))))))"

definition parse_bid_offer_frame ::
  "(string \<Rightarrow> json option) \<Rightarrow> (string \<Rightarrow> int) \<Rightarrow> string \<Rightarrow> exn + parsed_book option" where
  "parse_bid_offer_frame json_loads trunc raw =
     (case decode_event json_loads raw of
        None \<Rightarrow> Inr None
      | Some event \<Rightarrow>
          if ev_namespace event \<noteq> BID_OFFER_NS \<or> ev_name event \<noteq> ''update'' then Inr None
          else (case ev_arg event of
                  Some (JObj payload) \<Rightarrow> parse_bid_offer_payload trunc payload
                | _ \<Rightarrow> Inr None))"

section \<open>The provider\<close>

text \<open>An HTTP exchange: no answer, or a status and the decoded body where it decodes.\<close>

datatype http_reply = No_reply | Reply int "json option"

record feed_net =
  nt_json_loads :: "string \<Rightarrow> json option"
  nt_trunc :: "string \<Rightarrow> int"
  nt_get :: "string list \<Rightarrow> string \<Rightarrow> http_reply"
  nt_send :: "string list \<Rightarrow> string \<Rightarrow> exn option"

record feed_subscription =
  su_symbol :: string
  su_market :: Market
  su_book_id :: "int option"

text \<open>The reader task: none, running, or finished, with the exception it ended with.\<close>

datatype reader = No_reader | Reading | Ended "exn option"

text \<open>
  \<open>pv_sent\<close> are the packets of the live socket, \<open>pv_requests\<close> the symbols looked up,
  \<open>pv_books\<close> and \<open>pv_errors\<close> the calls of \<open>on_book\<close> and \<open>on_error\<close>. A room leads to the symbol
  and the market of its subscription, which never change.
\<close>

record LiberatorOrderBookProvider =
  pv_base_url :: string
  pv_subs :: "(string \<times> feed_subscription) list"
  pv_by_room :: "(int \<times> book_key) list"
  pv_reader :: reader
  pv_live :: bool
  pv_stopping :: bool
  pv_sent :: "string list"
  pv_requests :: "string list"
  pv_books :: "OrderBook list"
  pv_errors :: "exn list"

definition new_provider :: "string \<Rightarrow> LiberatorOrderBookProvider" where
  "new_provider base_url =
     \<lparr>pv_base_url = rstrip_slash base_url, pv_subs = [], pv_by_room = [], pv_reader = No_reader, pv_live = False,
      pv_stopping = False, pv_sent = [], pv_requests = [], pv_books = [], pv_errors = []\<rparr>"

type_synonym 'a feed = "(LiberatorOrderBookProvider, exn, 'a) prog"

definition ws_send :: "feed_net \<Rightarrow> string \<Rightarrow> unit feed" where
  "ws_send net packet = (\<lambda>p.
     case nt_send net (pv_sent p) packet of
       Some e \<Rightarrow> (Inl e, p)
     | None \<Rightarrow> (Inr (), p\<lparr>pv_sent := pv_sent p @ [packet]\<rparr>))"

definition report_error :: "exn \<Rightarrow> unit feed" where
  "report_error e = modifyE (\<lambda>p. p\<lparr>pv_errors := pv_errors p @ [e]\<rparr>)"

text \<open>The exceptions \<open>except\<close> clauses name: the socket's, and those of one session.\<close>

definition socket_error :: "exn \<Rightarrow> bool" where
  "socket_error e \<longleftrightarrow> e = OtherError ''WebSocketException'' \<or> e = OtherError ''OSError''"

definition join_error :: "exn \<Rightarrow> bool" where
  "join_error e \<longleftrightarrow> e = OtherError ''SymbolResolutionError'' \<or> socket_error e"

definition session_error :: "exn \<Rightarrow> bool" where
  "session_error e \<longleftrightarrow> e = OtherError ''TicketAcquisitionError'' \<or> join_error e"

definition acquire_ticket :: "http_reply \<Rightarrow> exn + string" where
  "acquire_ticket reply =
     (case reply of
        Reply status (Some body) \<Rightarrow>
          if status \<noteq> 200 then Inl (OtherError ''TicketAcquisitionError'')
          else (case subscript body ''ws_url'' of
                  Inr v \<Rightarrow> Inr (py_str v)
                | Inl _ \<Rightarrow> Inl (OtherError ''TicketAcquisitionError''))
      | _ \<Rightarrow> Inl (OtherError ''TicketAcquisitionError''))"

definition book_id_of :: "(string \<Rightarrow> int) \<Rightarrow> http_reply \<Rightarrow> exn + int" where
  "book_id_of trunc reply =
     (case reply of
        Reply status (Some body) \<Rightarrow>
          if status \<noteq> 200 then Inl (OtherError ''SymbolResolutionError'')
          else (case subscript body ''orderBookId'' of
                  Inl _ \<Rightarrow> Inl (OtherError ''SymbolResolutionError'')
                | Inr v \<Rightarrow>
                    (case py_int trunc v of
                       Inr i \<Rightarrow> Inr i
                     | Inl e \<Rightarrow> Inl (if is_value_error e then OtherError ''SymbolResolutionError'' else e)))
      | _ \<Rightarrow> Inl (OtherError ''SymbolResolutionError''))"

definition resolve_order_book_id :: "feed_net \<Rightarrow> string \<Rightarrow> int feed" where
  "resolve_order_book_id net sy = (\<lambda>p.
     let url = pv_base_url p @ ''/order-book/'' @ sy
     in (book_id_of (nt_trunc net) (nt_get net (pv_requests p) url), p\<lparr>pv_requests := pv_requests p @ [url]\<rparr>))"

text \<open>The id of a subscription, looked up at most once; then the subscription remembers it.\<close>

definition remember_id :: "string \<Rightarrow> int \<Rightarrow> unit feed" where
  "remember_id sy rid = modifyE (\<lambda>p.
     case map_of (pv_subs p) sy of
       None \<Rightarrow> p
     | Some su \<Rightarrow> p\<lparr>pv_subs := od_set sy (su\<lparr>su_book_id := Some rid\<rparr>) (pv_subs p)\<rparr>)"

definition room_of :: "feed_net \<Rightarrow> feed_subscription \<Rightarrow> int feed" where
  "room_of net su =
     (case su_book_id su of
        Some rid \<Rightarrow> returnE rid
      | None \<Rightarrow>
          bindE (resolve_order_book_id net (su_symbol su)) (\<lambda>rid.
          bindE (remember_id (su_symbol su) rid) (\<lambda>_. returnE rid)))"

definition enter_room :: "feed_subscription \<Rightarrow> int \<Rightarrow> unit feed" where
  "enter_room su rid = modifyE (\<lambda>p. p\<lparr>pv_by_room := od_set rid (su_symbol su, su_market su) (pv_by_room p)\<rparr>)"

definition track :: "string \<Rightarrow> Market \<Rightarrow> feed_subscription feed" where
  "track sy mkt = (\<lambda>p.
     case map_of (pv_subs p) sy of
       Some su \<Rightarrow> (Inr su, p)
     | None \<Rightarrow>
         let su = \<lparr>su_symbol = sy, su_market = mkt, su_book_id = None\<rparr>
         in (Inr su, p\<lparr>pv_subs := od_set sy su (pv_subs p)\<rparr>))"

text \<open>The lookup and the entry of one room, the step both kinds of join repeat.\<close>

definition join_room :: "feed_net \<Rightarrow> feed_subscription \<Rightarrow> int feed" where
  "join_room net su = bindE (room_of net su) (\<lambda>rid. bindE (enter_room su rid) (\<lambda>_. returnE rid))"

definition live_join :: "feed_net \<Rightarrow> feed_subscription \<Rightarrow> unit feed" where
  "live_join net su =
     catchE join_error
       (bindE (join_room net su) (\<lambda>rid. ws_send net (join_rooms_packet [rid])))
       report_error"

definition feed_subscribe :: "feed_net \<Rightarrow> string \<Rightarrow> Market \<Rightarrow> unit feed" where
  "feed_subscribe net sy mkt =
     bindE (track sy mkt) (\<lambda>su.
     bindE (getsE (\<lambda>p. (pv_reader p, pv_live p))) (\<lambda>(rd, live).
     if rd \<noteq> Reading then modifyE (\<lambda>p. p\<lparr>pv_reader := Reading\<rparr>)
     else if \<not> live then returnE ()
     else live_join net su))"

text \<open>
  Cancelling the reader closes its socket. Awaiting a reader that has already failed raises its
  exception again, and the reference to it stays.
\<close>

definition cancel_reader :: "unit feed" where
  "cancel_reader = (\<lambda>p.
     case pv_reader p of
       No_reader \<Rightarrow> (Inr (), p)
     | Reading \<Rightarrow> (Inr (), p\<lparr>pv_reader := No_reader, pv_live := False\<rparr>)
     | Ended None \<Rightarrow> (Inr (), p\<lparr>pv_reader := No_reader\<rparr>)
     | Ended (Some e) \<Rightarrow> (Inl e, p))"

definition leave_room :: "feed_net \<Rightarrow> feed_subscription \<Rightarrow> unit feed" where
  "leave_room net su =
     (case su_book_id su of
        None \<Rightarrow> returnE ()
      | Some rid \<Rightarrow>
          bindE (modifyE (\<lambda>p. p\<lparr>pv_by_room := od_pop rid (pv_by_room p)\<rparr>)) (\<lambda>_.
          bindE (getsE pv_live) (\<lambda>live.
          if live then catchE socket_error (ws_send net (leave_room_packet rid)) (\<lambda>_. returnE ())
          else returnE ())))"

definition cancel_idle :: "unit feed" where
  "cancel_idle = bindE (getsE pv_subs) (\<lambda>subs. if subs = [] then cancel_reader else returnE ())"

definition feed_unsubscribe :: "feed_net \<Rightarrow> string \<Rightarrow> unit feed" where
  "feed_unsubscribe net sy =
     bindE (getsE (\<lambda>p. map_of (pv_subs p) sy)) (\<lambda>found.
     bindE (modifyE (\<lambda>p. p\<lparr>pv_subs := od_pop sy (pv_subs p)\<rparr>)) (\<lambda>_.
     bindE (case found of None \<Rightarrow> returnE () | Some su \<Rightarrow> leave_room net su) (\<lambda>_.
     cancel_idle)))"

definition feed_start :: "unit feed" where
  "feed_start = modifyE (\<lambda>p. p\<lparr>pv_stopping := False\<rparr>)"

definition feed_stop :: "unit feed" where
  "feed_stop = bindE (modifyE (\<lambda>p. p\<lparr>pv_stopping := True\<rparr>)) (\<lambda>_. cancel_reader)"

section \<open>A session\<close>

definition handshake :: "feed_net \<Rightarrow> exn option \<Rightarrow> unit feed" where
  "handshake net opening =
     bindE (liftE (case opening of Some e \<Rightarrow> Inl e | None \<Rightarrow> Inr ())) (\<lambda>_.
     bindE (ws_send net connect_default_packet) (\<lambda>_.
     bindE (forE DEFAULT_NAMESPACES (\<lambda>ns. ws_send net (connect_namespace_packet ns))) (\<lambda>_.
     ws_send net (connect_namespace_packet BID_OFFER_NS))))"

abbreviation resolution_error :: exn where
  "resolution_error \<equiv> OtherError ''SymbolResolutionError''"

definition join_one :: "feed_net \<Rightarrow> feed_subscription \<Rightarrow> int list feed" where
  "join_one net su =
     catchE (\<lambda>e. e = resolution_error) (bindE (join_room net su) (\<lambda>rid. returnE [rid]))
       (\<lambda>e. bindE (report_error e) (\<lambda>_. returnE []))"

fun join_rooms :: "feed_net \<Rightarrow> feed_subscription list \<Rightarrow> int list feed" where
  "join_rooms net [] = returnE []"
| "join_rooms net (su # sus) =
     bindE (join_one net su) (\<lambda>ids.
     bindE (join_rooms net sus) (\<lambda>more. returnE (ids @ more)))"

definition join_all_rooms :: "feed_net \<Rightarrow> unit feed" where
  "join_all_rooms net =
     bindE (modifyE (\<lambda>p. p\<lparr>pv_by_room := []\<rparr>)) (\<lambda>_.
     bindE (getsE (\<lambda>p. map snd (pv_subs p))) (\<lambda>sus.
     bindE (join_rooms net sus) (\<lambda>ids.
     if ids \<noteq> [] then ws_send net (join_rooms_packet ids) else returnE ())))"

definition book_of :: "timestamp \<Rightarrow> book_key \<Rightarrow> int \<Rightarrow> OrderBookLevel list \<Rightarrow> OrderBookLevel list \<Rightarrow> OrderBook" where
  "book_of now key sequence bids asks =
     \<lparr>ob_symbol = fst key, ob_market = snd key, bid_levels = bids, ask_levels = asks, bid_flag = ''NORMAL'',
      ask_flag = ''NORMAL'', ob_sequence = sequence, ob_source = Source_LIBERATOR, received_at = now\<rparr>"

definition handle_frame :: "feed_net \<Rightarrow> timestamp \<Rightarrow> string \<Rightarrow> unit feed" where
  "handle_frame net now raw =
     (if classify raw = PING_FRAME then ws_send net pong_packet
      else if classify raw \<noteq> EVENT_FRAME then returnE ()
      else
        bindE (liftE (parse_bid_offer_frame (nt_json_loads net) (nt_trunc net) raw)) (\<lambda>parsed.
        case parsed of
          None \<Rightarrow> returnE ()
        | Some (room, sequence, bids, asks) \<Rightarrow>
            bindE (getsE (\<lambda>p. map_of (pv_by_room p) room)) (\<lambda>found.
            case found of
              None \<Rightarrow> returnE ()
            | Some key \<Rightarrow>
                if bids = [] \<and> asks = [] then returnE ()
                else modifyE (\<lambda>p. p\<lparr>pv_books := pv_books p @ [book_of now key sequence bids asks]\<rparr>))))"

text \<open>
  What the network does in one session: the answer to the ticket request, a failed connect, a
  failed read of the open packet, the frames with the time of each, the end of the socket
  (None a clean close) and how long the session lasted, in seconds.
\<close>

record feed_session =
  ss_ticket :: http_reply
  ss_connect :: "exn option"
  ss_open :: "exn option"
  ss_frames :: "(timestamp \<times> string) list"
  ss_end :: "exn option"
  ss_seconds :: int

definition open_session :: "feed_net \<Rightarrow> feed_session \<Rightarrow> unit feed" where
  "open_session net sc =
     bindE (liftE (acquire_ticket (ss_ticket sc))) (\<lambda>_.
     bindE (liftE (case ss_connect sc of Some e \<Rightarrow> Inl e | None \<Rightarrow> Inr ())) (\<lambda>_.
     bindE (modifyE (\<lambda>p. p\<lparr>pv_sent := []\<rparr>)) (\<lambda>_.
     bindE (handshake net (ss_open sc)) (\<lambda>_.
     modifyE (\<lambda>p. p\<lparr>pv_live := True\<rparr>)))))"

fun receive :: "feed_net \<Rightarrow> (timestamp \<times> string) list \<Rightarrow> unit feed" where
  "receive net [] = returnE ()"
| "receive net ((now, raw) # frames) =
     bindE (getsE pv_stopping) (\<lambda>stopping.
     if stopping then returnE ()
     else bindE (handle_frame net now raw) (\<lambda>_. receive net frames))"

definition close_socket :: "LiberatorOrderBookProvider \<Rightarrow> LiberatorOrderBookProvider" where
  "close_socket p = p\<lparr>pv_live := False\<rparr>"

definition connect_once :: "feed_net \<Rightarrow> feed_session \<Rightarrow> unit feed" where
  "connect_once net sc =
     bindE (open_session net sc) (\<lambda>_ p.
       case bindE (join_all_rooms net) (\<lambda>_.
            bindE (receive net (ss_frames sc)) (\<lambda>_.
            liftE (case ss_end sc of Some e \<Rightarrow> Inl e | None \<Rightarrow> Inr ()))) p of
         (x, p') \<Rightarrow> (x, close_socket p'))"

text \<open>
  \<open>_backoff_delay\<close>, with the random number \<open>u\<close> as an argument. The power of two is an integer
  that is converted to a float to be multiplied, which fails from two to the 1024 on.
\<close>

definition backoff_delay :: "nat \<Rightarrow> rat \<Rightarrow> exn + rat" where
  "backoff_delay attempt u =
     (if 1024 \<le> attempt - 1 then Inl (OtherError ''OverflowError'')
      else Inr (min (2 ^ (attempt - 1)) 60 * (1 / 2 + u)))"

text \<open>\<open>_run\<close>, over the sessions the network will offer; it is still running at the end of the list.\<close>

fun run_reader ::
  "feed_net \<Rightarrow> nat \<Rightarrow> (rat \<times> feed_session) list \<Rightarrow> LiberatorOrderBookProvider \<Rightarrow> LiberatorOrderBookProvider" where
  "run_reader net attempt [] p = p"
| "run_reader net attempt ((u, sc) # rest) p =
     (if pv_stopping p \<or> pv_subs p = [] then p\<lparr>pv_reader := Ended None\<rparr>
      else
        case backoff_delay (attempt + 1) u of
          Inl e \<Rightarrow> p\<lparr>pv_reader := Ended (Some e)\<rparr>
        | Inr _ \<Rightarrow>
            (case connect_once net sc p of
               (Inl e, p') \<Rightarrow>
                 if session_error e
                 then run_reader net (if 30 \<le> ss_seconds sc then 0 else attempt + 1) rest
                        (p'\<lparr>pv_errors := pv_errors p' @ [e]\<rparr>)
                 else p'\<lparr>pv_reader := Ended (Some e)\<rparr>
             | (Inr _, p') \<Rightarrow>
                 run_reader net (if 30 \<le> ss_seconds sc then 0 else attempt + 1) rest p'))"

section \<open>The runtime\<close>

text \<open>
  The singletons of the module: the service with its router, the provider, and the error
  handlers that are scheduled and have not run.
\<close>

record OrderBookRuntime =
  or_service :: "OrderBookService option"
  or_provider :: "LiberatorOrderBookProvider option"
  or_tasks :: "OrderBookSource list"

definition new_order_book_runtime :: OrderBookRuntime where
  "new_order_book_runtime = \<lparr>or_service = None, or_provider = None, or_tasks = []\<rparr>"

definition liberator_configured :: "Settings \<Rightarrow> bool" where
  "liberator_configured s \<longleftrightarrow> liberator_api_key s \<noteq> None"

definition order_book_runtime_enabled :: "Settings \<Rightarrow> bool" where
  "order_book_runtime_enabled s \<longleftrightarrow> order_book_enabled s \<and> liberator_configured s"

definition on_book :: "OrderBook \<Rightarrow> OrderBookRuntime \<Rightarrow> OrderBookRuntime" where
  "on_book b r = (case or_service r of None \<Rightarrow> r | Some sv \<Rightarrow> r\<lparr>or_service := Some (publish_book b sv)\<rparr>)"

definition schedule_error :: "OrderBookSource \<Rightarrow> OrderBookRuntime \<Rightarrow> OrderBookRuntime" where
  "schedule_error src r = (case or_service r of None \<Rightarrow> r | Some _ \<Rightarrow> r\<lparr>or_tasks := or_tasks r @ [src]\<rparr>)"

text \<open>The first scheduled handler runs, on the clock of the router.\<close>

definition run_error_task :: "int \<Rightarrow> OrderBookRuntime \<Rightarrow> OrderBookRuntime" where
  "run_error_task now r =
     (case (or_tasks r, or_service r) of
        (src # rest, Some sv) \<Rightarrow>
          r\<lparr>or_tasks := rest, or_service := Some (sv\<lparr>book_router := on_error now src (book_router sv)\<rparr>)\<rparr>
      | _ \<Rightarrow> r)"

definition source_named :: "string \<Rightarrow> OrderBookSource option" where
  "source_named name = (if name = ''liberator'' then Some Source_LIBERATOR else None)"

definition parse_overrides :: "Settings \<Rightarrow> (string \<times> OrderBookSource) list" where
  "parse_overrides s =
     concat (map (\<lambda>(sy, name). case source_named name of Some src \<Rightarrow> [(sy, src)] | None \<Rightarrow> [])
       (order_book_symbol_overrides s))"

definition build_providers :: "Settings \<Rightarrow> (OrderBookSource \<times> LiberatorOrderBookProvider) list" where
  "build_providers s =
     (if liberator_configured s then [(Source_LIBERATOR, new_provider (liberator_base_url s))] else [])"

definition create_order_book_runtime :: "Settings \<Rightarrow> OrderBookRuntime \<Rightarrow> (string + OrderBookService option) \<times> OrderBookRuntime" where
  "create_order_book_runtime s r =
     (case or_service r of
        Some sv \<Rightarrow> (Inr (Some sv), r)
      | None \<Rightarrow>
          if \<not> order_book_runtime_enabled s then (Inr None, r)
          else
            (case new_router (map fst (build_providers s)) Source_LIBERATOR (parse_overrides s)
                    (order_book_failover_error_threshold s) (order_book_failover_window_seconds s) of
               Inl e \<Rightarrow> (Inl e, r)
             | Inr rt \<Rightarrow>
                 let sv = new_service rt (nat (order_book_cache_max_symbols s)) (order_book_cache_max_age_seconds s)
                            (stream_subscriber_queue_size s)
                 in (Inr (Some sv),
                     r\<lparr>or_service := Some sv, or_provider := map_of (build_providers s) Source_LIBERATOR\<rparr>)))"

definition start_order_book_workers :: "OrderBookRuntime \<Rightarrow> OrderBookRuntime" where
  "start_order_book_workers r =
     (case or_service r of
        None \<Rightarrow> r
      | Some _ \<Rightarrow> r\<lparr>or_provider := map_option (after feed_start) (or_provider r)\<rparr>)"

text \<open>The stop of a provider may raise what its reader had died of; then the singletons stay.\<close>

definition close_order_book_runtime :: "OrderBookRuntime \<Rightarrow> (exn + unit) \<times> OrderBookRuntime" where
  "close_order_book_runtime r =
     (let r1 = r\<lparr>or_tasks := []\<rparr>
      in case (or_service r1, or_provider r1) of
           (Some _, Some p) \<Rightarrow>
             (case feed_stop p of
                (Inl e, p') \<Rightarrow> (Inl e, r1\<lparr>or_provider := Some p'\<rparr>)
              | (Inr _, p') \<Rightarrow> (Inr (), r1\<lparr>or_provider := None, or_service := None\<rparr>))
         | _ \<Rightarrow> (Inr (), r1\<lparr>or_service := None, or_provider := None\<rparr>))"

section \<open>What the feed emits\<close>

definition sound_level :: "OrderBookLevel \<Rightarrow> bool" where
  "sound_level l \<longleftrightarrow> dec_pos (lv_price l) \<and> 0 \<le> lv_volume l"

lemma levels_of_sound: "levels_of trunc pvs = Inr ls \<Longrightarrow> list_all sound_level ls \<and> length ls \<le> length pvs"
proof (induction trunc pvs arbitrary: ls rule: levels_of.induct)
  case (2 trunc rp rv rest)
  then show ?case
    by (auto simp: sound_level_def split: option.splits pydecimal.splits if_splits sum.splits) (meson le_SucI)+
qed simp

lemma price_volume_levels_sound: "price_volume_levels trunc a b = Inr ls \<Longrightarrow> list_all sound_level ls"
  using levels_of_sound by (auto simp: price_volume_levels_def split: option.splits json.splits)

lemma payload_sound:
  assumes "parse_bid_offer_payload trunc payload = Inr (Some (room, sq, bids, asks))"
  shows "list_all sound_level bids \<and> list_all sound_level asks"
  using assms price_volume_levels_sound
  by (fastforce simp: parse_bid_offer_payload_def split: option.splits sum.splits)

lemma frame_sound:
  assumes "parse_bid_offer_frame jl trunc raw = Inr (Some (room, sq, bids, asks))"
  shows "list_all sound_level bids \<and> list_all sound_level asks"
  using assms payload_sound by (auto simp: parse_bid_offer_frame_def split: option.splits if_splits json.splits)

text \<open>What a frame can make the feed do.\<close>

lemma frame_cases:
  assumes "handle_frame net now raw p = (x, p')"
  shows "(p' = p \<or>
          (x = Inr () \<and> classify raw = PING_FRAME \<and> p' = p\<lparr>pv_sent := pv_sent p @ [pong_packet]\<rparr>) \<or>
          (\<exists>room sq bids asks key. x = Inr () \<and>
             parse_bid_offer_frame (nt_json_loads net) (nt_trunc net) raw = Inr (Some (room, sq, bids, asks)) \<and>
             map_of (pv_by_room p) room = Some key \<and> bids @ asks \<noteq> [] \<and> list_all sound_level (bids @ asks) \<and>
             p' = p\<lparr>pv_books := pv_books p @ [book_of now key sq bids asks]\<rparr>)) \<and>
         (isl x \<longrightarrow> p' = p)"
proof (cases "classify raw = EVENT_FRAME")
  case False
  then show ?thesis
    using assms by (auto simp: handle_frame_def ws_send_def split: if_splits option.splits)
next
  case True
  show ?thesis
  proof (cases "parse_bid_offer_frame (nt_json_loads net) (nt_trunc net) raw")
    case (Inl e)
    then show ?thesis using assms True by (auto simp: handle_frame_def)
  next
    case (Inr parsed)
    show ?thesis
    proof (cases parsed)
      case None
      then show ?thesis using assms True Inr by (simp add: handle_frame_def)
    next
      case (Some q)
      obtain room sq bids asks where q: "q = (room, sq, bids, asks)" by (cases q) auto
      have "list_all sound_level (bids @ asks)" using frame_sound [OF Inr [unfolded Some q]] by simp
      then show ?thesis
        using assms True Inr Some q by (cases "map_of (pv_by_room p) room") (auto simp: handle_frame_def split: if_splits)
    qed
  qed
qed

section \<open>Rooms and subscriptions\<close>

text \<open>
  Every room the feed listens to belongs to a subscription of its symbol and market that knows
  the room by its id, and a socket is live only under a running reader.
\<close>

definition knows :: "(string \<times> feed_subscription) list \<Rightarrow> int \<Rightarrow> book_key \<Rightarrow> bool" where
  "knows subs r key \<longleftrightarrow>
     (\<exists>su. map_of subs (fst key) = Some su \<and> su_market su = snd key \<and> su_book_id su = Some r)"

definition feed_ok :: "LiberatorOrderBookProvider \<Rightarrow> bool" where
  "feed_ok p \<longleftrightarrow>
     distinct (map fst (pv_subs p)) \<and>
     (\<forall>sy su. map_of (pv_subs p) sy = Some su \<longrightarrow> su_symbol su = sy) \<and>
     (\<forall>r key. map_of (pv_by_room p) r = Some key \<longrightarrow> knows (pv_subs p) r key) \<and>
     (pv_live p \<longrightarrow> pv_reader p = Reading)"

lemma feed_ok_room: "feed_ok p \<Longrightarrow> map_of (pv_by_room p) r = Some key \<Longrightarrow> knows (pv_subs p) r key"
  unfolding feed_ok_def by blast

text \<open>The parts of the provider the invariant reads.\<close>

definition same_rooms :: "LiberatorOrderBookProvider \<Rightarrow> LiberatorOrderBookProvider \<Rightarrow> bool" where
  "same_rooms p q \<longleftrightarrow> pv_subs q = pv_subs p \<and> pv_by_room q = pv_by_room p \<and> pv_live q = pv_live p \<and> pv_reader q = pv_reader p"

lemma same_rooms_ok: "same_rooms p q \<Longrightarrow> feed_ok q = feed_ok p"
  by (simp add: feed_ok_def same_rooms_def)

interpretation rooms: effect_order same_rooms
  by unfold_locales (auto simp: same_rooms_def)

lemma ws_send_rooms: "effect same_rooms any (ws_send net packet)"
  by (auto simp: effect_def ws_send_def same_rooms_def split: option.splits)

lemma report_error_rooms: "effect same_rooms any (report_error e)"
  by (simp add: effect_def report_error_def same_rooms_def)

lemma handshake_rooms: "effect same_rooms any (handshake net opening)"
  unfolding handshake_def by (intro rooms.effect_seq rooms.effect_lift_any rooms.effect_for ws_send_rooms)

lemma frame_rooms: "effect same_rooms any (handle_frame net now raw)"
proof (rule effectI)
  show "same_rooms p (after (handle_frame net now raw) p)" for p
    using frame_cases [of net now raw p "outcome (handle_frame net now raw) p" "after (handle_frame net now raw) p"]
    by (auto simp: same_rooms_def)
qed simp


text \<open>Looking a room up changes one subscription, and only by the id it did not have.\<close>

definition listening :: "LiberatorOrderBookProvider \<Rightarrow> int set" where
  "listening p = fst ` set (pv_by_room p)"

lemma listening_od_set:
  assumes "pv_by_room q = od_set rid key (pv_by_room p)"
  shows "listening q = insert rid (listening p)"
proof -
  have "listening r = {i. map_of (pv_by_room r) i \<noteq> None}" for r
    by (auto simp: listening_def map_of_eq_None_iff)
  with assms show ?thesis by (auto simp: map_of_od_set)
qed

definition rooms_grow :: "string set \<Rightarrow> LiberatorOrderBookProvider \<Rightarrow> LiberatorOrderBookProvider \<Rightarrow> bool" where
  "rooms_grow S p q \<longleftrightarrow>
     (\<forall>sy. sy \<notin> S \<longrightarrow> map_of (pv_subs q) sy = map_of (pv_subs p) sy) \<and> map fst (pv_subs q) = map fst (pv_subs p) \<and>
     listening p \<subseteq> listening q \<and> pv_sent q = pv_sent p \<and>
     pv_live q = pv_live p \<and> pv_reader q = pv_reader p \<and> pv_stopping q = pv_stopping p"

lemma rooms_grow_trans: "rooms_grow S p q \<Longrightarrow> rooms_grow T q r \<Longrightarrow> rooms_grow (S \<union> T) p r"
  unfolding rooms_grow_def by (metis UnI1 UnI2 subset_trans)

lemma od_set_same_keys: "map_of d k = Some v \<Longrightarrow> map fst (od_set k w d) = map fst d"
  by (auto simp: od_set_keys dest: map_of_SomeD intro: rev_image_eqI)

lemma room_of_cases:
  assumes "map_of (pv_subs p) (su_symbol su) = Some su" and "room_of net su p = (x, q)"
  obtains (known) rid where "su_book_id su = Some rid" "x = Inr rid" "q = p"
  | (failed) e rs where "su_book_id su = None" "x = Inl e" "q = p\<lparr>pv_requests := rs\<rparr>"
  | (found) rid rs where "su_book_id su = None" "x = Inr rid"
      "q = p\<lparr>pv_requests := rs, pv_subs := od_set (su_symbol su) (su\<lparr>su_book_id := Some rid\<rparr>) (pv_subs p)\<rparr>"
proof (cases "su_book_id su")
  case None
  let ?url = "pv_base_url p @ ''/order-book/'' @ su_symbol su"
  let ?rs = "pv_requests p @ [?url]"
  show thesis
  proof (cases "book_id_of (nt_trunc net) (nt_get net (pv_requests p) ?url)")
    case (Inl e)
    then have "room_of net su p = (Inl e, p\<lparr>pv_requests := ?rs\<rparr>)"
      using None by (simp add: room_of_def resolve_order_book_id_def Let_def bindE_def)
    then show thesis using assms(2) None failed [of e ?rs] by auto
  next
    case (Inr rid)
    then have "room_of net su p =
        (Inr rid, p\<lparr>pv_requests := ?rs, pv_subs := od_set (su_symbol su) (su\<lparr>su_book_id := Some rid\<rparr>) (pv_subs p)\<rparr>)"
      using None assms(1) by (simp add: room_of_def resolve_order_book_id_def remember_id_def Let_def bindE_def)
    then show thesis using assms(2) None found [of rid ?rs] by auto
  qed
qed (use assms known in \<open>simp add: room_of_def\<close>)

lemma set_id_ok:
  assumes "feed_ok p" and "map_of (pv_subs p) sy = Some su" and "su_book_id su = None"
  shows "feed_ok (p\<lparr>pv_requests := rs, pv_subs := od_set sy (su\<lparr>su_book_id := Some rid\<rparr>) (pv_subs p)\<rparr>)"
proof -
  have free: "fst key \<noteq> sy" if "map_of (pv_by_room p) r = Some key" for r key
  proof
    assume "fst key = sy"
    with assms(1) that have "\<exists>su'. map_of (pv_subs p) sy = Some su' \<and> su_book_id su' = Some r"
      unfolding feed_ok_def knows_def by blast
    with assms(2,3) show False by simp
  qed
  have "distinct (map fst (od_set sy (su\<lparr>su_book_id := Some rid\<rparr>) (pv_subs p)))"
    using assms(1) by (simp add: feed_ok_def od_set_distinct)
  moreover have "knows (od_set sy (su\<lparr>su_book_id := Some rid\<rparr>) (pv_subs p)) r key"
    if "map_of (pv_by_room p) r = Some key" for r key
    using assms(1) that free [OF that] by (auto simp: feed_ok_def knows_def map_of_od_set)
  ultimately show ?thesis using assms(1,2) by (auto simp: feed_ok_def map_of_od_set split: if_splits)
qed

lemma room_of_effect:
  assumes ok: "feed_ok p" and su: "map_of (pv_subs p) (su_symbol su) = Some su"
    and run: "room_of net su p = (x, q)"
  shows "feed_ok q \<and> rooms_grow {su_symbol su} p q \<and> pv_by_room q = pv_by_room p \<and>
         pv_errors q = pv_errors p \<and>
         (case x of Inl _ \<Rightarrow> pv_subs q = pv_subs p
          | Inr rid \<Rightarrow> map_of (pv_subs q) (su_symbol su) = Some (su\<lparr>su_book_id := Some rid\<rparr>))"
proof -
  note key = od_set_same_keys [OF su]
  from su run show ?thesis
  proof (cases rule: room_of_cases)
    case (known rid)
    then show ?thesis using ok su by (simp add: rooms_grow_def)
  next
    case (failed e rs)
    then show ?thesis using ok by (simp add: rooms_grow_def feed_ok_def listening_def)
  next
    case (found rid rs)
    then show ?thesis
      using set_id_ok [OF ok su] key by (simp add: rooms_grow_def map_of_od_set listening_def)
  qed
qed

lemma enter_room_ok:
  assumes "feed_ok p" and "map_of (pv_subs p) (su_symbol su) = Some (su\<lparr>su_book_id := Some rid\<rparr>)"
  shows "feed_ok (p\<lparr>pv_by_room := od_set rid (su_symbol su, su_market su) (pv_by_room p)\<rparr>)"
proof -
  have "knows (pv_subs p) rid (su_symbol su, su_market su)" using assms(2) by (simp add: knows_def)
  with assms(1) show ?thesis by (auto simp: feed_ok_def map_of_od_set split: if_splits)
qed


lemma join_room_effect:
  assumes ok: "feed_ok p" and su: "map_of (pv_subs p) (su_symbol su) = Some su"
    and run: "join_room net su p = (x, q)"
  shows "feed_ok q \<and> rooms_grow {su_symbol su} p q \<and> pv_errors q = pv_errors p \<and>
         (case x of
            Inl _ \<Rightarrow> pv_subs q = pv_subs p \<and> pv_by_room q = pv_by_room p
          | Inr rid \<Rightarrow> map_of (pv_subs q) (su_symbol su) = Some (su\<lparr>su_book_id := Some rid\<rparr>) \<and>
              pv_by_room q = od_set rid (su_symbol su, su_market su) (pv_by_room p))"
proof -
  obtain y r where room: "room_of net su p = (y, r)" by fastforce
  note eff = room_of_effect [OF ok su room]
  show ?thesis
  proof (cases y)
    case (Inl e)
    then show ?thesis using eff run room by (auto simp: join_room_def bindE_def)
  next
    case (Inr rid)
    then have "q = r\<lparr>pv_by_room := od_set rid (su_symbol su, su_market su) (pv_by_room r)\<rparr>" "x = Inr rid"
      using run room by (auto simp: join_room_def bindE_def enter_room_def)
    moreover from this have "feed_ok q" using eff enter_room_ok [of r su rid] Inr by simp
    ultimately show ?thesis using eff Inr listening_od_set [of q rid _ p] by (auto simp: rooms_grow_def)
  qed
qed


lemma live_join_ok:
  assumes ok: "feed_ok p" and su: "map_of (pv_subs p) (su_symbol su) = Some su"
  shows "feed_ok (after (live_join net su) p)"
proof -
  obtain x q where run: "join_room net su p = (x, q)" by fastforce
  have q: "feed_ok q" using join_room_effect [OF ok su run] by simp
  have sent: "feed_ok (after (ws_send net pk) q)" for pk
    using q same_rooms_ok effectD [OF ws_send_rooms] by blast
  have told: "feed_ok (after (report_error e) r) = feed_ok r" for e r
    using same_rooms_ok effectD [OF report_error_rooms] by blast
  show ?thesis
    using run q sent told by (auto simp: live_join_def bindE_def catchE_def split: sum.splits prod.splits) (metis snd_conv)+
qed

text \<open>What a round of joins has done for one of its subscriptions.\<close>

definition served :: "int list \<Rightarrow> LiberatorOrderBookProvider \<Rightarrow> feed_subscription \<Rightarrow> bool" where
  "served ids p su \<longleftrightarrow>
     (\<exists>su'. map_of (pv_subs p) (su_symbol su) = Some su' \<and> su_market su' = su_market su \<and>
        (case su_book_id su' of None \<Rightarrow> True | Some rid \<Rightarrow> rid \<in> set ids \<and> rid \<in> listening p))"

lemma join_one_effect:
  assumes ok: "feed_ok p" and su: "map_of (pv_subs p) (su_symbol su) = Some su"
    and run: "join_one net su p = (x, q)"
  shows "feed_ok q \<and> rooms_grow {su_symbol su} p q \<and>
         (\<forall>ids. x = Inr ids \<longrightarrow> served ids q su \<and> length ids \<le> 1 \<and>
            pv_errors q = pv_errors p @ replicate (1 - length ids) resolution_error)"
proof -
  obtain y r where room: "join_room net su p = (y, r)" by fastforce
  note eff = join_room_effect [OF ok su room]
  show ?thesis
  proof (cases y)
    case (Inl e)
    then have none: "su_book_id su = None"
      using room su by (auto simp: join_room_def bindE_def enter_room_def room_of_def split: option.splits)
    show ?thesis
    proof (cases "e = resolution_error")
      case True
      then have x: "x = Inr []" "q = after (report_error e) r"
        using run room Inl by (auto simp: join_one_def bindE_def catchE_def report_error_def)
      then have "feed_ok q" using eff same_rooms_ok effectD [OF report_error_rooms] by blast
      then show ?thesis
        using eff x Inl True none su by (simp add: report_error_def rooms_grow_def served_def listening_def)
    next
      case False
      then show ?thesis using run room Inl eff by (auto simp: join_one_def bindE_def catchE_def)
    qed
  next
    case (Inr rid)
    then show ?thesis
      using run room eff listening_od_set [of r rid _ p] by (auto simp: join_one_def bindE_def catchE_def served_def)
  qed
qed

lemma served_later:
  assumes "served ids p su" and grow: "rooms_grow S p q" and "su_symbol su \<notin> S" and "set ids \<subseteq> set ids'"
  shows "served ids' q su"
proof -
  obtain su' where su': "map_of (pv_subs p) (su_symbol su) = Some su'" "su_market su' = su_market su"
    and rid: "\<And>rid. su_book_id su' = Some rid \<Longrightarrow> rid \<in> set ids \<and> rid \<in> listening p"
    using assms(1) by (auto simp: served_def split: option.splits)
  have "map_of (pv_subs q) (su_symbol su) = Some su'" using su'(1) grow assms(3) by (simp add: rooms_grow_def)
  moreover have "rid \<in> set ids' \<and> rid \<in> listening q" if "su_book_id su' = Some rid" for rid
    using rid [OF that] grow assms(4) by (auto simp: rooms_grow_def)
  ultimately show ?thesis using su'(2) by (auto simp: served_def split: option.splits)
qed

lemma join_rooms_effect:
  assumes "feed_ok p" and "distinct (map su_symbol sus)"
    and "\<forall>su\<in>set sus. map_of (pv_subs p) (su_symbol su) = Some su" and "join_rooms net sus p = (x, q)"
  shows "feed_ok q \<and> rooms_grow (su_symbol ` set sus) p q \<and>
         (\<forall>ids. x = Inr ids \<longrightarrow> list_all (served ids q) sus \<and> length ids \<le> length sus \<and>
            pv_errors q = pv_errors p @ replicate (length sus - length ids) resolution_error)"
  using assms
proof (induction sus arbitrary: p x)
  case Nil
  then show ?case by (auto simp: rooms_grow_def)
next
  case (Cons su sus)
  obtain y r where one: "join_one net su p = (y, r)" by fastforce
  have su: "map_of (pv_subs p) (su_symbol su) = Some su" using Cons.prems(3) by simp
  note eff = join_one_effect [OF Cons.prems(1) su one]
  show ?case
  proof (cases y)
    case (Inl e)
    then have "x = Inl e" "q = r" using Cons.prems(4) one by (auto simp: bindE_def)
    moreover have "rooms_grow (insert (su_symbol su) S) p r" for S
      using eff by (auto simp: rooms_grow_def)
    ultimately show ?thesis using eff by simp
  next
    case (Inr ids0)
    obtain z q' where more: "join_rooms net sus r = (z, q')" by fastforce
    then have q: "q' = q" and x: "x = map_sum id ((@) ids0) z"
      using Cons.prems(4) one Inr by (auto simp: bindE_def split: sum.splits)
    have kept: "map_of (pv_subs r) (su_symbol u) = Some u" if "u \<in> set sus" for u
    proof -
      have "su_symbol u \<noteq> su_symbol su" using Cons.prems(2) that by (metis distinct.simps(2) image_eqI list.set_map list.simps(9))
      then show ?thesis using Cons.prems(3) eff that by (simp add: rooms_grow_def)
    qed
    have IH: "feed_ok q \<and> rooms_grow (su_symbol ` set sus) r q \<and>
         (\<forall>ids. z = Inr ids \<longrightarrow> list_all (served ids q) sus \<and> length ids \<le> length sus \<and>
            pv_errors q = pv_errors r @ replicate (length sus - length ids) resolution_error)"
      using Cons.IH [OF _ _ _ more [unfolded q]] Cons.prems(2) eff kept by simp
    have grow: "rooms_grow (su_symbol ` set (su # sus)) p q"
      using rooms_grow_trans [of "{su_symbol su}" p r "su_symbol ` set sus" q] eff IH by simp
    have res: "list_all (served (ids0 @ ids1) q) (su # sus) \<and> length (ids0 @ ids1) \<le> length (su # sus) \<and>
        pv_errors q = pv_errors p @ replicate (length (su # sus) - length (ids0 @ ids1)) resolution_error"
      if "z = Inr ids1" for ids1
    proof -
      have "list_all (served (ids0 @ ids1) q) sus"
        using IH that by (auto simp: list_all_iff intro: served_later [of ids1 q _ "{}" q] simp: rooms_grow_def)
      moreover have "served (ids0 @ ids1) q su"
        using eff Inr IH Cons.prems(2) by (auto intro: served_later)
      moreover have "length ids0 \<le> 1" "length ids1 \<le> length sus" using eff Inr IH that by simp_all
      ultimately show ?thesis using eff Inr IH that by (simp add: replicate_add [symmetric])
    qed
    from IH grow res x show ?thesis by (cases z) auto
  qed
qed

text \<open>The subscriptions a session starts from, taken as a list, are those of the table.\<close>

lemma subs_values:
  assumes "feed_ok p"
  shows "distinct (map su_symbol (map snd (pv_subs p)))"
    and "\<forall>su\<in>set (map snd (pv_subs p)). map_of (pv_subs p) (su_symbol su) = Some su"
    and "map_of (pv_subs p) sy = Some su \<Longrightarrow> su \<in> set (map snd (pv_subs p)) \<and> su_symbol su = sy"
proof -
  have d: "distinct (map fst (pv_subs p))" using assms by (simp add: feed_ok_def)
  have key: "su_symbol u = k" if "(k, u) \<in> set (pv_subs p)" for k u
    using assms that d unfolding feed_ok_def by (metis map_of_is_SomeI)
  then have "map su_symbol (map snd (pv_subs p)) = map fst (pv_subs p)" by (auto simp: map_eq_conv)
  with d show "distinct (map su_symbol (map snd (pv_subs p)))" by (simp only:)
  show "\<forall>su\<in>set (map snd (pv_subs p)). map_of (pv_subs p) (su_symbol su) = Some su"
    using d key by auto
  show "su \<in> set (map snd (pv_subs p)) \<and> su_symbol su = sy" if "map_of (pv_subs p) sy = Some su"
    using map_of_SomeD [OF that] key by force
qed

lemma clear_rooms_ok: "feed_ok p \<Longrightarrow> feed_ok (p\<lparr>pv_by_room := []\<rparr>)"
  by (simp add: feed_ok_def)

lemma ws_send_ok: "feed_ok (after (ws_send net pk) p) = feed_ok p"
  using same_rooms_ok effectD [OF ws_send_rooms] by blast

lemma join_all_rooms_cases:
  assumes ok: "feed_ok p" and run: "join_all_rooms net p = (x, q)"
  obtains y r where "join_rooms net (map snd (pv_subs p)) (p\<lparr>pv_by_room := []\<rparr>) = (y, r)"
    and "feed_ok r" "rooms_grow (su_symbol ` set (map snd (pv_subs p))) (p\<lparr>pv_by_room := []\<rparr>) r"
    and "\<forall>ids. y = Inr ids \<longrightarrow> list_all (served ids r) (map snd (pv_subs p)) \<and> length ids \<le> length (pv_subs p) \<and>
            pv_errors r = pv_errors p @ replicate (length (pv_subs p) - length ids) resolution_error"
    and "(x, q) = (case y of Inl e \<Rightarrow> (Inl e, r)
                   | Inr ids \<Rightarrow> if ids = [] then (Inr (), r) else ws_send net (join_rooms_packet ids) r)"
proof -
  let ?p = "p\<lparr>pv_by_room := []\<rparr>"
  obtain y r where rooms: "join_rooms net (map snd (pv_subs p)) ?p = (y, r)" by fastforce
  have ok': "feed_ok ?p" using ok by (rule clear_rooms_ok)
  note vals = subs_values [OF ok', simplified, folded map_map]
  show thesis
  proof (rule that [OF rooms])
    show "(x, q) = (case y of Inl e \<Rightarrow> (Inl e, r)
                   | Inr ids \<Rightarrow> if ids = [] then (Inr (), r) else ws_send net (join_rooms_packet ids) r)"
      using run rooms by (simp add: join_all_rooms_def bindE_def split: sum.splits if_splits)
  qed (use join_rooms_effect [OF ok' _ _ rooms] vals in \<open>auto simp: o_def\<close>)
qed

lemma join_all_rooms_ok:
  assumes ok: "feed_ok p"
  shows "feed_ok (after (join_all_rooms net) p)"
proof -
  obtain x q where run: "join_all_rooms net p = (x, q)" by fastforce
  from ok run obtain y r where r: "feed_ok r"
    and xq: "(x, q) = (case y of Inl e \<Rightarrow> (Inl e, r)
       | Inr ids \<Rightarrow> if ids = [] then (Inr (), r) else ws_send net (join_rooms_packet ids) r)"
    by (rule join_all_rooms_cases)
  have "feed_ok q" using arg_cong [OF xq, of snd] r ws_send_ok by (simp split: sum.splits if_splits)
  then show ?thesis using run by simp
qed

lemma track_ok:
  assumes ok: "feed_ok p" and tr: "track sy mkt p = (Inr su, q)"
  shows "feed_ok q" and "map_of (pv_subs q) (su_symbol su) = Some su"
proof -
  have "distinct (map fst (od_set sy v (pv_subs p)))" for v using ok by (simp add: feed_ok_def od_set_distinct)
  moreover have "knows (od_set sy v (pv_subs p)) r key" if "map_of (pv_subs p) sy = None" "knows (pv_subs p) r key" for v r key
    using that by (auto simp: knows_def map_of_od_set)
  ultimately show "feed_ok q" "map_of (pv_subs q) (su_symbol su) = Some su"
    using tr ok by (auto simp: track_def Let_def feed_ok_def map_of_od_set split: option.splits if_splits)
qed

lemma subscribe_ok:
  assumes "feed_ok p"
  shows "feed_ok (after (feed_subscribe net sy mkt) p)"
proof -
  obtain su q where tr: "track sy mkt p = (Inr su, q)" by (cases "map_of (pv_subs p) sy") (auto simp: track_def Let_def)
  note q = track_ok(1) [OF assms tr] and su = track_ok(2) [OF assms tr]
  have "feed_ok (q\<lparr>pv_reader := Reading\<rparr>)" using q by (simp add: feed_ok_def)
  then show ?thesis using tr q live_join_ok [OF q su, of net] by (simp add: feed_subscribe_def bindE_Inr)
qed

lemma cancel_reader_ok: "feed_ok p \<Longrightarrow> feed_ok (after cancel_reader p)"
  by (auto simp: cancel_reader_def feed_ok_def split: reader.splits option.splits)

text \<open>A symbol is dropped together with its room.\<close>

lemma drop_symbol_ok:
  assumes ok: "feed_ok p" and su: "map_of (pv_subs p) sy = su"
  shows "feed_ok (p\<lparr>pv_subs := od_pop sy (pv_subs p),
     pv_by_room := (case su of None \<Rightarrow> pv_by_room p
       | Some u \<Rightarrow> (case su_book_id u of None \<Rightarrow> pv_by_room p | Some rid \<Rightarrow> od_pop rid (pv_by_room p)))\<rparr>)"
    (is "feed_ok (p\<lparr>pv_subs := ?subs, pv_by_room := ?rooms\<rparr>)")
proof -
  have "knows ?subs r key" if "map_of ?rooms r = Some key" for r key
  proof -
    have old: "map_of (pv_by_room p) r = Some key" and gone: "\<And>u. su = Some u \<Longrightarrow> su_book_id u \<noteq> Some r"
      using that by (auto simp: map_of_od_pop split: option.splits if_splits)
    then have "knows (pv_subs p) r key" using ok unfolding feed_ok_def by blast
    with gone su show ?thesis by (auto simp: knows_def map_of_od_pop)
  qed
  moreover have "distinct (map fst ?subs)" using ok by (simp add: feed_ok_def od_pop_distinct)
  ultimately show ?thesis using ok by (auto simp: feed_ok_def map_of_od_pop split: if_splits)
qed

lemma unsubscribe_ok:
  assumes ok: "feed_ok p"
  shows "feed_ok (after (feed_unsubscribe net sy) p)"
proof -
  let ?su = "map_of (pv_subs p) sy"
  let ?p = "p\<lparr>pv_subs := od_pop sy (pv_subs p)\<rparr>"
  let ?leave = "case ?su of None \<Rightarrow> returnE () | Some su \<Rightarrow> leave_room net su"
  have "same_rooms (p\<lparr>pv_subs := od_pop sy (pv_subs p),
     pv_by_room := (case ?su of None \<Rightarrow> pv_by_room p
       | Some u \<Rightarrow> (case su_book_id u of None \<Rightarrow> pv_by_room p | Some rid \<Rightarrow> od_pop rid (pv_by_room p)))\<rparr>) (after ?leave ?p)"
    by (simp add: leave_room_def same_rooms_def ws_send_def catchE_def split: option.splits)
  with drop_symbol_ok [OF ok refl] have left: "feed_ok (after ?leave ?p)" using same_rooms_ok by blast
  have "feed_ok (after cancel_idle r)" if "feed_ok r" for r
    using that cancel_reader_ok by (simp add: cancel_idle_def)
  with left show ?thesis
    by (cases "?leave ?p") (auto simp: feed_unsubscribe_def bindE_def split: sum.splits)
qed

text \<open>
  The states of the provider, one operation after another: the coroutines of the reader between
  two frames, the calls of the router in any order, a network that may answer differently
  every time.
\<close>

inductive feed_reachable :: "LiberatorOrderBookProvider \<Rightarrow> bool" where
  created: "feed_reachable (new_provider url)"
| subscribed: "feed_reachable p \<Longrightarrow> feed_reachable (after (feed_subscribe net sy mkt) p)"
| unsubscribed: "feed_reachable p \<Longrightarrow> feed_reachable (after (feed_unsubscribe net sy) p)"
| started: "feed_reachable p \<Longrightarrow> feed_reachable (after feed_start p)"
| stopped: "feed_reachable p \<Longrightarrow> feed_reachable (after feed_stop p)"
| opened: "feed_reachable p \<Longrightarrow> pv_reader p = Reading \<Longrightarrow> open_session net sc p = (Inr (), q) \<Longrightarrow>
    feed_reachable (after (join_all_rooms net) q)"
| not_opened: "feed_reachable p \<Longrightarrow> pv_reader p = Reading \<Longrightarrow> open_session net sc p = (Inl e, q) \<Longrightarrow> feed_reachable q"
| received: "feed_reachable p \<Longrightarrow> pv_live p \<Longrightarrow> feed_reachable (after (handle_frame net now raw) p)"
| closed: "feed_reachable p \<Longrightarrow> feed_reachable (close_socket p)"
| reported: "feed_reachable p \<Longrightarrow> feed_reachable (after (report_error e) p)"
| ended: "feed_reachable p \<Longrightarrow> \<not> pv_live p \<Longrightarrow> pv_reader p = Reading \<Longrightarrow> feed_reachable (p\<lparr>pv_reader := Ended x\<rparr>)"

lemma open_session_effect:
  assumes "open_session net sc p = (x, q)"
  shows "pv_subs q = pv_subs p \<and> pv_by_room q = pv_by_room p \<and> pv_reader q = pv_reader p \<and>
         (case x of Inl _ \<Rightarrow> pv_live q = pv_live p | Inr _ \<Rightarrow> pv_live q)"
proof -
  have "same_rooms (p\<lparr>pv_sent := []\<rparr>) (after (handshake net (ss_open sc)) (p\<lparr>pv_sent := []\<rparr>))"
    by (rule effectD [OF handshake_rooms])
  then show ?thesis
    using assms by (cases "handshake net (ss_open sc) (p\<lparr>pv_sent := []\<rparr>)")
      (auto simp: open_session_def bindE_def same_rooms_def split: sum.splits option.splits prod.splits)
qed

lemma open_session_ok:
  assumes "feed_ok p" and "pv_reader p = Reading" and "open_session net sc p = (x, q)"
  shows "feed_ok q"
  using assms(1,2) open_session_effect [OF assms(3)] by (cases x) (simp_all add: feed_ok_def)

lemma reachable_ok: "feed_reachable p \<Longrightarrow> feed_ok p"
proof (induction rule: feed_reachable.induct)
  case (created url)
  then show ?case by (simp add: feed_ok_def new_provider_def)
next
  case (stopped p)
  then have "feed_ok (p\<lparr>pv_stopping := True\<rparr>)" by (simp add: feed_ok_def)
  then show ?case by (simp add: feed_stop_def cancel_reader_ok)
next
  case (received p net now raw)
  then show ?case using same_rooms_ok effectD [OF frame_rooms] by blast
next
  case (reported p e)
  then show ?case using same_rooms_ok effectD [OF report_error_rooms] by blast
next
  case (started p)
  then show ?case by (simp add: feed_start_def feed_ok_def)
next
  case (closed p)
  then show ?case by (simp add: close_socket_def feed_ok_def)
next
  case (ended p x)
  then show ?case by (simp add: feed_ok_def)
qed (blast intro: subscribe_ok unsubscribe_ok join_all_rooms_ok open_session_ok)+

text \<open>Only a frame makes the provider emit, and what it emits is sound.\<close>

definition same_books :: "LiberatorOrderBookProvider \<Rightarrow> LiberatorOrderBookProvider \<Rightarrow> bool" where
  "same_books p q \<longleftrightarrow> pv_books q = pv_books p"

interpretation books: effect_order same_books
  by unfold_locales (auto simp: same_books_def)

lemma silent_steps:
  "effect same_books any (ws_send net packet)" "effect same_books any (report_error e)"
  "effect same_books any (resolve_order_book_id net sy)" "effect same_books any (remember_id sy rid)"
  "effect same_books any (enter_room su rid)" "effect same_books any (track sy mkt)" "effect same_books any cancel_reader"
  by (simp_all add: effect_def ws_send_def report_error_def resolve_order_book_id_def remember_id_def enter_room_def
      track_def cancel_reader_def same_books_def Let_def split: option.splits reader.splits)

lemma silent_modify: "(\<And>p. pv_books (f p) = pv_books p) \<Longrightarrow> effect same_books any (modifyE f)"
  by (simp add: effect_def same_books_def)

lemma silent_join_one: "effect same_books any (join_one net su)"
  unfolding join_one_def join_room_def room_of_def
  by (intro books.effect_catch books.effect_rules silent_steps) simp_all

lemmas silent_rules = books.effect_catch books.effect_rules silent_steps silent_modify silent_join_one

lemma silent_join_rooms: "effect same_books any (join_rooms net sus)"
  by (induction sus) (simp_all only: join_rooms.simps, (intro silent_rules | simp)+)

lemma silent_operations:
  "effect same_books any (feed_subscribe net sy mkt)" "effect same_books any (feed_unsubscribe net sy)"
  "effect same_books any feed_start" "effect same_books any feed_stop"
  "effect same_books any (open_session net sc)" "effect same_books any (join_all_rooms net)"
  unfolding feed_subscribe_def feed_unsubscribe_def feed_start_def feed_stop_def open_session_def join_all_rooms_def
    live_join_def join_room_def room_of_def leave_room_def cancel_idle_def handshake_def case_prod_beta
  by (intro silent_rules silent_join_rooms; simp)+

definition sound_book :: "OrderBook \<Rightarrow> bool" where
  "sound_book b \<longleftrightarrow> bid_levels b @ ask_levels b \<noteq> [] \<and> list_all sound_level (bid_levels b @ ask_levels b) \<and>
     ob_source b = Source_LIBERATOR"

lemma frame_books:
  assumes "list_all sound_book (pv_books p)"
  shows "list_all sound_book (pv_books (after (handle_frame net now raw) p))"
  using assms frame_cases [of net now raw p "outcome (handle_frame net now raw) p" "after (handle_frame net now raw) p"]
  by (auto simp: sound_book_def book_of_def)

lemma reachable_books: "feed_reachable p \<Longrightarrow> list_all sound_book (pv_books p)"
proof (induction rule: feed_reachable.induct)
  case (received p net now raw)
  then show ?case by (blast intro: frame_books)
next
  case (opened p net sc q)
  then have "pv_books q = pv_books p" using effectD [OF silent_operations(5) [of net sc], of p] by (simp add: same_books_def)
  then show ?case using opened effectD [OF silent_operations(6) [of net], of q] by (simp add: same_books_def)
next
  case (not_opened p net sc e q)
  then show ?case using effectD [OF silent_operations(5) [of net sc], of p] by (simp add: same_books_def)
qed (use effectD [OF silent_operations(1)] effectD [OF silent_operations(2)] effectD [OF silent_operations(3)]
      effectD [OF silent_operations(4)] effectD [OF silent_steps(2)]
    in \<open>simp_all add: new_provider_def close_socket_def same_books_def\<close>)

section \<open>Reconnecting\<close>

text \<open>A session the venue refuses: no ticket, or no socket.\<close>

definition refusal :: "feed_session \<Rightarrow> exn option" where
  "refusal sc = (case acquire_ticket (ss_ticket sc) of Inl e \<Rightarrow> Some e | Inr _ \<Rightarrow> ss_connect sc)"

definition refused :: "feed_session \<Rightarrow> bool" where
  "refused sc \<longleftrightarrow> (case refusal sc of Some e \<Rightarrow> session_error e | None \<Rightarrow> False)"

lemma acquire_ticket_error: "acquire_ticket reply = Inl e \<Longrightarrow> e = OtherError ''TicketAcquisitionError''"
  by (auto simp: acquire_ticket_def split: http_reply.splits option.splits if_splits sum.splits)

lemma connect_refused: "refusal sc = Some e \<Longrightarrow> connect_once net sc p = (Inl e, p)"
  by (cases "acquire_ticket (ss_ticket sc)") (simp_all add: refusal_def connect_once_def open_session_def bindE_def)

text \<open>Refused sessions only add their errors; the attempts they count never exceed their number.\<close>

lemma run_refused:
  assumes "list_all (refused \<circ> snd) scs" and "a + length scs \<le> 1024" and "\<not> pv_stopping p" and "pv_subs p \<noteq> []"
  shows "\<exists>b errs. b \<le> a + length scs \<and> (list_all (\<lambda>(_, sc). ss_seconds sc < 30) scs \<longrightarrow> b = a + length scs) \<and>
    length errs = length scs \<and>
    (\<forall>more. run_reader net a (scs @ more) p = run_reader net b more (p\<lparr>pv_errors := pv_errors p @ errs\<rparr>))"
  using assms
proof (induction scs arbitrary: a p)
  case Nil
  show ?case by (intro exI [of _ a] exI [of _ "[]"]) simp
next
  case (Cons s scs)
  obtain u sc where s: "s = (u, sc)" by fastforce
  obtain e where e: "refusal sc = Some e" "session_error e"
    using Cons.prems(1) s by (auto simp: refused_def split: option.splits)
  define c where "c = (if 30 \<le> ss_seconds sc then 0 else a + 1)"
  define q where "q = p\<lparr>pv_errors := pv_errors p @ [e]\<rparr>"
  have "\<not> 1024 \<le> a + 1 - 1" using Cons.prems(2) by simp
  then have step: "run_reader net a ((s # scs) @ more) p = run_reader net c (scs @ more) q" for more
    using Cons.prems(3,4) connect_refused [OF e(1), of net p] e(2)
    by (simp add: s backoff_delay_def c_def q_def)
  have "list_all (refused \<circ> snd) scs" "c + length scs \<le> 1024" "\<not> pv_stopping q" "pv_subs q \<noteq> []"
    using Cons.prems by (simp_all add: c_def q_def o_def)
  from Cons.IH [OF this] obtain b errs where IH: "b \<le> c + length scs"
    "list_all (\<lambda>(_, sc). ss_seconds sc < 30) scs \<longrightarrow> b = c + length scs" "length errs = length scs"
    "\<forall>more. run_reader net c (scs @ more) q = run_reader net b more (q\<lparr>pv_errors := pv_errors q @ errs\<rparr>)"
    by blast
  have "run_reader net a ((s # scs) @ more) p = run_reader net b more (p\<lparr>pv_errors := pv_errors p @ e # errs\<rparr>)" for more
    by (simp only: step IH(4)) (simp add: q_def)
  moreover have "b \<le> a + length (s # scs)" using IH(1) by (simp add: c_def split: if_splits)
  moreover have "list_all (\<lambda>(_, sc). ss_seconds sc < 30) (s # scs) \<longrightarrow> b = a + length (s # scs)"
    using IH(2) by (simp add: c_def s)
  ultimately show ?case using IH(3) by (intro exI [of _ b] exI [of _ "e # errs"]) simp
qed

text \<open>
  The bridge as a directory: it resolves every subscribed symbol, each to an id of its own, and
  the ids the feed remembers are those.
\<close>

definition directory :: "feed_net \<Rightarrow> (string \<Rightarrow> int) \<Rightarrow> LiberatorOrderBookProvider \<Rightarrow> bool" where
  "directory net idf p \<longleftrightarrow>
     (\<forall>rs sy. book_id_of (nt_trunc net) (nt_get net rs (pv_base_url p @ ''/order-book/'' @ sy)) = Inr (idf sy)) \<and>
     inj_on idf (set (map fst (pv_subs p))) \<and>
     (\<forall>sy su. map_of (pv_subs p) sy = Some su \<longrightarrow> su_book_id su = None \<or> su_book_id su = Some (idf sy))"

lemma directory_known:
  assumes "directory net idf p" and "map_of (pv_subs p) sy = Some su" and "su_book_id su = Some rid"
  shows "rid = idf sy"
proof -
  have "su_book_id su = None \<or> su_book_id su = Some (idf sy)" using assms(1,2) unfolding directory_def by blast
  with assms(3) show ?thesis by simp
qed

lemma directory_id:
  assumes "directory net idf p" and "map_of (pv_subs p) sy = Some su"
  shows "directory net idf (p\<lparr>pv_subs := od_set sy (su\<lparr>su_book_id := Some (idf sy)\<rparr>) (pv_subs p)\<rparr>)"
proof -
  have "set (map fst (od_set sy (su\<lparr>su_book_id := Some (idf sy)\<rparr>) (pv_subs p))) = set (map fst (pv_subs p))"
    by (simp only: od_set_same_keys [OF assms(2)])
  with assms show ?thesis unfolding directory_def by (auto simp: map_of_od_set)
qed

lemma directory_frame: "directory net idf (p\<lparr>pv_requests := rs, pv_by_room := rooms\<rparr>) = directory net idf p"
  "directory net idf (p\<lparr>pv_by_room := rooms\<rparr>) = directory net idf p"
  "directory net idf (p\<lparr>pv_requests := rs\<rparr>) = directory net idf p"
  by (simp_all add: directory_def)

lemma join_one_directory:
  assumes dir: "directory net idf p" and su: "map_of (pv_subs p) (su_symbol su) = Some su"
    and run: "join_one net su p = (x, q)"
  shows "x = Inr [idf (su_symbol su)] \<and> directory net idf q \<and> idf (su_symbol su) \<in> listening q"
proof -
  let ?rid = "idf (su_symbol su)"
  let ?enter = "\<lambda>r. r\<lparr>pv_by_room := od_set ?rid (su_symbol su, su_market su) (pv_by_room r)\<rparr>"
  have heard: "?rid \<in> listening (?enter r)" for r using listening_od_set [of "?enter r" ?rid _ r] by simp
  show ?thesis
  proof (cases "su_book_id su")
    case None
    let ?url = "pv_base_url p @ ''/order-book/'' @ su_symbol su"
    let ?q = "p\<lparr>pv_requests := pv_requests p @ [?url]\<rparr>"
    let ?r = "?q\<lparr>pv_subs := od_set (su_symbol su) (su\<lparr>su_book_id := Some ?rid\<rparr>) (pv_subs ?q)\<rparr>"
    have "book_id_of (nt_trunc net) (nt_get net (pv_requests p) ?url) = Inr ?rid" using dir by (simp add: directory_def)
    then have "room_of net su p = (Inr ?rid, ?r)"
      using None su by (simp add: room_of_def resolve_order_book_id_def remember_id_def bindE_def Let_def)
    moreover have "directory net idf ?r" using directory_id [of net idf ?q] dir su by (simp add: directory_frame)
    ultimately show ?thesis
      using run heard [of ?r] by (auto simp: join_one_def join_room_def enter_room_def catchE_def bindE_def directory_frame)
  next
    case (Some rid)
    then have "rid = ?rid" by (rule directory_known [OF dir su])
    then show ?thesis
      using Some run dir heard [of p]
      by (auto simp: join_one_def join_room_def room_of_def enter_room_def catchE_def bindE_def directory_frame)
  qed
qed

lemma join_rooms_directory:
  assumes "directory net idf p" and "feed_ok p" and "distinct (map su_symbol sus)"
    and "\<forall>su\<in>set sus. map_of (pv_subs p) (su_symbol su) = Some su" and "join_rooms net sus p = (x, q)"
  shows "x = Inr (map (idf \<circ> su_symbol) sus) \<and> directory net idf q \<and> (idf \<circ> su_symbol) ` set sus \<subseteq> listening q"
  using assms
proof (induction sus arbitrary: p x)
  case (Cons su sus)
  obtain y r where one: "join_one net su p = (y, r)" by fastforce
  have su: "map_of (pv_subs p) (su_symbol su) = Some su" using Cons.prems(4) by simp
  have y: "y = Inr [idf (su_symbol su)]" and r: "directory net idf r" and heard: "idf (su_symbol su) \<in> listening r"
    using join_one_directory [OF Cons.prems(1) su one] by simp_all
  note eff = join_one_effect [OF Cons.prems(2) su one]
  obtain z q' where more: "join_rooms net sus r = (z, q')" by fastforce
  have q: "q' = q" and x: "x = map_sum id ((@) [idf (su_symbol su)]) z"
    using Cons.prems(5) one y more by (auto simp: bindE_def split: sum.splits)
  have kept: "map_of (pv_subs r) (su_symbol u) = Some u" if "u \<in> set sus" for u
  proof -
    have "su_symbol u \<noteq> su_symbol su"
      using Cons.prems(3) that by (metis distinct.simps(2) image_eqI list.set_map list.simps(9))
    then show ?thesis using Cons.prems(4) eff that by (simp add: rooms_grow_def)
  qed
  have "listening r \<subseteq> listening q"
    using join_rooms_effect [OF _ _ _ more [unfolded q]] Cons.prems(3) eff kept by (simp add: rooms_grow_def)
  then show ?case using Cons.IH [OF r _ _ _ more [unfolded q]] Cons.prems(3) eff kept x heard by auto
qed auto

text \<open>A session the venue accepts, over a socket that takes every packet.\<close>

definition accepted :: "feed_session \<Rightarrow> bool" where
  "accepted sc \<longleftrightarrow> refusal sc = None \<and> ss_open sc = None"

definition sends :: "feed_net \<Rightarrow> bool" where
  "sends net \<longleftrightarrow> (\<forall>sent packet. nt_send net sent packet = None)"

definition only_sent :: "LiberatorOrderBookProvider \<Rightarrow> LiberatorOrderBookProvider \<Rightarrow> bool" where
  "only_sent p q \<longleftrightarrow> q = p\<lparr>pv_sent := pv_sent q\<rparr>"

lemma ws_send_sends: "sends net \<Longrightarrow> ws_send net packet p = (Inr (), p\<lparr>pv_sent := pv_sent p @ [packet]\<rparr>)"
  by (simp add: ws_send_def sends_def)

lemma for_sends: "sends net \<Longrightarrow> forE xs (\<lambda>x. ws_send net (f x)) p = (Inr (), p\<lparr>pv_sent := pv_sent p @ map f xs\<rparr>)"
  by (induction xs arbitrary: p) (simp_all add: bindE_def ws_send_sends)

lemma open_accepted:
  assumes "accepted sc" and "sends net"
  obtains pks where "open_session net sc p = (Inr (), p\<lparr>pv_sent := pks, pv_live := True\<rparr>)"
proof -
  obtain url where "acquire_ticket (ss_ticket sc) = Inr url" "ss_connect sc = None"
    using assms(1) by (auto simp: accepted_def refusal_def split: sum.splits)
  then show thesis
    using assms that by (auto simp: open_session_def handshake_def accepted_def bindE_def ws_send_sends for_sends)
qed

text \<open>After the joins of such a session every subscribed room leads to its symbol.\<close>

lemma joined_rooms:
  assumes ok: "feed_ok p" and dir: "directory net idf p" and net: "sends net"
    and run: "join_all_rooms net p = (x, q)" and su: "map_of (pv_subs p) sy = Some su"
  shows "x = Inr ()" "map_of (pv_by_room q) (idf sy) = Some (sy, su_market su)" "pv_stopping q = pv_stopping p"
    and "pv_errors q = pv_errors p"
proof -
  let ?p = "p\<lparr>pv_by_room := []\<rparr>"
  let ?sus = "map snd (pv_subs p)"
  from ok run obtain y r where rooms: "join_rooms net ?sus ?p = (y, r)" and r: "feed_ok r"
    and grow: "rooms_grow (su_symbol ` set ?sus) ?p r"
    and served: "\<forall>ids. y = Inr ids \<longrightarrow> list_all (served ids r) ?sus \<and> length ids \<le> length (pv_subs p) \<and>
            pv_errors r = pv_errors p @ replicate (length (pv_subs p) - length ids) resolution_error"
    and xq: "(x, q) = (case y of Inl e \<Rightarrow> (Inl e, r)
       | Inr ids \<Rightarrow> if ids = [] then (Inr (), r) else ws_send net (join_rooms_packet ids) r)"
    by (rule join_all_rooms_cases)
  have "directory net idf ?p" using dir by (simp add: directory_def)
  moreover have "map_of (pv_subs ?p) = map_of (pv_subs p)" by simp
  ultimately have y: "y = Inr (map (idf \<circ> su_symbol) ?sus)" and dir_r: "directory net idf r"
    and heard: "(idf \<circ> su_symbol) ` set ?sus \<subseteq> listening r"
    using join_rooms_directory [OF _ clear_rooms_ok [OF ok] subs_values(1) [OF ok] _ rooms] subs_values(2) [OF ok] by simp_all
  have q: "x = Inr ()" "pv_by_room q = pv_by_room r" "pv_stopping q = pv_stopping r" "pv_errors q = pv_errors r"
    using xq y net by (auto simp: ws_send_sends split: if_splits)
  have "pv_errors r = pv_errors p" using served y by simp
  then show "x = Inr ()" "pv_stopping q = pv_stopping p" "pv_errors q = pv_errors p"
    using grow q by (simp_all add: rooms_grow_def)
  have mem: "su \<in> set ?sus" "su_symbol su = sy" using subs_values(3) [OF ok su] by simp_all
  have "list_all (served (map (idf \<circ> su_symbol) ?sus) r) ?sus" using served y by blast
  then have "served (map (idf \<circ> su_symbol) ?sus) r su" using mem(1) unfolding list_all_iff by blast
  then obtain su' where su': "map_of (pv_subs r) sy = Some su'" "su_market su' = su_market su"
    by (auto simp: served_def mem(2))
  have "idf sy \<in> listening r" using heard mem by force
  then obtain key where key: "map_of (pv_by_room r) (idf sy) = Some key"
    unfolding listening_def by (metis map_of_eq_None_iff not_Some_eq)
  then obtain u where u: "map_of (pv_subs r) (fst key) = Some u" "su_market u = snd key" "su_book_id u = Some (idf sy)"
    using feed_ok_room [OF r] unfolding knows_def by blast
  then have "idf (fst key) = idf sy" using directory_known [OF dir_r] by simp
  moreover have "fst key \<in> set (map fst (pv_subs r))" "sy \<in> set (map fst (pv_subs r))"
    using map_of_SomeD [OF u(1)] map_of_SomeD [OF su'(1)] by (force, force)
  ultimately have "fst key = sy" using dir_r unfolding directory_def by (blast dest: inj_onD)
  then have "key = (sy, su_market su)" using u su' by (cases key) auto
  then show "map_of (pv_by_room q) (idf sy) = Some (sy, su_market su)" using key q(2) by simp
qed

text \<open>The update frame of a joined room is emitted, and what has been emitted stays.\<close>

lemma event_of_frame: "parse_bid_offer_frame jl trunc raw = Inr (Some b) \<Longrightarrow> classify raw = EVENT_FRAME"
  by (auto simp: parse_bid_offer_frame_def decode_event_def classify_def prefix_def split: if_splits option.splits)

lemma update_emitted:
  assumes "parse_bid_offer_frame (nt_json_loads net) (nt_trunc net) raw = Inr (Some (room, sq, bids, asks))"
    and "map_of (pv_by_room p) room = Some key" and "bids @ asks \<noteq> []"
  shows "handle_frame net now raw p = (Inr (), p\<lparr>pv_books := pv_books p @ [book_of now key sq bids asks]\<rparr>)"
  using assms event_of_frame [OF assms(1)] by (auto simp: handle_frame_def bindE_def)

definition more_books :: "LiberatorOrderBookProvider \<Rightarrow> LiberatorOrderBookProvider \<Rightarrow> bool" where
  "more_books p q \<longleftrightarrow> prefix (pv_books p) (pv_books q)"

interpretation emitted: effect_order more_books
  by unfold_locales (auto simp: more_books_def intro: prefix_order.trans)

lemma frame_more_books: "effect more_books any (handle_frame net now raw)"
proof (rule effectI)
  show "more_books p (after (handle_frame net now raw) p)" for p
    using frame_cases [of net now raw p "outcome (handle_frame net now raw) p" "after (handle_frame net now raw) p"]
    by (auto simp: more_books_def)
qed simp

lemma receive_more_books: "effect more_books any (receive net frames)"
  by (induction net frames rule: receive.induct)
    (simp_all only: receive.simps, (intro emitted.effect_rules frame_more_books | simp)+)

lemma accepted_session_emits:
  assumes ok: "feed_ok p" and "\<not> pv_stopping p" and dir: "directory net idf p" and net: "sends net" and acc: "accepted sc"
    and su: "map_of (pv_subs p) sy = Some su" and frames: "ss_frames sc = (now, raw) # frames"
    and parsed: "parse_bid_offer_frame (nt_json_loads net) (nt_trunc net) raw = Inr (Some (idf sy, sq, bids, asks))"
    and "bids @ asks \<noteq> []" and reading: "pv_reader p = Reading"
  shows "book_of now (sy, su_market su) sq bids asks \<in> set (pv_books (after (connect_once net sc) p))"
proof -
  let ?b = "book_of now (sy, su_market su) sq bids asks"
  obtain pks where opened: "open_session net sc p = (Inr (), p\<lparr>pv_sent := pks, pv_live := True\<rparr>)"
    using acc net by (rule open_accepted)
  let ?p = "p\<lparr>pv_sent := pks, pv_live := True\<rparr>"
  have ok': "feed_ok ?p" using ok reading by (simp add: feed_ok_def)
  have dir': "directory net idf ?p" using dir by (simp add: directory_def)
  obtain x q where join: "join_all_rooms net ?p = (x, q)" by fastforce
  have "map_of (pv_subs ?p) sy = Some su" using su by simp
  note joined = joined_rooms [OF ok' dir' net join this]
  let ?q = "q\<lparr>pv_books := pv_books q @ [?b]\<rparr>"
  have "receive net (ss_frames sc) q = receive net frames ?q"
    using update_emitted [OF parsed joined(2) assms(9), of now] joined(3) assms(2) by (simp add: frames bindE_def)
  moreover have "?b \<in> set (pv_books (after (receive net frames) ?q))"
    using effectD [OF receive_more_books, of ?q net frames] by (auto simp: more_books_def dest: set_mono_prefix)
  ultimately show ?thesis
    using opened join joined(1)
    by (cases "receive net frames ?q") (auto simp: connect_once_def bindE_def close_socket_def split: sum.splits)
qed

section \<open>From the feed to the service\<close>

text \<open>What the provider emits is what a reader of the service then finds, while it is fresh.\<close>

lemma emitted_book_is_read:
  assumes "or_service r = Some sv" and "0 < max_symbols sv" and "now - received_at b \<le> max_age sv * 1000000"
    and "or_service (on_book b r) = Some sv'"
  shows "fst (get_book now (ob_symbol b) (ob_market b) sv') = Some b"
proof -
  have sv': "sv' = publish_book b sv" using assms(1,4) by (simp add: on_book_def)
  let ?older = "lastn (max_symbols sv - 1) (od_pop (book_key b) (cache sv))"
  have "cache sv' = ?older @ [(book_key b, b)]"
    using assms(2) by (simp add: sv' publish_book_cache od_set_last_def lastn_append) (simp add: lastn_def)
  moreover have "map_of ?older (book_key b) = None"
    using set_lastn [of "max_symbols sv - 1" "od_pop (book_key b) (cache sv)"] by (auto simp: map_of_eq_None_iff od_pop_def)
  ultimately have "map_of (cache sv') (book_key b) = Some b" "max_age sv' = max_age sv"
    by (simp_all add: sv' publish_book_cache map_add_def)
  then show ?thesis using assms(3) by (simp add: get_book_def book_key_def)
qed

text \<open>The runtime exists exactly when it is switched on and has a credential, once.\<close>

lemma create_when_enabled:
  assumes "or_service r = None"
  shows "(\<exists>sv. fst (create_order_book_runtime s r) = Inr (Some sv)) = order_book_runtime_enabled s"
    and "\<not> order_book_runtime_enabled s \<Longrightarrow> create_order_book_runtime s r = (Inr None, r)"
    and "create_order_book_runtime s (snd (create_order_book_runtime s r)) = create_order_book_runtime s r"
  using assms
  by (auto simp: create_order_book_runtime_def order_book_runtime_enabled_def build_providers_def new_router_def Let_def)

lemma close_clears:
  assumes "close_order_book_runtime r = (Inr (), r')"
  shows "r' = new_order_book_runtime"
  using assms by (auto simp: close_order_book_runtime_def new_order_book_runtime_def Let_def split: option.splits sum.splits prod.splits)

lemma close_raises:
  assumes "or_service r = Some sv" and "or_provider r = Some p" and "pv_reader p = Ended (Some e)"
  shows "fst (close_order_book_runtime r) = Inl e" and "or_service (snd (close_order_book_runtime r)) = Some sv"
  using assms by (simp_all add: close_order_book_runtime_def Let_def feed_stop_def cancel_reader_def)

section \<open>The promises of the feed\<close>

definition demo_net :: "json \<Rightarrow> feed_net" where
  "demo_net payload =
     \<lparr>nt_json_loads = (\<lambda>_. Some (JList [JStr ''update'', payload])), nt_trunc = (\<lambda>_. 0),
      nt_get = (\<lambda>_ _. Reply 200 (Some (JObj [(''orderBookId'', JInt 7)]))), nt_send = (\<lambda>_ _. None)\<rparr>"

definition demo_update :: json where
  "demo_update = JObj [(''room'', JInt 7), (''vs'', JInt 3), (''bp'', JList [JStr ''10.5'', JStr ''0'']),
     (''bv'', JList [JInt 300, JInt 10])]"

definition demo_session :: feed_session where
  "demo_session = \<lparr>ss_ticket = Reply 200 (Some (JObj [(''ws_url'', JStr ''wss://v'')])), ss_connect = None, ss_open = None,
     ss_frames = [(5, ''42/BidOfferV2,x'')], ss_end = None, ss_seconds = 60\<rparr>"

definition demo_refused :: feed_session where
  "demo_refused = demo_session\<lparr>ss_ticket := Reply 503 None, ss_seconds := 1\<rparr>"

definition demo_subscribed :: LiberatorOrderBookProvider where
  "demo_subscribed = after (feed_subscribe (demo_net demo_update) ''PTT'' SET) (new_provider ''u'')"

definition demo_open :: LiberatorOrderBookProvider where
  "demo_open = after (open_session (demo_net demo_update) demo_session) demo_subscribed"

definition demo_provider :: LiberatorOrderBookProvider where
  "demo_provider = after (join_all_rooms (demo_net demo_update)) demo_open"

definition demo_run :: "(exn + unit) \<times> LiberatorOrderBookProvider" where
  "demo_run = handle_frame (demo_net demo_update) 5 ''42/BidOfferV2,x'' demo_provider"

lemma demo_subscribed_reachable: "feed_reachable demo_subscribed"
  unfolding demo_subscribed_def by (intro feed_reachable.subscribed feed_reachable.created)

lemma demo_subscribed_state:
  "pv_reader demo_subscribed = Reading" "pv_stopping demo_subscribed = False"
  "pv_subs demo_subscribed = [(''PTT'', \<lparr>su_symbol = ''PTT'', su_market = SET, su_book_id = None\<rparr>)]"
  "pv_base_url demo_subscribed = ''u''"
  by code_simp+

lemma demo_provider_reachable: "feed_reachable demo_provider"
proof -
  have "fst (open_session (demo_net demo_update) demo_session demo_subscribed) = Inr ()" by code_simp
  then have "open_session (demo_net demo_update) demo_session demo_subscribed = (Inr (), demo_open)"
    by (simp add: demo_open_def prod_eq_iff)
  then show ?thesis
    unfolding demo_provider_def by (rule feed_reachable.opened [OF demo_subscribed_reachable demo_subscribed_state(1)])
qed

lemma demo_run_books:
  "fst demo_run = Inr ()" "pv_books demo_provider = []" "pv_books (snd demo_run) \<noteq> []"
  "map book_key (pv_books (snd demo_run)) = [(''PTT'', SET)]"
  "map (map lv_price \<circ> bid_levels) (pv_books (snd demo_run)) = [[Dec 105 (- 1)]]"
  "pv_live demo_provider"
  by code_simp+



text \<open>
  C32. Every book the feed has ever emitted, after any history of subscriptions, sessions and
  frames, is a well-formed one: it has a level, every level has a positive price and a volume
  that is not negative, and it names the feed as its source.
\<close>

theorem feed_books_sound:
  assumes "feed_reachable p"
  shows "list_all sound_book (pv_books p)"
  using assms by (rule reachable_books)

theorem feed_books_sound_witness:
  "list_all sound_book (pv_books (snd demo_run)) \<and> length (pv_books (snd demo_run)) = 1"
proof -
  have "feed_reachable (snd demo_run)"
    unfolding demo_run_def by (rule feed_reachable.received [OF demo_provider_reachable demo_run_books(6)])
  from feed_books_sound [OF this] show ?thesis using arg_cong [OF demo_run_books(4), of length] by simp
qed


lemma demo_su: "map_of (pv_subs demo_subscribed) ''PTT'' = Some \<lparr>su_symbol = ''PTT'', su_market = SET, su_book_id = None\<rparr>"
  by (simp add: demo_subscribed_state)

lemma demo_directory: "directory (demo_net payload) (\<lambda>_. 7) demo_subscribed"
proof -
  have "book_id_of f (Reply 200 (Some (JObj [(''orderBookId'', JInt 7)]))) = Inr 7" for f
    by (simp add: book_id_of_def subscript_def py_int_def)
  then show ?thesis by (simp add: directory_def demo_subscribed_state demo_net_def)
qed

lemma demo_sends: "sends (demo_net payload)"
  by (simp add: sends_def demo_net_def)

lemma demo_accepted: "accepted demo_session" "ss_frames demo_session = [(5, ''42/BidOfferV2,x'')]"
  by code_simp+

lemma outage_refused: "list_all (refused \<circ> snd) (replicate n (0, demo_refused))"
proof -
  have "refused demo_refused" by code_simp
  then show ?thesis by (induction n) simp_all
qed


text \<open>
  C33. A long outage ends the feed. After 1024 refused sessions in a row, none of which lasted
  half a minute, the delay before the next attempt can no longer be computed: the reader ends
  with an \<open>OverflowError\<close>, whatever the venue would have answered. Each refused session was
  reported, the end of the reader is not; the subscriptions stay, with nobody serving them, and
  stopping the provider raises the same error again.
\<close>

theorem long_outage_ends_reader:
  assumes "list_all (refused \<circ> snd) outage" and "list_all (\<lambda>(_, sc). ss_seconds sc < 30) outage"
    and "length outage = 1024" and "\<not> pv_stopping p" and "pv_subs p \<noteq> []"
    and "q = run_reader net 0 (outage @ session # later) p"
  shows "pv_reader q = Ended (Some (OtherError ''OverflowError'')) \<and> pv_subs q = pv_subs p \<and>
         length (pv_errors q) = length (pv_errors p) + 1024 \<and> outcome feed_stop q = Inl (OtherError ''OverflowError'')"
proof -
  obtain errs where errs: "length errs = 1024"
    and run: "\<forall>more. run_reader net 0 (outage @ more) p = run_reader net 1024 more (p\<lparr>pv_errors := pv_errors p @ errs\<rparr>)"
    using run_refused [of outage 0 p net] assms(1-5) by auto
  obtain u sc where session: "session = (u, sc)" by fastforce
  have "q = p\<lparr>pv_errors := pv_errors p @ errs, pv_reader := Ended (Some (OtherError ''OverflowError''))\<rparr>"
    using assms(4-6) by (simp add: run session backoff_delay_def)
  then show ?thesis using errs by (simp add: feed_stop_def cancel_reader_def)
qed

lemma outage_short: "list_all (\<lambda>(_, sc). ss_seconds sc < 30) (replicate n (0, demo_refused))"
  by (induction n) (simp_all add: demo_refused_def)

theorem long_outage_ends_reader_witness:
  "pv_reader (run_reader (demo_net demo_update) 0 (replicate 1024 (0, demo_refused) @ [(0, demo_session)]) demo_subscribed) =
     Ended (Some (OtherError ''OverflowError''))"
  using long_outage_ends_reader [OF outage_refused outage_short _ _ _ refl,
      of 1024 demo_subscribed "demo_net demo_update" "(0, demo_session)" "[]"] demo_subscribed_state by simp

text \<open>
  One frame can end the feed. If an update raises while it is parsed, with an error the
  reader does not expect of a session, then the reader ends with it in the middle of the session:
  the frames after it are not read, nothing is reported to the router, and no further session is
  opened. A price that is not a number is such an update: comparing it with zero raises.
\<close>

theorem bad_frame_ends_reader:
  assumes "feed_reachable p" and "pv_reader p = Reading" and "\<not> pv_stopping p" and "map_of (pv_subs p) sy = Some su"
    and "directory net idf p" and "sends net" and "attempt < 1024"
    and "accepted sc" and "ss_frames sc = (now, raw) # frames" and "classify raw = EVENT_FRAME"
    and "parse_bid_offer_frame (nt_json_loads net) (nt_trunc net) raw = Inl e" and "\<not> session_error e"
    and "q = run_reader net attempt ((u, sc) # later) p"
  shows "pv_reader q = Ended (Some e) \<and> pv_errors q = pv_errors p \<and> pv_live q = False"
proof -
  obtain pks where opened: "open_session net sc p = (Inr (), p\<lparr>pv_sent := pks, pv_live := True\<rparr>)"
    using assms(8,6) by (rule open_accepted)
  let ?p = "p\<lparr>pv_sent := pks, pv_live := True\<rparr>"
  have ok: "feed_ok ?p" using reachable_ok [OF assms(1)] assms(2) by (simp add: feed_ok_def)
  have dir: "directory net idf ?p" using assms(5) by (simp add: directory_def)
  obtain x r where join: "join_all_rooms net ?p = (x, r)" by fastforce
  have "map_of (pv_subs ?p) sy = Some su" using assms(4) by simp
  note joined = joined_rooms [OF ok dir assms(6) join this]
  have "receive net (ss_frames sc) r = (Inl e, r)"
    using assms(3,9-11) joined(3) by (simp add: handle_frame_def bindE_def)
  then have "connect_once net sc p = (Inl e, close_socket r)"
    using opened join joined(1) by (simp add: connect_once_def bindE_def)
  moreover have "pv_subs p \<noteq> []" using assms(4) by auto
  ultimately show ?thesis using assms(3,7,12,13) joined(4) by (simp add: backoff_delay_def close_socket_def)
qed

definition demo_nan :: json where
  "demo_nan = JObj [(''room'', JInt 7), (''bp'', JList [JStr ''NaN'']), (''bv'', JList [JInt 300])]"

theorem bad_frame_ends_reader_witness:
  "pv_reader (run_reader (demo_net demo_nan) 0 [(0, demo_session), (0, demo_session)] demo_subscribed) =
     Ended (Some (OtherError ''InvalidOperation''))"
proof -
  have frame: "classify ''42/BidOfferV2,x'' = EVENT_FRAME" "\<not> session_error (OtherError ''InvalidOperation'')"
    by code_simp+
  have bad: "parse_bid_offer_frame (nt_json_loads (demo_net demo_nan)) (nt_trunc (demo_net demo_nan)) ''42/BidOfferV2,x'' =
      Inl (OtherError ''InvalidOperation'')"
  proof -
    let ?r = "parse_bid_offer_frame (nt_json_loads (demo_net demo_nan)) (nt_trunc (demo_net demo_nan)) ''42/BidOfferV2,x''"
    have "(case ?r of Inl e \<Rightarrow> e = OtherError ''InvalidOperation'' | Inr _ \<Rightarrow> False)" by code_simp
    then show ?thesis by (auto split: sum.splits)
  qed
  show ?thesis
    using bad_frame_ends_reader [OF demo_subscribed_reachable demo_subscribed_state(1) _ demo_su demo_directory demo_sends _ demo_accepted
        frame(1) bad frame(2) refl] demo_subscribed_state(2) by simp
qed

end
