(* ===== verification/App.thy ===== *)
theory App
  imports Api BookFeed
begin

text \<open>
  The application as a whole (\<open>api/main.py\<close>): the process singletons of every module with the
  functions that create and close them (\<open>db/postgres.py\<close>, \<open>cache/redis_client.py\<close>,
  \<open>events/hub.py\<close>, \<open>adapters/market_data.py\<close>, \<open>adapters/sim_pricing.py\<close>, the three runtimes), the
  start-up and shut-down in their order. \<open>RepositoryError\<close> stands for its subclass
  \<open>PoolNotInitializedError\<close> too.
\<close>

section \<open>The singletons\<close>

text \<open>
  The hub and the book service of the world are the singletons of their modules. A pricer holds
  the book service there was when it was created.
\<close>

record 'v SimFillPricer =
  sf_order_book :: bool
  sf_market_data :: "'v MarketDataClient"

record ('r, 'v) node =
  nd_pool :: "db_env option"
  nd_redis :: "'r redis_client option"
  nd_liberator :: "('r, 'v) LiberatorRuntime"
  nd_streaming_pro :: "('r, 'v) StreamingProRuntime"
  nd_order_book :: OrderBookRuntime
  nd_sim_pricer :: "'v SimFillPricer option"
  nd_market_data :: "'v MarketDataClient option"
  nd_world :: "('r, 'v) world"

text \<open>
  What the libraries answer: the database to the connect, the Redis library to its URL, the
  market-data service to a fetch, and each client to its close.
\<close>

record ('r, 'v) boot =
  bt_connect :: "exn + db_env"
  bt_redis :: "exn + 'r redis_client"
  bt_fetch :: "string \<Rightarrow> timestamp \<Rightarrow> 'v \<Rightarrow> exn + json"
  bt_close :: "string \<Rightarrow> exn option"

type_synonym ('r, 'v, 'a) booting = "(('r, 'v) node, exn, 'a) prog"

definition new_node :: "('r, 'v) world \<Rightarrow> ('r, 'v) node" where
  "new_node w =
     \<lparr>nd_pool = None, nd_redis = None, nd_liberator = \<lparr>lr_adapter = None, lr_reconciler = False, lr_tasks = []\<rparr>,
      nd_streaming_pro = \<lparr>sr_adapter = None, sr_tasks = []\<rparr>, nd_order_book = new_order_book_runtime,
      nd_sim_pricer = None, nd_market_data = None, nd_world = w\<lparr>hub := None, books := None\<rparr>\<rparr>"

definition create_event_hub :: "Settings \<Rightarrow> ('r, 'v, unit) booting" where
  "create_event_hub s = (\<lambda>n.
     if hub (nd_world n) \<noteq> None then (Inr (), n)
     else if stream_ring_buffer_size s < 0 then (Inl (OtherError ''ValueError''), n)
     else (Inr (), n\<lparr>nd_world := (nd_world n)\<lparr>hub :=
             Some (new_hub (nat (stream_ring_buffer_size s)) (Config.stream_subscriber_queue_size s))\<rparr>\<rparr>))"

definition reset_event_hub :: "('r, 'v, unit) booting" where
  "reset_event_hub = modifyE (\<lambda>n. n\<lparr>nd_world := (nd_world n)\<lparr>hub := None\<rparr>\<rparr>)"

definition create_pool :: "('r, 'v) boot \<Rightarrow> ('r, 'v, unit) booting" where
  "create_pool bt = (\<lambda>n.
     if nd_pool n \<noteq> None then (Inr (), n)
     else case bt_connect bt of
            Inl _ \<Rightarrow> (Inl RepositoryError, n)
          | Inr db \<Rightarrow> (Inr (), n\<lparr>nd_pool := Some db\<rparr>))"

definition get_pool :: "('r, 'v) node \<Rightarrow> exn + db_env" where
  "get_pool n = (case nd_pool n of None \<Rightarrow> Inl RepositoryError | Some db \<Rightarrow> Inr db)"

text \<open>A close that raises leaves the reference, where the assignment comes after it.\<close>

definition closing :: "('r, 'v) boot \<Rightarrow> string \<Rightarrow> ('r, 'v, unit) booting" where
  "closing bt what = liftE (case bt_close bt what of Some e \<Rightarrow> Inl e | None \<Rightarrow> Inr ())"

definition close_pool :: "('r, 'v) boot \<Rightarrow> ('r, 'v, unit) booting" where
  "close_pool bt =
     bindE (getsE nd_pool) (\<lambda>pl.
     if pl = None then returnE ()
     else bindE (closing bt ''pool'') (\<lambda>_. modifyE (\<lambda>n. n\<lparr>nd_pool := None\<rparr>)))"

definition create_redis :: "('r, 'v) boot \<Rightarrow> ('r, 'v, unit) booting" where
  "create_redis bt = (\<lambda>n.
     if nd_redis n \<noteq> None then (Inr (), n)
     else case bt_redis bt of
            Inl e \<Rightarrow> (Inl e, n)
          | Inr c \<Rightarrow> (Inr (), n\<lparr>nd_redis := Some c\<rparr>))"

definition close_redis :: "('r, 'v) boot \<Rightarrow> ('r, 'v, unit) booting" where
  "close_redis bt =
     bindE (getsE nd_redis) (\<lambda>c.
     if c = None then returnE ()
     else bindE (closing bt ''redis'') (\<lambda>_. modifyE (\<lambda>n. n\<lparr>nd_redis := None\<rparr>)))"

definition create_market_data_client :: "('r, 'v) boot \<Rightarrow> Settings \<Rightarrow> ('r, 'v, unit) booting" where
  "create_market_data_client bt s = modifyE (\<lambda>n.
     if nd_market_data n \<noteq> None then n
     else n\<lparr>nd_market_data := Some (new_market_data_client (market_data_base_url s) (bt_fetch bt))\<rparr>)"

definition close_market_data_client :: "('r, 'v) boot \<Rightarrow> ('r, 'v, unit) booting" where
  "close_market_data_client bt =
     bindE (getsE nd_market_data) (\<lambda>c.
     bindE (if c \<noteq> None then closing bt ''market_data'' else returnE ()) (\<lambda>_.
     modifyE (\<lambda>n. n\<lparr>nd_market_data := None\<rparr>)))"

definition create_sim_pricer :: "('r, 'v) boot \<Rightarrow> Settings \<Rightarrow> ('r, 'v, unit) booting" where
  "create_sim_pricer bt s = modifyE (\<lambda>n.
     if nd_sim_pricer n \<noteq> None then n
     else n\<lparr>nd_sim_pricer := Some
            \<lparr>sf_order_book = (or_service (nd_order_book n) \<noteq> None),
             sf_market_data = new_market_data_client (market_data_base_url s) (bt_fetch bt)\<rparr>\<rparr>)"

definition close_sim_pricer :: "('r, 'v) boot \<Rightarrow> ('r, 'v, unit) booting" where
  "close_sim_pricer bt =
     bindE (getsE nd_sim_pricer) (\<lambda>c.
     bindE (if c \<noteq> None then closing bt ''sim_pricer'' else returnE ()) (\<lambda>_.
     modifyE (\<lambda>n. n\<lparr>nd_sim_pricer := None\<rparr>)))"

section \<open>The lifespan\<close>

definition enter_liberator :: "('r, 'v) platform \<Rightarrow> Settings \<Rightarrow> ('r, 'v, unit) booting" where
  "enter_liberator pl s = modifyE (\<lambda>n.
     case create_liberator_runtime pl s (nd_liberator n) (nd_world n) of
       (lr, w) \<Rightarrow> n\<lparr>nd_liberator := start_liberator_workers s lr, nd_world := w\<rparr>)"

definition enter_streaming_pro :: "sp_coercions \<Rightarrow> ('r, 'v) platform \<Rightarrow> Settings \<Rightarrow> ('r, 'v, unit) booting" where
  "enter_streaming_pro co pl s = modifyE (\<lambda>n.
     case create_streaming_pro_runtime co pl s (nd_streaming_pro n) (nd_world n) of
       (sr, w) \<Rightarrow> n\<lparr>nd_streaming_pro := start_streaming_pro_workers s sr, nd_world := w\<rparr>)"

definition show_books :: "('r, 'v) node \<Rightarrow> ('r, 'v) node" where
  "show_books n = n\<lparr>nd_world := (nd_world n)\<lparr>books := or_service (nd_order_book n)\<rparr>\<rparr>"

definition enter_order_book :: "Settings \<Rightarrow> ('r, 'v, unit) booting" where
  "enter_order_book s = (\<lambda>n.
     case create_order_book_runtime s (nd_order_book n) of
       (Inl e, r) \<Rightarrow> (Inl (OtherError e), n\<lparr>nd_order_book := r\<rparr>)
     | (Inr _, r) \<Rightarrow> (Inr (), show_books (n\<lparr>nd_order_book := start_order_book_workers r\<rparr>)))"

definition exit_order_book :: "('r, 'v, unit) booting" where
  "exit_order_book = (\<lambda>n.
     case close_order_book_runtime (nd_order_book n) of
       (x, r) \<Rightarrow> (x, show_books (n\<lparr>nd_order_book := r\<rparr>)))"

text \<open>The workers are cancelled and the reconciler forgotten before the client of the adapter is closed.\<close>

definition exit_streaming_pro :: "('r, 'v) boot \<Rightarrow> ('r, 'v, unit) booting" where
  "exit_streaming_pro bt =
     bindE (modifyE (\<lambda>n. n\<lparr>nd_streaming_pro := (nd_streaming_pro n)\<lparr>sr_tasks := []\<rparr>\<rparr>)) (\<lambda>_.
     bindE (getsE (\<lambda>n. sr_adapter (nd_streaming_pro n))) (\<lambda>a.
     if a = None then returnE ()
     else bindE (closing bt ''streaming_pro'') (\<lambda>_.
          modifyE (\<lambda>n. n\<lparr>nd_streaming_pro := close_streaming_pro_runtime (nd_streaming_pro n)\<rparr>))))"

definition exit_liberator :: "('r, 'v) boot \<Rightarrow> ('r, 'v, unit) booting" where
  "exit_liberator bt =
     bindE (modifyE (\<lambda>n. n\<lparr>nd_liberator := (nd_liberator n)\<lparr>lr_reconciler := False, lr_tasks := []\<rparr>\<rparr>)) (\<lambda>_.
     bindE (getsE (\<lambda>n. lr_adapter (nd_liberator n))) (\<lambda>a.
     if a = None then returnE ()
     else bindE (closing bt ''liberator'') (\<lambda>_.
          modifyE (\<lambda>n. n\<lparr>nd_liberator := close_liberator_runtime (nd_liberator n)\<rparr>))))"

definition lifespan_enter ::
  "sp_coercions \<Rightarrow> ('r, 'v) platform \<Rightarrow> ('r, 'v) boot \<Rightarrow> Settings \<Rightarrow> ('r, 'v, unit) booting" where
  "lifespan_enter co pl bt s =
     bindE (liftE (assert_startup_declaration s)) (\<lambda>_.
     bindE (create_event_hub s) (\<lambda>_.
     bindE (catchE (\<lambda>_. True) (create_pool bt) (\<lambda>_. returnE ())) (\<lambda>_.
     bindE (create_redis bt) (\<lambda>_.
     bindE (enter_liberator pl s) (\<lambda>_.
     bindE (enter_streaming_pro co pl s) (\<lambda>_.
     bindE (enter_order_book s) (\<lambda>_.
     bindE (create_sim_pricer bt s) (\<lambda>_.
     create_market_data_client bt s))))))))"

definition lifespan_exit :: "('r, 'v) boot \<Rightarrow> ('r, 'v, unit) booting" where
  "lifespan_exit bt =
     bindE (close_market_data_client bt) (\<lambda>_.
     bindE (close_sim_pricer bt) (\<lambda>_.
     bindE exit_order_book (\<lambda>_.
     bindE (exit_streaming_pro bt) (\<lambda>_.
     bindE (exit_liberator bt) (\<lambda>_.
     bindE (close_redis bt) (\<lambda>_.
     bindE (close_pool bt) (\<lambda>_.
     reset_event_hub)))))))"

text \<open>
  The process a request sees: \<open>get_pool_dep\<close> raises where there is no pool; without a market-data
  client the router is given an unconfigured one. The waits, the tokens and the fuel of the
  recovery burst are those of \<open>Engine.process\<close>.
\<close>

definition process_of ::
  "Settings \<Rightarrow> ('r, 'v) pause \<Rightarrow> (('r, 'v) world \<Rightarrow> string) \<Rightarrow> nat \<Rightarrow> ('r, 'v) boot \<Rightarrow> ('r, 'v) node \<Rightarrow>
   exn + ('r, 'v) process" where
  "process_of s ps tok n_polls bt n =
     (case get_pool n of
        Inl e \<Rightarrow> Inl e
      | Inr db \<Rightarrow>
          Inr \<lparr>pr_settings = s, pr_pool = db, pr_redis = nd_redis n, pr_liberator = nd_liberator n,
               pr_streaming_pro = nd_streaming_pro n, pr_sim_pricer = map_option sf_market_data (nd_sim_pricer n),
               pr_market_data = (case nd_market_data n of
                                   Some c \<Rightarrow> c | None \<Rightarrow> new_market_data_client None (bt_fetch bt)),
               pr_pause = ps, pr_token = tok, pr_fuel = n_polls\<rparr>)"

section \<open>Start-up\<close>

text \<open>The broker part in its closed form.\<close>

definition lib_started :: "('r, 'v) platform \<Rightarrow> Settings \<Rightarrow> ('r, 'v) LiberatorRuntime" where
  "lib_started pl s = start_liberator_workers s
     \<lparr>lr_adapter = (if liberator_enabled s then Some (new_liberator_adapter pl s) else None), lr_reconciler = False, lr_tasks = []\<rparr>"

definition sp_started :: "sp_coercions \<Rightarrow> ('r, 'v) platform \<Rightarrow> Settings \<Rightarrow> ('r, 'v) StreamingProRuntime" where
  "sp_started co pl s = start_streaming_pro_workers s
     \<lparr>sr_adapter = (if streaming_pro_enabled s then Some (new_streaming_pro_adapter co pl s) else None), sr_tasks = []\<rparr>"

definition tables_kept :: "('r, 'v) world \<Rightarrow> ('r, 'v) world \<Rightarrow> bool" where
  "tables_kept w w' \<longleftrightarrow> orders w' = orders w \<and> fills w' = fills w \<and> redis w' = redis w \<and> venue w' = venue w"

definition like :: "('r, 'v) node \<Rightarrow> ('r, 'v) node \<Rightarrow> bool" where
  "like n m \<longleftrightarrow> nd_pool m = nd_pool n \<and> nd_redis m = nd_redis n \<and> nd_order_book m = nd_order_book n \<and>
     nd_sim_pricer m = nd_sim_pricer n \<and> nd_market_data m = nd_market_data n \<and> tables_kept (nd_world n) (nd_world m) \<and>
     hub (nd_world m) = hub (nd_world n) \<and> books (nd_world m) = books (nd_world n)"

lemma enter_liberator_new:
  assumes "nd_liberator n = \<lparr>lr_adapter = None, lr_reconciler = False, lr_tasks = []\<rparr>"
  shows "outcome (enter_liberator pl s) n = Inr ()"
    and "nd_liberator (after (enter_liberator pl s) n) = lib_started pl s"
    and "nd_streaming_pro (after (enter_liberator pl s) n) = nd_streaming_pro n"
    and "like n (after (enter_liberator pl s) n)"
  using assms
  by (simp_all add: enter_liberator_def create_liberator_runtime_def lib_started_def tables_kept_def like_def)

lemma enter_streaming_pro_new:
  assumes "nd_streaming_pro n = \<lparr>sr_adapter = None, sr_tasks = []\<rparr>"
  shows "outcome (enter_streaming_pro co pl s) n = Inr ()"
    and "nd_streaming_pro (after (enter_streaming_pro co pl s) n) = sp_started co pl s"
    and "nd_liberator (after (enter_streaming_pro co pl s) n) = nd_liberator n"
    and "like n (after (enter_streaming_pro co pl s) n)"
  using assms
  by (simp_all add: enter_streaming_pro_def create_streaming_pro_runtime_def sp_started_def tables_kept_def like_def)

lemma enter_order_book_new:
  assumes "nd_order_book n = new_order_book_runtime"
  obtains r where "enter_order_book s n = (Inr (), show_books (n\<lparr>nd_order_book := r\<rparr>))"
    and "or_service r \<noteq> None \<longleftrightarrow> order_book_runtime_enabled s"
proof -
  have none: "or_service (nd_order_book n) = None" using assms by (simp add: new_order_book_runtime_def)
  obtain x r where run: "create_order_book_runtime s (nd_order_book n) = (x, r)" by fastforce
  have "\<not> isl x \<and> (or_service r \<noteq> None \<longleftrightarrow> order_book_runtime_enabled s)"
    using run none
    by (auto simp: create_order_book_runtime_def order_book_runtime_enabled_def build_providers_def new_router_def Let_def
        split: if_splits)
  then show thesis
    using that [of "start_order_book_workers r"] run
    by (cases x) (auto simp: enter_order_book_def start_order_book_workers_def split: option.splits)
qed

text \<open>The first steps: the declaration, the hub, the pool that may be missing, the Redis client.\<close>

definition resources :: "('r, 'v) boot \<Rightarrow> Settings \<Rightarrow> ('r, 'v, unit) booting" where
  "resources bt s =
     bindE (liftE (assert_startup_declaration s)) (\<lambda>_.
     bindE (create_event_hub s) (\<lambda>_.
     bindE (catchE (\<lambda>_. True) (create_pool bt) (\<lambda>_. returnE ())) (\<lambda>_.
     create_redis bt)))"

definition startable :: "('r, 'v) boot \<Rightarrow> Settings \<Rightarrow> bool" where
  "startable bt s \<longleftrightarrow> assert_startup_declaration s = Inr () \<and> 0 \<le> stream_ring_buffer_size s \<and> \<not> isl (bt_redis bt)"

lemma resources_new:
  "outcome (resources bt s) (new_node w) = Inr () \<longleftrightarrow> startable bt s"
  "startable bt s \<Longrightarrow> after (resources bt s) (new_node w) =
     (new_node w)\<lparr>nd_pool := (case bt_connect bt of Inl _ \<Rightarrow> None | Inr db \<Rightarrow> Some db), nd_redis := Some (projr (bt_redis bt)),
       nd_world := w\<lparr>books := None, hub :=
         Some (new_hub (nat (stream_ring_buffer_size s)) (Config.stream_subscriber_queue_size s))\<rparr>\<rparr>"
  by (auto simp: resources_def startable_def create_event_hub_def create_pool_def create_redis_def new_node_def bindE_def
      catchE_def split: sum.splits)

lemma lifespan_enter_split:
  "lifespan_enter co pl bt s =
     bindE (resources bt s) (\<lambda>_. bindE (enter_liberator pl s) (\<lambda>_. bindE (enter_streaming_pro co pl s) (\<lambda>_.
     bindE (enter_order_book s) (\<lambda>_. bindE (create_sim_pricer bt s) (\<lambda>_. create_market_data_client bt s)))))"
  by (simp add: lifespan_enter_def resources_def fun_eq_iff bindE_def split: prod.splits sum.splits)

lemma run_next: "outcome m n = Inr x \<Longrightarrow> bindE m f n = f x (after m n)"
  by (simp add: bindE_def prod.case_eq_if)

lemma lifespan_enter_fields:
  assumes ok: "startable bt s" and run: "lifespan_enter co pl bt s (new_node w) = (x, n)"
  shows "x = Inr () \<and> nd_pool n = (case bt_connect bt of Inl _ \<Rightarrow> None | Inr db \<Rightarrow> Some db) \<and>
    nd_redis n = Some (projr (bt_redis bt)) \<and> nd_liberator n = lib_started pl s \<and> nd_streaming_pro n = sp_started co pl s \<and>
    (or_service (nd_order_book n) \<noteq> None \<longleftrightarrow> order_book_runtime_enabled s) \<and>
    nd_sim_pricer n = Some \<lparr>sf_order_book = order_book_runtime_enabled s,
      sf_market_data = new_market_data_client (market_data_base_url s) (bt_fetch bt)\<rparr> \<and>
    nd_market_data n = Some (new_market_data_client (market_data_base_url s) (bt_fetch bt)) \<and>
    hub (nd_world n) = Some (new_hub (nat (stream_ring_buffer_size s)) (Config.stream_subscriber_queue_size s)) \<and>
    books (nd_world n) = or_service (nd_order_book n) \<and> tables_kept w (nd_world n)"
proof -
  define n0 where "n0 = after (resources bt s) (new_node w)"
  define n1 where "n1 = after (enter_liberator pl s) n0"
  define n2 where "n2 = after (enter_streaming_pro co pl s) n1"
  note n0 = n0_def [unfolded resources_new(2) [OF ok, of w]]
  have "nd_liberator n0 = \<lparr>lr_adapter = None, lr_reconciler = False, lr_tasks = []\<rparr>" by (simp add: n0 new_node_def)
  note l = enter_liberator_new [OF this, of pl s, folded n1_def]
  have "nd_streaming_pro n1 = \<lparr>sr_adapter = None, sr_tasks = []\<rparr>" using l(3) by (simp add: n0 new_node_def)
  note p = enter_streaming_pro_new [OF this, of co pl s, folded n2_def]
  have "nd_order_book n2 = new_order_book_runtime" using l(4) p(4) by (simp add: like_def n0 new_node_def)
  then obtain r where b: "enter_order_book s n2 = (Inr (), show_books (n2\<lparr>nd_order_book := r\<rparr>))"
    and r: "or_service r \<noteq> None \<longleftrightarrow> order_book_runtime_enabled s" by (rule enter_order_book_new)
  have "lifespan_enter co pl bt s (new_node w) =
      bindE (create_sim_pricer bt s) (\<lambda>_. create_market_data_client bt s) (show_books (n2\<lparr>nd_order_book := r\<rparr>))"
    unfolding lifespan_enter_split using resources_new(1) [of bt s w] ok l(1) p(1) b
    by (simp add: run_next bindE_Inr n0_def [symmetric] n1_def [symmetric] n2_def [symmetric])
  then show ?thesis
    using run l p r
    by (auto simp: create_sim_pricer_def create_market_data_client_def show_books_def like_def n0 new_node_def tables_kept_def)
qed

lemma lifespan_enter_refused:
  assumes "\<not> startable bt s" and "lifespan_enter co pl bt s (new_node w) = (x, n)"
  shows "isl x \<and> tables_kept w (nd_world n) \<and> nd_liberator n = nd_liberator (new_node w) \<and>
    nd_streaming_pro n = nd_streaming_pro (new_node w)"
proof -
  obtain y m where res: "resources bt s (new_node w) = (y, m)" by fastforce
  have "outcome (resources bt s) (new_node w) \<noteq> Inr ()" using assms(1) resources_new(1) by blast
  then obtain e where y: "y = Inl e" using res by (cases y) auto
  then have "x = Inl e" "n = m" using assms(2) res unfolding lifespan_enter_split by (simp_all add: bindE_Inl)
  moreover have "tables_kept w (nd_world m) \<and> nd_liberator m = nd_liberator (new_node w) \<and>
      nd_streaming_pro m = nd_streaming_pro (new_node w)"
    using res by (auto simp: resources_def create_event_hub_def create_pool_def create_redis_def new_node_def bindE_def
      catchE_def tables_kept_def split: sum.splits if_splits)
  ultimately show ?thesis by simp
qed

section \<open>Shut-down\<close>

definition no_singletons :: "('r, 'v) node \<Rightarrow> bool" where
  "no_singletons n \<longleftrightarrow> nd_pool n = None \<and> nd_redis n = None \<and>
     lr_adapter (nd_liberator n) = None \<and> \<not> lr_reconciler (nd_liberator n) \<and> lr_tasks (nd_liberator n) = [] \<and>
     sr_adapter (nd_streaming_pro n) = None \<and> sr_tasks (nd_streaming_pro n) = [] \<and>
     nd_order_book n = new_order_book_runtime \<and> nd_sim_pricer n = None \<and> nd_market_data n = None \<and>
     hub (nd_world n) = None \<and> books (nd_world n) = None"

lemma closing_cases: "closing bt what n = (case bt_close bt what of Some e \<Rightarrow> (Inl e, n) | None \<Rightarrow> (Inr (), n))"
  by (simp add: closing_def split: option.splits)

text \<open>Each closer that returns has cleared its own reference and nothing else.\<close>

lemma already_clear:
  "nd_redis n = None \<Longrightarrow> n\<lparr>nd_redis := None\<rparr> = n"
  "nd_pool n = None \<Longrightarrow> n\<lparr>nd_pool := None\<rparr> = n"
  "lr_adapter lr = None \<Longrightarrow> lr\<lparr>lr_reconciler := False, lr_tasks := []\<rparr> = close_liberator_runtime lr"
  "sr_adapter sr = None \<Longrightarrow> sr\<lparr>sr_tasks := []\<rparr> = close_streaming_pro_runtime sr"
  by (cases n, simp, cases n, simp, cases lr, simp add: close_liberator_runtime_def,
      cases sr, simp add: close_streaming_pro_runtime_def)

lemma closed_twice:
  "close_liberator_runtime (lr\<lparr>lr_reconciler := False, lr_tasks := []\<rparr>) = close_liberator_runtime lr"
  "close_streaming_pro_runtime (sr\<lparr>sr_tasks := []\<rparr>) = close_streaming_pro_runtime sr"
  by (simp_all add: close_liberator_runtime_def close_streaming_pro_runtime_def)

lemma closers:
  "close_market_data_client bt n = (Inr u, m) \<Longrightarrow> m = n\<lparr>nd_market_data := None\<rparr>"
  "close_sim_pricer bt n = (Inr u, m) \<Longrightarrow> m = n\<lparr>nd_sim_pricer := None\<rparr>"
  "exit_order_book n = (Inr u, m) \<Longrightarrow> m = show_books (n\<lparr>nd_order_book := new_order_book_runtime\<rparr>)"
  "exit_streaming_pro bt n = (Inr u, m) \<Longrightarrow> m = n\<lparr>nd_streaming_pro := close_streaming_pro_runtime (nd_streaming_pro n)\<rparr>"
  "exit_liberator bt n = (Inr u, m) \<Longrightarrow> m = n\<lparr>nd_liberator := close_liberator_runtime (nd_liberator n)\<rparr>"
  "close_redis bt n = (Inr u, m) \<Longrightarrow> m = n\<lparr>nd_redis := None\<rparr>"
  "close_pool bt n = (Inr u, m) \<Longrightarrow> m = n\<lparr>nd_pool := None\<rparr>"
  by (auto simp: close_market_data_client_def close_sim_pricer_def exit_order_book_def exit_streaming_pro_def
      exit_liberator_def close_redis_def close_pool_def bindE_def closing_cases already_clear closed_twice
      dest!: close_clears split: option.splits if_splits prod.splits)

lemma lifespan_exit_clears:
  assumes "lifespan_exit bt n = (Inr u, n')"
  shows "no_singletons n' \<and> tables_kept (nd_world n) (nd_world n')"
proof -
  from assms obtain n1 n2 n3 n4 n5 n6 n7 where steps: "close_market_data_client bt n = (Inr (), n1)"
    "close_sim_pricer bt n1 = (Inr (), n2)" "exit_order_book n2 = (Inr (), n3)" "exit_streaming_pro bt n3 = (Inr (), n4)"
    "exit_liberator bt n4 = (Inr (), n5)" "close_redis bt n5 = (Inr (), n6)" "close_pool bt n6 = (Inr (), n7)"
    "reset_event_hub n7 = (Inr u, n')"
    unfolding lifespan_exit_def by (elim bindE_InrE) simp
  note after_each = closers(1) [OF steps(1)] closers(2) [OF steps(2)] closers(3) [OF steps(3)] closers(4) [OF steps(4)]
    closers(5) [OF steps(5)] closers(6) [OF steps(6)] closers(7) [OF steps(7)]
  show ?thesis
    using steps(8)
    by (auto simp: after_each new_order_book_runtime_def reset_event_hub_def no_singletons_def show_books_def tables_kept_def
        close_liberator_runtime_def close_streaming_pro_runtime_def)
qed

text \<open>The order book's close raises exactly when its reader has died.\<close>

definition dead_reader :: "('r, 'v) node \<Rightarrow> exn option" where
  "dead_reader n =
     (case (or_service (nd_order_book n), or_provider (nd_order_book n)) of
        (Some _, Some p) \<Rightarrow> (case pv_reader p of Ended x \<Rightarrow> x | _ \<Rightarrow> None)
      | _ \<Rightarrow> None)"

lemma exit_order_book_cases:
  "outcome exit_order_book n = (case dead_reader n of Some e \<Rightarrow> Inl e | None \<Rightarrow> Inr ())"
  by (auto simp: exit_order_book_def close_order_book_runtime_def dead_reader_def Let_def feed_stop_def cancel_reader_def
      split: option.splits reader.splits)

lemma close_returns:
  assumes "\<forall>what. bt_close bt what = None"
  shows "outcome (close_market_data_client bt) n = Inr ()" "outcome (close_sim_pricer bt) n = Inr ()"
    "outcome (exit_streaming_pro bt) n = Inr ()" "outcome (exit_liberator bt) n = Inr ()"
    "outcome (close_redis bt) n = Inr ()" "outcome (close_pool bt) n = Inr ()"
  using assms by (simp_all add: close_market_data_client_def close_sim_pricer_def exit_streaming_pro_def exit_liberator_def
      close_redis_def close_pool_def bindE_def closing_cases)

interpretation kept: effect_order "\<lambda>n m. tables_kept (nd_world n) (nd_world m)"
  by unfold_locales (auto simp: tables_kept_def)

lemma lifespan_exit_kept: "effect (\<lambda>n m. tables_kept (nd_world n) (nd_world m)) any (lifespan_exit bt)"
proof -
  have "effect (\<lambda>n m. tables_kept (nd_world n) (nd_world m)) any exit_order_book"
    by (simp add: effect_def exit_order_book_def show_books_def tables_kept_def split: prod.splits)
  then show ?thesis
    unfolding lifespan_exit_def close_market_data_client_def close_sim_pricer_def exit_streaming_pro_def exit_liberator_def
      close_redis_def close_pool_def closing_def reset_event_hub_def
    by (intro kept.effect_rules kept.effect_modify) (simp_all add: tables_kept_def)
qed

lemma closed_first:
  assumes "\<forall>what. bt_close bt what = None"
  shows "lifespan_exit bt n =
    bindE exit_order_book (\<lambda>_. bindE (exit_streaming_pro bt) (\<lambda>_. bindE (exit_liberator bt) (\<lambda>_.
      bindE (close_redis bt) (\<lambda>_. bindE (close_pool bt) (\<lambda>_. reset_event_hub)))))
      (n\<lparr>nd_market_data := None, nd_sim_pricer := None\<rparr>)"
proof -
  have "close_market_data_client bt m = (Inr (), m\<lparr>nd_market_data := None\<rparr>)"
    "close_sim_pricer bt m = (Inr (), m\<lparr>nd_sim_pricer := None\<rparr>)" for m
    using assms by (simp_all add: close_market_data_client_def close_sim_pricer_def bindE_def closing_cases)
  then show ?thesis by (simp add: lifespan_exit_def bindE_Inr)
qed

text \<open>
  C21. Shutting down. When the shut-down returns, no module keeps a client, an adapter, a worker or
  a service; whatever happens, the orders, the fills, Redis and the venues are as they were. Where
  the clients close without error it returns, unless the reader of the book feed had died: then
  it raises that error in the middle, and the workers and adapters of both brokers, the Redis
  client, the pool and the hub stay as they are.
\<close>

theorem application_stops:
  assumes "lifespan_exit bt n = (x, n')"
  shows "(x = Inr () \<longrightarrow> no_singletons n') \<and> tables_kept (nd_world n) (nd_world n') \<and>
         ((\<forall>what. bt_close bt what = None) \<longrightarrow>
            (case dead_reader n of
               None \<Rightarrow> x = Inr ()
             | Some e \<Rightarrow> x = Inl e \<and> nd_liberator n' = nd_liberator n \<and> nd_streaming_pro n' = nd_streaming_pro n \<and>
                 nd_redis n' = nd_redis n \<and> nd_pool n' = nd_pool n \<and> hub (nd_world n') = hub (nd_world n)))"
proof (intro conjI impI)
  show "no_singletons n'" if "x = Inr ()" using lifespan_exit_clears assms that by blast
  show "tables_kept (nd_world n) (nd_world n')" using effectD [OF lifespan_exit_kept, of n bt] assms by simp
  assume none: "\<forall>what. bt_close bt what = None"
  let ?n = "n\<lparr>nd_market_data := None, nd_sim_pricer := None\<rparr>"
  have dead: "dead_reader ?n = dead_reader n" by (simp add: dead_reader_def)
  obtain y m where book: "exit_order_book ?n = (y, m)" by fastforce
  have y: "y = (case dead_reader n of Some e \<Rightarrow> Inl e | None \<Rightarrow> Inr ())"
    using exit_order_book_cases [of ?n] book dead by simp
  have m: "nd_liberator m = nd_liberator n \<and> nd_streaming_pro m = nd_streaming_pro n \<and> nd_redis m = nd_redis n \<and>
      nd_pool m = nd_pool n \<and> hub (nd_world m) = hub (nd_world n)"
    using book by (auto simp: exit_order_book_def show_books_def split: prod.splits)
  show "case dead_reader n of
               None \<Rightarrow> x = Inr ()
             | Some e \<Rightarrow> x = Inl e \<and> nd_liberator n' = nd_liberator n \<and> nd_streaming_pro n' = nd_streaming_pro n \<and>
                 nd_redis n' = nd_redis n \<and> nd_pool n' = nd_pool n \<and> hub (nd_world n') = hub (nd_world n)"
  proof (cases "dead_reader n")
    case None
    then have "outcome (lifespan_exit bt) n = Inr ()"
      using book y close_returns [OF none]
      by (simp add: closed_first [OF none] bindE_Inr run_next reset_event_hub_def)
    then show ?thesis using None assms by simp
  next
    case (Some e)
    then show ?thesis using assms book y m by (auto simp: closed_first [OF none] bindE_Inl)
  qed
qed

section \<open>The application\<close>

text \<open>
  C20. Starting up. The application starts exactly when the real-routing declaration passes, the
  ring of the hub has a size and the Redis URL can be used; a database that does not answer does
  not stop it. Started, it has the hub, a Redis client, a market-data client and a pricer; a pool
  exactly when the database answered, and without one no request gets a router; the adapters,
  heartbeats and reconcilers of the brokers as the stage and the keys say; the book service
  exactly when it is enabled with a key, which is what the pricer then prices from. Nothing is
  written on the way, and a start-up that fails brings no broker up.
\<close>

theorem application_starts:
  assumes "lifespan_enter co pl bt s (new_node w) = (x, n)"
  shows "(x = Inr () \<longleftrightarrow> assert_startup_declaration s = Inr () \<and> 0 \<le> stream_ring_buffer_size s \<and> \<not> isl (bt_redis bt)) \<and>
    tables_kept w (nd_world n) \<and>
    (x \<noteq> Inr () \<longrightarrow> lr_adapter (nd_liberator n) = None \<and> lr_tasks (nd_liberator n) = [] \<and>
       sr_adapter (nd_streaming_pro n) = None \<and> sr_tasks (nd_streaming_pro n) = []) \<and>
    (x = Inr () \<longrightarrow>
       hub (nd_world n) = Some (new_hub (nat (stream_ring_buffer_size s)) (Config.stream_subscriber_queue_size s)) \<and>
       nd_redis n = Some (projr (bt_redis bt)) \<and>
       get_pool n = (case bt_connect bt of Inl _ \<Rightarrow> Inl RepositoryError | Inr db \<Rightarrow> Inr db) \<and>
       (isl (bt_connect bt) \<longrightarrow> process_of s ps tok n_polls bt n = Inl RepositoryError) \<and>
       nd_liberator n = lib_started pl s \<and> nd_streaming_pro n = sp_started co pl s \<and>
       (or_service (nd_order_book n) \<noteq> None \<longleftrightarrow> order_book_runtime_enabled s) \<and>
       books (nd_world n) = or_service (nd_order_book n) \<and>
       map_option sf_order_book (nd_sim_pricer n) = Some (order_book_runtime_enabled s) \<and> nd_market_data n \<noteq> None)"
proof (cases "startable bt s")
  case True
  then show ?thesis
    using lifespan_enter_fields [OF True assms] by (simp add: startable_def get_pool_def process_of_def split: sum.splits)
next
  case False
  then show ?thesis
    using lifespan_enter_refused [OF False assms] by (auto simp: startable_def new_node_def)
qed

text \<open>
  C19. The started application keeps every order. Start it on a database whose trigger admits no
  edge outside the frozen graph, with waits that keep the store's promise; let the process it
  gives to requests serve any interleaving of requests, reconciler passes and heartbeats; shut it
  down. An order that was in the table before the start is there at the end with its identity,
  at a status reached along frozen edges, terminal ones unchanged, and no fill is lost.
\<close>

theorem application_keeps_orders:
  assumes "lifespan_enter co pl bt s (new_node w) = (Inr (), n)" and "process_of s ps tok n_polls bt n = Inr p"
    and "bt_connect bt = Inr db" and "guard_frozen db"
    and "\<And>d u. evolves u (pl_sleep pl d u)" and "\<And>d u. evolves u (ps d u)"
    and "lifespan_exit bt (n\<lparr>nd_world := run p evs (nd_world n)\<rparr>) = (x, n')"
  shows "(\<forall>cid r. find_order cid w = Some r \<longrightarrow>
            (\<exists>r'. find_order cid (nd_world n') = Some r' \<and> same_identity r r' \<and>
                  legal_path (r_status r) (r_status r') \<and>
                  (is_terminal (r_status r) \<longrightarrow> r_status r' = r_status r))) \<and>
         prefix (fills w) (fills (nd_world n'))"
proof -
  have ok: "startable bt s" using lifespan_enter_refused [OF _ assms(1)] by force
  note fields = lifespan_enter_fields [OF ok assms(1)]
  have p: "pr_pool p = db" "pr_liberator p = lib_started pl s" "pr_streaming_pro p = sp_started co pl s" "pr_pause p = ps"
    using assms(2,3) fields by (auto simp: process_of_def get_pool_def)
  have "process_ok p"
    using assms(4) new_liberator_adapter_ok [OF assms(5), of s] new_streaming_pro_adapter_ok [OF assms(5), of co s] assms(6)
    by (auto simp: process_ok_def p lib_started_def sp_started_def start_liberator_workers_def start_streaming_pro_workers_def
        Let_def split: if_splits)
  then have ev: "evolves (nd_world n) (run p evs (nd_world n))" by (rule run_evolves)
  have "tables_kept (run p evs (nd_world n)) (nd_world n')"
    using effectD [OF lifespan_exit_kept, of "n\<lparr>nd_world := run p evs (nd_world n)\<rparr>" bt] assms(7) by simp
  then have at_end: "orders (nd_world n') = orders (run p evs (nd_world n))" "fills (nd_world n') = fills (run p evs (nd_world n))"
    by (simp_all add: tables_kept_def)
  have start: "orders (nd_world n) = orders w" "fills (nd_world n) = fills w" using fields by (simp_all add: tables_kept_def)
  have row: "\<exists>r'. find_order cid (nd_world n') = Some r' \<and> same_identity r r' \<and> legal_path (r_status r) (r_status r') \<and>
      (is_terminal (r_status r) \<longrightarrow> r_status r' = r_status r)" if "find_order cid w = Some r" for cid r
  proof -
    have "find_order cid (nd_world n) = Some r" using that start by simp
    from evolves_row [OF ev this] obtain r' where "find_order cid (run p evs (nd_world n)) = Some r'"
      "same_identity r r'" "legal_path (r_status r) (r_status r')" by blast
    then show ?thesis using at_end by (auto dest: legal_path_terminal)
  qed
  moreover have "prefix (fills w) (fills (nd_world n'))" using ev start at_end by (auto simp: evolves_def)
  ultimately show ?thesis by blast
qed

section \<open>A deployment\<close>

text \<open>At micro_live with both broker keys and the book feed on, on a database that answers.\<close>

definition demo_redis_client :: "unit redis_client" where
  "demo_redis_client =
     \<lparr>rd_get = (\<lambda>_. returnE None), rd_set = (\<lambda>_ _. returnE ()), rd_set_nx_ex = (\<lambda>_ _ _. returnE True),
      rd_delete = (\<lambda>_. returnE ()), rd_incr = (\<lambda>_. returnE 1), rd_expire = (\<lambda>_ _. returnE ()),
      rd_release = (\<lambda>_ _. returnE ())\<rparr>"

definition demo_boot :: "(unit, unit) boot" where
  "demo_boot = \<lparr>bt_connect = Inr frozen_db, bt_redis = Inr demo_redis_client, bt_fetch = (\<lambda>_ _ _. Inr JNull),
     bt_close = (\<lambda>_. None)\<rparr>"

definition demo_book_settings :: Settings where
  "demo_book_settings = demo_settings\<lparr>order_book_enabled := True\<rparr>"

definition demo_started :: "(unit, unit) node" where
  "demo_started =
     after (lifespan_enter demo_coercions demo_platform demo_boot demo_book_settings)
       (new_node (demo_world [demo_lib_row ''c'' FILLED] []))"

lemma demo_starts:
  "lifespan_enter demo_coercions demo_platform demo_boot demo_book_settings (new_node (demo_world [demo_lib_row ''c'' FILLED] [])) =
     (Inr (), demo_started)"
proof -
  have "assert_startup_declaration demo_book_settings = Inr ()" by code_simp
  then have "startable demo_boot demo_book_settings"
    by (simp add: startable_def demo_boot_def demo_book_settings_def demo_settings_def default_settings_def)
  from lifespan_enter_fields [OF this] show ?thesis unfolding demo_started_def by (metis prod.collapse)
qed

lemma demo_enabled: "order_book_runtime_enabled demo_book_settings"
  by (simp add: order_book_runtime_enabled_def liberator_configured_def demo_book_settings_def demo_settings_def)

lemma demo_started_fields:
  "nd_pool demo_started = Some frozen_db" "or_service (nd_order_book demo_started) \<noteq> None"
proof -
  have "startable demo_boot demo_book_settings" using lifespan_enter_refused [OF _ demo_starts] by force
  from lifespan_enter_fields [OF this demo_starts] demo_enabled
  show "nd_pool demo_started = Some frozen_db" "or_service (nd_order_book demo_started) \<noteq> None" by (simp_all add: demo_boot_def)
qed

theorem application_starts_witness:
  "get_pool demo_started = Inr frozen_db \<and> or_service (nd_order_book demo_started) \<noteq> None \<and>
   map_option sf_order_book (nd_sim_pricer demo_started) = Some True"
  using application_starts [OF demo_starts, of demo_pause "\<lambda>_. []" 400] demo_enabled by (simp add: demo_boot_def)

theorem application_stops_witness:
  "fst (lifespan_exit demo_boot (demo_started\<lparr>nd_order_book := new_order_book_runtime\<rparr>)) = Inr () \<and>
   (\<exists>n'. lifespan_exit demo_boot (demo_started\<lparr>nd_order_book := (nd_order_book demo_started)\<lparr>or_provider :=
        Some ((new_provider ''u'')\<lparr>pv_reader := Ended (Some (OtherError ''OverflowError''))\<rparr>)\<rparr>\<rparr>) =
        (Inl (OtherError ''OverflowError''), n') \<and> nd_pool n' = Some frozen_db)"
proof -
  let ?n = "demo_started\<lparr>nd_order_book := new_order_book_runtime\<rparr>"
  let ?m = "demo_started\<lparr>nd_order_book := (nd_order_book demo_started)\<lparr>or_provider :=
        Some ((new_provider ''u'')\<lparr>pv_reader := Ended (Some (OtherError ''OverflowError''))\<rparr>)\<rparr>\<rparr>"
  have closes: "\<forall>what. bt_close demo_boot what = None" by (simp add: demo_boot_def)
  obtain sv where "or_service (nd_order_book demo_started) = Some sv" and pool: "nd_pool demo_started = Some frozen_db"
    using demo_started_fields demo_enabled by (auto simp: demo_boot_def)
  then have "dead_reader ?n = None" "dead_reader ?m = Some (OtherError ''OverflowError'')"
    by (simp_all add: dead_reader_def new_order_book_runtime_def)
  then have "fst (lifespan_exit demo_boot ?n) = Inr ()"
      "fst (lifespan_exit demo_boot ?m) = Inl (OtherError ''OverflowError'')" "nd_pool (snd (lifespan_exit demo_boot ?m)) = nd_pool ?m"
    using application_stops [OF prod.collapse [symmetric], of demo_boot ?n]
      application_stops [OF prod.collapse [symmetric], of demo_boot ?m] closes by simp_all
  then show ?thesis using pool by (cases "lifespan_exit demo_boot ?m") simp
qed

theorem application_keeps_orders_witness:
  "\<exists>p n' r'. process_of demo_book_settings demo_pause (\<lambda>_. ''token'') 400 demo_boot demo_started = Inr p \<and>
     snd (lifespan_exit demo_boot (demo_started\<lparr>nd_world := run p [Lib_pass, Request MassCancel, Sp_beat] (nd_world demo_started)\<rparr>)) = n' \<and>
     find_order ''c'' (nd_world n') = Some r' \<and> r_status r' = FILLED"
proof -
  have "nd_pool demo_started = Some frozen_db" using demo_started_fields by (simp add: demo_boot_def)
  then obtain p where p: "process_of demo_book_settings demo_pause (\<lambda>_. ''token'') 400 demo_boot demo_started = Inr p"
    by (simp add: process_of_def get_pool_def)
  let ?n = "demo_started\<lparr>nd_world := run p [Lib_pass, Request MassCancel, Sp_beat] (nd_world demo_started)\<rparr>"
  have row: "find_order ''c'' (demo_world [demo_lib_row ''c'' FILLED] []) = Some (demo_lib_row ''c'' FILLED)"
    by (simp add: demo_defs demo_lib_row_def)
  have st: "r_status (demo_lib_row ''c'' FILLED) = FILLED" "is_terminal FILLED"
    by (simp_all add: demo_lib_row_def demo_row_def is_terminal_def TERMINAL_STATES_def)
  have "\<exists>r'. find_order ''c'' (nd_world (snd (lifespan_exit demo_boot ?n))) = Some r' \<and> r_status r' = FILLED"
    using application_keeps_orders [OF demo_starts p _ guard_frozen_frozen_db _ demo_pause_evolves prod.collapse [symmetric],
        of "[Lib_pass, Request MassCancel, Sp_beat]"] row st
    by (fastforce simp: demo_boot_def demo_platform_def demo_pause_evolves)
  with p show ?thesis by blast
qed

end
