(* ===== verification/Routes.thy ===== *)
theory Routes
  imports Api
begin

text \<open>
  The table of routes of the application (\<open>api/main.py\<close>): the paths the three routers declare, in
  their order, and the alias under which the gateway's surface is served a second time. Which
  path a template stands for is the web framework's affair, a parameter; that the first
  registered route whose template and method fit serves a request is its documented rule.
\<close>

type_synonym route_entry = "string \<times> string"

definition streams_router :: "route_entry list" where
  "streams_router =
     [(''GET'', ''/order-book/{symbol}''), (''GET'', ''/order-book/{symbol}/stream''), (''GET'', ''/orders/stream'')]"

definition audit_router :: "route_entry list" where
  "audit_router = map (\<lambda>(m, t). (m, ''/admin'' @ t))
     [(''GET'', ''/audit/export''), (''GET'', ''/orders/{client_order_id}/audit'')]"

definition core_router :: "route_entry list" where
  "core_router =
     [(''GET'', ''/health''), (''GET'', ''/capabilities''), (''POST'', ''/orders''),
      (''GET'', ''/orders/{client_order_id}''), (''GET'', ''/accounts/{account}''),
      (''GET'', ''/accounts/{account}/positions''), (''GET'', ''/accounts/{account}/open-orders''),
      (''GET'', ''/accounts/{account}/orders''), (''GET'', ''/accounts/{account}/venue-orders''),
      (''DELETE'', ''/orders/{client_order_id}''), (''PATCH'', ''/orders/{client_order_id}''),
      (''GET'', ''/admin/kill-switch''), (''POST'', ''/admin/kill-switch/engage''),
      (''POST'', ''/admin/kill-switch/disengage'')]"

definition GATEWAY_PROXY_PREFIX :: string where
  "GATEWAY_PROXY_PREFIX = ''/api/v2/engines/execution''"

definition ALIAS_EXCLUDED_PREFIX :: string where
  "ALIAS_EXCLUDED_PREFIX = ''/admin''"

definition alias_excluded :: "string \<Rightarrow> bool" where
  "alias_excluded path \<longleftrightarrow> path = ALIAS_EXCLUDED_PREFIX \<or> prefix (ALIAS_EXCLUDED_PREFIX @ ''/'') path"

definition gateway_alias_router :: "route_entry list" where
  "gateway_alias_router = concat (map (filter (\<lambda>(_, path). \<not> alias_excluded path)) [streams_router, core_router])"

definition include_router :: "string \<Rightarrow> route_entry list \<Rightarrow> route_entry list \<Rightarrow> route_entry list" where
  "include_router pre rs app = app @ map (\<lambda>(m, t). (m, pre @ t)) rs"

definition create_app :: "route_entry list" where
  "create_app =
     include_router GATEWAY_PROXY_PREFIX gateway_alias_router
       (include_router [] core_router (include_router [] audit_router (include_router [] streams_router [])))"

definition serving :: "(string \<Rightarrow> string \<Rightarrow> bool) \<Rightarrow> route_entry list \<Rightarrow> string \<Rightarrow> string \<Rightarrow> route_entry option" where
  "serving tm rs meth path = find (\<lambda>(m, t). m = meth \<and> tm t path) rs"

section \<open>Templates\<close>

text \<open>
  The framework's documented reading of a template: the path has the same segments, where a
  parameter in braces stands for one segment that is not empty.
\<close>

fun segments :: "string \<Rightarrow> string list" where
  "segments [] = [[]]"
| "segments (c # cs) =
     (if c = CHR ''/'' then [] # segments cs
      else case segments cs of [] \<Rightarrow> [[c]] | s # ss \<Rightarrow> (c # s) # ss)"

definition segment_fits :: "string \<Rightarrow> string \<Rightarrow> bool" where
  "segment_fits t s \<longleftrightarrow> (if t \<noteq> [] \<and> hd t = CHR ''{'' then s \<noteq> [] else s = t)"

definition template_fits :: "string \<Rightarrow> string \<Rightarrow> bool" where
  "template_fits t path \<longleftrightarrow> list_all2 segment_fits (segments t) (segments path)"

definition path_matching :: "(string \<Rightarrow> string \<Rightarrow> bool) \<Rightarrow> bool" where
  "path_matching tm \<longleftrightarrow> (\<forall>t path. tm t path \<longleftrightarrow> template_fits t path)"

lemma segments_ne [simp]: "segments p \<noteq> []"
  by (cases p) (auto split: list.splits)

lemma segments_append: "segments (p @ CHR ''/'' # q) = segments p @ segments q"
  by (induction p) (auto split: list.splits)

lemma segments_hd: "hd (segments p) = takeWhile (\<lambda>c. c \<noteq> CHR ''/'') p"
  by (induction p) (auto split: list.splits)

lemma join_append: "xs \<noteq> [] \<Longrightarrow> ys \<noteq> [] \<Longrightarrow> join d (xs @ ys) = join d xs @ d @ join d ys"
  by (induction d xs rule: join.induct) (auto simp: neq_Nil_conv)

lemma join_segments: "join ''/'' (segments p) = p"
proof (induction p)
  case (Cons c p)
  obtain s ss where "segments p = s # ss" using segments_ne [of p] by (cases "segments p") auto
  with Cons show ?case by (cases ss) auto
qed simp

text \<open>A path is excluded by its first segment.\<close>

lemma alias_excluded_iff: "alias_excluded (CHR ''/'' # r) \<longleftrightarrow> hd (segments r) = ''admin''"
proof -
  obtain s rest where split: "takeWhile (\<lambda>c. c \<noteq> CHR ''/'') r = s" "dropWhile (\<lambda>c. c \<noteq> CHR ''/'') r = rest" by simp
  then have r: "r = s @ rest" by (metis takeWhile_dropWhile_id)
  have rest: "rest = [] \<or> hd rest = CHR ''/''" using split(2) hd_dropWhile [of "\<lambda>c. c \<noteq> CHR ''/''" r] by auto
  have "s = ''admin'' \<Longrightarrow> alias_excluded (CHR ''/'' # r)"
    using rest r by (cases rest) (auto simp: alias_excluded_def ALIAS_EXCLUDED_PREFIX_def)
  moreover have "alias_excluded (CHR ''/'' # r) \<Longrightarrow> s = ''admin''"
    using split(1) by (auto simp: alias_excluded_def ALIAS_EXCLUDED_PREFIX_def prefix_def)
  ultimately show ?thesis using split(1) by (auto simp: segments_hd)
qed

definition native_routes :: "route_entry list" where
  "native_routes = streams_router @ audit_router @ core_router"

lemma create_app_eq: "create_app = native_routes @ map (\<lambda>(m, t). (m, GATEWAY_PROXY_PREFIX @ t)) gateway_alias_router"
  by (simp add: create_app_def include_router_def native_routes_def case_prod_beta')

lemmas table = native_routes_def streams_router_def audit_router_def core_router_def

lemma alias_eq: "gateway_alias_router = filter (\<lambda>(_, t). \<not> alias_excluded t) native_routes"
  by (simp add: gateway_alias_router_def table alias_excluded_def ALIAS_EXCLUDED_PREFIX_def)

text \<open>Every template starts with a slash and a literal segment.\<close>

definition first_literals :: "string list" where
  "first_literals = [''order-book'', ''orders'', ''admin'', ''health'', ''capabilities'', ''accounts'']"

lemma template_shape:
  assumes "(m, t) \<in> set native_routes"
  obtains u where "t = CHR ''/'' # u" and "hd (segments u) \<in> set first_literals" and "hd (hd (segments u)) \<noteq> CHR ''{''"
proof -
  have "list_all (\<lambda>(m, t). t \<noteq> [] \<and> hd t = CHR ''/'' \<and> hd (segments (tl t)) \<in> set first_literals \<and>
      hd (hd (segments (tl t))) \<noteq> CHR ''{'') native_routes"
    by code_simp
  with assms have "t \<noteq> [] \<and> hd t = CHR ''/'' \<and> hd (segments (tl t)) \<in> set first_literals \<and> hd (hd (segments (tl t))) \<noteq> CHR ''{''"
    by (auto simp: list_all_iff)
  then show thesis using that [of "tl t"] by (cases t) auto
qed

lemma fits_first:
  assumes "(m, t) \<in> set native_routes" and "template_fits t (CHR ''/'' # r)"
  shows "hd (segments r) \<in> set first_literals" and "alias_excluded (CHR ''/'' # r) \<longleftrightarrow> alias_excluded t"
proof -
  obtain u where u: "t = CHR ''/'' # u" "hd (segments u) \<in> set first_literals" "hd (hd (segments u)) \<noteq> CHR ''{''"
    using template_shape [OF assms(1)] .
  have "list_all2 segment_fits (segments u) (segments r)" using assms(2) u(1) by (simp add: template_fits_def)
  then have "segment_fits (hd (segments u)) (hd (segments r))"
    using segments_ne [of u] segments_ne [of r] by (cases "segments u"; cases "segments r") auto
  then have same: "hd (segments r) = hd (segments u)" using u(3) by (simp add: segment_fits_def split: if_splits)
  then show "hd (segments r) \<in> set first_literals" using u(2) by simp
  show "alias_excluded (CHR ''/'' # r) \<longleftrightarrow> alias_excluded t" using same u(1) by (simp add: alias_excluded_iff)
qed

text \<open>Under the prefix a template fits exactly the paths it fits without it.\<close>

lemma fits_under_prefix:
  "template_fits (GATEWAY_PROXY_PREFIX @ CHR ''/'' # t) (GATEWAY_PROXY_PREFIX @ CHR ''/'' # r) \<longleftrightarrow>
   template_fits (CHR ''/'' # t) (CHR ''/'' # r)"
proof -
  have "list_all2 segment_fits (segments GATEWAY_PROXY_PREFIX) (segments GATEWAY_PROXY_PREFIX)" by code_simp
  moreover have "segment_fits [] []" by (simp add: segment_fits_def)
  ultimately show ?thesis by (simp add: template_fits_def segments_append list_all2_append)
qed

lemma native_not_under_prefix:
  assumes "(m, t) \<in> set native_routes"
  shows "\<not> template_fits t (GATEWAY_PROXY_PREFIX @ CHR ''/'' # r)"
proof
  define q where "q = ''v2/engines/execution'' @ CHR ''/'' # r"
  have path: "GATEWAY_PROXY_PREFIX @ CHR ''/'' # r = CHR ''/'' # (''api'' @ CHR ''/'' # q)"
    by (simp add: GATEWAY_PROXY_PREFIX_def q_def)
  have first: "hd (segments (''api'' @ CHR ''/'' # q)) = ''api''" by (simp only: segments_append) simp
  assume "template_fits t (GATEWAY_PROXY_PREFIX @ CHR ''/'' # r)"
  from fits_first(1) [OF assms this [unfolded path]] have "''api'' \<in> set first_literals" unfolding first .
  moreover have "''api'' \<notin> set first_literals" by code_simp
  ultimately show False by blast
qed

lemma prefix_of_alias:
  assumes "template_fits (GATEWAY_PROXY_PREFIX @ CHR ''/'' # u) path"
  shows "prefix (GATEWAY_PROXY_PREFIX @ ''/'') path"
proof -
  from assms obtain xs ys where path: "segments path = xs @ ys"
    and fit: "list_all2 segment_fits (segments GATEWAY_PROXY_PREFIX) xs" and ys: "list_all2 segment_fits (segments u) ys"
    by (auto simp: template_fits_def segments_append list_all2_append1)
  have "list_all (\<lambda>t. t = [] \<or> hd t \<noteq> CHR ''{'') (segments GATEWAY_PROXY_PREFIX)" by code_simp
  with fit have "xs = segments GATEWAY_PROXY_PREFIX"
    by (induction rule: list_all2_induct) (auto simp: segment_fits_def)
  moreover have "ys \<noteq> []" using ys by auto
  ultimately have "path = GATEWAY_PROXY_PREFIX @ ''/'' @ join ''/'' ys"
    using join_segments [of path] path by (simp add: join_append join_segments)
  then show ?thesis by simp
qed

section \<open>The two surfaces\<close>

lemma serving_append:
  "serving tm (xs @ ys) m p = (case serving tm xs m p of Some e \<Rightarrow> Some e | None \<Rightarrow> serving tm ys m p)"
  by (induction xs) (auto simp: serving_def)

lemma serving_None: "serving tm rs m p = None \<longleftrightarrow> (\<forall>t. (m, t) \<in> set rs \<longrightarrow> \<not> tm t p)"
  by (auto simp: serving_def find_None_iff)

lemma serving_Some: "serving tm rs m p = Some e \<Longrightarrow> e \<in> set rs \<and> fst e = m \<and> tm (snd e) p"
  by (induction rs) (auto simp: serving_def split: if_splits)

lemma serving_under_prefix:
  assumes "path_matching tm" and "set rs \<subseteq> set native_routes"
  shows "serving tm (map (\<lambda>(m, t). (m, GATEWAY_PROXY_PREFIX @ t)) rs) m (GATEWAY_PROXY_PREFIX @ CHR ''/'' # r) =
    map_option (\<lambda>(m, t). (m, GATEWAY_PROXY_PREFIX @ t)) (serving tm rs m (CHR ''/'' # r))"
  using assms(2)
proof (induction rs)
  case (Cons e rs)
  obtain m' t where e: "e = (m', t)" by fastforce
  then obtain u where u: "t = CHR ''/'' # u" using Cons.prems template_shape [of m' t] by auto
  have "tm (GATEWAY_PROXY_PREFIX @ t) (GATEWAY_PROXY_PREFIX @ CHR ''/'' # r) = tm t (CHR ''/'' # r)"
    using assms(1) u fits_under_prefix [of u r] by (simp add: path_matching_def)
  with Cons show ?case by (simp add: serving_def e)
qed (simp add: serving_def)

lemma serving_filter:
  assumes "\<And>m t. (m, t) \<in> set rs \<Longrightarrow> tm t p \<Longrightarrow> keep t"
  shows "serving tm (filter (\<lambda>(_, t). keep t) rs) m p = serving tm rs m p"
  using assms by (induction rs) (auto simp: serving_def)

text \<open>
  C29. The gateway's alias. A path under the gateway's prefix is served by the very route that
  serves the rest of the path natively, except under \<open>/admin\<close>, where nothing is served; and the
  native paths are served as if there were no alias.
\<close>

theorem gateway_alias:
  assumes "path_matching tm"
  shows "serving tm create_app m (GATEWAY_PROXY_PREFIX @ CHR ''/'' # r) =
      (if alias_excluded (CHR ''/'' # r) then None
       else map_option (\<lambda>(m, t). (m, GATEWAY_PROXY_PREFIX @ t)) (serving tm native_routes m (CHR ''/'' # r))) \<and>
    (\<not> prefix (GATEWAY_PROXY_PREFIX @ ''/'') path \<longrightarrow> serving tm create_app m path = serving tm native_routes m path)"
proof (intro conjI impI)
  have fits: "tm t p \<longleftrightarrow> template_fits t p" for t p using assms by (simp add: path_matching_def)
  have sub: "set gateway_alias_router \<subseteq> set native_routes" by (auto simp: alias_eq)
  have "serving tm native_routes m (GATEWAY_PROXY_PREFIX @ CHR ''/'' # r) = None"
    using native_not_under_prefix by (simp add: serving_None fits)
  then have step: "serving tm create_app m (GATEWAY_PROXY_PREFIX @ CHR ''/'' # r) =
      map_option (\<lambda>(m, t). (m, GATEWAY_PROXY_PREFIX @ t)) (serving tm gateway_alias_router m (CHR ''/'' # r))"
    by (simp add: create_app_eq serving_append serving_under_prefix [OF assms sub])
  show "serving tm create_app m (GATEWAY_PROXY_PREFIX @ CHR ''/'' # r) =
      (if alias_excluded (CHR ''/'' # r) then None
       else map_option (\<lambda>(m, t). (m, GATEWAY_PROXY_PREFIX @ t)) (serving tm native_routes m (CHR ''/'' # r)))"
  proof (cases "alias_excluded (CHR ''/'' # r)")
    case True
    then have "serving tm gateway_alias_router m (CHR ''/'' # r) = None"
      using fits_first(2) by (auto simp: serving_None fits alias_eq)
    then show ?thesis using step True by simp
  next
    case False
    then have "serving tm gateway_alias_router m (CHR ''/'' # r) = serving tm native_routes m (CHR ''/'' # r)"
      unfolding alias_eq using fits_first(2) by (intro serving_filter) (auto simp: fits)
    then show ?thesis using step False by simp
  qed
  assume other: "\<not> prefix (GATEWAY_PROXY_PREFIX @ ''/'') path"
  show "serving tm create_app m path = serving tm native_routes m path"
  proof -
    have "serving tm (map (\<lambda>(m, t). (m, GATEWAY_PROXY_PREFIX @ t)) gateway_alias_router) m path = None"
    proof -
      have "\<not> template_fits (GATEWAY_PROXY_PREFIX @ t) path" if "(m, t) \<in> set gateway_alias_router" for t
        using template_shape [of m t] that sub prefix_of_alias other by blast
      then show ?thesis by (auto simp: serving_None fits)
    qed
    then show ?thesis by (simp add: create_app_eq serving_append split: option.splits)
  qed
qed

text \<open>Two templates that fit one path agree wherever both have a literal.\<close>

definition overlap :: "string \<Rightarrow> string \<Rightarrow> bool" where
  "overlap t u \<longleftrightarrow> list_all2 (\<lambda>a b. a = b \<or> a \<noteq> [] \<and> hd a = CHR ''{'' \<or> b \<noteq> [] \<and> hd b = CHR ''{'') (segments t) (segments u)"

lemma fits_overlap:
  assumes "template_fits t p" and "template_fits u p"
  shows "overlap t u"
proof -
  have "list_all2 (\<lambda>a b. a = b \<or> a \<noteq> [] \<and> hd a = CHR ''{'' \<or> b \<noteq> [] \<and> hd b = CHR ''{'') as bs"
    if "list_all2 segment_fits as ss" "list_all2 segment_fits bs ss" for as bs ss
    using that
  proof (induction arbitrary: bs rule: list_all2_induct)
    case (Cons a as s ss)
    then show ?case by (cases bs) (auto simp: segment_fits_def split: if_splits)
  qed simp
  then show ?thesis using assms unfolding overlap_def template_fits_def .
qed

lemma only_overlap:
  assumes "(m, t) \<in> set native_routes" and "(m, u) \<in> set native_routes" and "overlap t u" and "t \<noteq> u"
  shows "m = ''GET'' \<and> {t, u} = {''/orders/stream'', ''/orders/{client_order_id}''}"
proof -
  have "list_all (\<lambda>(m, t). list_all (\<lambda>(n, u). m = n \<and> overlap t u \<and> t \<noteq> u \<longrightarrow>
      m = ''GET'' \<and> (t = ''/orders/stream'' \<and> u = ''/orders/{client_order_id}'' \<or> u = ''/orders/stream'' \<and> t = ''/orders/{client_order_id}'')) native_routes) native_routes"
    by code_simp
  with assms show ?thesis by (fastforce simp: list_all_iff)
qed

lemma fits_orders_stream: "template_fits ''/orders/stream'' p \<longleftrightarrow> p = ''/orders/stream''"
proof
  assume "template_fits ''/orders/stream'' p"
  moreover have "segments ''/orders/stream'' = [[], ''orders'', ''stream'']" by code_simp
  ultimately have "segments p = [[], ''orders'', ''stream'']"
    by (simp add: template_fits_def segment_fits_def list_all2_Cons1)
  then show "p = ''/orders/stream''" using join_segments [of p] by simp
next
  have "template_fits ''/orders/stream'' ''/orders/stream''" by code_simp
  then show "p = ''/orders/stream'' \<Longrightarrow> template_fits ''/orders/stream'' p" by simp
qed

text \<open>
  No route hides another. A request whose path a registered template fits is served by that
  route, natively; the one overlap is \<open>/orders/stream\<close>, which the order lookup would take for an id
  and which goes to the stream. Every call the API model knows is registered.
\<close>

theorem routes_reachable:
  assumes "path_matching tm" and "(m, t) \<in> set native_routes" and "tm t path"
  shows "serving tm create_app m path =
      Some (m, if m = ''GET'' \<and> path = ''/orders/stream'' then ''/orders/stream'' else t) \<and>
    route call \<in> set native_routes"
proof
  have fits: "tm t p \<longleftrightarrow> template_fits t p" for t p using assms(1) by (simp add: path_matching_def)
  obtain u where u: "serving tm native_routes m path = Some (m, u)" and here: "(m, u) \<in> set native_routes" "template_fits u path"
  proof (cases "serving tm native_routes m path")
    case None
    then show thesis using assms(2,3) by (auto simp: serving_None)
  next
    case (Some e)
    then show thesis using that [of "snd e"] serving_Some [OF Some] by (cases e) (simp add: fits)
  qed
  have "u = (if m = ''GET'' \<and> path = ''/orders/stream'' then ''/orders/stream'' else t)"
  proof (cases "m = ''GET'' \<and> path = ''/orders/stream''")
    case True
    have "serving template_fits native_routes ''GET'' ''/orders/stream'' = Some (''GET'', ''/orders/stream'')" by code_simp
    moreover have "tm = template_fits" using fits by (simp add: fun_eq_iff)
    ultimately show ?thesis using u True by simp
  next
    case False
    have "t = u"
    proof (rule ccontr)
      assume "t \<noteq> u"
      then have "m = ''GET'' \<and> {t, u} = {''/orders/stream'', ''/orders/{client_order_id}''}"
        using only_overlap [OF assms(2) here(1)] fits_overlap [of t path u] assms(3) here(2) by (simp add: fits)
      then have "m = ''GET''" "template_fits ''/orders/stream'' path"
        using assms(3) here(2) by (auto simp: fits doubleton_eq_iff)
      then show False using False by (simp add: fits_orders_stream)
    qed
    then show ?thesis using False by auto
  qed
  then show "serving tm create_app m path = Some (m, if m = ''GET'' \<and> path = ''/orders/stream'' then ''/orders/stream'' else t)"
    using u by (simp add: create_app_eq serving_append)
  show "route call \<in> set native_routes" by (cases call) (simp_all add: table)
qed

text \<open>At the documented matching.\<close>

lemma path_matching_template_fits: "path_matching template_fits"
  by (simp add: path_matching_def)

theorem gateway_alias_witness:
  "serving template_fits create_app ''GET'' (GATEWAY_PROXY_PREFIX @ ''/orders/abc'') =
     Some (''GET'', GATEWAY_PROXY_PREFIX @ ''/orders/{client_order_id}'') \<and>
   serving template_fits create_app ''POST'' (GATEWAY_PROXY_PREFIX @ ''/admin/kill-switch/engage'') = None"
proof -
  have "serving template_fits native_routes ''GET'' ''/orders/abc'' = Some (''GET'', ''/orders/{client_order_id}'')"
    "\<not> alias_excluded ''/orders/abc''" "alias_excluded ''/admin/kill-switch/engage''" by code_simp+
  then show ?thesis
    using gateway_alias [OF path_matching_template_fits, of "''GET''" "''orders/abc''"]
      gateway_alias [OF path_matching_template_fits, of "''POST''" "''admin/kill-switch/engage''"] by simp
qed

theorem routes_reachable_witness:
  "serving template_fits create_app ''GET'' ''/orders/stream'' = Some (''GET'', ''/orders/stream'') \<and>
   serving template_fits create_app ''GET'' ''/orders/abc'' = Some (''GET'', ''/orders/{client_order_id}'')"
proof -
  have here: "(''GET'', ''/orders/{client_order_id}'') \<in> set native_routes" by (simp add: table)
  have "template_fits ''/orders/{client_order_id}'' ''/orders/stream''" "template_fits ''/orders/{client_order_id}'' ''/orders/abc''"
    by code_simp+
  with routes_reachable [OF path_matching_template_fits here, of _ KillSwitchState] show ?thesis by simp
qed

end
