(* ===== verification/StreamText.thy ===== *)
theory StreamText
  imports BookStream History
begin

text \<open>
  The text the streams send (\<open>api/streams.py\<close>, \<open>api/audit.py\<close>): the wire shape of a book and of an
  order update, \<open>json.dumps\<close> with its escapes, the frames of the two event streams and the lines
  of the audit export. The text of a timestamp is a parameter. A character is a code point.
\<close>

section \<open>JSON text\<close>

definition json_char :: "char \<Rightarrow> string" where
  "json_char c =
     (let n = (of_char c :: nat)
      in if n = 34 \<or> n = 92 then [CHR 92, c]
         else if n = 8 then [CHR 92, CHR ''b'']
         else if n = 9 then [CHR 92, CHR ''t'']
         else if n = 10 then [CHR 92, CHR ''n'']
         else if n = 12 then [CHR 92, CHR ''f'']
         else if n = 13 then [CHR 92, CHR ''r'']
         else if n < 32 \<or> 126 < n then [CHR 92, CHR ''u'', CHR ''0'', CHR ''0'', hex_char (n div 16), hex_char (n mod 16)]
         else [c])"

definition json_str :: "string \<Rightarrow> string" where
  "json_str s = CHR 34 # concat (map json_char s) @ [CHR 34]"

fun json_dumps :: "json \<Rightarrow> string" where
  "json_dumps JNull = ''null''"
| "json_dumps (JBool b) = (if b then ''true'' else ''false'')"
| "json_dumps (JInt i) = int_str i"
| "json_dumps (JFloat r) = r"
| "json_dumps (JStr s) = json_str s"
| "json_dumps (JList xs) = ''['' @ join '', '' (map json_dumps xs) @ '']''"
| "json_dumps (JObj kvs) = ''{'' @ join '', '' (map (\<lambda>(k, v). json_str k @ '': '' @ json_dumps v) kvs) @ ''}''"

section \<open>Wire shapes\<close>

fun order_state_value :: "OrderState \<Rightarrow> string" where
  "order_state_value PENDING_NEW = ''PENDING_NEW''"
| "order_state_value NEW = ''NEW''"
| "order_state_value PARTIALLY_FILLED = ''PARTIALLY_FILLED''"
| "order_state_value FILLED = ''FILLED''"
| "order_state_value PENDING_CANCEL = ''PENDING_CANCEL''"
| "order_state_value PENDING_REPLACE = ''PENDING_REPLACE''"
| "order_state_value CANCELLED = ''CANCELLED''"
| "order_state_value REJECTED = ''REJECTED''"
| "order_state_value EXPIRED = ''EXPIRED''"

fun public_status_value :: "PublicOrderStatus \<Rightarrow> string" where
  "public_status_value Public_NEW = ''NEW''"
| "public_status_value Public_PARTIALLY_FILLED = ''PARTIALLY_FILLED''"
| "public_status_value Public_FILLED = ''FILLED''"
| "public_status_value Public_CANCELLED = ''CANCELLED''"
| "public_status_value Public_REJECTED = ''REJECTED''"
| "public_status_value Public_EXPIRED = ''EXPIRED''"

definition or_null :: "('a \<Rightarrow> json) \<Rightarrow> 'a option \<Rightarrow> json" where
  "or_null f x = (case x of None \<Rightarrow> JNull | Some v \<Rightarrow> f v)"

definition wire_decimal :: "decimal \<Rightarrow> json" where
  "wire_decimal d = JStr (format_f d)"

definition fill_wire_dump :: "(timestamp \<Rightarrow> string) \<Rightarrow> FillEvent \<Rightarrow> json" where
  "fill_wire_dump isof f =
     JObj [(''broker_fill_id'', JStr (fe_broker_fill_id f)), (''price'', wire_decimal (fe_price f)),
           (''quantity'', JInt (fe_quantity f)), (''exec_ts'', JStr (isof (fe_exec_ts f)))]"

definition event_wire_dump :: "(timestamp \<Rightarrow> string) \<Rightarrow> OrderUpdateEvent \<Rightarrow> json" where
  "event_wire_dump isof e =
     JObj [(''seq'', JInt (int (seq e))), (''client_order_id'', JStr (ev_client_order_id e)),
           (''strategy_id'', or_null JStr (ev_strategy_id e)),
           (''engine_state'', JStr (order_state_value (engine_state e))),
           (''status'', JStr (public_status_value (ev_status e))),
           (''broker_order_id'', or_null JStr (ev_broker_order_id e)), (''price'', or_null wire_decimal (ev_price e)),
           (''quantity'', or_null JInt (ev_quantity e)), (''fill'', or_null (fill_wire_dump isof) (ev_fill e)),
           (''ts'', JStr (isof (ts e)))]"

definition level_wire_dump :: "OrderBookLevel \<Rightarrow> json" where
  "level_wire_dump l = JObj [(''price'', wire_decimal (lv_price l)), (''volume'', JInt (lv_volume l))]"

fun book_source_value :: "OrderBookSource \<Rightarrow> string" where
  "book_source_value Source_LIBERATOR = ''liberator''"

definition book_wire_dump :: "(timestamp \<Rightarrow> string) \<Rightarrow> OrderBook \<Rightarrow> json" where
  "book_wire_dump isof b =
     JObj [(''symbol'', JStr (ob_symbol b)), (''market'', JStr (market_value (ob_market b))),
           (''bid_levels'', JList (map level_wire_dump (bid_levels b))),
           (''ask_levels'', JList (map level_wire_dump (ask_levels b))),
           (''bid_flag'', JStr (bid_flag b)), (''ask_flag'', JStr (ask_flag b)),
           (''sequence'', JInt (ob_sequence b)), (''source'', JStr (book_source_value (ob_source b))),
           (''received_at'', JStr (isof (received_at b)))]"

section \<open>Frames and lines\<close>

definition newline :: string where
  "newline = [CHR 10]"

definition sse_frame :: "(timestamp \<Rightarrow> string) \<Rightarrow> OrderBook \<Rightarrow> string" where
  "sse_frame isof b = ''data: '' @ json_dumps (book_wire_dump isof b) @ newline @ newline"

definition event_frame :: "(timestamp \<Rightarrow> string) \<Rightarrow> OrderUpdateEvent \<Rightarrow> string" where
  "event_frame isof e =
     ''id: '' @ nat_str (seq e) @ newline @
     ''event: '' @ order_state_value (engine_state e) @ newline @
     ''data: '' @ json_dumps (event_wire_dump isof e) @ newline @ newline"

definition in_quotes :: "string \<Rightarrow> string" where
  "in_quotes s = [CHR 34] @ s @ [CHR 34]"

definition keep_alive_text :: string where
  "keep_alive_text = '': keep-alive'' @ newline @ newline"

fun stream_frame_text :: "(timestamp \<Rightarrow> string) \<Rightarrow> stream_frame \<Rightarrow> string" where
  "stream_frame_text isof (Event_frame e) = event_frame isof e"
| "stream_frame_text isof (Resync_frame n) =
     ''event: resync_required'' @ newline @ ''data: {'' @ in_quotes ''after_seq'' @ '': '' @ int_str n @ ''}'' @ newline @ newline"
| "stream_frame_text isof (Gap_frame n) =
     ''event: gap'' @ newline @ ''data: {'' @ in_quotes ''dropped'' @ '': '' @ nat_str n @ ''}'' @ newline @ newline"
| "stream_frame_text isof Keep_alive = keep_alive_text"

fun book_frame_text :: "(timestamp \<Rightarrow> string) \<Rightarrow> book_frame \<Rightarrow> string" where
  "book_frame_text isof (Book_frame b) = sse_frame isof b"
| "book_frame_text isof Book_keep_alive = keep_alive_text"

text \<open>One record of the export, as \<open>stream_order_events\<close> yields it, and its line.\<close>

definition export_record :: "history_env \<Rightarrow> OrderEventRow \<times> string option \<Rightarrow> json" where
  "export_record co = (\<lambda>(e, sid).
     JObj [(''event_id'', JInt (int (oe_event_id e))), (''client_order_id'', JStr (oe_client_order_id e)),
           (''from_status'', or_null (\<lambda>s. JStr (order_state_value s)) (oe_from_status e)),
           (''to_status'', JStr (order_state_value (oe_to_status e))), (''event'', or_null JObj (oe_event e)),
           (''strategy_id'', or_null JStr sid), (''created_at'', JStr (iso_text co (oe_created_at e)))])"

definition export_line :: "history_env \<Rightarrow> OrderEventRow \<times> string option \<Rightarrow> string" where
  "export_line co r = json_dumps (export_record co r) @ newline"

text \<open>The route: the name the file is offered under and its text. The date of a bound is a parameter.\<close>

definition audit_export ::
  "history_env \<Rightarrow> (timestamp \<Rightarrow> string) \<Rightarrow> order_events \<Rightarrow> timestamp option \<Rightarrow> timestamp option \<Rightarrow> string option \<Rightarrow>
   ('r, 'v, string \<times> string) eng" where
  "audit_export co datef evs from_ts to_ts sid =
     bindE (stream_order_events evs from_ts to_ts sid) (\<lambda>rows.
     let lo = (case from_ts of Some t \<Rightarrow> datef t | None \<Rightarrow> ''all'');
         hi = (case to_ts of Some t \<Rightarrow> datef t | None \<Rightarrow> ''all'')
     in returnE (''audit_'' @ lo @ ''_'' @ hi @ ''.ndjson'', concat (map (export_line co) rows)))"

section \<open>A reader of event streams\<close>

text \<open>The lines of a text, without a last one that is not terminated.\<close>

fun lines_of :: "string \<Rightarrow> string \<Rightarrow> string list" where
  "lines_of acc [] = []"
| "lines_of acc (c # cs) = (if c = CHR 10 then rev acc # lines_of [] cs else lines_of (c # acc) cs)"

record sse_message =
  sm_id :: string
  sm_event :: string
  sm_data :: string

text \<open>
  The standard's reader: a field name up to the first colon and a value without one leading
  blank; a blank line dispatches what was collected if there is data; a line that starts with a
  colon is a comment; the last id stays in force for later messages.
\<close>

definition sse_field :: "string \<Rightarrow> string \<times> string" where
  "sse_field line =
     (let f = takeWhile (\<lambda>c. c \<noteq> CHR '':'') line; v = drop (length f + 1) line
      in (f, if v \<noteq> [] \<and> hd v = CHR '' '' then tl v else v))"

fun sse_read :: "string \<Rightarrow> string \<Rightarrow> string list \<Rightarrow> string list \<Rightarrow> sse_message list \<times> string" where
  "sse_read last_id event data [] = ([], last_id)"
| "sse_read last_id event data (line # lines) =
     (if line = [] then
        (if data = [] then sse_read last_id [] [] lines
         else case sse_read last_id [] [] lines of
                (ms, i) \<Rightarrow> (\<lparr>sm_id = last_id, sm_event = (if event = [] then ''message'' else event),
                            sm_data = join newline data\<rparr> # ms, i))
      else if hd line = CHR '':'' then sse_read last_id event data lines
      else case sse_field line of
             (f, v) \<Rightarrow>
               if f = ''event'' then sse_read last_id v data lines
               else if f = ''data'' then sse_read last_id event (data @ [v]) lines
               else if f = ''id'' then sse_read v event data lines
               else sse_read last_id event data lines)"

definition sse_parse :: "string \<Rightarrow> sse_message list \<times> string" where
  "sse_parse text = sse_read [] [] [] (lines_of [] text)"

section \<open>What is printed has no line break\<close>

definition printable :: "string \<Rightarrow> bool" where
  "printable s \<longleftrightarrow> (\<forall>c \<in> set s. 32 \<le> (of_char c :: nat) \<and> (of_char c :: nat) \<le> 126)"

lemma printable_simps [simp]:
  "printable []" "printable (c # s) \<longleftrightarrow> 32 \<le> (of_char c :: nat) \<and> (of_char c :: nat) \<le> 126 \<and> printable s"
  "printable (s @ t) \<longleftrightarrow> printable s \<and> printable t"
  by (auto simp: printable_def)

lemma printable_concat: "printable (concat ss) \<longleftrightarrow> (\<forall>s \<in> set ss. printable s)"
  by (auto simp: printable_def)

lemma printable_join: "printable d \<Longrightarrow> (\<forall>s \<in> set ss. printable s) \<Longrightarrow> printable (join d ss)"
  by (induction d ss rule: join.induct) auto

lemma printable_digits: "printable ''0123456789''" "set s \<subseteq> set ''0123456789'' \<Longrightarrow> printable s"
proof -
  show "printable ''0123456789''" by simp
  then show "set s \<subseteq> set ''0123456789'' \<Longrightarrow> printable s" by (auto simp: printable_def)
qed

lemma printable_nat_str [simp]: "printable (nat_str n)"
  by (rule printable_digits(2) [OF nat_str_digits])

lemma printable_int_str [simp]: "printable (int_str i)"
  by (simp add: int_str_def)

lemma printable_hex: "n < 16 \<Longrightarrow> 32 \<le> (of_char (hex_char n) :: nat) \<and> (of_char (hex_char n) :: nat) \<le> 126"
proof -
  assume "n < 16"
  then have "hex_char n \<in> set ''0123456789abcdef''" unfolding hex_char_def by (intro nth_mem) simp
  moreover have "printable ''0123456789abcdef''" by simp
  ultimately show ?thesis unfolding printable_def by blast
qed

lemma printable_json_char: "printable (json_char c)"
proof -
  have small: "(of_char c :: nat) < 256" by (rule nat_of_char_less_256)
  then have "printable [hex_char (of_char c div 16), hex_char (of_char c mod 16)]"
    using printable_hex [of "of_char c div 16"] printable_hex [of "of_char c mod 16"] by (simp add: less_mult_imp_div_less)
  then show ?thesis by (auto simp: json_char_def Let_def)
qed

lemma printable_json_str [simp]: "printable (json_str s)"
  by (simp add: json_str_def printable_concat printable_json_char)

fun floats_printable :: "json \<Rightarrow> bool" where
  "floats_printable (JFloat r) = printable r"
| "floats_printable (JList xs) = list_all floats_printable xs"
| "floats_printable (JObj kvs) = list_all (\<lambda>(_, v). floats_printable v) kvs"
| "floats_printable _ = True"

lemma printable_json_dumps: "floats_printable v \<Longrightarrow> printable (json_dumps v)"
proof (induction v rule: json_dumps.induct)
  case (6 xs)
  then show ?case by (auto simp: list_all_iff intro!: printable_join)
next
  case (7 kvs)
  then show ?case by (auto simp: list_all_iff intro!: printable_join) (force)+
qed auto

lemma wire_floats:
  "floats_printable (event_wire_dump isof e)" "floats_printable (book_wire_dump isof b)"
  by (auto simp: event_wire_dump_def book_wire_dump_def or_null_def wire_decimal_def fill_wire_dump_def level_wire_dump_def
      list_all_iff split: option.splits)

lemma printable_order_state [simp]: "printable (order_state_value s)"
  by (cases s) simp_all

section \<open>Reading back what was sent\<close>

lemma lines_of_acc: "CHR 10 \<notin> set l \<Longrightarrow> lines_of acc (l @ CHR 10 # rest) = (rev acc @ l) # lines_of [] rest"
  by (induction l arbitrary: acc) auto

lemma printable_no_break: "printable l \<Longrightarrow> CHR 10 \<notin> set l \<and> CHR 13 \<notin> set l"
proof -
  have "\<not> printable [CHR 10]" "\<not> printable [CHR 13]" by simp_all
  then show "printable l \<Longrightarrow> CHR 10 \<notin> set l \<and> CHR 13 \<notin> set l" by (auto simp: printable_def)
qed

lemma lines_of_line: "printable l \<Longrightarrow> lines_of [] (l @ newline @ rest) = l # lines_of [] rest"
  using lines_of_acc [of l "[]" rest] printable_no_break [of l] by (simp add: newline_def)

lemma sse_field_of: "CHR '':'' \<notin> set f \<Longrightarrow> sse_field (f @ '': '' @ v) = (f, v)"
proof -
  assume "CHR '':'' \<notin> set f"
  then have "takeWhile (\<lambda>c. c \<noteq> CHR '':'') (f @ CHR '':'' # CHR '' '' # v) = f" by (induction f) auto
  then show ?thesis by (simp add: sse_field_def Let_def)
qed

text \<open>The three field lines, a comment and the end of a message.\<close>

lemma sse_read_lines:
  "sse_read i ev data ((''event: '' @ v) # lines) = sse_read i v data lines"
  "sse_read i ev data ((''data: '' @ v) # lines) = sse_read i ev (data @ [v]) lines"
  "sse_read i ev data ((''id: '' @ v) # lines) = sse_read v ev data lines"
  "sse_read i ev data ('': keep-alive'' # lines) = sse_read i ev data lines"
  using sse_field_of [of "''event''" v] sse_field_of [of "''data''" v] sse_field_of [of "''id''" v] by simp_all

lemma sse_read_end:
  "sse_read i ev [v] ([] # lines) = (case sse_read i [] [] lines of
     (ms, j) \<Rightarrow> (\<lparr>sm_id = i, sm_event = (if ev = [] then ''message'' else ev), sm_data = v\<rparr> # ms, j))"
  "sse_read i ev [] ([] # lines) = sse_read i [] [] lines"
  by simp_all

declare sse_read.simps(2) [simp del]

text \<open>What a client is told by the frames, from the last id it knows.\<close>

definition resync_data :: "int \<Rightarrow> string" where
  "resync_data n = ''{'' @ in_quotes ''after_seq'' @ '': '' @ int_str n @ ''}''"

definition gap_data :: "nat \<Rightarrow> string" where
  "gap_data n = ''{'' @ in_quotes ''dropped'' @ '': '' @ nat_str n @ ''}''"

fun told :: "(timestamp \<Rightarrow> string) \<Rightarrow> string \<Rightarrow> stream_frame list \<Rightarrow> sse_message list" where
  "told isof i [] = []"
| "told isof i (Event_frame e # fs) =
     \<lparr>sm_id = nat_str (seq e), sm_event = order_state_value (engine_state e), sm_data = json_dumps (event_wire_dump isof e)\<rparr>
       # told isof (nat_str (seq e)) fs"
| "told isof i (Resync_frame n # fs) = \<lparr>sm_id = i, sm_event = ''resync_required'', sm_data = resync_data n\<rparr> # told isof i fs"
| "told isof i (Gap_frame n # fs) = \<lparr>sm_id = i, sm_event = ''gap'', sm_data = gap_data n\<rparr> # told isof i fs"
| "told isof i (Keep_alive # fs) = told isof i fs"

definition last_seen :: "string \<Rightarrow> OrderUpdateEvent list \<Rightarrow> string" where
  "last_seen i es = (if es = [] then i else nat_str (seq (last es)))"

lemma printable_data: "printable (resync_data n)" "printable (gap_data m)"
  by (simp_all add: resync_data_def gap_data_def in_quotes_def)

text \<open>Each frame as the lines it is made of.\<close>

lemma frame_lines:
  "lines_of [] (stream_frame_text isof (Event_frame e) @ rest) =
     (''id: '' @ nat_str (seq e)) # (''event: '' @ order_state_value (engine_state e)) #
     (''data: '' @ json_dumps (event_wire_dump isof e)) # [] # lines_of [] rest"
  "lines_of [] (stream_frame_text isof (Resync_frame n) @ rest) =
     (''event: '' @ ''resync_required'') # (''data: '' @ resync_data n) # [] # lines_of [] rest"
  "lines_of [] (stream_frame_text isof (Gap_frame m) @ rest) =
     (''event: '' @ ''gap'') # (''data: '' @ gap_data m) # [] # lines_of [] rest"
  "lines_of [] (keep_alive_text @ rest) = '': keep-alive'' # [] # lines_of [] rest"
  "lines_of [] (sse_frame isof b @ rest) = (''data: '' @ json_dumps (book_wire_dump isof b)) # [] # lines_of [] rest"
proof -
  have line: "lines_of [] (newline @ r) = [] # lines_of [] r" for r using lines_of_line [of "[]" r] by simp
  have j: "printable (json_dumps (event_wire_dump isof e))" "printable (json_dumps (book_wire_dump isof b))"
    by (simp_all add: printable_json_dumps wire_floats)
  show "lines_of [] (stream_frame_text isof (Event_frame e) @ rest) =
     (''id: '' @ nat_str (seq e)) # (''event: '' @ order_state_value (engine_state e)) #
     (''data: '' @ json_dumps (event_wire_dump isof e)) # [] # lines_of [] rest"
    using lines_of_line [of "''id: '' @ nat_str (seq e)"] lines_of_line [of "''event: '' @ order_state_value (engine_state e)"]
      lines_of_line [of "''data: '' @ json_dumps (event_wire_dump isof e)"] j(1)
    by (simp add: event_frame_def line)
  show "lines_of [] (stream_frame_text isof (Resync_frame n) @ rest) =
     (''event: '' @ ''resync_required'') # (''data: '' @ resync_data n) # [] # lines_of [] rest"
    using lines_of_line [of "''event: '' @ ''resync_required''"] lines_of_line [of "''data: '' @ resync_data n"] printable_data(1)
    by (simp add: resync_data_def line)
  show "lines_of [] (stream_frame_text isof (Gap_frame m) @ rest) =
     (''event: '' @ ''gap'') # (''data: '' @ gap_data m) # [] # lines_of [] rest"
    using lines_of_line [of "''event: '' @ ''gap''"] lines_of_line [of "''data: '' @ gap_data m"] printable_data(2)
    by (simp add: gap_data_def line)
  show "lines_of [] (keep_alive_text @ rest) = '': keep-alive'' # [] # lines_of [] rest"
    using lines_of_line [of "'': keep-alive''"] by (simp add: keep_alive_text_def line)
  show "lines_of [] (sse_frame isof b @ rest) = (''data: '' @ json_dumps (book_wire_dump isof b)) # [] # lines_of [] rest"
    using lines_of_line [of "''data: '' @ json_dumps (book_wire_dump isof b)"] j(2) by (simp add: sse_frame_def line)
qed

lemma order_state_value_ne [simp]: "order_state_value s \<noteq> []"
  by (cases s) simp_all

lemma stream_read:
  "sse_read i [] [] (lines_of [] (concat (map (stream_frame_text isof) fs))) = (told isof i fs, last_seen i (delivered_events fs))"
proof (induction isof i fs rule: told.induct)
  case (2 isof i e fs)
  then show ?case
    by (simp only: list.map concat.simps frame_lines sse_read_lines append_Nil sse_read_end) (simp add: last_seen_def)
next
  case (3 isof i n fs)
  then show ?case
    by (simp only: list.map concat.simps frame_lines sse_read_lines append_Nil sse_read_end) simp
next
  case (4 isof i n fs)
  then show ?case
    by (simp only: list.map concat.simps frame_lines sse_read_lines append_Nil sse_read_end) simp
next
  case (5 isof i fs)
  then show ?case
    by (simp only: list.map concat.simps stream_frame_text.simps frame_lines sse_read_lines sse_read_end) simp
qed (simp add: last_seen_def)

text \<open>The id a client sends back is the number it was given.\<close>

lemma int10_run_digits:
  "list_all is_digit ds \<Longrightarrow> int10_run acc True ds = Some (foldl (\<lambda>n c. 10 * n + digit_val c) acc ds)"
proof (induction ds arbitrary: acc)
  case (Cons c ds)
  then have "is_digit c" and "c \<noteq> CHR ''_''" by (auto simp: is_digit_def)
  with Cons show ?case by (simp add: digit_val_def)
qed simp

lemma digit_nat_str: "list_all is_digit (nat_str n)"
proof -
  have "\<forall>c \<in> set ''0123456789''. is_digit c" by (simp add: is_digit_def)
  then show ?thesis using nat_str_digits [of n] unfolding list_all_iff by blast
qed

lemma int10_nat_str: "OrderStream.int10 (nat_str n) = Some (int n)"
proof -
  obtain c cs where s: "nat_str n = c # cs" by (cases "nat_str n") auto
  note dig = digit_nat_str [of n]
  have blank: "\<not> is_space d" if "is_digit d" for d
    using that by (auto simp: is_digit_def is_space_def Let_def)
  have "dropWhile is_space xs = xs" if "list_all is_digit xs" for xs using that blank by (cases xs) auto
  then have "strip (nat_str n) = nat_str n" using dig by (simp add: strip_def strip_by_def list_all_iff)
  moreover have "c \<noteq> CHR ''-''" "c \<noteq> CHR ''+''" "c \<noteq> CHR ''_''" "is_digit c" "list_all is_digit cs"
    using dig s by (auto simp: is_digit_def)
  moreover have "int10_run 0 False (nat_str n) = Some (digits_val (nat_str n))"
    using calculation(2-) by (simp add: s int10_run_digits digits_val_def digit_val_def)
  ultimately show ?thesis by (simp add: OrderStream.int10_def s digits_val_nat_str [of n, unfolded s])
qed

text \<open>
  C26. The order-update stream on the wire. Whatever texts the events carry, a reader of event
  streams that is given the frames sent, one after the other, tells its client exactly the
  events, resyncs and gaps among them, in order, each with its number as id, its state as type
  and its JSON as data; the keep-alives tell it nothing. The id it then sends back in
  \<open>Last-Event-ID\<close> is read as the number of the last event it was told.
\<close>

theorem stream_text_round_trip:
  "sse_parse (concat (map (stream_frame_text isof) fs)) = (told isof [] fs, last_seen [] (delivered_events fs)) \<and>
   (delivered_events fs \<noteq> [] \<longrightarrow>
      parse_stream_cursor (Some (snd (sse_parse (concat (map (stream_frame_text isof) fs))))) n =
        Inr (int (seq (last (delivered_events fs)))))"
  using stream_read [of "[]" isof fs] by (simp add: sse_parse_def last_seen_def parse_stream_cursor_def int10_nat_str)

definition demo_event :: OrderUpdateEvent where
  "demo_event = \<lparr>seq = 12, ev_client_order_id = ''a'' @ newline @ ''b'', ev_strategy_id = None, engine_state = NEW, ev_status = Public_NEW,
     ev_broker_order_id = None, ev_price = None, ev_quantity = None, ev_fill = None, ts = 0\<rparr>"

theorem stream_text_round_trip_witness:
  "parse_stream_cursor (Some (snd (sse_parse (concat (map (stream_frame_text (\<lambda>_. ''now'')) [Event_frame demo_event, Keep_alive]))))) None =
     Inr 12 \<and>
   map sm_event (fst (sse_parse (concat (map (stream_frame_text (\<lambda>_. ''now'')) [Event_frame demo_event, Keep_alive])))) = [''NEW'']"
proof
  note both = stream_text_round_trip [of "\<lambda>_. ''now''" "[Event_frame demo_event, Keep_alive]" None]
  from conjunct2 [OF both]
  show "parse_stream_cursor (Some (snd (sse_parse (concat (map (stream_frame_text (\<lambda>_. ''now'')) [Event_frame demo_event, Keep_alive]))))) None =
     Inr 12" by (simp add: demo_event_def)
  from conjunct1 [OF both]
  show "map sm_event (fst (sse_parse (concat (map (stream_frame_text (\<lambda>_. ''now'')) [Event_frame demo_event, Keep_alive])))) = [''NEW'']"
    by (simp add: demo_event_def)
qed

text \<open>The book stream on the wire: one message per book, untyped and without an id.\<close>

lemma book_stream_read:
  "sse_read i [] [] (lines_of [] (concat (map (book_frame_text isof) fs))) =
     (map (\<lambda>b. \<lparr>sm_id = i, sm_event = ''message'', sm_data = json_dumps (book_wire_dump isof b)\<rparr>) (books_of fs), i)"
proof (induction fs rule: books_of.induct)
  case (2 b fs)
  then show ?case
    by (simp only: list.map concat.simps book_frame_text.simps frame_lines sse_read_lines append_Nil sse_read_end books_of.simps) simp
next
  case (3 fs)
  then show ?case
    by (simp only: list.map concat.simps book_frame_text.simps frame_lines sse_read_lines sse_read_end books_of.simps)
qed simp

lemma export_lines:
  assumes "\<forall>(e, sid) \<in> set rows. case oe_event e of Some kvs \<Rightarrow> floats_printable (JObj kvs) | None \<Rightarrow> True"
  shows "lines_of [] (concat (map (export_line co) rows)) = map (\<lambda>r. json_dumps (export_record co r)) rows"
  using assms
proof (induction rows)
  case (Cons r rows)
  obtain e sid where r: "r = (e, sid)" by fastforce
  have "floats_printable (export_record co r)"
    using Cons.prems by (auto simp: r export_record_def or_null_def split: option.splits)
  then have "lines_of [] (export_line co r @ rest) = json_dumps (export_record co r) # lines_of [] rest" for rest
    using lines_of_line [OF printable_json_dumps] by (simp add: export_line_def)
  then show ?case using Cons by simp
qed simp

text \<open>
  The audit export, where the stored floats have printable texts: it writes nothing, and a reader
  of lines gets, in the order of their ids, the records of exactly the events of stored orders
  that lie within the bounds and belong to the strategy.
\<close>

theorem audit_export_complete:
  assumes "\<forall>e \<in> set evs. case oe_event e of Some kvs \<Rightarrow> floats_printable (JObj kvs) | None \<Rightarrow> True"
  shows "\<exists>rows. audit_export co datef evs from_ts to_ts sid w =
      (Inr (''audit_'' @ (case from_ts of Some t \<Rightarrow> datef t | None \<Rightarrow> ''all'') @ ''_'' @
              (case to_ts of Some t \<Rightarrow> datef t | None \<Rightarrow> ''all'') @ ''.ndjson'', concat (map (export_line co) rows)), w) \<and>
    lines_of [] (concat (map (export_line co) rows)) = map (\<lambda>r. json_dumps (export_record co r)) rows \<and>
    sorted (map (\<lambda>r. oe_event_id (fst r)) rows) \<and>
    set rows = {(e, r_strategy_id r) | e r. e \<in> set evs \<and> find_order (oe_client_order_id e) w = Some r \<and>
      export_query from_ts to_ts sid (e, r_strategy_id r)}"
proof -
  define joined where "joined = (\<lambda>e :: OrderEventRow. case find_order (oe_client_order_id e) w of
      None \<Rightarrow> [] | Some r \<Rightarrow> [(e, r_strategy_id r)])"
  define rows where "rows = filter (export_query from_ts to_ts sid) (concat (map joined (sort_key oe_event_id evs)))"
  have run: "audit_export co datef evs from_ts to_ts sid w =
      (Inr (''audit_'' @ (case from_ts of Some t \<Rightarrow> datef t | None \<Rightarrow> ''all'') @ ''_'' @
              (case to_ts of Some t \<Rightarrow> datef t | None \<Rightarrow> ''all'') @ ''.ndjson'', concat (map (export_line co) rows)), w)"
    by (simp add: audit_export_def stream_order_events_def rows_def joined_def bindE_Inr Let_def)
  have members: "set rows = {(e, r_strategy_id r) | e r. e \<in> set evs \<and> find_order (oe_client_order_id e) w = Some r \<and>
      export_query from_ts to_ts sid (e, r_strategy_id r)}"
  proof -
    have "set (joined e) = {(e, r_strategy_id r) | r. find_order (oe_client_order_id e) w = Some r}" for e
      by (cases "find_order (oe_client_order_id e) w") (auto simp: joined_def)
    then show ?thesis by (auto simp: rows_def)
  qed
  have "sorted (map oe_event_id es) \<Longrightarrow> sorted (map (\<lambda>r. oe_event_id (fst r)) (filter P (concat (map joined es))))" for es P
  proof (induction es)
    case (Cons e es)
    then have "\<forall>r \<in> set (filter P (concat (map joined es))). oe_event_id e \<le> oe_event_id (fst r)"
      by (auto simp: joined_def split: option.splits)
    then show ?case using Cons by (auto simp: joined_def split: option.splits)
  qed simp
  then have order: "sorted (map (\<lambda>r. oe_event_id (fst r)) rows)" unfolding rows_def by simp
  have "\<forall>(e, sid) \<in> set rows. case oe_event e of Some kvs \<Rightarrow> floats_printable (JObj kvs) | None \<Rightarrow> True"
    using assms members by fastforce
  from export_lines [OF this] run members order show ?thesis by blast
qed

end
