(* ===== verification/ReconcilePass.thy ===== *)
theory ReconcilePass
  imports StreamingProReconciler
begin

text \<open>
  A whole pass of a reconciler: the rows are independent, so one bad row, one unreadable account
  or a foreign venue row does not keep any order from being brought to where the venue says it
  is. Stated for the planner's contract and interpreted for Streaming Pro, whose own copies of
  the shared steps are translated here and shown to be the same.
\<close>

section \<open>Streaming Pro's copies\<close>

fun sp_execute :: "db_env \<Rightarrow> ReconcileAction \<Rightarrow> ('r, 'v, unit) eng" where
  "sp_execute db (Ack cid order_no) = ack_order db cid order_no"
| "sp_execute db (Fill cid qty p fid tot) =
     bindE (getsE clock) (\<lambda>now. bindE (apply_fill db cid fid p qty now tot) (\<lambda>_. returnE ()))"
| "sp_execute db (Cancel_two_step cid) =
     bindE (update_status db cid PENDING_CANCEL) (\<lambda>_. update_status db cid CANCELLED)"
| "sp_execute db (Cancel_confirm cid) = update_status db cid CANCELLED"
| "sp_execute db (Expire cid) = update_status db cid EXPIRED"
| "sp_execute db (Reject cid reason) =
     bindE (update_status db cid REJECTED) (\<lambda>_.
     set_reject_reason db cid (if reason = [] then ''rejected at venue'' else reason))"
| "sp_execute db (Post_ack_reject cid reason) =
     bindE (set_reject_reason db cid (if reason = [] then ''rejected at venue'' else reason)) (\<lambda>_.
     bindE (update_status db cid PENDING_CANCEL) (\<lambda>_. update_status db cid CANCELLED))"

definition sp_venue_terminal_actions :: "OrderRow \<Rightarrow> VenueOrderRow \<Rightarrow> ReconcileAction list" where
  "sp_venue_terminal_actions row item =
     (let state = sp_classify_venue_state item; cid = r_client_order_id row
      in if state = V_CANCELLED then [Cancel_two_step cid]
         else if state = V_EXPIRED then [Expire cid]
         else if state = V_REJECTED
         then (if r_status row = PENDING_NEW then [Reject cid (sp_reject_text item)]
               else [Post_ack_reject cid (sp_reject_text item)])
         else [])"

lemma sp_copies:
  "sp_execute db a = execute db a"
  "sp_venue_terminal_actions row item = terminal_actions row (sp_classify_venue_state item) (sp_reject_text item)"
proof -
  show "sp_execute db a = execute db a" by (cases a) (simp_all add: or_default_def)
  show "sp_venue_terminal_actions row item = terminal_actions row (sp_classify_venue_state item) (sp_reject_text item)"
    by (cases "sp_classify_venue_state item") (simp_all add: sp_venue_terminal_actions_def terminal_actions_def Let_def)
qed

section \<open>An action concerns one order\<close>

text \<open>The row of an order and its fills are as before.\<close>

definition spares :: "string \<Rightarrow> ('r, 'v) world \<Rightarrow> ('r, 'v) world \<Rightarrow> bool" where
  "spares cid w w' \<longleftrightarrow> find_order cid w' = find_order cid w \<and> fills_of cid (fills w') = fills_of cid (fills w)"

interpretation spared: effect_order "spares cid"
  by unfold_locales (auto simp: spares_def)

lemma spares_order_at: "spares cid w w' \<Longrightarrow> order_at cid st q qs ids w \<Longrightarrow> order_at cid st q qs ids w'"
  by (simp add: spares_def order_at_def)

lemma same_store_spares: "effect same_store Q m \<Longrightarrow> effect (spares cid) Q m"
  by (auto simp: effect_def same_store_def spares_def)

lemma db_update_spares:
  assumes "j \<noteq> cid" and "\<And>r. r_client_order_id (f r) = r_client_order_id r"
  shows "effect (spares cid) any (db_update db j p f)"
proof (rule effectI)
  show "spares cid w (after (db_update db j p f) w)" for w
  proof (cases rule: db_update_cases [of j w db p f])
    case (written r r')
    have "r_client_order_id r' = j" using written assms(2) tbl_find_SomeD [OF written(1)] by simp
    with written assms(1) show ?thesis by (simp add: spares_def find_order_tbl_update [OF written(1)])
  qed (simp_all add: spares_def)
qed simp

lemma hub_publish_spares: "effect (spares cid) any (hub_publish j st sid boid pr qty fl)"
  by (simp add: effect_def hub_publish_def spares_def)

lemma update_status_spares: "j \<noteq> cid \<Longrightarrow> effect (spares cid) any (update_status db j st)"
  unfolding update_status_def fetch_order_def
  by (intro spared.effect_seq spared.effect_option spared.effect_if spared.effect_catch spared.effect_raise
      spared.effect_return spared.effect_gets_any spared.effect_lift_any db_update_spares hub_publish_spares) simp_all

lemma ack_order_spares: "j \<noteq> cid \<Longrightarrow> effect (spares cid) any (ack_order db j boid)"
  unfolding ack_order_def
  by (intro spared.effect_seq spared.effect_if spared.effect_raise db_update_spares hub_publish_spares) simp_all

lemma set_reject_reason_spares: "j \<noteq> cid \<Longrightarrow> effect (spares cid) any (set_reject_reason db j reason)"
  unfolding set_reject_reason_def
  by (intro spared.effect_seq spared.effect_return db_update_spares) simp_all

lemma db_insert_fill_spares: "j \<noteq> cid \<Longrightarrow> effect (spares cid) any (db_insert_fill db j fid pr qty ts')"
  by (auto simp: effect_def db_insert_fill_def spares_def fills_of_def Let_def)

lemma transaction_spares: "effect (spares cid) any m \<Longrightarrow> effect (spares cid) any (transaction m)"
  by (auto simp: effect_def transaction_def spares_def split: prod.splits sum.splits) (metis snd_conv)+

lemma apply_fill_spares:
  assumes "j \<noteq> cid"
  shows "effect (spares cid) any (apply_fill db j fid pr qty ts' tot)"
proof -
  have "effect (spares cid) any (fill_transaction db j fid pr qty ts' tot)"
    unfolding fill_transaction_def Let_def
    by (intro spared.effect_seq spared.effect_if spared.effect_catch spared.effect_raise spared.effect_return
        spared.effect_gets_any db_insert_fill_spares db_update_spares assms) simp_all
  then show ?thesis
    unfolding apply_fill_def case_prod_unfold
    by (intro spared.effect_seq spared.effect_if spared.effect_return transaction_spares hub_publish_spares) simp_all
qed

fun action_order :: "ReconcileAction \<Rightarrow> string" where
  "action_order (Ack cid _) = cid"
| "action_order (Fill cid _ _ _ _) = cid"
| "action_order (Cancel_two_step cid) = cid"
| "action_order (Cancel_confirm cid) = cid"
| "action_order (Expire cid) = cid"
| "action_order (Reject cid _) = cid"
| "action_order (Post_ack_reject cid _) = cid"

lemma execute_spares: "action_order a \<noteq> cid \<Longrightarrow> effect (spares cid) any (execute db a)"
  by (cases a)
    (auto intro!: spared.effect_seq spared.effect_gets_any spared.effect_return ack_order_spares apply_fill_spares
      update_status_spares set_reject_reason_spares)

lemma execute_all_spares:
  "\<forall>a \<in> set actions. action_order a \<noteq> cid \<Longrightarrow> effect (spares cid) any (execute_all db actions)"
proof (induction actions)
  case Nil
  show ?case unfolding execute_all.simps by (rule spared.effect_return) simp
next
  case (Cons a rest)
  then show ?case unfolding execute_all.simps
    by (intro spared.effect_seq spared.effect_catch spared.effect_return execute_spares) simp_all
qed

lemma plan_present_own:
  assumes "plan_present row filled order_no matched st reason pr = Inr acts" and "a \<in> set acts"
  shows "action_order a = r_client_order_id row"
proof -
  have "b \<in> set (terminal_actions row st reason) \<Longrightarrow> action_order b = r_client_order_id row" for b
    by (cases st) (auto simp: terminal_actions_def Let_def split: if_splits)
  with assms show ?thesis
    by (cases pr) (auto simp: plan_present_def Let_def split: if_splits option.splits)
qed

section \<open>The rows of a pass\<close>

text \<open>
  What a pass needs beyond the contract of the planner: without a venue row the plan is never
  refused, and it is about the row's own order.
\<close>

locale reconciler_pass = reconciler +
  assumes absent: "\<exists>acts. plan row filled None now amb = Inr acts \<and> (\<forall>a \<in> set acts. action_order a = r_client_order_id row)"
begin

text \<open>A venue list in which no time lacks its offset and every price can be derived or is known to be missing.\<close>

definition tame :: "'a list \<Rightarrow> bool" where
  "tame items \<longleftrightarrow> (\<forall>i \<in> set items. (\<forall>t. vk_entry_time (key i) \<noteq> Some (Naive t)) \<and> (\<forall>row. \<not> isl (price_for row i)))"

lemma plan_own:
  assumes "plan row filled item now amb = Inr acts" and "a \<in> set acts"
  shows "action_order a = r_client_order_id row"
proof (cases item)
  case None
  then show ?thesis using absent [of row filled now amb] assms by auto
next
  case (Some i)
  then show ?thesis using plan_present_own assms plan_Some by metis
qed

lemma resembles_returns: "tame items \<Longrightarrow> i \<in> set items \<Longrightarrow> \<exists>b. resembles row claimed (key i) = Inr b"
proof -
  assume "tame items" "i \<in> set items"
  then have "vk_entry_time (key i) \<noteq> Some (Naive t)" for t by (simp add: tame_def)
  then have "\<exists>b. (case vk_entry_time (key i) of None \<Rightarrow> Inr False
      | Some t \<Rightarrow> map_sum id (\<lambda>skew. \<bar>skew\<bar> \<le> FUZZY_WINDOW) (minus_aware t (r_created_at row))) = Inr b"
    by (cases "vk_entry_time (key i)"; cases "the (vk_entry_time (key i))") auto
  then show ?thesis by (auto simp: resembles_def)
qed

lemma fuzzy_match_returns:
  assumes "tame items"
  shows "\<exists>m. fuzzy_match key row items claimed = Inr m \<and> (\<forall>i. mo_item m = Some i \<longrightarrow> i \<in> set items)"
proof -
  have "\<exists>cs. candidates (\<lambda>i. resembles row claimed (key i)) xs = Inr cs" if "set xs \<subseteq> set items" for xs
    using that
  proof (induction xs)
    case (Cons x xs)
    then show ?case using resembles_returns [OF assms, of x row claimed] by (auto split: sum.splits)
  qed simp
  then obtain m where "fuzzy_match key row items claimed = Inr m" by (force simp: fuzzy_match_def)
  then show ?thesis by (intro exI [of _ m]) (auto dest: fuzzy_match_item(1))
qed

lemma match_row_returns:
  assumes "tame items"
  obtains item amb claimed' where "match_row key row items claimed now stuck = Inr (item, amb, claimed')"
    and "\<forall>i. item = Some i \<longrightarrow> i \<in> set items"
proof (cases "by_handle key items row")
  case None
  obtain m where "fuzzy_match key row items claimed = Inr m" "\<forall>i. mo_item m = Some i \<longrightarrow> i \<in> set items"
    using fuzzy_match_returns [OF assms] by blast
  with None show thesis
    using that [of "mo_item m" "ambiguous m"] that [of None False claimed]
    by (cases "r_status row = PENDING_NEW \<and> (STUCK_PENDING < now - r_created_at row \<or> \<not> stuck)") (simp_all add: match_row_def)
next
  case (Some i)
  then have "i \<in> set items"
    by (auto simp: by_handle_def index_get_def find_Some_iff split: option.splits if_splits) (metis length_rev nth_mem set_rev)
  with Some show thesis using that [of "Some i" False claimed] by (simp add: match_row_def)
qed

lemma apply_row_returns:
  assumes "tame items"
  shows "\<exists>n claimed' w'. apply_row db key plan row items claimed now stuck w = (Inr (n, claimed'), w')"
proof -
  obtain item amb claimed' where m: "match_row key row items claimed now stuck = Inr (item, amb, claimed')"
    and own: "\<forall>i. item = Some i \<longrightarrow> i \<in> set items" using match_row_returns [OF assms] by blast
  have "\<exists>acts. plan row filled item now amb = Inr acts" for filled
  proof (cases item)
    case None
    then show ?thesis using absent by blast
  next
    case (Some i)
    then have "\<not> isl (price_for row i)" using own assms by (auto simp: tame_def)
    then show ?thesis unfolding Some plan_Some
      by (cases "price_for row i") (auto simp: plan_present_def Let_def)
  qed
  then obtain acts where "plan row (case map_option (\<lambda>r. order_result r (fills w)) (find_order (r_client_order_id row) w) of
      Some r \<Rightarrow> filled_qty r | None \<Rightarrow> 0) item now amb = Inr acts" by blast
  moreover obtain n w' where "execute_all db acts w = (Inr n, w')" using execute_all_ok by blast
  ultimately show ?thesis using m by (simp add: apply_row_def fetch_order_result_def bindE_def getsE_def liftE_def)
qed

lemma apply_row_spares:
  assumes "r_client_order_id row \<noteq> cid"
  shows "effect (spares cid) any (apply_row db key plan row items claimed now stuck)"
  unfolding apply_row_def fetch_order_result_def case_prod_unfold
proof (rule spared.effect_seq [OF spared.effect_lift_any], rule spared.effect_seq [OF spared.effect_gets_any])
  fix x result
  let ?filled = "case result of Some r \<Rightarrow> filled_qty r | None \<Rightarrow> 0"
  show "effect (spares cid) any (bindE (liftE (plan row ?filled (fst x) now (fst (snd x))))
      (\<lambda>actions. bindE (execute_all db actions) (\<lambda>n. returnE (n, snd (snd x)))))"
  proof (rule spared.effect_bind [where Q = "\<lambda>acts. \<forall>a \<in> set acts. action_order a \<noteq> cid"])
    show "effect (spares cid) (\<lambda>acts. \<forall>a \<in> set acts. action_order a \<noteq> cid) (liftE (plan row ?filled (fst x) now (fst (snd x))))"
    proof (rule spared.effect_lift)
      show "\<forall>a \<in> set acts. action_order a \<noteq> cid" if "plan row ?filled (fst x) now (fst (snd x)) = Inr acts" for acts
        using plan_own [OF that] assms by auto
    qed
  qed (intro spared.effect_seq execute_all_spares spared.effect_return, simp_all)
qed

lemma apply_rows_spares:
  assumes "\<forall>row \<in> set rows. r_client_order_id row \<noteq> cid"
  shows "effect (spares cid) any (apply_rows db key plan rows items claimed now)"
  using assms
proof (induction rows arbitrary: claimed)
  case Nil
  show ?case unfolding apply_rows.simps by (rule spared.effect_return) simp
next
  case (Cons row rows)
  then show ?case unfolding apply_rows.simps case_prod_unfold
    by (intro spared.effect_seq apply_row_spares spared.effect_return) simp_all
qed

lemma apply_rows_returns:
  assumes "tame items"
  shows "\<exists>n w'. apply_rows db key plan rows items claimed now w = (Inr n, w')"
proof (induction rows arbitrary: claimed w)
  case (Cons row rows)
  obtain n claimed' w1 where "apply_row db key plan row items claimed now True w = (Inr (n, claimed'), w1)"
    using apply_row_returns [OF assms] by blast
  with Cons [of claimed' w1] show ?case by (auto simp: bindE_def)
qed simp

text \<open>The row of an order that is found by its handle, at its turn and afterwards.\<close>

definition due :: "db_env \<Rightarrow> OrderRow \<Rightarrow> 'a list \<Rightarrow> 'a \<Rightarrow> int list \<Rightarrow> ('r, 'v) world \<Rightarrow> bool" where
  "due db r items i qs w \<longleftrightarrow>
     find_order (r_client_order_id r) w = Some r \<and> map f_quantity (fills_of (r_client_order_id r) (fills w)) = qs \<and>
     by_handle key items r = Some i \<and> r_status r \<in> {PENDING_NEW, NEW, PARTIALLY_FILLED} \<and>
     (sum_list qs < matched_of i \<longrightarrow> (\<exists>d. price_for r i = Inr (Some d)) \<and>
        venue_fill_id (vk_order_no (key i)) (matched_of i) \<notin>
          set (map f_broker_fill_id (fills_of (r_client_order_id r) (fills w))))"

definition settled :: "OrderRow \<Rightarrow> 'a \<Rightarrow> int list \<Rightarrow> ('r, 'v) world \<Rightarrow> bool" where
  "settled r i qs w \<longleftrightarrow>
     (\<exists>ids. order_at (r_client_order_id r)
        (venue_target (r_status r) (r_quantity r) (sum_list qs) (matched_of i) (state_of i))
        (r_price r, r_quantity r) (venue_fills (r_status r) qs (matched_of i) (state_of i)) ids w)"

lemma due_spares: "spares (r_client_order_id r) w w' \<Longrightarrow> due db r items i qs w \<Longrightarrow> due db r items i qs w'"
  by (simp add: due_def spares_def)

lemma settled_spares: "spares (r_client_order_id r) w w' \<Longrightarrow> settled r i qs w \<Longrightarrow> settled r i qs w'"
  by (auto simp: settled_def intro: spares_order_at)

lemma due_row:
  assumes "open_schema db" and "due db r items i qs w"
  shows "\<exists>n w'. apply_row db key plan r items claimed now True w = (Inr (n, claimed), w') \<and> settled r i qs w'"
proof -
  have m: "match_row key r items claimed now True = Inr (Some i, False, claimed)" using assms(2) by (simp add: due_def match_row_def)
  obtain d where d: "sum_list qs < matched_of i \<Longrightarrow> price_for r i = Inr (Some d)"
    using assms(2) by (auto simp: due_def)
  obtain n w' ids where "apply_row db key plan r items claimed now True w = (Inr (n, claimed), w')"
    "order_at (r_client_order_id r) (venue_target (r_status r) (r_quantity r) (sum_list qs) (matched_of i) (state_of i))
       (r_price r, r_quantity r) (venue_fills (r_status r) qs (matched_of i) (state_of i)) ids w'"
  proof (rule row_converges [OF assms(1) _ _ m _ d])
    show "find_order (r_client_order_id r) w = Some r" "map f_quantity (fills_of (r_client_order_id r) (fills w)) = qs"
      "r_status r \<in> {PENDING_NEW, NEW, PARTIALLY_FILLED}"
      using assms(2) unfolding due_def by blast+
    show "venue_fill_id (vk_order_no (key i)) (matched_of i) \<notin> set (map f_broker_fill_id (fills_of (r_client_order_id r) (fills w)))"
      if "sum_list qs < matched_of i" using assms(2) that unfolding due_def by blast
  qed
  then show ?thesis by (auto simp: settled_def)
qed

lemma rows_settle:
  assumes schema: "open_schema db" and tame: "tame items" and "distinct (map r_client_order_id rows)" and "r \<in> set rows"
    and "due db r items i qs w"
  shows "\<exists>n w'. apply_rows db key plan rows items claimed now w = (Inr n, w') \<and> settled r i qs w'"
  using assms(3-5)
proof (induction rows arbitrary: claimed w)
  case (Cons row rows)
  show ?case
  proof (cases "row = r")
    case True
    obtain n w1 where one: "apply_row db key plan r items claimed now True w = (Inr (n, claimed), w1)" "settled r i qs w1"
      using due_row [OF schema Cons.prems(3)] by blast
    obtain m w2 where rest: "apply_rows db key plan rows items claimed now w1 = (Inr m, w2)"
      using apply_rows_returns [OF tame] by blast
    have "r_client_order_id r \<notin> r_client_order_id ` set rows" using Cons.prems(1) True by simp
    then have "\<forall>x \<in> set rows. r_client_order_id x \<noteq> r_client_order_id r" by (metis image_eqI)
    from effectD [OF apply_rows_spares [OF this], of w1 db items claimed now] rest
    have "settled r i qs w2" using settled_spares one(2) by simp
    with one(1) rest True show ?thesis by (auto simp: bindE_def)
  next
    case False
    then have here: "r \<in> set rows" using Cons.prems(2) by simp
    then have other: "r_client_order_id row \<noteq> r_client_order_id r" using Cons.prems(1) by (metis distinct.simps(2) image_eqI list.map(2) set_map)
    obtain n claimed' w1 where one: "apply_row db key plan row items claimed now True w = (Inr (n, claimed'), w1)"
      using apply_row_returns [OF tame] by blast
    from effectD [OF apply_row_spares [OF other], of w db items claimed now True] one
    have "due db r items i qs w1" using due_spares Cons.prems(3) by simp
    from Cons.IH [OF _ here this, of claimed'] Cons.prems(1) one show ?thesis by (auto simp: bindE_def)
  qed
qed simp

section \<open>The groups of a pass\<close>

text \<open>
  A group is read and its rows applied, or passed over; either way the pass goes on.
\<close>

definition read_group :: "(exn \<Rightarrow> bool) \<Rightarrow> ('k \<Rightarrow> ('r, 'v, 'a list) eng) \<Rightarrow> ('k \<Rightarrow> 'a list) \<Rightarrow> bool" where
  "read_group skip fetch bk \<longleftrightarrow>
     (\<forall>g. tame (bk g) \<and> effect same_store any (fetch g) \<and>
        (\<forall>u. outcome (fetch g) u = Inr (bk g) \<or> (\<exists>e. outcome (fetch g) u = Inl e \<and> skip e)))"

lemma group_steps:
  assumes "read_group skip fetch bk"
  obtains (applied) w1 n w2 where "fetch g w = (Inr (bk g), w1)" and "same_store w w1"
      and "apply_rows db key plan rows (bk g) (handles rows) now w1 = (Inr n, w2)"
      and "\<And>groups. reconcile_groups db key plan skip fetch now ((g, rows) # groups) w =
             bindE (reconcile_groups db key plan skip fetch now groups) (\<lambda>m. returnE (n + m)) w2"
  | (skipped) e w1 where "fetch g w = (Inl e, w1)" and "same_store w w1"
      and "\<And>groups. reconcile_groups db key plan skip fetch now ((g, rows) # groups) w =
             bindE (reconcile_groups db key plan skip fetch now groups) returnE w1"
proof -
  obtain x w1 where f: "fetch g w = (x, w1)" by fastforce
  have st: "same_store w w1" using effectD [of same_store any "fetch g" w] assms f by (simp add: read_group_def)
  have "outcome (fetch g) w = Inr (bk g) \<or> (\<exists>e. outcome (fetch g) w = Inl e \<and> skip e)"
    using assms unfolding read_group_def by blast
  then consider "x = Inr (bk g)" | e where "x = Inl e" "skip e" using f by auto
  then show thesis
  proof cases
    case 1
    have "tame (bk g)" using assms by (simp add: read_group_def)
    from apply_rows_returns [OF this] obtain n w2 where
      rows: "apply_rows db key plan rows (bk g) (handles rows) now w1 = (Inr n, w2)" by blast
    show thesis using applied [OF _ st rows] f 1 rows by (simp add: bindE_def catchE_def)
  next
    case 2
    have "bindE m (\<lambda>n. returnE (0 + n)) u = bindE m returnE u" for m :: "('r, 'v, nat) eng" and u by simp
    then show thesis using skipped [OF _ st] f 2 by (simp add: bindE_Inr bindE_Inl catchE_def)
  qed
qed

lemma groups_return:
  assumes "read_group skip fetch bk"
  shows "\<exists>n w'. reconcile_groups db key plan skip fetch now groups w = (Inr n, w')"
proof (induction groups arbitrary: w)
  case (Cons grp groups)
  obtain g rows where grp: "grp = (g, rows)" by fastforce
  show ?case
  proof (cases rule: group_steps [OF assms, of g w db rows now, case_names applied skipped])
    case (applied w1 n w2)
    then show ?thesis using Cons [of w2] by (auto simp: grp bindE_def)
  next
    case (skipped e w1)
    then show ?thesis using Cons [of w1] by (auto simp: grp bindE_def)
  qed
qed simp

lemma groups_spare:
  assumes "read_group skip fetch bk" and "\<forall>(g, rows) \<in> set groups. \<forall>row \<in> set rows. r_client_order_id row \<noteq> cid"
  shows "effect (spares cid) any (reconcile_groups db key plan skip fetch now groups)"
  using assms(2)
proof (induction groups)
  case Nil
  show ?case unfolding reconcile_groups.simps by (rule spared.effect_return) simp
next
  case (Cons grp groups)
  obtain g rows where grp: "grp = (g, rows)" by fastforce
  have "effect same_store any (fetch g)" using assms(1) by (simp add: read_group_def)
  note fetch = same_store_spares [OF this, of cid]
  have rows: "effect (spares cid) any (apply_rows db key plan rows items claimed now)" for items claimed
    using Cons.prems grp by (intro apply_rows_spares) simp
  show ?case unfolding grp reconcile_groups.simps
    by (intro spared.effect_seq spared.effect_catch spared.effect_option spared.effect_return rows fetch Cons.IH)
      (use Cons.prems in simp_all)
qed

lemma groups_settle:
  assumes schema: "open_schema db" and rd: "read_group skip fetch bk" and read: "\<And>u. outcome (fetch g0) u = Inr (bk g0)"
    and own: "\<forall>(g, rows) \<in> set groups. distinct (map r_client_order_id rows) \<and>
      (\<forall>row \<in> set rows. r_client_order_id row = r_client_order_id r \<longrightarrow> row = r \<and> g = g0)"
    and once: "distinct (map fst groups)"
    and due: "(g0, rows0) \<in> set groups" "r \<in> set rows0" "due db r (bk g0) i qs w"
  shows "\<exists>n w'. reconcile_groups db key plan skip fetch now groups w = (Inr n, w') \<and> settled r i qs w'"
  using own once due
proof (induction groups arbitrary: w)
  case (Cons grp groups)
  obtain g rows where grp: "grp = (g, rows)" by fastforce
  have spare: "spares (r_client_order_id r) w w1" if "same_store w w1" for w1
    using that by (simp add: same_store_def spares_def)
  show ?case
  proof (cases "g = g0")
    case True
    then have rows: "rows = rows0" using Cons.prems(2,3) grp by force
    have tm: "tame (bk g0)" using rd by (simp add: read_group_def)
    show ?thesis
    proof (cases rule: group_steps [OF rd, of g w db rows now, case_names applied skipped])
      case (applied w1 n w2)
      have "due db r (bk g0) i qs w1" using due_spares [OF spare [OF applied(2)]] Cons.prems(5) .
      from rows_settle [OF schema tm _ _ this, of rows "handles rows" now]
      have "settled r i qs w2"
        using Cons.prems(1,4) applied(3) True rows grp by auto
      moreover obtain m w3 where rest: "reconcile_groups db key plan skip fetch now groups w2 = (Inr m, w3)"
        using groups_return [OF rd] by blast
      moreover have "\<forall>(h, rs) \<in> set groups. \<forall>row \<in> set rs. r_client_order_id row \<noteq> r_client_order_id r"
      proof -
        have "h \<noteq> g0" if "(h, rs) \<in> set groups" for h rs using Cons.prems(2) that True grp by force
        then show ?thesis using Cons.prems(1) by fastforce
      qed
      from effectD [OF groups_spare [OF rd this], of w2 db now] rest have "spares (r_client_order_id r) w2 w3" by simp
      ultimately show ?thesis using applied(4) settled_spares by (auto simp: grp bindE_def)
    next
      case (skipped e w1)
      then show ?thesis using read [of w] True by simp
    qed
  next
    case False
    then have rest: "(g0, rows0) \<in> set groups" using Cons.prems(3) grp by auto
    have other: "\<forall>row \<in> set rows. r_client_order_id row \<noteq> r_client_order_id r" using Cons.prems(1) grp False by auto
    note IH = Cons.IH [OF _ _ rest Cons.prems(4)]
    show ?thesis
    proof (cases rule: group_steps [OF rd, of g w db rows now, case_names applied skipped])
      case (applied w1 n w2)
      have "spares (r_client_order_id r) w1 w2"
        using effectD [OF apply_rows_spares [OF other], of w1 db "bk g" "handles rows" now] applied(3) by simp
      then have "due db r (bk g0) i qs w2" using due_spares spare [OF applied(2)] Cons.prems(5) by blast
      from IH [OF _ _ this] Cons.prems(1,2) applied(4) show ?thesis by (auto simp: grp bindE_def)
    next
      case (skipped e w1)
      have "due db r (bk g0) i qs w1" using due_spares [OF spare [OF skipped(2)]] Cons.prems(5) .
      from IH [OF _ _ this] Cons.prems(1,2) skipped(3) show ?thesis by (auto simp: grp bindE_def)
    qed
  qed
qed simp

end

text \<open>The groups are a partition of the rows.\<close>

lemma first_seen_set: "set (first_seen ks) = set ks" "distinct (first_seen ks)"
  by (induction ks) auto

lemma group_rows_own:
  assumes "distinct (map r_client_order_id rows)" and "r \<in> set rows"
  shows "(k r, filter (\<lambda>x. k x = k r) rows) \<in> set (group_rows k rows)" and "distinct (map fst (group_rows k rows))"
    and "\<forall>(g, rs) \<in> set (group_rows k rows). distinct (map r_client_order_id rs) \<and>
      (\<forall>row \<in> set rs. r_client_order_id row = r_client_order_id r \<longrightarrow> row = r \<and> g = k r)"
proof -
  show "(k r, filter (\<lambda>x. k x = k r) rows) \<in> set (group_rows k rows)"
    using assms(2) by (auto simp: group_rows_def first_seen_set)
  show "distinct (map fst (group_rows k rows))" by (simp add: group_rows_def first_seen_set o_def)
  have "row = r" if "row \<in> set rows" "r_client_order_id row = r_client_order_id r" for row
    using assms that by (auto simp: distinct_map dest: inj_onD)
  then show "\<forall>(g, rs) \<in> set (group_rows k rows). distinct (map r_client_order_id rs) \<and>
      (\<forall>row \<in> set rs. r_client_order_id row = r_client_order_id r \<longrightarrow> row = r \<and> g = k r)"
    using assms(1) by (auto simp: group_rows_def distinct_map_filter)
qed

section \<open>Both brokers\<close>

interpretation sp_pass: reconciler_pass sp_key sp_plan_actions vr_matched sp_classify_venue_state sp_reject_text sp_fill_price_for
  by unfold_locales (auto simp: sp_plan_actions_def sp_plan_absent_def Let_def)

interpretation lib_pass: reconciler_pass lib_key lib_plan_actions vi_matched classify_venue_state lib_reject_text lib_fill_price_for
  by unfold_locales (auto simp: lib_plan_actions_def lib_plan_absent_def Let_def)

lemma rows_of_pass:
  assumes "store_wf w" and "find_order cid w = Some r" and "r_broker r = b" and "r_status r \<in> {PENDING_NEW, NEW, PARTIALLY_FILLED}"
  obtains rows where "fetch_orders_for_reconcile b False w = (Inr rows, w)" and "rows \<noteq> []" and "r \<in> set rows"
    and "distinct (map r_client_order_id rows)"
proof -
  let ?p = "\<lambda>x. r_broker x = b \<and> r_status x \<in> set RECONCILE_STATES"
  let ?rows = "sort_key r_created_at (filter ?p (orders w))"
  have "r \<in> set (orders w)" using tbl_find_SomeD [OF assms(2)] by simp
  then have here: "r \<in> set ?rows" using assms(3,4) by (auto simp: RECONCILE_STATES_def)
  have "distinct (map r_client_order_id (filter ?p (orders w)))"
    using assms(1) by (simp add: store_wf_def tbl_wf_def distinct_map_filter)
  then have dist: "distinct (map r_client_order_id ?rows)"
    by (simp add: distinct_map)
  have "?rows \<noteq> []" using here by (cases ?rows) simp_all
  then show thesis using that [OF _ _ here dist] by (simp add: fetch_orders_for_reconcile_def)
qed


text \<open>An order the venue has matched in part, beside one nobody has heard of.\<close>

definition demo_part_book :: json where
  "demo_part_book = JObj [(''orders'', JList [JObj [(''orderNo'', JStr ''N1''), (''qty'', JInt 100), (''matchQty'', JInt 40)]])]"

definition demo_part_row :: VenueOrderRow where
  "demo_part_row = demo_set_row\<lparr>vr_order_no_fis := [], vr_volume := 100, vr_matched := 40\<rparr>"

definition demo_pass_world :: "(unit, unit) world" where
  "demo_pass_world = demo_world [demo_sp_row ''c2'' PENDING_NEW, (demo_sp_row ''c1'' NEW)\<lparr>r_broker_order_id := Some ''N1''\<rparr>] []"


text \<open>The same for Liberator, which groups by account; here a price may also fail to be derived, and must not.\<close>

theorem lib_pass_converges:
  assumes "open_schema db" and "store_wf w"
    and "\<And>a u. outcome (lib_fetch_venue_orders la a) u = Inr (bk a) \<or>
      (\<exists>e. outcome (lib_fetch_venue_orders la a) u = Inl e \<and> is_lib_transport_error e)"
    and "\<And>a i t. i \<in> set (bk a) \<Longrightarrow> vk_entry_time (lib_key i) \<noteq> Some (Naive t)"
    and "\<And>a i row. i \<in> set (bk a) \<Longrightarrow> \<not> isl (lib_fill_price_for row i)"
    and "find_order cid w = Some r" and "r_broker r = LIBERATOR" and "r_status r \<in> {PENDING_NEW, NEW, PARTIALLY_FILLED}"
    and "\<And>u. outcome (lib_fetch_venue_orders la (r_account r)) u = Inr (bk (r_account r))"
    and "by_handle lib_key (bk (r_account r)) r = Some i"
    and "map f_quantity (fills_of cid (fills w)) = qs"
    and "sum_list qs < vi_matched i \<Longrightarrow> lib_fill_price_for r i = Inr (Some d)"
    and "sum_list qs < vi_matched i \<Longrightarrow>
      venue_fill_id (vi_order_no i) (vi_matched i) \<notin> set (map f_broker_fill_id (fills_of cid (fills w)))"
  shows "\<exists>n w' r'. lib_reconcile_once la db w = (Inr n, w') \<and> find_order cid w' = Some r' \<and>
    r_status r' = venue_target (r_status r) (r_quantity r) (sum_list qs) (vi_matched i) (classify_venue_state i) \<and>
    map f_quantity (fills_of cid (fills w')) = venue_fills (r_status r) qs (vi_matched i) (classify_venue_state i)"
proof -
  have cid: "r_client_order_id r = cid" using tbl_find_SomeD [OF assms(6)] by simp
  obtain rows where rows: "fetch_orders_for_reconcile LIBERATOR False w = (Inr rows, w)" "rows \<noteq> []" "r \<in> set rows"
    "distinct (map r_client_order_id rows)" using rows_of_pass [OF assms(2,6,7,8)] .
  note groups = group_rows_own [OF rows(4,3), of r_account]
  have "lib_pass.tame (bk a)" for a using assms(4,5) by (simp add: lib_pass.tame_def)
  then have rd: "lib_pass.read_group is_lib_transport_error (lib_fetch_venue_orders la) bk"
    using assms(3) lib_fetch_frame [of la] by (simp add: lib_pass.read_group_def)
  have due: "lib_pass.due db r (bk (r_account r)) i qs w"
    using assms(6,8,10-13) by (auto simp: lib_pass.due_def cid lib_key_def)
  obtain n w' where run: "reconcile_groups db lib_key lib_plan_actions is_lib_transport_error (lib_fetch_venue_orders la) (clock w)
      (group_rows r_account rows) w = (Inr n, w')"
    and st: "lib_pass.settled r i qs w'"
    using lib_pass.groups_settle [OF assms(1) rd assms(9) groups(3,2,1) _ due, of "clock w"] rows(3) by auto
  have "lib_reconcile_once la db w = (Inr n, w')"
    using rows(1,2) run by (simp add: lib_reconcile_once_def bindE_Inr)
  then show ?thesis using st by (auto simp: lib_pass.settled_def order_at_def cid)
qed

section \<open>The worker loops\<close>

text \<open>
  A worker runs its pass, swallows what it raises and sleeps, until it is cancelled: the first
  \<open>n\<close> turns of the loop.
\<close>

fun worker_turns :: "('r, 'v) pause \<Rightarrow> int \<Rightarrow> ('r, 'v, 'a) eng \<Rightarrow> nat \<Rightarrow> ('r, 'v, unit) eng" where
  "worker_turns sleep interval pass 0 = returnE ()"
| "worker_turns sleep interval pass (Suc n) =
     bindE (catchE (\<lambda>_. True) (bindE pass (\<lambda>_. returnE ())) (\<lambda>_. returnE ())) (\<lambda>_.
     bindE (modifyE (sleep interval)) (\<lambda>_. worker_turns sleep interval pass n))"

definition lib_run :: "('r, 'v) LiberatorAdapter \<Rightarrow> db_env \<Rightarrow> ('r, 'v) pause \<Rightarrow> int \<Rightarrow> nat \<Rightarrow> ('r, 'v, unit) eng" where
  "lib_run la db sleep interval = worker_turns sleep interval (lib_reconcile_once la db)"

definition sp_run :: "('r, 'v) StreamingProAdapter \<Rightarrow> db_env \<Rightarrow> ('r, 'v) pause \<Rightarrow> int \<Rightarrow> nat \<Rightarrow> ('r, 'v, unit) eng" where
  "sp_run sa db sleep interval = worker_turns sleep interval (sp_reconcile_once sa db)"

definition lib_heartbeat_loop ::
  "('r, 'v) LiberatorAdapter \<Rightarrow> ('r, 'v, unit) eng \<Rightarrow> ('r, 'v) pause \<Rightarrow> int \<Rightarrow> nat \<Rightarrow> ('r, 'v, unit) eng" where
  "lib_heartbeat_loop la on_trip sleep interval = worker_turns sleep interval (lib_heartbeat_pass la on_trip)"

definition sp_heartbeat_loop ::
  "('r, 'v) StreamingProAdapter \<Rightarrow> ('r, 'v, unit) eng \<Rightarrow> ('r, 'v) pause \<Rightarrow> int \<Rightarrow> nat \<Rightarrow> ('r, 'v, unit) eng" where
  "sp_heartbeat_loop sa on_trip sleep interval = worker_turns sleep interval (sp_heartbeat_pass sa on_trip)"

text \<open>A worker never dies of an exception: its turns are its passes and sleeps, one after the other.\<close>

lemma worker_never_dies:
  "worker_turns sleep interval pass n w = (Inr (), ((\<lambda>u. sleep interval (after pass u)) ^^ n) w)"
proof (induction n arbitrary: w)
  case (Suc n)
  obtain x u where p: "pass w = (x, u)" by fastforce
  then have "catchE (\<lambda>_. True) (bindE pass (\<lambda>_. returnE ())) (\<lambda>_. returnE ()) w = (Inr (), u)"
    by (cases x) (simp_all add: catchE_def bindE_def)
  then show ?case using Suc [of "sleep interval u"] p by (simp add: bindE_Inr funpow_Suc_right del: funpow.simps)
qed simp

lemma worker_evolves:
  assumes "effect evolves any pass" and "\<And>d w. evolves w (sleep d w)"
  shows "effect evolves any (worker_turns sleep interval pass n)"
proof (induction n)
  case 0
  show ?case unfolding worker_turns.simps by (rule store.effect_return) simp
next
  case (Suc n)
  show ?case unfolding worker_turns.simps
    by (intro store.effect_seq store.effect_catch store.effect_return store.effect_modify assms Suc) simp_all
qed

lemma reconcilers_evolve:
  assumes "guard_frozen db" and "\<And>d w. evolves w (sleep d w)"
  shows "effect evolves any (lib_run la db sleep interval n)" "effect evolves any (sp_run sa db sleep interval n)"
  unfolding lib_run_def sp_run_def
  by (rule worker_evolves, rule lib_reconcile_once_evolves sp_reconcile_once_evolves, rule assms, rule assms)+

end
