(* ===== verification/Spec2Isabelle.thy ===== *)
theory Spec2Isabelle
  imports RouterBehaviour SubmitRace FeeObservations FeeDoc App Routes StreamText ReconcilePass
begin

text \<open>
  A verification development of the quant execution engine
  (\<open>src/src/quant_execution_engine\<close>), the service that takes a strategy's orders over HTTP,
  checks them, records them durably and routes them to a simulated venue or to one of two
  broker bridges (Liberator, Streaming Pro), and that keeps its records in step with what the
  venues report afterwards.

  \<^bold>\<open>How the program works.\<close> A request reaches a route of \<open>api/routes.py\<close> through the key and mode
  guards of \<open>api/deps.py\<close>. A submit runs the gates of \<open>core/\<close> (kill switch, risk caps, price
  band, stage ladder, real-routing authority), takes the single-flight lock, writes the order
  in state PENDING_NEW, places it with the adapter the stage resolves and applies the
  acknowledgement and its fills through \<open>db/repositories.py\<close>. Cancels, amends and the
  kill-switch sweep work on the stored orders. Every status change passes the frozen graph of
  \<open>core/state_machine.py\<close>, once in the engine and once in the database trigger, and is published
  to the event hub. Two workers per broker run beside the requests: the reconciler reads the
  venue's order list and repairs what the store missed, the heartbeat feeds the circuit breaker
  and sweeps the broker's orders when it trips. Beside them a websocket feed fills the book cache
  that prices simulated fills and is streamed to clients, and a fee schedule with its
  observations is kept as reference data. The lifespan of \<open>api/main.py\<close> brings all of it up and
  down.

  \<^bold>\<open>How it is modelled.\<close> A coroutine is a function from the state before to an outcome (\<open>Inl\<close> an
  exception, \<open>Inr\<close> a result) and the state after, \<open>Prelude.prog\<close>; what a coroutine wrote before
  it raised stays written. The state is the record \<open>Store.world\<close>: both tables, the event hub, the
  book cache, the clock, breakers, buckets and session caches of the two adapters, and the two
  states that belong to somebody else, Redis (\<open>'r\<close>) and everything beyond the bridges (\<open>'v\<close>).
  Coroutines interleave at awaits. The sequential theorems make the interleaving explicit where
  the code waits (\<open>pause\<close> in the recovery burst and in the wait for a concurrent submit, an
  arbitrary change of the world within the store's promise) and between requests and worker
  passes (\<open>Engine.run\<close>); \<open>Coroutines\<close> and \<open>SubmitRace\<close> model the router's handlers as resumable
  coroutines and interleave any number of them at every await. Generators that stream to clients
  are step functions resumed between publications.

  \<^bold>\<open>Theories and sources\<close>, in the order they build on each other:
  \<^item> \<open>Prelude\<close>: programs, the calculus of effects (\<open>effect\<close>, locale \<open>effect_order\<close>) with which
    a fact about every repository function becomes a fact about every handler.
  \<^item> \<open>Decimals\<close>, \<open>Pyvalues\<close>, \<open>Digest\<close>: Python's \<open>Decimal\<close> with its rounding, decoded JSON,
    texts and UUIDs, SHA-256 at 32 bits.
  \<^item> \<open>Contracts\<close>: \<open>contracts/enums.py\<close>, \<open>errors.py\<close>, \<open>orders.py\<close>, \<open>capabilities.py\<close>.
  \<^item> \<open>OrderStateMachine\<close>: \<open>core/state_machine.py\<close> and the step relation it promises.
  \<^item> \<open>EventHub\<close>: \<open>events/hub.py\<close>, \<open>events/models.py\<close>.
  \<^item> \<open>Session\<close>: \<open>adapters/session.py\<close>, \<open>adapters/rate_limit.py\<close>.
  \<^item> \<open>OrderBook\<close>: \<open>order_book/models.py\<close>, \<open>router.py\<close>, \<open>service.py\<close>.
  \<^item> \<open>Store\<close>, \<open>OrderStanding\<close>: \<open>db/models.py\<close>, \<open>db/repositories.py\<close>; the promise \<open>evolves\<close> of the
    tables, and Hoare-style steps for one order.
  \<^item> \<open>Config\<close>, \<open>MarketData\<close>, \<open>Gates\<close>: \<open>config/settings.py\<close>, \<open>cache/\<close>,
    \<open>adapters/market_data.py\<close> and the five gates of \<open>core/\<close>.
  \<^item> \<open>AdapterBase\<close>, \<open>SimAdapter\<close>: \<open>adapters/base.py\<close> with the interface as locales, \<open>adapters/sim.py\<close>
    and \<open>adapters/sim_pricing.py\<close>.
  \<^item> \<open>HandleRecovery\<close>, \<open>Router\<close>, \<open>RouterSafety\<close>, \<open>RouterBehaviour\<close>: \<open>core/handle_recovery.py\<close>,
    \<open>core/router.py\<close>, what its operations can do and what they achieve.
  \<^item> \<open>VenueWire\<close>, \<open>Liberator\<close>, \<open>StreamingPro\<close>: what the two packages share, then the wire models,
    mapping, transport and adapter of \<open>adapters/liberator/\<close> and \<open>adapters/streaming_pro/\<close>.
  \<^item> \<open>Reconcile\<close>, \<open>LiberatorReconciler\<close>, \<open>StreamingProReconciler\<close>, \<open>ReconcilePass\<close>:
    \<open>reconciler.py\<close>, \<open>heartbeat.py\<close>, \<open>runtime.py\<close> of both; the common steps are stated once over
    the fields the code reads (locales \<open>reconciler\<close>, \<open>reconciler_pass\<close>) and interpreted for each
    broker; Streaming Pro's copies of them are shown to agree; the worker loops.
  \<^item> \<open>Coroutines\<close>, \<open>SubmitRace\<close>: suspended programs and their scheduler, the handlers of
    \<open>core/router.py\<close> with every await a point of interleaving.
  \<^item> \<open>Engine\<close>: the broker part of \<open>api/main.py\<close>'s lifespan, \<open>get_router_dep\<close>, the event loop.
  \<^item> \<open>ApiGuards\<close>: \<open>api/deps.py\<close>, \<open>api/error_handlers.py\<close>.
  \<^item> \<open>OrderStream\<close>, \<open>BookStream\<close>, \<open>StreamText\<close>: the book snapshot and the two streams of
    \<open>api/streams.py\<close>, the subscriptions of \<open>order_book/service.py\<close>, the text of the frames and of
    the export lines of \<open>api/audit.py\<close> with \<open>json.dumps\<close>.
  \<^item> \<open>History\<close>: the account-history page with its cursor (\<open>api/routes.py\<close>, \<open>core/router.py\<close>,
    \<open>db/repositories.py\<close>) and the audit reads of \<open>api/audit.py\<close>.
  \<^item> \<open>Api\<close>, \<open>Routes\<close>: the routes of \<open>api/routes.py\<close>, \<open>api/streams.py\<close>, \<open>api/audit.py\<close> behind their
    guards; the table of routes and the gateway's alias of \<open>api/main.py\<close>.
  \<^item> \<open>BookFeed\<close>: \<open>order_book/providers/\<close> (frames, rooms, sessions, reconnects) and
    \<open>order_book/runtime.py\<close>.
  \<^item> \<open>Calendar\<close>, \<open>FeeSchedule\<close>, \<open>FeeObservations\<close>, \<open>FeeDoc\<close>: dates, \<open>reference/fee_schedule.py\<close>,
    \<open>db/fee_observations.py\<close> and \<open>scripts/generate_fee_doc.py\<close>.
  \<^item> \<open>App\<close>: the singletons of \<open>db/postgres.py\<close>, \<open>cache/redis_client.py\<close>, \<open>events/hub.py\<close>,
    \<open>adapters/market_data.py\<close>, \<open>adapters/sim_pricing.py\<close> and the whole lifespan of \<open>api/main.py\<close>.

  \<^bold>\<open>What the theorems show.\<close>
  \<^item> The process: under any interleaving of requests, reconciler passes and heartbeats an order
    keeps its identity, moves along frozen edges only and loses no fill (\<open>Engine\<close>), from the
    start-up of the application to its shut-down (\<open>App\<close>); when it starts, what is up then and what
    a shut-down leaves; who may call which route and under which path (\<open>Api\<close>, \<open>Routes\<close>).
  \<^item> Concurrency: however submits and amends interleave at their awaits, an id is placed at most
    once (\<open>SubmitRace\<close>); run alone, each coroutine is the sequential handler.
  \<^item> Routing: a venue changes only on the authorised path, the kill switch and the gates come
    before every write, a known id is never placed twice (\<open>RouterSafety\<close>, \<open>RouterBehaviour\<close>,
    \<open>Gates\<close>).
  \<^item> Outcomes: what a submit on the sim route, a cancel in every state, an amend of either kind
    and the mass-cancel sweep achieve, on every answer of the venue.
  \<^item> Reconciliation: one row, and one whole pass over many rows and accounts, brings an order to
    what the venue row says and a second plans nothing; what may be inferred from absence; what the single-order resolver's answers mean;
    when the trip hook fires.
  \<^item> Wire formats: an order written to Liberator's wire and echoed is read back; what every
    answer of a placement commits to; a Streaming Pro cancel names the venue's own number.
  \<^item> Reads: a stream client gets the matching events in order and exactly, unless a resync or a
    gap was announced, and a reader of event streams makes out exactly these from the text; a
    book client gets the books in order up to the newest, and how long the feed serves its
    symbol; the pages of the account history add up to the whole.
  \<^item> The feed: what a frame can cause, that every emitted book is sound, that an accepted session
    serves every subscribed symbol after any outage short of 1024 refusals, and that a longer one
    ends the reader.
  \<^item> Fees: which entry is in force on a day, that an adoption changes nothing before it, and that an
    observation is recorded once with its verdict.
  \<^item> Building blocks: the state graph, the store's atomic and idempotent fills, the hub's
    accounting of losses and replay, the book cache, reference counts and failover, the breaker,
    the token bucket, termination and classification of the recovery burst.

  \<^bold>\<open>Bounds and fuel.\<close> The recovery burst (\<open>recover_loop\<close>) ends by the clock and is given fuel; it
  is proved to return for every fuel above the number of polls its deadline and minimum allow, so
  the fuel of a router only has to exceed that number. The wait for a concurrent submit is
  counted by the code itself. Every other loop is structural recursion. The token bucket's clock
  and token count are exact rationals where the code has binary floats; \<open>int(float(text))\<close> of
  Streaming Pro's volumes is computed with the rounding of a double.

  \<^bold>\<open>Parameters\<close>, for code outside the repository: the database schema (\<open>db_env\<close>: trigger, CHECKs,
  \<open>updated_at\<close>), of which \<open>guard_frozen\<close> says the trigger admits no edge outside the frozen graph;
  the Redis server (\<open>redis_client\<close>); the HTTP client and JSON decoder of the bridges and of the
  market-data service; the validation library's decoding of one JSON object or value
  (\<open>lib_schema\<close>, \<open>sp_coercions\<close>) and the \<open>datetime\<close> parsers; the source of single-flight tokens;
  what other coroutines do while one waits (\<open>pause\<close>); the collation of the database, the texts of
  timestamps and the trigger-written events table of the history and audit reads; the TOML reader
  and the constraints of the observations table; the network of the book feed (\<open>feed_net\<close>: the
  sessions it accepts and the packets it takes); what the database, Redis and the HTTP clients
  answer when they are opened and closed (\<open>boot\<close>); how the web framework matches a template
  against a path (\<open>path_matching\<close>).

  \<^bold>\<open>Not modelled.\<close> The bodies of the plain JSON responses beyond the values they carry, HTTP
  headers and the decoding of requests, which are the web framework's; TLS contexts and the HTTP
  clients that are opened lazily; logging, whose messages carry no state; the message texts of
  rejections, of which the code, the order and what the code branches on are kept.
\<close>

end
